(* ===== verification/Uwvm_Prelude.thy ===== *)
theory Uwvm_Prelude
  imports Main "HOL-Library.Word" "HOL-Library.Sublist"
begin

text \<open>
  Shared vocabulary of the development: machine integers and bytes, the outcome of a C++
  routine that may throw or run into undefined behaviour, the \<^emph>\<open>unchecked\<close> vector accessors
  of \<^verbatim>\<open>uwvm2::utils::container::vector\<close>, and the list facts the component theories share.

  Conventions.
  \<^item> A pointer \<open>p\<close> into an input range that ends at \<open>end\<close> is represented by the byte list of
    the half-open range \<open>[p, end)\<close>; \<open>p == end\<close> is the empty list, \<open>++p\<close> is the tail.
  \<^item> A vector that the code only uses as a stack is kept with its back element first, so
    \<open>push_back\<close> is Cons and \<open>v[size - 1 - i]\<close> is \<open>v ! i\<close>.
  \<^item> A throwing routine returns a sum: \<open>Inr\<close> the value, \<open>Inl (Throw e)\<close> the thrown error, and
    \<open>Inl UB\<close> where the C++ would have undefined behaviour (an unchecked access out of range).
\<close>

unbundle bit_operations_syntax

section \<open>Collections of rewrite rules\<close>

named_theorems res_simps
named_theorems vec_simps

section \<open>Machine types\<close>

type_synonym byte = "8 word"
type_synonym u32 = "32 word"
type_synonym u64 = "64 word"

section \<open>Outcomes\<close>

datatype 'e fault = Throw 'e | UB

type_synonym ('e, 'a) res = "'e fault + 'a"

definition bindE :: "'e + 'a \<Rightarrow> ('a \<Rightarrow> 'e + 'b) \<Rightarrow> 'e + 'b" where
  "bindE m f = (case m of Inl e \<Rightarrow> Inl e | Inr x \<Rightarrow> f x)"

definition throw_if :: "bool \<Rightarrow> 'e \<Rightarrow> ('e, unit) res" where
  "throw_if b e = (if b then Inl (Throw e) else Inr ())"

lemma bindE_simps [simp, code]:
  "bindE (Inl e) f = Inl e"
  "bindE (Inr x) f = f x"
  by (simp_all add: bindE_def)

lemma bindE_eq_Inr [res_simps]:
  "bindE m f = Inr y \<longleftrightarrow> (\<exists>x. m = Inr x \<and> f x = Inr y)"
  by (cases m) simp_all

lemma bindE_eq_Inl [res_simps]:
  "bindE m f = Inl e \<longleftrightarrow> m = Inl e \<or> (\<exists>x. m = Inr x \<and> f x = Inl e)"
  by (cases m) auto

lemma bindE_cong [fundef_cong]:
  assumes "m = m'" and "\<And>x. m' = Inr x \<Longrightarrow> f x = f' x"
  shows "bindE m f = bindE m' f'"
  using assms by (cases m') simp_all

lemma throw_if_eq_Inr [res_simps]: "throw_if b e = Inr u \<longleftrightarrow> \<not> b"
  by (simp add: throw_if_def)

lemma throw_if_not_UB [res_simps]: "throw_if b e = Inl UB \<longleftrightarrow> False"
  by (simp add: throw_if_def)

lemma throw_if_eq_Throw [res_simps]: "throw_if b e = Inl (Throw e') \<longleftrightarrow> b \<and> e' = e"
  by (auto simp: throw_if_def)

lemma throw_if_simps [simp]:
  "throw_if False e = Inr ()"
  "throw_if True e = Inl (Throw e)"
  by (simp_all add: throw_if_def)

section \<open>Unchecked vector accessors\<close>

text \<open>
  \<^verbatim>\<open>index_unchecked\<close>, \<^verbatim>\<open>back_unchecked\<close> and \<^verbatim>\<open>pop_back_unchecked\<close> do not test their
  precondition; out of range they are undefined behaviour, which the model reports as \<open>UB\<close>.
\<close>

definition index_unchecked :: "'a list \<Rightarrow> nat \<Rightarrow> ('e, 'a) res" where
  "index_unchecked xs i = (if i < length xs then Inr (xs ! i) else Inl UB)"

definition back_unchecked :: "'a list \<Rightarrow> ('e, 'a) res" where
  "back_unchecked xs = (case xs of [] \<Rightarrow> Inl UB | x # _ \<Rightarrow> Inr x)"

definition pop_back_unchecked :: "'a list \<Rightarrow> ('e, 'a list) res" where
  "pop_back_unchecked xs = (case xs of [] \<Rightarrow> Inl UB | _ # ys \<Rightarrow> Inr ys)"

lemma index_unchecked_simps [vec_simps]:
  "i < length xs \<Longrightarrow> index_unchecked xs i = Inr (xs ! i)"
  "index_unchecked xs i = Inr x \<longleftrightarrow> i < length xs \<and> x = xs ! i"
  "index_unchecked xs i = Inl f \<longleftrightarrow> \<not> i < length xs \<and> f = UB"
  by (auto simp: index_unchecked_def)

lemma back_unchecked_simps [simp]:
  "back_unchecked [] = Inl UB"
  "back_unchecked (x # xs) = Inr x"
  by (simp_all add: back_unchecked_def)

lemma pop_back_unchecked_simps [simp]:
  "pop_back_unchecked [] = Inl UB"
  "pop_back_unchecked (x # xs) = Inr xs"
  by (simp_all add: pop_back_unchecked_def)

section \<open>Lists\<close>

lemma suffix_length_less: "suffix ys xs \<Longrightarrow> ys \<noteq> xs \<Longrightarrow> length ys < length xs"
  by (auto simp: suffix_def)

lemma drop_diff_eq_append:
  "n \<le> length ys \<Longrightarrow> drop (length (xs @ ys) - n) (xs @ ys) = drop (length ys - n) ys"
  by simp

lemma list_all2_take_drop_rev:
  "list_all2 P xs (rev ys) \<Longrightarrow> list_all2 P (rev xs) ys"
  by (metis list_all2_rev rev_rev_ident)

section \<open>Words\<close>

lemma unat_and_not_mask: "unat (w AND NOT (mask p) :: 'a::len word) = unat w div 2 ^ p * 2 ^ p"
proof -
  have "unat (w AND NOT (mask p)) = push_bit p (drop_bit p (unat w))"
    by (rule bit_eqI) (auto simp: bit_unsigned_iff bit_and_iff bit_not_iff bit_mask_iff bit_push_bit_iff bit_drop_bit_eq not_less dest: bit_imp_le_length)
  then show ?thesis by (simp add: push_bit_eq_mult [where ?'a = nat] drop_bit_eq_div [where ?'a = nat])
qed

end
