(* ===== verification/Leb128.thy ===== *)
theory Leb128
  imports Uwvm_Prelude
begin

text \<open>
  The LEB128 reader and writer of \<^verbatim>\<open>third-parties/fast_io\<close>, through which every integer of a
  WebAssembly binary is read: \<open>scn_cnt_define_leb128_impl\<close> for unsigned and signed targets of
  any width, and the writer \<open>pr_rsv_leb128_impl\<close>. The reader is proved to accept exactly the
  \<open>uN\<close> and \<open>sN\<close> grammars of the WebAssembly specification with the values they denote.
\<close>

unbundle bit_operations_syntax

section \<open>Parse codes\<close>

datatype parse_code = parse_ok | parse_end_of_file | parse_partial | parse_invalid | parse_overflow

section \<open>The reader\<close>

text \<open>
  The loop of \<open>scn_cnt_define_leb128_impl\<close>: \<open>cnt\<close> is the bit position of the next group and
  \<open>tmp\<close> the value gathered so far. The result is the iterator after the bytes read, the code,
  and the final content of the target \<open>t\<close> (which stays \<open>0\<close> on failure).
\<close>

fun scn_leb128_unsigned :: "nat \<Rightarrow> 'w::len word \<Rightarrow> byte list \<Rightarrow> byte list \<times> parse_code \<times> 'w word" where
  "scn_leb128_unsigned cnt tmp [] = ([], parse_invalid, 0)"
| "scn_leb128_unsigned cnt tmp (b # bs) =
     (let digits = LENGTH('w);
          remains = digits mod 7;
          sign = (b AND 0x80 \<noteq> 0);
          byte = b AND 0x7f
      in if cnt > digits - 7 \<and> (cnt > digits \<or> unat byte \<ge> 2 ^ remains)
         then (bs, parse_overflow, 0)
         else let tmp' = tmp OR push_bit cnt (ucast byte)
              in if \<not> sign then (bs, parse_ok, tmp')
                 else scn_leb128_unsigned (cnt + 7) tmp' bs)"

fun scn_leb128_signed :: "nat \<Rightarrow> 'w::len word \<Rightarrow> byte list \<Rightarrow> byte list \<times> parse_code \<times> 'w word" where
  "scn_leb128_signed cnt tmp [] = ([], parse_invalid, 0)"
| "scn_leb128_signed cnt tmp (b # bs) =
     (let digits = LENGTH('w);
          remains = digits mod 7;
          sign = (b AND 0x80 \<noteq> 0);
          byte = b AND 0x7f;
          lower_limit = (if remains \<noteq> 0 then 2 ^ (remains - 1) else 0);
          upper_limit = (if remains \<noteq> 0 then (255 * 2 ^ (remains - 1)) mod 128 else 127)
      in if cnt > digits - 7 \<and> (cnt > digits \<or> lower_limit \<le> unat byte \<and> unat byte < upper_limit)
         then (bs, parse_overflow, 0)
         else let tmp' = tmp OR push_bit cnt (ucast byte)
              in if \<not> sign
                 then (bs, parse_ok,
                       if byte AND 0x40 \<noteq> 0 \<and> cnt < digits - 7
                       then tmp' OR push_bit (cnt + 7) (- 1) else tmp')
                 else scn_leb128_signed (cnt + 7) tmp' bs)"

definition leb128_get_unsigned :: "byte list \<Rightarrow> byte list \<times> parse_code \<times> 'w::len word" where
  "leb128_get_unsigned bs = scn_leb128_unsigned 0 0 bs"

definition leb128_get_signed :: "byte list \<Rightarrow> byte list \<times> parse_code \<times> 'w::len word" where
  "leb128_get_signed bs = scn_leb128_signed 0 0 bs"

section \<open>The writer\<close>

text \<open>
  \<open>pr_rsv_leb128_impl\<close>: \<open>value & 0x7f\<close> is the remainder and \<open>value >>= 7\<close> the (flooring)
  quotient by 128, for unsigned values as for signed ones.
\<close>

fun pr_rsv_leb128_unsigned :: "nat \<Rightarrow> byte list" where
  "pr_rsv_leb128_unsigned v =
     (let temp = of_nat (v mod 128); v' = v div 128
      in if v' = 0 then [temp] else (temp OR 0x80) # pr_rsv_leb128_unsigned v')"

declare pr_rsv_leb128_unsigned.simps [simp del]

function pr_rsv_leb128_signed :: "int \<Rightarrow> byte list" where
  "pr_rsv_leb128_signed v =
     (let temp = of_int (v mod 128) :: byte; v' = v div 128;
          iszero = (v' = 0)
      in if (iszero \<or> v' = - 1) \<and> (iszero \<noteq> (temp AND 0x40 \<noteq> 0))
         then [temp]
         else (temp OR 0x80) # pr_rsv_leb128_signed v')"
  by pat_completeness auto

lemma leb128_quotient_decreases:
  fixes v :: int
  assumes "\<not> ((v div 128 = 0 \<or> v div 128 = - 1) \<and>
             ((v div 128 = 0) \<noteq> (of_int (v mod 128) AND (0x40 :: byte) \<noteq> 0)))"
  shows "nat \<bar>2 * (v div 128) + 1\<bar> < nat \<bar>2 * v + 1\<bar>"
proof (cases "v = 0 \<or> v = -1")
  case True
  with assms show ?thesis by auto
next
  case False
  then show ?thesis by (cases "v \<ge> 0") auto
qed

termination pr_rsv_leb128_signed
  by (relation "measure (\<lambda>v. nat \<bar>2 * v + 1\<bar>)") (use leb128_quotient_decreases in \<open>auto simp: Let_def\<close>)

declare pr_rsv_leb128_signed.simps [simp del]


section \<open>Words\<close>

lemma or_push_bit_eq_plus:
  fixes tmp x :: "'a::len word"
  assumes "take_bit n tmp = tmp"
  shows "tmp OR push_bit n x = tmp + push_bit n x"
proof -
  have "tmp AND push_bit n x = 0"
  proof (rule bit_eqI)
    fix k assume "possible_bit TYPE('a word) k"
    have "bit tmp k \<Longrightarrow> k < n" using assms by (metis bit_take_bit_iff)
    then show "bit (tmp AND push_bit n x) k \<longleftrightarrow> bit 0 k"
      by (auto simp: bit_and_iff bit_push_bit_iff)
  qed
  then show ?thesis by (simp add: disjunctive_add_eq_or)
qed

lemma take_bit_or_push_bit:
  fixes tmp :: "'a::len word" and b :: byte
  assumes "take_bit n tmp = tmp"
  shows "take_bit (n + 7) (tmp OR push_bit n (ucast (b AND 0x7f))) = tmp OR push_bit n (ucast (b AND 0x7f))"
proof (rule bit_eqI)
  fix k assume "possible_bit TYPE('a word) k"
  have t: "bit tmp k \<Longrightarrow> k < n" using assms by (metis bit_take_bit_iff)
  have "(0x7f :: byte) = mask 7" by (simp add: mask_eq_exp_minus_1)
  then have "bit (b AND 0x7f) j \<Longrightarrow> j < 7" for j by (simp add: bit_and_iff bit_mask_iff)
  then have "bit (push_bit n (ucast (b AND 0x7f) :: 'a word)) k \<Longrightarrow> k < n + 7"
    by (fastforce simp: bit_push_bit_iff bit_ucast_iff)
  with t show "bit (take_bit (n + 7) (tmp OR push_bit n (ucast (b AND 0x7f)))) k
      \<longleftrightarrow> bit (tmp OR push_bit n (ucast (b AND 0x7f))) k"
    by (auto simp: bit_take_bit_iff bit_or_iff)
qed

lemma unat_and_7f: "unat (b AND 0x7f :: byte) = unat b mod 128"
proof -
  have "b AND 0x7f = take_bit 7 b" by (simp add: take_bit_eq_mask mask_eq_exp_minus_1)
  then show ?thesis by (simp only: unsigned_take_bit_eq) (simp add: take_bit_eq_mod)
qed

lemma and_80_iff: "(b AND 0x80 :: byte) \<noteq> 0 \<longleftrightarrow> 128 \<le> unat b"
proof -
  have "(b AND 2 ^ 7 = 0) = (\<not> bit b 7)" by (rule and_exp_eq_0_iff_not_bit)
  moreover have "bit b 7 = bit (unat b) 7"
    by (simp add: bit_unsigned_iff)
  moreover have "unat b < 256" using unsigned_less [of b] by simp
  then have "unat b div 128 = (if 128 \<le> unat b then 1 else 0)" by (auto intro: div_nat_eqI)
  then have "bit (unat b) 7 \<longleftrightarrow> 128 \<le> unat b" by (simp add: bit_iff_odd)
  ultimately show ?thesis by simp
qed

lemma leb128_group_plus:
  fixes tmp :: "'w::len word" and b :: byte
  assumes "take_bit n tmp = tmp"
  shows "tmp OR push_bit n (ucast (b AND 0x7f)) = tmp + of_nat (2 ^ n * (unat b mod 128))"
proof -
  have "(ucast (b AND 0x7f) :: 'w word) = of_nat (unat b mod 128)"
    by (metis unat_and_7f of_nat_unat)
  then show ?thesis using or_push_bit_eq_plus [OF assms, of "of_nat (unat b mod 128)"]
    by (simp add: push_bit_eq_mult mult.commute)
qed

section \<open>The grammars of the specification\<close>

inductive uN :: "nat \<Rightarrow> byte list \<Rightarrow> nat \<Rightarrow> bool" where
  uN_last: "unat n < 2 ^ 7 \<Longrightarrow> unat n < 2 ^ N \<Longrightarrow> uN N [n] (unat n)"
| uN_more: "2 ^ 7 \<le> unat n \<Longrightarrow> 7 < N \<Longrightarrow> uN (N - 7) bs m \<Longrightarrow>
     uN N (n # bs) (2 ^ 7 * m + (unat n - 2 ^ 7))"

inductive sN :: "nat \<Rightarrow> byte list \<Rightarrow> int \<Rightarrow> bool" where
  sN_pos: "unat n < 2 ^ 6 \<Longrightarrow> uint n < 2 ^ (N - 1) \<Longrightarrow> sN N [n] (uint n)"
| sN_neg: "2 ^ 6 \<le> unat n \<Longrightarrow> unat n < 2 ^ 7 \<Longrightarrow> 2 ^ 7 - 2 ^ (N - 1) \<le> uint n \<Longrightarrow>
     sN N [n] (uint n - 2 ^ 7)"
| sN_more: "2 ^ 7 \<le> unat n \<Longrightarrow> 7 < N \<Longrightarrow> sN (N - 7) bs m \<Longrightarrow>
     sN N (n # bs) (2 ^ 7 * m + (uint n - 2 ^ 7))"

inductive_simps uN_Nil [simp]: "uN N [] m"
inductive_simps uN_Cons: "uN N (n # bs) m"
inductive_simps sN_Nil [simp]: "sN N [] m"
inductive_simps sN_Cons: "sN N (n # bs) m"

lemma uN_bound: "uN N bs m \<Longrightarrow> m < 2 ^ N"
proof (induction rule: uN.induct)
  case (uN_more n N bs m)
  have "unat n < 256" using unsigned_less [of n] by simp
  moreover have "(2::nat) ^ N = 2 ^ 7 * 2 ^ (N - 7)" 
    using uN_more.hyps(2) by (subst power_add [symmetric]) simp
  ultimately show ?case using uN_more by simp
qed simp

text \<open>
  Invariant of the loop: \<open>cnt\<close> is a multiple of 7 and \<open>tmp\<close> has no bit at or above \<open>cnt\<close>.
  Where \<open>cnt\<close> is inside the width, the loop reads the rest of the \<open>uN\<close> production.
\<close>

lemma uN_production_split:
  "(\<exists>pre m. b # bs = pre @ rest \<and> uN N pre m \<and> P m) \<longleftrightarrow>
     (unat b < 128 \<and> unat b < 2 ^ N \<and> rest = bs \<and> P (unat b)) \<or>
     (128 \<le> unat b \<and> 7 < N \<and> (\<exists>pre m. bs = pre @ rest \<and> uN (N - 7) pre m \<and> P (2 ^ 7 * m + (unat b - 2 ^ 7))))"
  (is "?L \<longleftrightarrow> ?R")
proof
  assume ?L
  then obtain pre m where *: "b # bs = pre @ rest" "uN N pre m" "P m" by blast
  then obtain pre' where "pre = b # pre'" "bs = pre' @ rest" by (cases pre) auto
  with * show ?R by (fastforce simp: uN_Cons)
next
  assume ?R
  then show ?L
  proof (elim disjE conjE exE)
    assume "unat b < 128" "unat b < 2 ^ N" "rest = bs" "P (unat b)"
    then show ?L by (intro exI [of _ "[b]"] exI [of _ "unat b"]) (simp add: uN_Cons)
  next
    fix pre m assume "128 \<le> unat b" "7 < N" "bs = pre @ rest" "uN (N - 7) pre m"
      "P (2 ^ 7 * m + (unat b - 2 ^ 7))"
    then show ?L
      by (intro exI [of _ "b # pre"] exI [of _ "2 ^ 7 * m + (unat b - 2 ^ 7)"]) (auto simp: uN_Cons)
  qed
qed

lemma leb128_width_cases:
  fixes cnt digits :: nat
  assumes "7 dvd cnt" "7 < digits" "\<not> 7 dvd digits"
  obtains (beyond) "digits < cnt" "\<not> cnt < digits"
  | (last) "cnt < digits" "digits - 7 < cnt" "digits - cnt = digits mod 7" "digits < cnt + 7"
  | (inner) "cnt + 7 < digits" "\<not> digits - 7 < cnt" "cnt < digits - 7"
proof -
  obtain c where c: "cnt = 7 * c" using assms(1) by blast
  define q r where "q = digits div 7" and "r = digits mod 7"
  then have qr: "digits = 7 * q + r" "r < 7" "0 < r" 
    using assms(3) by (auto simp: dvd_eq_mod_eq_0)
  consider "q < c" | "c = q" | "c < q" by linarith
  then show thesis
  proof cases
    case 1
    then show thesis using that(1) c qr by simp
  next
    case 2
    then have "cnt < digits" "digits - 7 < cnt" "digits - cnt = r" "digits < cnt + 7"
      using c qr assms(2) by linarith+
    then show thesis using that(2) r_def by blast
  next
    case 3
    then show thesis using that(3) c qr by simp
  qed
qed

lemma scn_unsigned_beyond:
  fixes tmp :: "'w::len word"
  shows "LENGTH('w) < cnt \<Longrightarrow> scn_leb128_unsigned cnt tmp bs \<noteq> (rest, parse_ok, w)"
  by (cases bs) (auto simp: Let_def)

lemma scn_unsigned_terminal:
  fixes tmp :: "'w::len word"
  assumes "7 dvd cnt" "7 < LENGTH('w)" "\<not> 7 dvd LENGTH('w)" "take_bit cnt tmp = tmp" "unat b < 128"
  shows "scn_leb128_unsigned cnt tmp (b # bs) = (rest, parse_ok, w) \<longleftrightarrow>
     cnt < LENGTH('w) \<and> unat b < 2 ^ (LENGTH('w) - cnt) \<and> rest = bs \<and> w = tmp + of_nat (2 ^ cnt * unat b)"
proof -
  have tmp: "tmp OR push_bit cnt (ucast (b AND 0x7f)) = tmp + of_nat (2 ^ cnt * unat b)"
    using leb128_group_plus [OF assms(4), of b] assms(5) by simp
  from assms(1-3) show ?thesis
  proof (cases rule: leb128_width_cases)
    case beyond
    then show ?thesis using scn_unsigned_beyond by blast
  next
    case last
    with tmp assms(5) show ?thesis by (auto simp: Let_def unat_and_7f and_80_iff)
  next
    case inner
    then have "(128::nat) \<le> 2 ^ (LENGTH('w) - cnt)"
      using power_increasing [of 7 "LENGTH('w) - cnt" "2::nat"] by simp
    with inner tmp assms(5) show ?thesis by (auto simp: Let_def unat_and_7f and_80_iff)
  qed
qed

lemma scn_unsigned_continue:
  fixes tmp :: "'w::len word"
  assumes "7 dvd cnt" "7 < LENGTH('w)" "\<not> 7 dvd LENGTH('w)" "128 \<le> unat b"
  shows "scn_leb128_unsigned cnt tmp (b # bs) = (rest, parse_ok, w) \<longleftrightarrow>
     cnt + 7 < LENGTH('w) \<and>
     scn_leb128_unsigned (cnt + 7) (tmp OR push_bit cnt (ucast (b AND 0x7f))) bs = (rest, parse_ok, w)"
  using assms(1-3)
proof (cases rule: leb128_width_cases)
  case beyond
  then show ?thesis using scn_unsigned_beyond by fastforce
next
  case last
  with assms(4) scn_unsigned_beyond [where cnt = "cnt + 7" and 'w = 'w] show ?thesis
    by (auto simp: Let_def and_80_iff)
next
  case inner
  with assms(4) show ?thesis by (auto simp: Let_def and_80_iff)
qed

lemma scn_unsigned_uN:
  fixes tmp w :: "'w::len word"
  assumes "7 dvd cnt" "7 < LENGTH('w)" "\<not> 7 dvd LENGTH('w)" "take_bit cnt tmp = tmp"
  shows "scn_leb128_unsigned cnt tmp bs = (rest, parse_ok, w) \<longleftrightarrow>
     cnt < LENGTH('w) \<and> (\<exists>pre m. bs = pre @ rest \<and> uN (LENGTH('w) - cnt) pre m \<and>
        w = tmp + of_nat (2 ^ cnt * m))"
  using assms
proof (induction bs arbitrary: cnt tmp)
  case Nil
  then show ?case by auto
next
  case (Cons b bs)
  let ?tmp = "tmp OR push_bit cnt (ucast (b AND 0x7f))"
  show ?case
  proof (cases "unat b < 128")
    case True
    then show ?thesis unfolding uN_production_split
      using scn_unsigned_terminal [OF Cons.prems] by auto
  next
    case False
    have "unat b < 256" using unsigned_less [of b] by simp
    with False have "unat b mod 128 = unat b - 2 ^ 7" by (simp add: mod_if)
    then have "?tmp + of_nat (2 ^ (cnt + 7) * m) = tmp + of_nat (2 ^ cnt * (2 ^ 7 * m + (unat b - 2 ^ 7)))" for m
      by (simp add: leb128_group_plus [OF Cons.prems(4)] power_add algebra_simps)
    moreover have "scn_leb128_unsigned (cnt + 7) ?tmp bs = (rest, parse_ok, w) \<longleftrightarrow>
        cnt + 7 < LENGTH('w) \<and> (\<exists>pre m. bs = pre @ rest \<and> uN (LENGTH('w) - (cnt + 7)) pre m \<and>
          w = ?tmp + of_nat (2 ^ (cnt + 7) * m))"
      using Cons.prems take_bit_or_push_bit by (intro Cons.IH) auto
    ultimately show ?thesis unfolding uN_production_split
      using False scn_unsigned_continue [OF Cons.prems(1-3), of b] by auto
  qed
qed

lemma sN_production_split:
  "(\<exists>pre m. b # bs = pre @ rest \<and> sN N pre m \<and> P m) \<longleftrightarrow>
     (unat b < 64 \<and> uint b < 2 ^ (N - 1) \<and> rest = bs \<and> P (uint b)) \<or>
     (64 \<le> unat b \<and> unat b < 128 \<and> 128 - 2 ^ (N - 1) \<le> uint b \<and> rest = bs \<and> P (uint b - 128)) \<or>
     (128 \<le> unat b \<and> 7 < N \<and> (\<exists>pre m. bs = pre @ rest \<and> sN (N - 7) pre m \<and> P (2 ^ 7 * m + (uint b - 2 ^ 7))))"
  (is "?L \<longleftrightarrow> ?R")
proof
  assume ?L
  then obtain pre m where *: "b # bs = pre @ rest" "sN N pre m" "P m" by blast
  then obtain pre' where "pre = b # pre'" "bs = pre' @ rest" by (cases pre) auto
  with * show ?R by (fastforce simp: sN_Cons)
next
  assume ?R
  then show ?L
  proof (elim disjE conjE exE)
    assume "unat b < 64" "uint b < 2 ^ (N - 1)" "rest = bs" "P (uint b)"
    then show ?L by (intro exI [of _ "[b]"] exI [of _ "uint b"]) (simp add: sN_Cons)
  next
    assume "64 \<le> unat b" "unat b < 128" "128 - 2 ^ (N - 1) \<le> uint b" "rest = bs" "P (uint b - 128)"
    then show ?L by (intro exI [of _ "[b]"] exI [of _ "uint b - 128"]) (simp add: sN_Cons)
  next
    fix pre m assume "128 \<le> unat b" "7 < N" "bs = pre @ rest" "sN (N - 7) pre m"
      "P (2 ^ 7 * m + (uint b - 2 ^ 7))"
    then show ?L
      by (intro exI [of _ "b # pre"] exI [of _ "2 ^ 7 * m + (uint b - 2 ^ 7)"]) (auto simp: sN_Cons)
  qed
qed

lemma signed_limits:
  fixes r :: nat
  assumes "0 < r" "r < 7"
  shows "255 * 2 ^ (r - 1) mod 128 = (128 - 2 ^ (r - 1) :: nat)" "(2::nat) ^ (r - 1) \<le> 32"
proof -
  have "r \<in> {1, 2, 3, 4, 5, 6}" using assms by auto
  then show "255 * 2 ^ (r - 1) mod 128 = (128 - 2 ^ (r - 1) :: nat)" "(2::nat) ^ (r - 1) \<le> 32"
    by auto
qed

lemma leb128_sign_extend:
  fixes tmp :: "'w::len word"
  assumes "take_bit n tmp = tmp"
  shows "(tmp OR push_bit n (ucast (b AND (0x7f::byte)))) OR push_bit (n + 7) (- 1)
     = tmp + of_int (2 ^ n * (int (unat b mod 128) - 128))"
proof -
  let ?t = "tmp OR push_bit n (ucast (b AND 0x7f))"
  have "?t OR push_bit (n + 7) (- 1) = ?t + push_bit (n + 7) (- 1)"
    by (rule or_push_bit_eq_plus) (rule take_bit_or_push_bit [OF assms])
  also have "\<dots> = tmp + of_nat (2 ^ n * (unat b mod 128)) - 2 ^ (n + 7)"
    by (simp only: leb128_group_plus [OF assms]) (simp add: push_bit_eq_mult)
  also have "\<dots> = tmp + of_int (2 ^ n * (int (unat b mod 128) - 128))"
    by (simp add: power_add algebra_simps)
  finally show ?thesis .
qed

lemma and_40_iff: "(b AND 0x7f) AND 0x40 \<noteq> (0::byte) \<longleftrightarrow> 64 \<le> unat b mod 128"
proof -
  have "(b AND 0x7f) AND 0x40 = b AND 2 ^ 6" by (simp add: and.assoc)
  moreover have "(b AND 2 ^ 6 = 0) = (\<not> bit b 6)" by (rule and_exp_eq_0_iff_not_bit)
  moreover have "bit b 6 = bit (unat b) 6" by (simp add: bit_unsigned_iff)
  moreover have "bit (unat b) 6 \<longleftrightarrow> 64 \<le> unat b mod 128"
  proof -
    define q y where "q = unat b div 128" and "y = unat b mod 128"
    then have x: "unat b = 128 * q + y" and y: "y < 128" by simp_all
    have "unat b div 64 = 2 * q + y div 64" unfolding x by simp
    moreover have "y div 64 = (if 64 \<le> y then 1 else 0)" using y by (auto intro: div_nat_eqI)
    ultimately show ?thesis by (simp add: bit_iff_odd flip: y_def)
  qed
  ultimately show ?thesis by simp
qed


lemma scn_signed_beyond:
  fixes tmp :: "'w::len word"
  shows "LENGTH('w) < cnt \<Longrightarrow> scn_leb128_signed cnt tmp bs \<noteq> (rest, parse_ok, w)"
  by (cases bs) (auto simp: Let_def)

lemma scn_signed_terminal_last:
  fixes tmp :: "'w::len word"
  assumes last: "cnt < LENGTH('w)" "LENGTH('w) - 7 < cnt" "LENGTH('w) - cnt = LENGTH('w) mod 7"
      "LENGTH('w) < cnt + 7"
    and r: "0 < LENGTH('w) mod 7" and tmp: "take_bit cnt tmp = tmp" and b: "unat b < 128"
  shows "scn_leb128_signed cnt tmp (b # bs) = (rest, parse_ok, w) \<longleftrightarrow>
     rest = bs \<and> (\<exists>m. sN (LENGTH('w) - cnt) [b] m \<and> w = tmp + of_int (2 ^ cnt * m))"
proof -
  let ?r = "LENGTH('w) mod 7"
  have ub: "uint b = int (unat b)" by simp
  have lim: "255 * 2 ^ (?r - 1) mod 128 = (128 - 2 ^ (?r - 1) :: nat)" "(2::nat) ^ (?r - 1) \<le> 32"
    using signed_limits [OF r] by simp_all
  have t: "tmp OR push_bit cnt (ucast (b AND 0x7f)) = tmp + of_nat (2 ^ cnt * unat b)"
    using leb128_group_plus [OF tmp, of b] b by simp
  have wrap: "of_int (2 ^ cnt * (uint b - 128)) = (of_nat (2 ^ cnt * unat b) :: 'w word)"
  proof -
    have "(2 :: 'w word) ^ (cnt + 7) = 0" using last by (simp only: exp_eq_zero_iff)
    then show ?thesis by (simp add: power_add algebra_simps)
  qed
  show ?thesis
  proof (cases "unat b < 64")
    case True
    then have "uint b < 2 ^ (?r - 1) \<longleftrightarrow> unat b < 2 ^ (?r - 1)" by (simp only: ub of_nat_less_numeral_power_cancel_iff)
    moreover have "unat b < 128 - 2 ^ (?r - 1)" using True lim(2) by linarith
    ultimately show ?thesis using True last t b r lim
      by (auto simp: Let_def unat_and_7f and_80_iff sN_Cons)
  next
    case False
    have "int (128 - 2 ^ (?r - 1)) = 128 - 2 ^ (?r - 1)" using lim(2) by (simp add: of_nat_diff)
    then have "128 - 2 ^ (?r - 1) \<le> uint b \<longleftrightarrow> int (128 - 2 ^ (?r - 1)) \<le> int (unat b)"
      by (simp only: ub)
    then have "128 - 2 ^ (?r - 1) \<le> uint b \<longleftrightarrow> 128 - 2 ^ (?r - 1) \<le> unat b"
      by (simp only: of_nat_le_iff)
    with False last t b r lim wrap show ?thesis
      by (auto simp: Let_def unat_and_7f and_80_iff sN_Cons)
  qed
qed

lemma scn_signed_terminal_inner:
  fixes tmp :: "'w::len word"
  assumes inner: "cnt + 7 < LENGTH('w)" and tmp: "take_bit cnt tmp = tmp" and b: "unat b < 128"
  shows "scn_leb128_signed cnt tmp (b # bs) = (rest, parse_ok, w) \<longleftrightarrow>
     rest = bs \<and> (\<exists>m. sN (LENGTH('w) - cnt) [b] m \<and> w = tmp + of_int (2 ^ cnt * m))"
proof -
  have pow: "(128::int) \<le> 2 ^ (LENGTH('w) - cnt - 1)"
    using inner power_increasing [of 7 "LENGTH('w) - cnt - 1" "2::int"] by simp
  have t: "tmp OR push_bit cnt (ucast (b AND 0x7f)) = tmp + of_nat (2 ^ cnt * unat b)"
    using leb128_group_plus [OF tmp, of b] b by simp
  have e: "(tmp OR push_bit cnt (ucast (b AND 0x7f))) OR push_bit (cnt + 7) (- 1)
      = tmp + of_int (2 ^ cnt * (uint b - 128))"
    using leb128_sign_extend [OF tmp, of b] b by simp
  show ?thesis
  proof (cases "unat b < 64")
    case True
    then have "int (unat b) < 128" by linarith
    then have "uint b < 128" by simp
    with True inner pow t b show ?thesis
      by (auto simp: Let_def unat_and_7f and_80_iff and_40_iff sN_Cons)
  next
    case False
    have "128 - 2 ^ (LENGTH('w) - cnt - 1) \<le> uint b" using pow uint_ge_0 [of b] by linarith
    with False inner pow e b show ?thesis
      by (auto simp: Let_def unat_and_7f and_80_iff and_40_iff sN_Cons)
  qed
qed

lemma scn_signed_terminal:
  fixes tmp :: "'w::len word"
  assumes "7 dvd cnt" "7 < LENGTH('w)" "\<not> 7 dvd LENGTH('w)" "take_bit cnt tmp = tmp" "unat b < 128"
  shows "scn_leb128_signed cnt tmp (b # bs) = (rest, parse_ok, w) \<longleftrightarrow>
     cnt < LENGTH('w) \<and> rest = bs \<and> (\<exists>m. sN (LENGTH('w) - cnt) [b] m \<and> w = tmp + of_int (2 ^ cnt * m))"
  using assms(1-3)
proof (cases rule: leb128_width_cases)
  case beyond
  then show ?thesis using scn_signed_beyond by blast
next
  case last
  have "0 < LENGTH('w) mod 7" using assms(3) by (simp add: dvd_eq_mod_eq_0)
  then show ?thesis using scn_signed_terminal_last [OF last _ assms(4,5)] last(1) by blast
next
  case inner
  then show ?thesis using scn_signed_terminal_inner [OF inner(1) assms(4,5)] by simp
qed

lemma scn_signed_continue:
  fixes tmp :: "'w::len word"
  assumes "7 dvd cnt" "7 < LENGTH('w)" "\<not> 7 dvd LENGTH('w)" "128 \<le> unat b"
  shows "scn_leb128_signed cnt tmp (b # bs) = (rest, parse_ok, w) \<longleftrightarrow>
     cnt + 7 < LENGTH('w) \<and>
     scn_leb128_signed (cnt + 7) (tmp OR push_bit cnt (ucast (b AND 0x7f))) bs = (rest, parse_ok, w)"
  using assms(1-3)
proof (cases rule: leb128_width_cases)
  case beyond
  then show ?thesis using scn_signed_beyond by fastforce
next
  case last
  with assms(4) scn_signed_beyond [where cnt = "cnt + 7" and 'w = 'w] show ?thesis
    by (auto simp: Let_def and_80_iff)
next
  case inner
  with assms(4) show ?thesis by (auto simp: Let_def and_80_iff)
qed

lemma scn_signed_sN:
  fixes tmp w :: "'w::len word"
  assumes "7 dvd cnt" "7 < LENGTH('w)" "\<not> 7 dvd LENGTH('w)" "take_bit cnt tmp = tmp"
  shows "scn_leb128_signed cnt tmp bs = (rest, parse_ok, w) \<longleftrightarrow>
     cnt < LENGTH('w) \<and> (\<exists>pre m. bs = pre @ rest \<and> sN (LENGTH('w) - cnt) pre m \<and>
        w = tmp + of_int (2 ^ cnt * m))"
  using assms
proof (induction bs arbitrary: cnt tmp)
  case Nil
  then show ?case by auto
next
  case (Cons b bs)
  let ?tmp = "tmp OR push_bit cnt (ucast (b AND 0x7f))"
  show ?case
  proof (cases "unat b < 128")
    case True
    then show ?thesis unfolding sN_production_split
      using scn_signed_terminal [OF Cons.prems] by (auto simp: sN_Cons)
  next
    case False
    have "unat b < 256" using unsigned_less [of b] by simp
    with False have "unat b mod 128 = unat b - 128" by (simp add: mod_if)
    with False have md: "int (unat b mod 128) = uint b - 2 ^ 7" by (simp add: of_nat_diff)
    have "?tmp = tmp + of_int (2 ^ cnt * int (unat b mod 128))"
      using leb128_group_plus [OF Cons.prems(4), of b] by simp
    then have "?tmp + of_int (2 ^ (cnt + 7) * m) = tmp + of_int (2 ^ cnt * (2 ^ 7 * m + (uint b - 2 ^ 7)))" for m
      unfolding md by (simp add: power_add algebra_simps)
    moreover have "scn_leb128_signed (cnt + 7) ?tmp bs = (rest, parse_ok, w) \<longleftrightarrow>
        cnt + 7 < LENGTH('w) \<and> (\<exists>pre m. bs = pre @ rest \<and> sN (LENGTH('w) - (cnt + 7)) pre m \<and>
          w = ?tmp + of_int (2 ^ (cnt + 7) * m))"
      using Cons.prems take_bit_or_push_bit by (intro Cons.IH) auto
    ultimately show ?thesis unfolding sN_production_split
      using False scn_signed_continue [OF Cons.prems(1-3), of b] by auto
  qed
qed


section \<open>The reader implements the grammars\<close>

lemma leb128_get_unsigned_iff:
  fixes w :: "'w::len word"
  assumes "7 < LENGTH('w)" "\<not> 7 dvd LENGTH('w)"
  shows "leb128_get_unsigned bs = (rest, parse_ok, w) \<longleftrightarrow>
     (\<exists>pre. bs = pre @ rest \<and> uN LENGTH('w) pre (unat w))"
proof -
  have "w = of_nat m \<longleftrightarrow> m = unat w" if "uN LENGTH('w) pre m" for pre m
    using uN_bound [OF that] by (auto simp: unat_of_nat)
  then show ?thesis
    using scn_unsigned_uN [of 0 "0::'w word" bs rest w] assms
    by (auto simp: leb128_get_unsigned_def)
qed

lemma sN_bound: "sN N bs m \<Longrightarrow> 0 < N \<Longrightarrow> - (2 ^ (N - 1)) \<le> m \<and> m < 2 ^ (N - 1)"
proof (induction rule: sN.induct)
  case (sN_more n N bs m)
  have "uint n < 256" using uint_lt2p [of n] by simp
  moreover have "2 ^ 7 \<le> uint n"
    using sN_more.hyps(1) by (metis of_nat_unat of_nat_le_iff of_nat_power of_nat_numeral)
  moreover have "(2::int) ^ (N - 1) = 2 ^ 7 * 2 ^ (N - 7 - 1)"
    using sN_more.hyps(2) by (subst power_add [symmetric]) simp
  ultimately show ?case using sN_more by simp
next
  case (sN_pos n N)
  then show ?case using uint_ge_0 [of n] by (simp add: order_trans [of _ 0])
next
  case (sN_neg n N)
  have "int (unat n) < 128" using sN_neg.hyps(2) by (simp del: of_nat_unat)
  then have "uint n < 128" by simp
  moreover have "(0::int) < 2 ^ (N - 1)" by simp
  ultimately show ?case using sN_neg by auto
qed

lemma leb128_get_signed_iff:
  fixes w :: "'w::len word"
  assumes "7 < LENGTH('w)" "\<not> 7 dvd LENGTH('w)"
  shows "leb128_get_signed bs = (rest, parse_ok, w) \<longleftrightarrow>
     (\<exists>pre. bs = pre @ rest \<and> sN LENGTH('w) pre (sint w))"
proof -
  have "w = of_int m \<longleftrightarrow> m = sint w" if "sN LENGTH('w) pre m" for pre m
  proof -
    have "- (2 ^ (LENGTH('w) - 1)) \<le> m" "m < 2 ^ (LENGTH('w) - 1)" using sN_bound [OF that] by simp_all
    then have "signed_take_bit (LENGTH('w) - 1) m = m" by (intro signed_take_bit_int_eq_self)
    then have "sint (word_of_int m :: 'w word) = m" by (simp add: signed_of_int)
    then show ?thesis by auto
  qed
  then show ?thesis
    using scn_signed_sN [of 0 "0::'w word" bs rest w] assms
    by (auto simp: leb128_get_signed_def)
qed


section \<open>The scanner interface\<close>

text \<open>
  What the binary readers rely on: a successful scan consumes a non-empty prefix of its input,
  and neither its verdict nor its value depends on the bytes after that prefix.
\<close>

locale byte_scanner =
  fixes scan :: "byte list \<Rightarrow> byte list \<times> parse_code \<times> 'a"
  assumes scan_prefix: "scan bs = (rest, parse_ok, x) \<Longrightarrow>
    \<exists>pre. pre \<noteq> [] \<and> bs = pre @ rest \<and> (\<forall>ys. scan (pre @ ys) = (ys, parse_ok, x))"
begin

lemma scan_shorter: "scan bs = (rest, parse_ok, x) \<Longrightarrow> length rest < length bs"
  using scan_prefix by fastforce

lemma scan_suffix: "scan bs = (rest, parse_ok, x) \<Longrightarrow> suffix rest bs"
  using scan_prefix by (fastforce simp: suffix_def)

lemma scan_local: "scan (pre @ rest) = (rest, parse_ok, x) \<Longrightarrow> scan (pre @ ys) = (ys, parse_ok, x)"
  using scan_prefix by fastforce

end

lemma uN_nonempty: "uN N bs m \<Longrightarrow> bs \<noteq> []"
  by (auto elim: uN.cases)

lemma sN_nonempty: "sN N bs m \<Longrightarrow> bs \<noteq> []"
  by (auto elim: sN.cases)

interpretation leb_u32: byte_scanner "leb128_get_unsigned :: byte list \<Rightarrow> byte list \<times> parse_code \<times> u32"
  by unfold_locales (use uN_nonempty in \<open>auto simp: leb128_get_unsigned_iff\<close>)

interpretation leb_s32: byte_scanner "leb128_get_signed :: byte list \<Rightarrow> byte list \<times> parse_code \<times> u32"
  by unfold_locales (use sN_nonempty in \<open>auto simp: leb128_get_signed_iff\<close>)

interpretation leb_s64: byte_scanner "leb128_get_signed :: byte list \<Rightarrow> byte list \<times> parse_code \<times> u64"
  by unfold_locales (use sN_nonempty in \<open>auto simp: leb128_get_signed_iff\<close>)

section \<open>The writer is inverted by the reader\<close>

lemma unat_byte_or_80:
  assumes "x < 128"
  shows "unat ((of_nat x :: byte) OR 0x80) = x + 128"
proof -
  have "take_bit 7 (of_nat x :: byte) = of_nat x"
    using assms by (simp add: take_bit_of_nat take_bit_nat_eq_self)
  then have "(of_nat x :: byte) OR push_bit 7 1 = of_nat x + push_bit 7 1"
    by (rule or_push_bit_eq_plus)
  then have "(of_nat x :: byte) OR 0x80 = of_nat (x + 128)" by (simp add: push_bit_eq_mult)
  then show ?thesis using assms by (simp only: unat_of_nat) simp
qed

lemma uN_writer: "v < 2 ^ N \<Longrightarrow> uN N (pr_rsv_leb128_unsigned v) v"
proof (induction v arbitrary: N rule: pr_rsv_leb128_unsigned.induct)
  case (1 v)
  have md: "unat (of_nat (v mod 128) :: byte) = v mod 128" by (simp add: unat_of_nat)
  show ?case
  proof (cases "v div 128 = 0")
    case True
    then have "v mod 128 = v" "v < 128" by auto
    with md True "1.prems" show ?thesis
      by (subst pr_rsv_leb128_unsigned.simps) (simp add: Let_def uN_Cons)
  next
    case False
    then have "(2::nat) ^ 7 < 2 ^ N \<or> v = 2 ^ 7 \<and> 2 ^ 7 < (2::nat) ^ N" using "1.prems" by auto
    then have N: "7 < N" using power_less_imp_less_exp [of "2::nat" 7 N] by auto
    then have "(2::nat) ^ (N - 7) * 2 ^ 7 = 2 ^ N" by (subst power_add [symmetric]) simp
    then have "v div 128 < 2 ^ (N - 7)"
      using "1.prems" by (intro less_mult_imp_div_less) simp
    with "1.IH" False have "uN (N - 7) (pr_rsv_leb128_unsigned (v div 128)) (v div 128)" by simp
    with N unat_byte_or_80 [of "v mod 128"] False show ?thesis
      by (subst pr_rsv_leb128_unsigned.simps) (auto simp: Let_def uN_Cons intro!: exI [of _ "v div 128"])
  qed
qed


lemma signed_terminal_iff:
  fixes v :: int
  defines "t \<equiv> (of_int (v mod 128) :: byte)"
  shows "(v div 128 = 0 \<or> v div 128 = - 1) \<and> ((v div 128 = 0) \<noteq> (t AND 0x40 \<noteq> 0)) \<longleftrightarrow> - 64 \<le> v \<and> v < 64"
proof -
  have u: "unat t = nat (v mod 128)"
    unfolding t_def by (simp add: unsigned_of_int take_bit_eq_mod mod_mod_cancel)
  then have "unat t < 128" by (simp add: nat_less_iff)
  then have "t AND 0x7f = t" using unat_and_7f [of t] by (simp add: word_unat_eq_iff)
  then have "t AND 0x40 \<noteq> 0 \<longleftrightarrow> 64 \<le> v mod 128"
    using and_40_iff [of t] u \<open>unat t < 128\<close> by (simp add: le_nat_iff)
  moreover have "(v div 128 = 0 \<or> v div 128 = - 1) \<and> ((v div 128 = 0) \<noteq> (64 \<le> v mod 128))
      \<longleftrightarrow> - 64 \<le> v \<and> v < 64"
  proof -
    define q r where "q = v div 128" and "r = v mod 128"
    then have "v = 128 * q + r" "0 \<le> r" "r < 128" by simp_all
    then show ?thesis unfolding q_def [symmetric] r_def [symmetric]
      by (cases "q = 0"; cases "q = - 1") auto
  qed
  ultimately show ?thesis by simp
qed

lemma pr_rsv_leb128_signed_last:
  "- 64 \<le> v \<and> v < 64 \<Longrightarrow> pr_rsv_leb128_signed v = [of_int (v mod 128)]"
  by (subst pr_rsv_leb128_signed.simps, simp only: Let_def signed_terminal_iff, simp)

lemma pr_rsv_leb128_signed_more:
  "\<not> (- 64 \<le> v \<and> v < 64) \<Longrightarrow>
     pr_rsv_leb128_signed v = (of_int (v mod 128) OR 0x80) # pr_rsv_leb128_signed (v div 128)"
  by (subst pr_rsv_leb128_signed.simps) (simp only: Let_def signed_terminal_iff if_False)

lemma uint_low_group: "uint (of_int (v mod 128) :: byte) = v mod 128"
  by (simp add: uint_word_of_int)

lemma sN_writer_terminal:
  assumes "- 64 \<le> v" "v < 64" "- (2 ^ (N - 1)) \<le> v" "v < 2 ^ (N - 1)"
  shows "sN N [of_int (v mod 128)] v"
proof -
  have nt: "unat (of_int (v mod 128) :: byte) = nat (v mod 128)"
    by (metis unat_eq_nat_uint uint_low_group)
  show ?thesis
  proof (cases "0 \<le> v")
    case True
    with assms have "v mod 128 = v" by simp
    with True assms nt uint_low_group [of v] show ?thesis by (simp add: sN_Cons)
  next
    case False
    with assms have "v mod 128 = v + 128" by (intro int_mod_pos_eq [where q = "- 1"]) simp_all
    with False assms nt uint_low_group [of v] show ?thesis
      by (simp add: sN_Cons le_nat_iff nat_less_iff)
  qed
qed

lemma sN_writer: "- (2 ^ (N - 1)) \<le> v \<Longrightarrow> v < 2 ^ (N - 1) \<Longrightarrow> 0 < N \<Longrightarrow> sN N (pr_rsv_leb128_signed v) v"
proof (induction v arbitrary: N rule: pr_rsv_leb128_signed.induct)
  case (1 v)
  show ?case
  proof (cases "- 64 \<le> v \<and> v < 64")
    case True
    with "1.prems" sN_writer_terminal show ?thesis
      by (simp add: pr_rsv_leb128_signed_last)
  next
    case False
    have N: "\<not> N \<le> 7"
    proof
      assume "N \<le> 7"
      then have "(2::int) ^ (N - 1) \<le> 2 ^ 6" by (intro power_increasing) simp_all
      with "1.prems" False show False by simp
    qed
    then have pow: "(2::int) ^ (N - 1) = 2 ^ (N - 7 - 1) * 128"
      using power_add [of "2::int" "N - 7 - 1" 7] by simp
    have "- (2 ^ (N - 7 - 1)) \<le> v div 128" "v div 128 < 2 ^ (N - 7 - 1)"
      using "1.prems" unfolding pow
      using div_mult_mod_eq [of v 128] pos_mod_bound [of 128 v] pos_mod_sign [of 128 v] by linarith+
    with "1.IH" [OF refl refl refl] False N
    have "sN (N - 7) (pr_rsv_leb128_signed (v div 128)) (v div 128)"
      by (simp only: signed_terminal_iff) simp
    moreover have "unat (of_int (v mod 128) OR 0x80 :: byte) = nat (v mod 128) + 128"
      using unat_byte_or_80 [of "nat (v mod 128)"] by simp
    ultimately show ?thesis using N False
      by (auto simp: pr_rsv_leb128_signed_more sN_Cons uint_nat intro!: exI [of _ "v div 128"])
  qed
qed

text \<open>
  \<^bold>\<open>C29.\<close> The readers implement the productions \<open>u32\<close>, \<open>s32\<close> and \<open>s64\<close> of the specification: they succeed exactly when their
  input starts with a byte string of the grammar (no longer than the width allows, no bit above the width, the sign taken
  from bit 6 of the last group), stop right behind that string and return the number it denotes.
\<close>

theorem leb128_grammar:
  "(leb128_get_unsigned bs = (rest, parse_ok, w :: u32) \<longleftrightarrow> (\<exists>pre. bs = pre @ rest \<and> uN 32 pre (unat w))) \<and>
   (leb128_get_signed bs = (rest, parse_ok, x :: u32) \<longleftrightarrow> (\<exists>pre. bs = pre @ rest \<and> sN 32 pre (sint x))) \<and>
   (leb128_get_signed bs = (rest, parse_ok, y :: u64) \<longleftrightarrow> (\<exists>pre. bs = pre @ rest \<and> sN 64 pre (sint y)))"
  using leb128_get_unsigned_iff [where 'w = 32] leb128_get_signed_iff [where 'w = 32] leb128_get_signed_iff [where 'w = 64] by simp

text \<open>
  \<^bold>\<open>C30.\<close> Reading back what the writer printed gives the number and the position behind it, for
  every unsigned 32-bit and every signed 64-bit value, whatever bytes follow.
\<close>

theorem leb128_roundtrip:
  "leb128_get_unsigned (pr_rsv_leb128_unsigned (unat (w :: u32)) @ rest) = (rest, parse_ok, w) \<and>
   leb128_get_signed (pr_rsv_leb128_signed (sint (x :: u64)) @ rest) = (rest, parse_ok, x)"
proof
  have "uN 32 (pr_rsv_leb128_unsigned (unat w)) (unat w)"
    using unsigned_less [of w] by (intro uN_writer) simp
  then show "leb128_get_unsigned (pr_rsv_leb128_unsigned (unat w) @ rest) = (rest, parse_ok, w)"
    by (auto simp: leb128_get_unsigned_iff)
  have "sN 64 (pr_rsv_leb128_signed (sint x)) (sint x)"
    using sint_range_size [of x] by (intro sN_writer) (simp_all add: word_size)
  then show "leb128_get_signed (pr_rsv_leb128_signed (sint x) @ rest) = (rest, parse_ok, x)"
    by (auto simp: leb128_get_signed_iff)
qed

end
