(* ===== verification/Wasm_Types.thy ===== *)
theory Wasm_Types
  imports Leb128
begin

text \<open>
  The data the code validator reads and reports: value and function types, the part of the
  module storage that \<open>validate_code\<close> consults (\<^verbatim>\<open>parser/wasm/standard/wasm1\<close>), and the error
  record of \<^verbatim>\<open>validation/error/error.h\<close>.
\<close>

section \<open>Value and function types\<close>

text \<open>
  \<open>value_type\<close> is an enum over a byte with four enumerators. \<open>vt_none\<close> is the value-initialised
  enum object \<^verbatim>\<open>{}\<close> (byte 0, no enumerator), which the validator stores as the type of an
  unknown operand and in error records without a type.
\<close>

datatype value_type = i32 | i64 | f32 | f64 | vt_none

definition value_type_byte :: "value_type \<Rightarrow> byte" where
  "value_type_byte t =
     (case t of i32 \<Rightarrow> 0x7F | i64 \<Rightarrow> 0x7E | f32 \<Rightarrow> 0x7D | f64 \<Rightarrow> 0x7C | vt_none \<Rightarrow> 0)"

record function_type =
  parameter :: "value_type list"
  result :: "value_type list"

record local_entry =
  count :: u32
  local_type :: value_type

record global_type =
  global_value_type :: value_type
  is_mutable :: bool

section \<open>Module storage\<close>

text \<open>
  \<^verbatim>\<open>importsec.importdesc[0..3]\<close> hold the imported functions (through a pointer to their type),
  tables, memories and globals. Of tables and memories the validator uses the number only.
\<close>

record module_storage =
  imported_funcs :: "function_type list"
  imported_tables :: nat
  imported_memories :: nat
  imported_globals :: "global_type list"
  types :: "function_type list"
  funcs :: "nat list"
  tables :: nat
  memories :: nat
  local_globals :: "global_type list"
  codes :: "local_entry list list"

definition all_table_count :: "module_storage \<Rightarrow> u32" where
  "all_table_count m = of_nat (imported_tables m) + of_nat (tables m)"

definition all_memory_count :: "module_storage \<Rightarrow> u32" where
  "all_memory_count m = of_nat (imported_memories m) + of_nat (memories m)"

definition all_global_count :: "module_storage \<Rightarrow> u32" where
  "all_global_count m = of_nat (length (imported_globals m)) + of_nat (length (local_globals m))"

text \<open>
  What the parser guarantees of the storage before any body is validated: section counts fit
  \<open>u32\<close>, function type indices are in range, there is one body per local function, the local
  variables of a function (parameters included) fit \<open>u32\<close>, every type is one of the four value
  types, and, in WebAssembly 1.0, no function type has more than one result.
\<close>

definition wf_function_type :: "function_type \<Rightarrow> bool" where
  "wf_function_type ft \<longleftrightarrow> length (result ft) \<le> 1 \<and> length (parameter ft) < 2 ^ 32 \<and>
     vt_none \<notin> set (parameter ft) \<and> vt_none \<notin> set (result ft)"

definition local_total :: "function_type \<Rightarrow> local_entry list \<Rightarrow> nat" where
  "local_total ft ls = length (parameter ft) + sum_list (map (\<lambda>l. unat (count l)) ls)"

definition wf_module :: "module_storage \<Rightarrow> bool" where
  "wf_module m \<longleftrightarrow>
     length (imported_globals m) + length (local_globals m) < 2 ^ 32 \<and>
     imported_tables m + tables m < 2 ^ 32 \<and>
     imported_memories m + memories m < 2 ^ 32 \<and>
     list_all wf_function_type (types m) \<and>
     list_all wf_function_type (imported_funcs m) \<and>
     list_all (\<lambda>i. i < length (types m)) (funcs m) \<and>
     length (codes m) = length (funcs m) \<and>
     list_all2 (\<lambda>i ls. local_total (types m ! i) ls < 2 ^ 32) (funcs m) (codes m) \<and>
     list_all (list_all (\<lambda>l. local_type l \<noteq> vt_none)) (codes m) \<and>
     list_all (\<lambda>g. global_value_type g \<noteq> vt_none) (imported_globals m @ local_globals m)"

section \<open>Validation errors\<close>

text \<open>
  One constructor per error code the WebAssembly 1.0 validator reports, with the fields of the
  \<open>err_selectable\<close> member it fills.
\<close>

datatype (plugins only: code size) code_validation_error =
    missing_end
  | missing_block_type
  | illegal_block_type byte
  | illegal_opbase byte
  | operand_stack_underflow string nat nat \<comment> \<open>op_code_name, stack_size_actual, stack_size_required\<close>
  | select_type_mismatch value_type value_type
  | select_cond_type_not_i32 value_type
  | if_cond_type_not_i32 value_type
  | illegal_else
  | if_then_result_mismatch nat nat value_type value_type
  | if_missing_else nat value_type
  | end_result_mismatch string nat nat value_type value_type
  | trailing_code_after_end
  | invalid_label_index
  | illegal_label_index u32 u32
  | br_value_type_mismatch string value_type value_type
  | br_cond_type_not_i32 string value_type
  | br_table_target_count_exceeds_remaining_bytes u32 nat nat
  | br_table_target_type_mismatch u32 u32 u32 u32 value_type value_type
  | invalid_function_index_encoding
  | invalid_type_index
  | illegal_type_index u32 u32
  | invalid_table_index
  | illegal_table_index u32 u32
  | invalid_memory_index
  | illegal_memory_index byte u32
  | local_set_type_mismatch u32 value_type value_type
  | local_tee_type_mismatch u32 value_type value_type
  | invalid_global_index
  | illegal_global_index u32 u32
  | immutable_global_set u32
  | global_set_type_mismatch u32 value_type value_type
  | no_memory string u32 u32
  | invalid_memarg_align
  | invalid_memarg_offset
  | illegal_memarg_alignment string u32 u32
  | memarg_address_type_not_i32 string value_type
  | not_local_function nat
  | invalid_function_index nat nat
  | invalid_local_index
  | illegal_local_index u32 u32
  | store_value_type_mismatch string value_type value_type
  | memory_grow_delta_type_not_i32 value_type
  | invalid_const_immediate string
  | numeric_operand_type_mismatch string value_type value_type

text \<open>\<open>err_curr\<close> is the pointer recorded in the error, \<open>thrown\<close> the parse code that is thrown.\<close>

record code_validation_error_impl =
  err_curr :: "byte list"
  err :: code_validation_error
  thrown :: parse_code

definition verr :: "byte list \<Rightarrow> code_validation_error \<Rightarrow> parse_code \<Rightarrow> code_validation_error_impl" where
  "verr p e c = \<lparr>err_curr = p, err = e, thrown = c\<rparr>"

type_synonym 'a vres = "(code_validation_error_impl, 'a) res"

end
