(* ===== verification/Validator_State.thy ===== *)
theory Validator_State
  imports Wasm_Types
begin

text \<open>
  The working state of \<open>validate_code\<close> (\<^verbatim>\<open>validation/standard/wasm1/validator.h\<close>): the code
  pointer, the control-flow stack, the operand stack and the polymorphic flag, with the local
  lambdas that read and change them. Both stacks are kept with their back element first.
\<close>

section \<open>Stacks\<close>

datatype block_type = bt_function | bt_block | bt_loop | bt_if | bt_else

record operand_stack_storage_t =
  operand_type :: value_type
  is_unknown :: bool

record block_t =
  block_result :: "value_type list"
  operand_stack_base :: nat
  block_kind :: block_type
  polymorphic_base :: bool

record vstate =
  code_curr :: "byte list"
  control_flow_stack :: "block_t list"
  operand_stack :: "operand_stack_storage_t list"
  is_polymorphic :: bool

record concrete_operand_t =
  from_stack :: bool
  concrete_type :: value_type
  concrete_unknown :: bool

text \<open>The function whose body is validated, as \<open>validate_code\<close> prepares it before the loop.\<close>

record func_ctx =
  module_of :: module_storage
  curr_func_type :: function_type
  curr_code_locals :: "local_entry list"
  all_local_count :: u32

definition func_parameter_count_u32 :: "func_ctx \<Rightarrow> u32" where
  "func_parameter_count_u32 c = of_nat (length (parameter (curr_func_type c)))"

section \<open>Operand stack lambdas\<close>

abbreviation known :: "value_type \<Rightarrow> operand_stack_storage_t" where
  "known t \<equiv> \<lparr>operand_type = t, is_unknown = False\<rparr>"

abbreviation unknown_operand :: operand_stack_storage_t where
  "unknown_operand \<equiv> \<lparr>operand_type = vt_none, is_unknown = True\<rparr>"

definition curr_frame_operand_stack_base :: "vstate \<Rightarrow> nat" where
  "curr_frame_operand_stack_base s =
     (case control_flow_stack s of [] \<Rightarrow> 0 | f # _ \<Rightarrow> operand_stack_base f)"

definition concrete_operand_count :: "vstate \<Rightarrow> nat" where
  "concrete_operand_count s =
     (let base = curr_frame_operand_stack_base s; stack_size = length (operand_stack s)
      in if stack_size \<ge> base then stack_size - base else 0)"

definition report_operand_stack_underflow ::
  "byte list \<Rightarrow> string \<Rightarrow> nat \<Rightarrow> vstate \<Rightarrow> code_validation_error_impl" where
  "report_operand_stack_underflow op_begin op_name required s =
     verr op_begin (operand_stack_underflow op_name (concrete_operand_count s) required) parse_invalid"

definition try_pop_concrete_operand :: "vstate \<Rightarrow> concrete_operand_t \<times> vstate" where
  "try_pop_concrete_operand s =
     (if concrete_operand_count s = 0
      then (\<lparr>from_stack = False, concrete_type = vt_none, concrete_unknown = False\<rparr>, s)
      else let operand = hd (operand_stack s)
           in (\<lparr>from_stack = True, concrete_type = operand_type operand,
                concrete_unknown = is_unknown operand\<rparr>,
               s\<lparr>operand_stack := tl (operand_stack s)\<rparr>))"

definition try_peek_concrete_operand :: "vstate \<Rightarrow> concrete_operand_t" where
  "try_peek_concrete_operand s = fst (try_pop_concrete_operand s)"

fun pop_available_concrete_operands :: "nat \<Rightarrow> vstate \<Rightarrow> vstate" where
  "pop_available_concrete_operands 0 s = s"
| "pop_available_concrete_operands (Suc n) s =
     (if concrete_operand_count s \<noteq> 0
      then pop_available_concrete_operands n (s\<lparr>operand_stack := tl (operand_stack s)\<rparr>) else s)"

text \<open>
  The tests the handlers apply: \<open>!is_polymorphic && concrete_operand_count() < n\<close> before popping,
  and \<open>from_stack && !is_unknown && type != expected\<close> on what was popped.
\<close>

definition underflows :: "nat \<Rightarrow> vstate \<Rightarrow> bool" where
  "underflows n s \<longleftrightarrow> \<not> is_polymorphic s \<and> concrete_operand_count s < n"

definition operand_mismatch :: "concrete_operand_t \<Rightarrow> value_type \<Rightarrow> bool" where
  "operand_mismatch v t \<longleftrightarrow> from_stack v \<and> \<not> concrete_unknown v \<and> concrete_type v \<noteq> t"

definition push_operand :: "value_type \<Rightarrow> vstate \<Rightarrow> vstate" where
  "push_operand t s = s\<lparr>operand_stack := known t # operand_stack s\<rparr>"

fun push_operands :: "value_type list \<Rightarrow> vstate \<Rightarrow> vstate" where
  "push_operands [] s = s"
| "push_operands (t # ts) s = push_operands ts (push_operand t s)"

text \<open>\<^verbatim>\<open>while(operand_stack.size() > base) operand_stack.pop_back_unchecked();\<close>\<close>

definition truncate_operands :: "nat \<Rightarrow> vstate \<Rightarrow> vstate" where
  "truncate_operands base s =
     s\<lparr>operand_stack := drop (length (operand_stack s) - base) (operand_stack s)\<rparr>"

text \<open>
  The loop that compares the topmost \<open>n\<close> operands with the expected types, both read from the
  back; \<open>mk\<close> builds the error from the expected and the actual type.
\<close>

fun check_operand_types ::
  "(value_type \<Rightarrow> value_type \<Rightarrow> code_validation_error_impl) \<Rightarrow> value_type list \<Rightarrow>
   operand_stack_storage_t list \<Rightarrow> nat \<Rightarrow> unit vres" where
  "check_operand_types mk es ops 0 = Inr ()"
| "check_operand_types mk (e # es) (a # ops) (Suc n) =
     (if \<not> is_unknown a \<and> operand_type a \<noteq> e then Inl (Throw (mk e (operand_type a)))
      else check_operand_types mk es ops n)"
| "check_operand_types mk _ _ (Suc n) = Inl UB"

section \<open>Frames of the state\<close>

text \<open>
  The operands of the innermost frame and those below it: the view of the operand stack that
  the typing argument uses.
\<close>

definition frame_ops :: "vstate \<Rightarrow> operand_stack_storage_t list" where
  "frame_ops s = take (concrete_operand_count s) (operand_stack s)"

definition below_ops :: "vstate \<Rightarrow> operand_stack_storage_t list" where
  "below_ops s = drop (concrete_operand_count s) (operand_stack s)"

text \<open>The stack has at least as many operands as the innermost frame's base.\<close>

definition frame_ok :: "vstate \<Rightarrow> bool" where
  "frame_ok s \<longleftrightarrow> curr_frame_operand_stack_base s \<le> length (operand_stack s)"

end
