(* ===== verification/Validator_Ops.thy ===== *)
theory Validator_Ops
  imports Validator_State
begin

text \<open>
  The opcode handlers of \<open>validate_code\<close>, one definition per \<^verbatim>\<open>case\<close> of its switch (or per lambda
  that several cases call). Every handler starts with the code pointer on its opcode byte.
\<close>

section \<open>Reading immediates\<close>

text \<open>\<^verbatim>\<open>size_t\<close> is 64 bits wide.\<close>

definition size_max :: nat where
  "size_max = 2 ^ 64 - 1"

definition is_size_max :: "nat \<Rightarrow> bool" where
  [simp]: "is_size_max n \<longleftrightarrow> n = size_max"

lemma is_size_max_code [code]: "is_size_max n \<longleftrightarrow> int n = 2 ^ 64 - 1"
  by (simp add: size_max_def)

text \<open>Advance the code pointer by one byte: \<^verbatim>\<open>++code_curr\<close>.\<close>

definition advance :: "vstate \<Rightarrow> vstate" where
  "advance s = s\<lparr>code_curr := tl (code_curr s)\<rparr>"

text \<open>
  \<^verbatim>\<open>parse_by_scan(code_curr, code_end, leb128_get(x))\<close> followed by the test of the code: on failure
  the error is recorded at \<open>op_begin\<close> and the scanner's code is thrown.
\<close>

definition read_u32 :: "byte list \<Rightarrow> code_validation_error \<Rightarrow> vstate \<Rightarrow> (u32 \<times> vstate) vres" where
  "read_u32 op_begin e s =
     (case leb128_get_unsigned (code_curr s) of (rest, code, v) \<Rightarrow>
        if code \<noteq> parse_ok then Inl (Throw (verr op_begin e code))
        else Inr (v, s\<lparr>code_curr := rest\<rparr>))"

section \<open>Numeric instructions\<close>

definition validate_numeric_unary :: "string \<Rightarrow> value_type \<Rightarrow> value_type \<Rightarrow> vstate \<Rightarrow> vstate vres" where
  "validate_numeric_unary op_name expected_operand_type result_type s0 =
     (let op_begin = code_curr s0; s = advance s0 in
      bindE (throw_if (underflows 1 s) (report_operand_stack_underflow op_begin op_name 1 s)) (\<lambda>_.
      let (operand, s) = try_pop_concrete_operand s in
      bindE (throw_if (operand_mismatch operand expected_operand_type)
               (verr op_begin (numeric_operand_type_mismatch op_name expected_operand_type
                  (concrete_type operand)) parse_invalid)) (\<lambda>_.
      Inr (push_operand result_type s))))"

definition validate_numeric_binary :: "string \<Rightarrow> value_type \<Rightarrow> value_type \<Rightarrow> vstate \<Rightarrow> vstate vres" where
  "validate_numeric_binary op_name expected_operand_type result_type s0 =
     (let op_begin = code_curr s0; s = advance s0 in
      bindE (throw_if (underflows 2 s) (report_operand_stack_underflow op_begin op_name 2 s)) (\<lambda>_.
      let (rhs, s) = try_pop_concrete_operand s in
      bindE (throw_if (operand_mismatch rhs expected_operand_type)
               (verr op_begin (numeric_operand_type_mismatch op_name expected_operand_type
                  (concrete_type rhs)) parse_invalid)) (\<lambda>_.
      let (lhs, s) = try_pop_concrete_operand s in
      bindE (throw_if (operand_mismatch lhs expected_operand_type)
               (verr op_begin (numeric_operand_type_mismatch op_name expected_operand_type
                  (concrete_type lhs)) parse_invalid)) (\<lambda>_.
      Inr (push_operand result_type s)))))"

section \<open>Memory instructions\<close>

definition validate_mem_load :: "module_storage \<Rightarrow> string \<Rightarrow> u32 \<Rightarrow> value_type \<Rightarrow> vstate \<Rightarrow> vstate vres" where
  "validate_mem_load m op_name max_align result_type s0 =
     (let op_begin = code_curr s0; s = advance s0 in
      bindE (read_u32 op_begin invalid_memarg_align s) (\<lambda>(align, s).
      bindE (read_u32 op_begin invalid_memarg_offset s) (\<lambda>(offset, s).
      bindE (throw_if (all_memory_count m = 0)
               (verr op_begin (no_memory op_name align offset) parse_invalid)) (\<lambda>_.
      bindE (throw_if (align > max_align)
               (verr op_begin (illegal_memarg_alignment op_name align max_align) parse_invalid)) (\<lambda>_.
      bindE (throw_if (underflows 1 s) (report_operand_stack_underflow op_begin op_name 1 s)) (\<lambda>_.
      let (addr, s) = try_pop_concrete_operand s in
      bindE (throw_if (operand_mismatch addr i32)
               (verr op_begin (memarg_address_type_not_i32 op_name (concrete_type addr)) parse_invalid)) (\<lambda>_.
      Inr (push_operand result_type s))))))))"

definition validate_mem_store :: "module_storage \<Rightarrow> string \<Rightarrow> u32 \<Rightarrow> value_type \<Rightarrow> vstate \<Rightarrow> vstate vres" where
  "validate_mem_store m op_name max_align expected_value_type s0 =
     (let op_begin = code_curr s0; s = advance s0 in
      bindE (read_u32 op_begin invalid_memarg_align s) (\<lambda>(align, s).
      bindE (read_u32 op_begin invalid_memarg_offset s) (\<lambda>(offset, s).
      bindE (throw_if (all_memory_count m = 0)
               (verr op_begin (no_memory op_name align offset) parse_invalid)) (\<lambda>_.
      bindE (throw_if (align > max_align)
               (verr op_begin (illegal_memarg_alignment op_name align max_align) parse_invalid)) (\<lambda>_.
      bindE (throw_if (underflows 2 s) (report_operand_stack_underflow op_begin op_name 2 s)) (\<lambda>_.
      let (value, s) = try_pop_concrete_operand s;
          (addr, s) = try_pop_concrete_operand s in
      bindE (throw_if (operand_mismatch addr i32)
               (verr op_begin (memarg_address_type_not_i32 op_name (concrete_type addr)) parse_invalid)) (\<lambda>_.
      bindE (throw_if (operand_mismatch value expected_value_type)
               (verr op_begin (store_value_type_mismatch op_name expected_value_type
                  (concrete_type value)) parse_invalid)) (\<lambda>_.
      Inr s))))))))"

text \<open>The reserved byte after \<^verbatim>\<open>memory.size\<close> and \<^verbatim>\<open>memory.grow\<close>, and the memory itself.\<close>

definition read_memory_index :: "module_storage \<Rightarrow> byte list \<Rightarrow> string \<Rightarrow> vstate \<Rightarrow> vstate vres" where
  "read_memory_index m op_begin op_name s =
     (case code_curr s of
        [] \<Rightarrow> Inl (Throw (verr op_begin invalid_memory_index parse_end_of_file))
      | memidx # rest \<Rightarrow>
          let s = advance s in
          bindE (throw_if (memidx \<noteq> 0)
                   (verr op_begin (illegal_memory_index memidx (all_memory_count m)) parse_invalid)) (\<lambda>_.
          bindE (throw_if (all_memory_count m = 0)
                   (verr op_begin (no_memory op_name 0 0) parse_invalid)) (\<lambda>_.
          Inr s)))"

definition validate_memory_size :: "module_storage \<Rightarrow> vstate \<Rightarrow> vstate vres" where
  "validate_memory_size m s0 =
     (let op_begin = code_curr s0; s = advance s0 in
      bindE (read_memory_index m op_begin ''memory.size'' s) (\<lambda>s.
      Inr (push_operand i32 s)))"

definition validate_memory_grow :: "module_storage \<Rightarrow> vstate \<Rightarrow> vstate vres" where
  "validate_memory_grow m s0 =
     (let op_begin = code_curr s0; s = advance s0 in
      bindE (read_memory_index m op_begin ''memory.grow'' s) (\<lambda>s.
      bindE (throw_if (underflows 1 s) (report_operand_stack_underflow op_begin ''memory.grow'' 1 s)) (\<lambda>_.
      let (delta, s) = try_pop_concrete_operand s in
      bindE (throw_if (operand_mismatch delta i32)
               (verr op_begin (memory_grow_delta_type_not_i32 (concrete_type delta)) parse_invalid)) (\<lambda>_.
      Inr (push_operand i32 s)))))"

section \<open>Constants\<close>

definition validate_i32_const :: "vstate \<Rightarrow> vstate vres" where
  "validate_i32_const s0 =
     (let op_begin = code_curr s0; s = advance s0 in
      case leb128_get_signed (code_curr s) :: byte list \<times> parse_code \<times> u32 of (imm_next, imm_err, imm) \<Rightarrow>
        if imm_err \<noteq> parse_ok
        then Inl (Throw (verr op_begin (invalid_const_immediate ''i32.const'') imm_err))
        else Inr (push_operand i32 (s\<lparr>code_curr := imm_next\<rparr>)))"

definition validate_i64_const :: "vstate \<Rightarrow> vstate vres" where
  "validate_i64_const s0 =
     (let op_begin = code_curr s0; s = advance s0 in
      case leb128_get_signed (code_curr s) :: byte list \<times> parse_code \<times> u64 of (imm_next, imm_err, imm) \<Rightarrow>
        if imm_err \<noteq> parse_ok
        then Inl (Throw (verr op_begin (invalid_const_immediate ''i64.const'') imm_err))
        else Inr (push_operand i64 (s\<lparr>code_curr := imm_next\<rparr>)))"

definition validate_f32_const :: "vstate \<Rightarrow> vstate vres" where
  "validate_f32_const s0 =
     (let op_begin = code_curr s0; s = advance s0 in
      bindE (throw_if (length (code_curr s) < 4)
               (verr op_begin (invalid_const_immediate ''f32.const'') parse_end_of_file)) (\<lambda>_.
      Inr (push_operand f32 (s\<lparr>code_curr := drop 4 (code_curr s)\<rparr>))))"

definition validate_f64_const :: "vstate \<Rightarrow> vstate vres" where
  "validate_f64_const s0 =
     (let op_begin = code_curr s0; s = advance s0 in
      bindE (throw_if (length (code_curr s) < 8)
               (verr op_begin (invalid_const_immediate ''f64.const'') parse_end_of_file)) (\<lambda>_.
      Inr (push_operand f64 (s\<lparr>code_curr := drop 8 (code_curr s)\<rparr>))))"

section \<open>Parametric instructions\<close>

definition validate_drop :: "vstate \<Rightarrow> vstate vres" where
  "validate_drop s0 =
     (let op_begin = code_curr s0; s = advance s0 in
      if concrete_operand_count s = 0
      then bindE (throw_if (\<not> is_polymorphic s) (report_operand_stack_underflow op_begin ''drop'' 1 s)) (\<lambda>_.
           Inr s)
      else bindE (pop_back_unchecked (operand_stack s)) (\<lambda>ops. Inr (s\<lparr>operand_stack := ops\<rparr>)))"

definition validate_select :: "vstate \<Rightarrow> vstate vres" where
  "validate_select s0 =
     (let op_begin = code_curr s0; s = advance s0 in
      bindE (throw_if (underflows 3 s) (report_operand_stack_underflow op_begin ''select'' 3 s)) (\<lambda>_.
      let (cond, s) = try_pop_concrete_operand s;
          cond_from_stack = (from_stack cond \<and> \<not> concrete_unknown cond) in
      bindE (throw_if (cond_from_stack \<and> concrete_type cond \<noteq> i32)
               (verr op_begin (select_cond_type_not_i32 (concrete_type cond)) parse_invalid)) (\<lambda>_.
      let (v2, s) = try_pop_concrete_operand s;
          v2_from_stack = (from_stack v2 \<and> \<not> concrete_unknown v2);
          (v1, s) = try_pop_concrete_operand s;
          v1_from_stack = (from_stack v1 \<and> \<not> concrete_unknown v1) in
      bindE (throw_if (v1_from_stack \<and> v2_from_stack \<and> concrete_type v1 \<noteq> concrete_type v2)
               (verr op_begin (select_type_mismatch (concrete_type v1) (concrete_type v2)) parse_invalid)) (\<lambda>_.
      Inr (if v1_from_stack then push_operand (concrete_type v1) s
           else if v2_from_stack then push_operand (concrete_type v2) s
           else s\<lparr>operand_stack := unknown_operand # operand_stack s\<rparr>)))))"

section \<open>Variable instructions\<close>

fun find_local :: "local_entry list \<Rightarrow> u32 \<Rightarrow> value_type option" where
  "find_local [] tem_local_index = None"
| "find_local (local_part # ls) tem_local_index =
     (if tem_local_index < count local_part then Some (local_type local_part)
      else find_local ls (tem_local_index - count local_part))"

definition get_local_type :: "func_ctx \<Rightarrow> byte list \<Rightarrow> u32 \<Rightarrow> value_type vres" where
  "get_local_type c op_begin local_index =
     (let illegal = verr op_begin (illegal_local_index local_index (all_local_count c)) parse_invalid in
      bindE (throw_if (local_index \<ge> all_local_count c) illegal) (\<lambda>_.
      if local_index < func_parameter_count_u32 c
      then index_unchecked (parameter (curr_func_type c)) (unat local_index)
      else case find_local (curr_code_locals c) (local_index - func_parameter_count_u32 c) of
             None \<Rightarrow> Inl (Throw illegal)
           | Some t \<Rightarrow> Inr t))"

definition validate_local_get :: "func_ctx \<Rightarrow> vstate \<Rightarrow> vstate vres" where
  "validate_local_get c s0 =
     (let op_begin = code_curr s0; s = advance s0 in
      bindE (read_u32 op_begin invalid_local_index s) (\<lambda>(local_index, s).
      bindE (get_local_type c op_begin local_index) (\<lambda>curr_local_type.
      Inr (push_operand curr_local_type s))))"

definition validate_local_set :: "func_ctx \<Rightarrow> vstate \<Rightarrow> vstate vres" where
  "validate_local_set c s0 =
     (let op_begin = code_curr s0; s = advance s0 in
      bindE (read_u32 op_begin invalid_local_index s) (\<lambda>(local_index, s).
      bindE (get_local_type c op_begin local_index) (\<lambda>curr_local_type.
      bindE (throw_if (underflows 1 s) (report_operand_stack_underflow op_begin ''local.set'' 1 s)) (\<lambda>_.
      let (value, s) = try_pop_concrete_operand s in
      bindE (throw_if (operand_mismatch value curr_local_type)
               (verr op_begin (local_set_type_mismatch local_index curr_local_type
                  (concrete_type value)) parse_invalid)) (\<lambda>_.
      Inr s)))))"

definition validate_local_tee :: "func_ctx \<Rightarrow> vstate \<Rightarrow> vstate vres" where
  "validate_local_tee c s0 =
     (let op_begin = code_curr s0; s = advance s0 in
      bindE (read_u32 op_begin invalid_local_index s) (\<lambda>(local_index, s).
      bindE (get_local_type c op_begin local_index) (\<lambda>curr_local_type.
      bindE (if concrete_operand_count s = 0
             then bindE (throw_if (\<not> is_polymorphic s)
                           (report_operand_stack_underflow op_begin ''local.tee'' 1 s)) (\<lambda>_.
                  Inr (push_operand curr_local_type s))
             else let value = try_peek_concrete_operand s in
                  bindE (throw_if (\<not> concrete_unknown value \<and> concrete_type value \<noteq> curr_local_type)
                           (verr op_begin (local_tee_type_mismatch local_index curr_local_type
                              (concrete_type value)) parse_invalid)) (\<lambda>_.
                  Inr s)) (\<lambda>s.
      bindE (pop_back_unchecked (operand_stack s)) (\<lambda>ops.
      Inr (s\<lparr>operand_stack := known curr_local_type # ops\<rparr>))))))"

definition get_global_type :: "module_storage \<Rightarrow> byte list \<Rightarrow> u32 \<Rightarrow> global_type vres" where
  "get_global_type m op_begin global_index =
     (let imported_global_count = of_nat (length (imported_globals m)) in
      bindE (throw_if (global_index \<ge> all_global_count m)
               (verr op_begin (illegal_global_index global_index (all_global_count m)) parse_invalid)) (\<lambda>_.
      if global_index < imported_global_count
      then index_unchecked (imported_globals m) (unat global_index)
      else index_unchecked (local_globals m) (unat (global_index - imported_global_count))))"

definition validate_global_get :: "module_storage \<Rightarrow> vstate \<Rightarrow> vstate vres" where
  "validate_global_get m s0 =
     (let op_begin = code_curr s0; s = advance s0 in
      bindE (read_u32 op_begin invalid_global_index s) (\<lambda>(global_index, s).
      bindE (get_global_type m op_begin global_index) (\<lambda>g.
      Inr (push_operand (global_value_type g) s))))"

definition validate_global_set :: "module_storage \<Rightarrow> vstate \<Rightarrow> vstate vres" where
  "validate_global_set m s0 =
     (let op_begin = code_curr s0; s = advance s0 in
      bindE (read_u32 op_begin invalid_global_index s) (\<lambda>(global_index, s).
      bindE (get_global_type m op_begin global_index) (\<lambda>g.
      bindE (throw_if (\<not> is_mutable g) (verr op_begin (immutable_global_set global_index) parse_invalid)) (\<lambda>_.
      bindE (throw_if (underflows 1 s) (report_operand_stack_underflow op_begin ''global.set'' 1 s)) (\<lambda>_.
      let (value, s) = try_pop_concrete_operand s in
      bindE (throw_if (operand_mismatch value (global_value_type g))
               (verr op_begin (global_set_type_mismatch global_index (global_value_type g)
                  (concrete_type value)) parse_invalid)) (\<lambda>_.
      Inr s))))))"

end
