(* ===== verification/Validator_Control.thy ===== *)
theory Validator_Control
  imports Validator_Ops
begin

text \<open>
  The control-flow handlers of \<open>validate_code\<close>: structured blocks, branches, calls and
  \<^verbatim>\<open>return\<close>.
\<close>

section \<open>Unreachable and nop\<close>

definition validate_unreachable :: "vstate \<Rightarrow> vstate vres" where
  "validate_unreachable s0 =
     (let s = advance s0;
          s = (case control_flow_stack s of
                 [] \<Rightarrow> s
               | f # _ \<Rightarrow> truncate_operands (operand_stack_base f) s)
      in Inr (s\<lparr>is_polymorphic := True\<rparr>))"

definition validate_nop :: "vstate \<Rightarrow> vstate vres" where
  "validate_nop s0 = Inr (advance s0)"

section \<open>Block types\<close>

text \<open>The switch over \<open>blocktype_byte\<close> that \<open>block\<close>, \<open>loop\<close> and \<open>if\<close> repeat.\<close>

definition block_result_of_byte :: "byte \<Rightarrow> value_type list option" where
  "block_result_of_byte b =
     (if b = 0x40 then Some []
      else if b = value_type_byte i32 then Some [i32]
      else if b = value_type_byte i64 then Some [i64]
      else if b = value_type_byte f32 then Some [f32]
      else if b = value_type_byte f64 then Some [f64]
      else None)"

definition read_block_type :: "byte list \<Rightarrow> vstate \<Rightarrow> (value_type list \<times> vstate) vres" where
  "read_block_type op_begin s =
     (case code_curr s of
        [] \<Rightarrow> Inl (Throw (verr op_begin missing_block_type parse_end_of_file))
      | blocktype_byte # rest \<Rightarrow>
          (case block_result_of_byte blocktype_byte of
             None \<Rightarrow> Inl (Throw (verr op_begin (illegal_block_type blocktype_byte) parse_invalid))
           | Some r \<Rightarrow> Inr (r, s\<lparr>code_curr := rest\<rparr>)))"

text \<open>Push a frame based at the current stack height and clear the polymorphic flag.\<close>

definition push_frame :: "block_type \<Rightarrow> value_type list \<Rightarrow> vstate \<Rightarrow> vstate" where
  "push_frame k r s =
     s\<lparr>control_flow_stack :=
          \<lparr>block_result = r, operand_stack_base = length (operand_stack s),
           block_kind = k, polymorphic_base = is_polymorphic s\<rparr> # control_flow_stack s,
        is_polymorphic := False\<rparr>"

definition validate_block :: "vstate \<Rightarrow> vstate vres" where
  "validate_block s0 =
     (let op_begin = code_curr s0; s = advance s0 in
      bindE (read_block_type op_begin s) (\<lambda>(block_result, s).
      Inr (push_frame bt_block block_result s)))"

definition validate_loop_op :: "vstate \<Rightarrow> vstate vres" where
  "validate_loop_op s0 =
     (let op_begin = code_curr s0; s = advance s0 in
      bindE (read_block_type op_begin s) (\<lambda>(block_result, s).
      Inr (push_frame bt_loop block_result s)))"

definition validate_if :: "vstate \<Rightarrow> vstate vres" where
  "validate_if s0 =
     (let op_begin = code_curr s0; s = advance s0 in
      bindE (read_block_type op_begin s) (\<lambda>(block_result, s).
      bindE (throw_if (underflows 1 s) (report_operand_stack_underflow op_begin ''if'' 1 s)) (\<lambda>_.
      let (cond, s) = try_pop_concrete_operand s in
      bindE (throw_if (operand_mismatch cond i32)
               (verr op_begin (if_cond_type_not_i32 (concrete_type cond)) parse_invalid)) (\<lambda>_.
      Inr (push_frame bt_if block_result s)))))"

section \<open>Else and end\<close>

text \<open>
  The types reported with a wrong number of results: the single expected type and the type of
  the single actual operand, where there is exactly one.
\<close>

definition reported_expected_type :: "value_type list \<Rightarrow> value_type" where
  "reported_expected_type r = (case r of [t] \<Rightarrow> t | _ \<Rightarrow> vt_none)"

definition reported_actual_type :: "nat \<Rightarrow> operand_stack_storage_t list \<Rightarrow> value_type" where
  "reported_actual_type actual_count ops =
     (case ops of a # _ \<Rightarrow> (if actual_count = 1 then operand_type a else vt_none) | [] \<Rightarrow> vt_none)"

text \<open>
  The comparison of the operands above the frame's base with its result types, in \<open>else\<close> and in
  \<open>end\<close>: the count first, then the types from the top; \<open>mk\<close> builds the error from the expected and
  actual count and type.
\<close>

definition check_frame_result ::
  "(nat \<Rightarrow> nat \<Rightarrow> value_type \<Rightarrow> value_type \<Rightarrow> code_validation_error_impl) \<Rightarrow> block_t \<Rightarrow> vstate \<Rightarrow> unit vres" where
  "check_frame_result mk frame s =
     (let expected_count = length (block_result frame);
          base = operand_stack_base frame;
          stack_size = length (operand_stack s);
          actual_count = (if stack_size \<ge> base then stack_size - base else 0) in
      bindE (throw_if (if \<not> is_polymorphic s then actual_count \<noteq> expected_count
                       else actual_count > expected_count)
               (mk expected_count actual_count (reported_expected_type (block_result frame))
                  (reported_actual_type actual_count (operand_stack s)))) (\<lambda>_.
      if expected_count \<noteq> 0
      then check_operand_types (mk expected_count actual_count) (rev (block_result frame))
             (operand_stack s) (min actual_count expected_count)
      else Inr ()))"

definition validate_else :: "vstate \<Rightarrow> vstate vres" where
  "validate_else s0 =
     (let op_begin = code_curr s0; s = advance s0 in
      case control_flow_stack s of
        [] \<Rightarrow> Inl (Throw (verr op_begin illegal_else parse_invalid))
      | if_frame # frames \<Rightarrow>
          bindE (throw_if (block_kind if_frame \<noteq> bt_if) (verr op_begin illegal_else parse_invalid)) (\<lambda>_.
          bindE (check_frame_result
                   (\<lambda>ec ac et at. verr op_begin (if_then_result_mismatch ec ac et at) parse_invalid)
                   if_frame s) (\<lambda>_.
          let s = truncate_operands (operand_stack_base if_frame) s in
          Inr (s\<lparr>is_polymorphic := False,
                 control_flow_stack := if_frame\<lparr>block_kind := bt_else\<rparr> # frames\<rparr>))))"

definition block_kind_name :: "block_type \<Rightarrow> string" where
  "block_kind_name k =
     (case k of bt_function \<Rightarrow> ''function'' | bt_block \<Rightarrow> ''block'' | bt_loop \<Rightarrow> ''loop''
      | bt_if \<Rightarrow> ''if'' | bt_else \<Rightarrow> ''if-else'')"

text \<open>
  A handler leaves the switch with \<open>break\<close>, and the loop goes on, or leaves \<open>validate_code\<close> with
  \<open>return\<close>.
\<close>

datatype flow = Break vstate | Return vstate

definition validate_end :: "vstate \<Rightarrow> flow vres" where
  "validate_end s0 =
     (let op_begin = code_curr s0; s = advance s0 in
      case control_flow_stack s of
        [] \<Rightarrow> Inl (Throw (verr op_begin (illegal_opbase 0x0b) parse_invalid))
      | frame # frames \<Rightarrow>
          let expected_count = length (block_result frame) in
          bindE (if block_kind frame = bt_if \<and> expected_count \<noteq> 0
                 then bindE (index_unchecked (block_result frame) 0) (\<lambda>t.
                      Inl (Throw (verr op_begin (if_missing_else expected_count t) parse_invalid)))
                 else Inr ()) (\<lambda>_.
          bindE (check_frame_result
                   (\<lambda>ec ac et at. verr op_begin
                      (end_result_mismatch (block_kind_name (block_kind frame)) ec ac et at) parse_invalid)
                   frame s) (\<lambda>_.
          let s = push_operands (block_result frame) (truncate_operands (operand_stack_base frame) s);
              s = s\<lparr>is_polymorphic := polymorphic_base frame, control_flow_stack := frames\<rparr> in
          if block_kind frame = bt_function
          then bindE (throw_if (code_curr s \<noteq> []) (verr op_begin trailing_code_after_end parse_invalid)) (\<lambda>_.
               Inr (Return s))
          else Inr (Break s))))"

section \<open>Branches\<close>

definition label_arity :: "block_t \<Rightarrow> nat" where
  "label_arity f = (if block_kind f = bt_loop then 0 else length (block_result f))"

definition read_label :: "byte list \<Rightarrow> vstate \<Rightarrow> (block_t \<times> vstate) vres" where
  "read_label op_begin s =
     bindE (read_u32 op_begin invalid_label_index s) (\<lambda>(label_index, s).
     let all_label_count = length (control_flow_stack s) in
     bindE (throw_if (unat label_index \<ge> all_label_count)
              (verr op_begin (illegal_label_index label_index (of_nat all_label_count)) parse_invalid)) (\<lambda>_.
     bindE (index_unchecked (control_flow_stack s) (unat label_index)) (\<lambda>target_frame.
     Inr (target_frame, s))))"

text \<open>
  Check the operands a branch, a call or a return consumes: the topmost \<open>arity\<close> ones, as far as
  they are concrete.
\<close>

definition check_arguments :: "byte list \<Rightarrow> string \<Rightarrow> value_type list \<Rightarrow> nat \<Rightarrow> vstate \<Rightarrow> unit vres" where
  "check_arguments op_begin op_name ts arity s =
     (if arity \<noteq> 0
      then check_operand_types (\<lambda>e a. verr op_begin (br_value_type_mismatch op_name e a) parse_invalid)
             (rev ts) (operand_stack s) (min (concrete_operand_count s) arity)
      else Inr ())"

text \<open>After an unconditional branch: drop what is left of the frame and turn polymorphic.\<close>

definition enter_polymorphic :: "vstate \<Rightarrow> vstate vres" where
  "enter_polymorphic s =
     bindE (back_unchecked (control_flow_stack s)) (\<lambda>f.
     Inr ((truncate_operands (operand_stack_base f) s)\<lparr>is_polymorphic := True\<rparr>))"

definition validate_br :: "vstate \<Rightarrow> vstate vres" where
  "validate_br s0 =
     (let op_begin = code_curr s0; s = advance s0 in
      bindE (read_label op_begin s) (\<lambda>(target_frame, s).
      let target_arity = label_arity target_frame in
      bindE (throw_if (underflows target_arity s)
               (report_operand_stack_underflow op_begin ''br'' target_arity s)) (\<lambda>_.
      bindE (check_arguments op_begin ''br'' (block_result target_frame) target_arity s) (\<lambda>_.
      enter_polymorphic (pop_available_concrete_operands target_arity s)))))"

definition validate_br_if :: "vstate \<Rightarrow> vstate vres" where
  "validate_br_if s0 =
     (let op_begin = code_curr s0; s = advance s0 in
      bindE (read_label op_begin s) (\<lambda>(target_frame, s).
      let target_arity = label_arity target_frame;
          overflows = is_size_max target_arity;
          required_stack_size = (if overflows then size_max else target_arity + 1) in
      bindE (throw_if (\<not> is_polymorphic s \<and> (overflows \<or> concrete_operand_count s < required_stack_size))
               (report_operand_stack_underflow op_begin ''br_if'' required_stack_size s)) (\<lambda>_.
      let (cond, s) = try_pop_concrete_operand s in
      bindE (throw_if (operand_mismatch cond i32)
               (verr op_begin (br_cond_type_not_i32 ''br_if'' (concrete_type cond)) parse_invalid)) (\<lambda>_.
      bindE (check_arguments op_begin ''br_if'' (block_result target_frame) target_arity s) (\<lambda>_.
      if target_arity \<noteq> 0 \<and> is_polymorphic s
      then bindE (index_unchecked (block_result target_frame) 0) (\<lambda>t.
           Inr (push_operand t (pop_available_concrete_operands
                  (min (concrete_operand_count s) target_arity) s)))
      else Inr s)))))"

text \<open>One label of a \<^verbatim>\<open>br_table\<close>: read it, check its range, and compare its signature with the first.\<close>

type_synonym br_sig = "(u32 \<times> nat \<times> value_type) option"

definition get_sig :: "block_t \<Rightarrow> nat \<times> value_type" where
  "get_sig frame =
     (if block_kind frame \<noteq> bt_loop
      then (length (block_result frame), case block_result frame of [] \<Rightarrow> vt_none | t # _ \<Rightarrow> t)
      else (0, vt_none))"

definition br_table_label :: "byte list \<Rightarrow> br_sig \<Rightarrow> vstate \<Rightarrow> (br_sig \<times> vstate) vres" where
  "br_table_label op_begin expected s =
     bindE (read_u32 op_begin invalid_label_index s) (\<lambda>(li, s).
     let all_label_count = length (control_flow_stack s) in
     bindE (throw_if (unat li \<ge> all_label_count)
              (verr op_begin (illegal_label_index li (of_nat all_label_count)) parse_invalid)) (\<lambda>_.
     bindE (index_unchecked (control_flow_stack s) (unat li)) (\<lambda>frame.
     let (arity, type) = get_sig frame in
     case expected of
       None \<Rightarrow> Inr (Some (li, arity, type), s)
     | Some (expected_label, expected_arity, expected_type) \<Rightarrow>
         bindE (throw_if (arity \<noteq> expected_arity \<or> expected_arity \<noteq> 0 \<and> type \<noteq> expected_type)
                  (verr op_begin (br_table_target_type_mismatch expected_label li (of_nat expected_arity)
                     (of_nat arity) expected_type type) parse_invalid)) (\<lambda>_.
         Inr (expected, s)))))"

fun br_table_labels :: "byte list \<Rightarrow> nat \<Rightarrow> br_sig \<Rightarrow> vstate \<Rightarrow> (br_sig \<times> vstate) vres" where
  "br_table_labels op_begin 0 expected s = Inr (expected, s)"
| "br_table_labels op_begin (Suc n) expected s =
     bindE (br_table_label op_begin expected s) (\<lambda>(expected, s). br_table_labels op_begin n expected s)"

text \<open>
  The value check of \<^verbatim>\<open>br_table\<close>. Unlike the other branches it compares the stored type of an
  operand without looking at \<open>is_unknown\<close>, and uses the first label type for every position.
\<close>

fun check_br_table_values ::
  "byte list \<Rightarrow> value_type \<Rightarrow> operand_stack_storage_t list \<Rightarrow> nat \<Rightarrow> unit vres" where
  "check_br_table_values op_begin expected_type ops 0 = Inr ()"
| "check_br_table_values op_begin expected_type [] (Suc n) = Inl UB"
| "check_br_table_values op_begin expected_type (a # ops) (Suc n) =
     (if operand_type a \<noteq> expected_type
      then Inl (Throw (verr op_begin (br_value_type_mismatch ''br_table'' expected_type (operand_type a))
             parse_invalid))
      else check_br_table_values op_begin expected_type ops n)"

definition validate_br_table :: "vstate \<Rightarrow> vstate vres" where
  "validate_br_table s0 =
     (let op_begin = code_curr s0; s = advance s0 in
      bindE (read_u32 op_begin invalid_label_index s) (\<lambda>(target_count, s).
      let remaining_bytes = length (code_curr s) in
      bindE (throw_if (is_size_max (unat target_count) \<or> remaining_bytes = 0 \<or> unat target_count \<ge> remaining_bytes)
               (verr op_begin (br_table_target_count_exceeds_remaining_bytes target_count remaining_bytes
                  (if remaining_bytes = 0 then 0 else remaining_bytes - 1)) parse_invalid)) (\<lambda>_.
      bindE (br_table_labels op_begin (unat target_count) None s) (\<lambda>(expected, s).
      bindE (br_table_label op_begin expected s) (\<lambda>(expected, s).
      let (expected_label, expected_arity, expected_type) = the expected;
          overflows = is_size_max expected_arity;
          required_stack_size = (if overflows then size_max else expected_arity + 1) in
      bindE (throw_if (\<not> is_polymorphic s \<and> (overflows \<or> concrete_operand_count s < required_stack_size))
               (report_operand_stack_underflow op_begin ''br_table'' required_stack_size s)) (\<lambda>_.
      let (idx, s) = try_pop_concrete_operand s in
      bindE (throw_if (operand_mismatch idx i32)
               (verr op_begin (br_cond_type_not_i32 ''br_table'' (concrete_type idx)) parse_invalid)) (\<lambda>_.
      bindE (if expected_arity \<noteq> 0
             then check_br_table_values op_begin expected_type (operand_stack s)
                    (min (concrete_operand_count s) expected_arity)
             else Inr ()) (\<lambda>_.
      enter_polymorphic (pop_available_concrete_operands expected_arity s)))))))))"

definition validate_return :: "vstate \<Rightarrow> vstate vres" where
  "validate_return s0 =
     (let op_begin = code_curr s0; s = advance s0 in
      bindE (index_unchecked (rev (control_flow_stack s)) 0) (\<lambda>func_frame.
      let return_arity = length (block_result func_frame) in
      bindE (throw_if (underflows return_arity s)
               (report_operand_stack_underflow op_begin ''return'' return_arity s)) (\<lambda>_.
      bindE (check_arguments op_begin ''return'' (block_result func_frame) return_arity s) (\<lambda>_.
      enter_polymorphic (pop_available_concrete_operands return_arity s)))))"

section \<open>Calls\<close>

text \<open>Consume the parameters of the callee and push its results.\<close>

definition apply_callee :: "byte list \<Rightarrow> string \<Rightarrow> function_type \<Rightarrow> vstate \<Rightarrow> vstate vres" where
  "apply_callee op_begin op_name callee_type s =
     (let param_count = length (parameter callee_type) in
      bindE (check_arguments op_begin op_name (parameter callee_type) param_count s) (\<lambda>_.
      Inr (push_operands (result callee_type) (pop_available_concrete_operands param_count s))))"

definition callee_type_of :: "module_storage \<Rightarrow> nat \<Rightarrow> function_type vres" where
  "callee_type_of m func_index =
     (let import_func_count = length (imported_funcs m) in
      if func_index < import_func_count then index_unchecked (imported_funcs m) func_index
      else bindE (index_unchecked (funcs m) (func_index - import_func_count)) (\<lambda>ti.
           index_unchecked (types m) ti))"

definition validate_call :: "module_storage \<Rightarrow> vstate \<Rightarrow> vstate vres" where
  "validate_call m s0 =
     (let op_begin = code_curr s0; s = advance s0 in
      bindE (read_u32 op_begin invalid_function_index_encoding s) (\<lambda>(func_index, s).
      let all_function_size = length (imported_funcs m) + length (funcs m) in
      bindE (throw_if (unat func_index \<ge> all_function_size)
               (verr op_begin (invalid_function_index (unat func_index) all_function_size) parse_invalid)) (\<lambda>_.
      bindE (callee_type_of m (unat func_index)) (\<lambda>callee_type.
      bindE (throw_if (underflows (length (parameter callee_type)) s)
               (report_operand_stack_underflow op_begin ''call'' (length (parameter callee_type)) s)) (\<lambda>_.
      apply_callee op_begin ''call'' callee_type s)))))"

definition validate_call_indirect :: "module_storage \<Rightarrow> vstate \<Rightarrow> vstate vres" where
  "validate_call_indirect m s0 =
     (let op_begin = code_curr s0; s = advance s0 in
      bindE (read_u32 op_begin invalid_type_index s) (\<lambda>(type_index, s).
      bindE (throw_if (code_curr s = [] \<or> hd (code_curr s) \<noteq> 0)
               (verr op_begin invalid_table_index parse_invalid)) (\<lambda>_.
      let s = advance s in
      bindE (throw_if (unat type_index \<ge> length (types m))
               (verr op_begin (illegal_type_index type_index (of_nat (length (types m)))) parse_invalid)) (\<lambda>_.
      bindE (throw_if (0 \<ge> all_table_count m)
               (verr op_begin (illegal_table_index 0 (all_table_count m)) parse_invalid)) (\<lambda>_.
      bindE (index_unchecked (types m) (unat type_index)) (\<lambda>callee_type.
      let param_count = length (parameter callee_type);
          overflows = is_size_max param_count;
          required_stack_size = (if overflows then size_max else param_count + 1) in
      bindE (throw_if (\<not> is_polymorphic s \<and> (overflows \<or> concrete_operand_count s < required_stack_size))
               (report_operand_stack_underflow op_begin ''call_indirect'' required_stack_size s)) (\<lambda>_.
      let (idx, s) = try_pop_concrete_operand s in
      bindE (throw_if (operand_mismatch idx i32)
               (verr op_begin (br_cond_type_not_i32 ''call_indirect'' (concrete_type idx)) parse_invalid)) (\<lambda>_.
      apply_callee op_begin ''call_indirect'' callee_type s))))))))"

end
