(* ===== verification/Validator_Frames.thy ===== *)
theory Validator_Frames
  imports Validator_Control
begin

text \<open>
  The operand stack seen frame by frame, and the abstract operand machine the handlers refine:
  \<open>pop_types\<close> removes a list of expected types from the operands of the innermost frame,
  \<open>arrow_step\<close> is an instruction of type \<open>args \<rightarrow> results\<close>, \<open>jump_step\<close> one after which the rest
  of the frame is unreachable. The handlers are related to it in the theory after this one.
\<close>

section \<open>The innermost frame\<close>

lemma operand_stack_split: "operand_stack s = frame_ops s @ below_ops s"
  by (simp add: frame_ops_def below_ops_def)

lemma concrete_count_frame [simp]: "concrete_operand_count s = length (frame_ops s)"
  by (auto simp: frame_ops_def concrete_operand_count_def Let_def)

lemma length_below_ops: "frame_ok s \<Longrightarrow> length (below_ops s) = curr_frame_operand_stack_base s"
  by (auto simp: below_ops_def frame_ok_def concrete_operand_count_def Let_def simp del: concrete_count_frame)

definition with_ops :: "operand_stack_storage_t list \<Rightarrow> vstate \<Rightarrow> vstate" where
  "with_ops ops s = s\<lparr>operand_stack := ops @ below_ops s\<rparr>"

lemma base_updates [simp]:
  "curr_frame_operand_stack_base (s\<lparr>operand_stack := x\<rparr>) = curr_frame_operand_stack_base s"
  "curr_frame_operand_stack_base (s\<lparr>code_curr := b\<rparr>) = curr_frame_operand_stack_base s"
  "curr_frame_operand_stack_base (s\<lparr>is_polymorphic := p\<rparr>) = curr_frame_operand_stack_base s"
  by (simp_all add: curr_frame_operand_stack_base_def)

lemma count_updates:
  "concrete_operand_count (s\<lparr>code_curr := b\<rparr>) = concrete_operand_count s"
  "concrete_operand_count (s\<lparr>is_polymorphic := p\<rparr>) = concrete_operand_count s"
  unfolding concrete_operand_count_def by simp_all

lemma frame_updates [simp]:
  "frame_ops (s\<lparr>code_curr := b\<rparr>) = frame_ops s"
  "frame_ops (s\<lparr>is_polymorphic := p\<rparr>) = frame_ops s"
  "below_ops (s\<lparr>code_curr := b\<rparr>) = below_ops s"
  "below_ops (s\<lparr>is_polymorphic := p\<rparr>) = below_ops s"
  "frame_ok (s\<lparr>code_curr := b\<rparr>) = frame_ok s"
  "frame_ok (s\<lparr>is_polymorphic := p\<rparr>) = frame_ok s"
  by (simp_all add: frame_ops_def below_ops_def frame_ok_def count_updates del: concrete_count_frame)

lemma advance_frame [simp]:
  "frame_ops (advance s) = frame_ops s"
  "below_ops (advance s) = below_ops s"
  "frame_ok (advance s) = frame_ok s"
  "is_polymorphic (advance s) = is_polymorphic s"
  "control_flow_stack (advance s) = control_flow_stack s"
  "operand_stack (advance s) = operand_stack s"
  "code_curr (advance s) = tl (code_curr s)"
  "curr_frame_operand_stack_base (advance s) = curr_frame_operand_stack_base s"
  by (simp_all add: advance_def)

lemma with_ops_simps [simp]:
  "is_polymorphic (with_ops ops s) = is_polymorphic s"
  "control_flow_stack (with_ops ops s) = control_flow_stack s"
  "code_curr (with_ops ops s) = code_curr s"
  "operand_stack (with_ops ops s) = ops @ below_ops s"
  "curr_frame_operand_stack_base (with_ops ops s) = curr_frame_operand_stack_base s"
  by (simp_all add: with_ops_def)

lemma with_ops_frame [simp]:
  assumes "frame_ok s"
  shows "frame_ops (with_ops ops s) = ops"
    and "below_ops (with_ops ops s) = below_ops s"
    and "frame_ok (with_ops ops s)"
proof -
  have c: "concrete_operand_count (with_ops ops s) = length ops"
    unfolding concrete_operand_count_def using length_below_ops [OF assms] by simp
  show "frame_ops (with_ops ops s) = ops" "below_ops (with_ops ops s) = below_ops s"
    unfolding frame_ops_def [of "with_ops ops s"] below_ops_def [of "with_ops ops s"] c by simp_all
  show "frame_ok (with_ops ops s)"
    using length_below_ops [OF assms] by (simp add: frame_ok_def)
qed

lemma with_ops_with_ops [simp]:
  assumes "frame_ok s"
  shows "with_ops a (with_ops b s) = with_ops a s"
proof -
  have "with_ops a (with_ops b s) = (with_ops b s)\<lparr>operand_stack := a @ below_ops s\<rparr>"
    unfolding with_ops_def [of a "with_ops b s"] using assms by simp
  then show ?thesis by (simp add: with_ops_def)
qed

lemma with_ops_id [simp]: "with_ops (frame_ops s) s = s"
  by (simp add: with_ops_def operand_stack_split [symmetric])

lemma with_ops_Nil [simp]: "frame_ops s = [] \<Longrightarrow> with_ops [] s = s"
  by (metis with_ops_id)

lemma fold_with_ops:
  "s\<lparr>operand_stack := ops @ below_ops s\<rparr> = with_ops ops s"
  "s\<lparr>operand_stack := v # ops @ below_ops s\<rparr> = with_ops (v # ops) s"
  by (simp_all add: with_ops_def)

lemma fold_with_ops_code:
  "s\<lparr>code_curr := b, operand_stack := ops @ below_ops s\<rparr> = (with_ops ops s)\<lparr>code_curr := b\<rparr>"
  "s\<lparr>code_curr := b, operand_stack := v # ops @ below_ops s\<rparr> = (with_ops (v # ops) s)\<lparr>code_curr := b\<rparr>"
  by (simp_all add: with_ops_def)

lemma with_ops_code [simp]: "with_ops ops (s\<lparr>code_curr := b\<rparr>) = (with_ops ops s)\<lparr>code_curr := b\<rparr>"
  by (simp add: with_ops_def)

section \<open>The lambdas on frames\<close>

lemma try_pop_frame:
  assumes "frame_ok s"
  shows "try_pop_concrete_operand s =
    (case frame_ops s of
       [] \<Rightarrow> (\<lparr>from_stack = False, concrete_type = vt_none, concrete_unknown = False\<rparr>, s)
     | v # ops \<Rightarrow> (\<lparr>from_stack = True, concrete_type = operand_type v, concrete_unknown = is_unknown v\<rparr>,
                   with_ops ops s))"
proof (cases "frame_ops s")
  case Nil
  then show ?thesis by (simp add: try_pop_concrete_operand_def)
next
  case (Cons v ops)
  then have "operand_stack s = v # ops @ below_ops s" by (simp add: operand_stack_split)
  with Cons show ?thesis
    by (simp add: try_pop_concrete_operand_def with_ops_def)
qed

lemma pop_available_frame:
  "frame_ok s \<Longrightarrow> pop_available_concrete_operands n s = with_ops (drop n (frame_ops s)) s"
proof (induction n arbitrary: s)
  case (Suc n)
  show ?case
  proof (cases "frame_ops s")
    case Nil
    then show ?thesis by simp
  next
    case (Cons v ops)
    then have "s\<lparr>operand_stack := tl (operand_stack s)\<rparr> = with_ops ops s"
      by (simp add: operand_stack_split with_ops_def)
    with Suc Cons show ?thesis by simp
  qed
qed simp

lemma push_operand_frame: "frame_ok s \<Longrightarrow> push_operand t s = with_ops (known t # frame_ops s) s"
  by (simp add: push_operand_def with_ops_def operand_stack_split)

lemma push_operands_frame:
  "frame_ok s \<Longrightarrow> push_operands ts s = with_ops (map known (rev ts) @ frame_ops s) s"
  by (induction ts arbitrary: s) (simp_all add: push_operand_frame)

lemma truncate_frame:
  "frame_ok s \<Longrightarrow> truncate_operands (curr_frame_operand_stack_base s) s = with_ops [] s"
  by (simp add: truncate_operands_def with_ops_def length_below_ops [symmetric] operand_stack_split)

lemma underflows_frame: "underflows n s \<longleftrightarrow> \<not> is_polymorphic s \<and> length (frame_ops s) < n"
  by (simp add: underflows_def)

section \<open>The abstract operand machine\<close>

definition operand_fits :: "value_type \<Rightarrow> operand_stack_storage_t \<Rightarrow> bool" where
  "operand_fits t v \<longleftrightarrow> is_unknown v \<or> operand_type v = t"

text \<open>
  \<open>pop_types p ts ops\<close>: pop the types \<open>ts\<close> (topmost first) from the frame \<open>ops\<close>; in unreachable
  code (\<open>p\<close>) missing operands are supplied.
\<close>

definition pop_types ::
  "bool \<Rightarrow> value_type list \<Rightarrow> operand_stack_storage_t list \<Rightarrow> operand_stack_storage_t list option" where
  "pop_types p ts ops =
     (if (p \<or> length ts \<le> length ops) \<and> list_all (\<lambda>(t, v). operand_fits t v) (zip ts ops)
      then Some (drop (length ts) ops) else None)"

lemma pop_types_Nil [simp]: "pop_types p [] ops = Some ops"
  by (simp add: pop_types_def)

lemma pop_types_Cons:
  "pop_types p (t # ts) ops =
     (case ops of [] \<Rightarrow> if p then Some [] else None
      | v # ops' \<Rightarrow> if operand_fits t v then pop_types p ts ops' else None)"
  by (cases ops) (auto simp: pop_types_def)

lemma pop_types_empty [simp]: "pop_types True ts [] = Some []"
  by (simp add: pop_types_def)

lemma pop_types_append:
  "pop_types p (ts @ us) ops = Option.bind (pop_types p ts ops) (pop_types p us)"
  by (induction ts arbitrary: ops) (auto simp: pop_types_Cons split: list.splits)

lemma check_operand_types_iff:
  "check_operand_types mk es ops n = Inr u \<longleftrightarrow>
     n \<le> length es \<and> n \<le> length ops \<and> list_all (\<lambda>(t, v). operand_fits t v) (take n (zip es ops))"
  by (induction mk es ops n rule: check_operand_types.induct) (auto simp: operand_fits_def)

lemma check_operand_types_no_UB:
  "n \<le> length es \<Longrightarrow> n \<le> length ops \<Longrightarrow> check_operand_types mk es ops n \<noteq> Inl UB"
  by (induction mk es ops n rule: check_operand_types.induct) auto

lemma take_zip_frame:
  "take (min (length (frame_ops s)) (length ts)) (zip ts (operand_stack s)) = zip ts (frame_ops s)"
proof -
  let ?n = "min (length (frame_ops s)) (length ts)"
  have "take ?n (zip ts (operand_stack s)) = zip (take ?n ts) (take ?n (frame_ops s))"
    by (simp add: take_zip operand_stack_split)
  also have "\<dots> = zip ts (frame_ops s)"
    by (simp flip: take_zip)
  finally show ?thesis .
qed

lemma concrete_le_stack: "length (frame_ops s) \<le> length (operand_stack s)"
  by (simp add: operand_stack_split)

lemma check_arguments_iff:
  assumes "\<not> underflows (length ts) s"
  shows "check_arguments op_begin op_name ts (length ts) s = Inr u \<longleftrightarrow>
     pop_types (is_polymorphic s) (rev ts) (frame_ops s) = Some (drop (length ts) (frame_ops s))"
  using assms take_zip_frame [of s "rev ts"] concrete_le_stack [of s]
  by (auto simp: check_arguments_def check_operand_types_iff pop_types_def underflows_def)

lemma check_arguments_no_UB: "check_arguments op_begin op_name ts (length ts) s \<noteq> Inl UB"
  by (simp add: check_arguments_def check_operand_types_no_UB concrete_le_stack min.coboundedI1)

section \<open>Instruction steps\<close>

text \<open>
  \<open>arrow_step\<close>: the frame loses \<open>args\<close> and gains \<open>results\<close>; \<open>jump_step\<close>: the frame loses \<open>args\<close>, the
  rest of it is discarded and the code that follows is unreachable. Neither touches the control
  stack; \<open>rest\<close> is the code pointer afterwards.
\<close>

definition arrow_step ::
  "value_type list \<Rightarrow> value_type list \<Rightarrow> byte list \<Rightarrow> vstate \<Rightarrow> vstate \<Rightarrow> bool" where
  "arrow_step args results rest s s' \<longleftrightarrow>
     (\<exists>ops. pop_types (is_polymorphic s) (rev args) (frame_ops s) = Some ops \<and>
        s' = (with_ops (map known (rev results) @ ops) s)\<lparr>code_curr := rest\<rparr>)"

definition jump_step :: "value_type list \<Rightarrow> byte list \<Rightarrow> vstate \<Rightarrow> vstate \<Rightarrow> bool" where
  "jump_step args rest s s' \<longleftrightarrow>
     pop_types (is_polymorphic s) (rev args) (frame_ops s) \<noteq> None \<and>
     s' = (with_ops [] s)\<lparr>code_curr := rest, is_polymorphic := True\<rparr>"

end
