(* ===== verification/Validator_Steps.thy ===== *)
theory Validator_Steps
  imports Validator_Frames
begin

text \<open>
  Every handler refines the abstract operand machine: it succeeds exactly when its immediates
  can be read, its index checks pass and the abstract step exists, and then its result is the
  abstract one. Throughout, the innermost frame's base is within the operand stack.
\<close>

named_theorems handler_defs

declare
  validate_numeric_unary_def [handler_defs] validate_numeric_binary_def [handler_defs]
  validate_mem_load_def [handler_defs] validate_mem_store_def [handler_defs]
  validate_memory_size_def [handler_defs] validate_memory_grow_def [handler_defs]
  validate_i32_const_def [handler_defs] validate_i64_const_def [handler_defs]
  validate_f32_const_def [handler_defs] validate_f64_const_def [handler_defs]
  validate_drop_def [handler_defs] validate_select_def [handler_defs]
  validate_local_get_def [handler_defs] validate_local_set_def [handler_defs]
  validate_local_tee_def [handler_defs]
  validate_global_get_def [handler_defs] validate_global_set_def [handler_defs]

lemma read_u32_iff [res_simps]:
  "read_u32 op_begin e s = Inr (v, s') \<longleftrightarrow>
     (\<exists>rest. leb128_get_unsigned (code_curr s) = (rest, parse_ok, v) \<and> s' = s\<lparr>code_curr := rest\<rparr>)"
  by (auto simp: read_u32_def split: prod.splits)

lemma read_u32_no_UB [res_simps]: "read_u32 op_begin e s = Inl UB \<longleftrightarrow> False"
  by (auto simp: read_u32_def split: prod.splits)

lemmas pop_simps = try_pop_frame underflows_frame operand_mismatch_def pop_types_Cons operand_fits_def
  push_operand_frame Let_def advance_def not_less fold_with_ops_code

lemma validate_numeric_unary_iff:
  assumes "frame_ok s"
  shows "validate_numeric_unary n t r s = Inr s' \<longleftrightarrow> arrow_step [t] [r] (tl (code_curr s)) s s'"
  using assms
  by (cases "frame_ops s") (auto simp: handler_defs res_simps pop_simps arrow_step_def)

lemma validate_numeric_binary_iff:
  assumes "frame_ok s"
  shows "validate_numeric_binary n t r s = Inr s' \<longleftrightarrow> arrow_step [t, t] [r] (tl (code_curr s)) s s'"
  using assms
  by (cases "frame_ops s"; cases "tl (frame_ops s)") (auto simp: handler_defs res_simps pop_simps arrow_step_def)

lemma validate_mem_load_iff:
  assumes "frame_ok s"
  shows "validate_mem_load m n a t s = Inr s' \<longleftrightarrow>
     (\<exists>align offset r1 r2. leb128_get_unsigned (tl (code_curr s)) = (r1, parse_ok, align) \<and>
        leb128_get_unsigned r1 = (r2, parse_ok, offset :: u32) \<and> all_memory_count m \<noteq> 0 \<and> align \<le> a \<and>
        arrow_step [i32] [t] r2 s s')"
  using assms
  by (cases "frame_ops s") (auto simp: handler_defs res_simps pop_simps arrow_step_def)


lemma validate_mem_store_iff:
  assumes "frame_ok s"
  shows "validate_mem_store m n a t s = Inr s' \<longleftrightarrow>
     (\<exists>align offset r1 r2. leb128_get_unsigned (tl (code_curr s)) = (r1, parse_ok, align) \<and>
        leb128_get_unsigned r1 = (r2, parse_ok, offset :: u32) \<and> all_memory_count m \<noteq> 0 \<and> align \<le> a \<and>
        arrow_step [i32, t] [] r2 s s')"
  using assms
  by (cases "frame_ops s"; cases "tl (frame_ops s)") (auto simp: handler_defs res_simps pop_simps arrow_step_def)

lemma read_memory_index_iff [res_simps]:
  "read_memory_index m op_begin n s = Inr s' \<longleftrightarrow>
     (\<exists>rest. code_curr s = 0 # rest \<and> all_memory_count m \<noteq> 0 \<and> s' = s\<lparr>code_curr := rest\<rparr>)"
  by (auto simp: read_memory_index_def res_simps advance_def Let_def split: list.splits)

lemma read_memory_index_no_UB [res_simps]: "read_memory_index m op_begin n s = Inl UB \<longleftrightarrow> False"
  by (auto simp: read_memory_index_def res_simps Let_def split: list.splits)

lemma validate_memory_size_iff:
  assumes "frame_ok s"
  shows "validate_memory_size m s = Inr s' \<longleftrightarrow>
     (\<exists>rest. tl (code_curr s) = 0 # rest \<and> all_memory_count m \<noteq> 0 \<and> arrow_step [] [i32] rest s s')"
  using assms by (auto simp: handler_defs res_simps pop_simps arrow_step_def)

lemma validate_memory_grow_iff:
  assumes "frame_ok s"
  shows "validate_memory_grow m s = Inr s' \<longleftrightarrow>
     (\<exists>rest. tl (code_curr s) = 0 # rest \<and> all_memory_count m \<noteq> 0 \<and> arrow_step [i32] [i32] rest s s')"
  using assms
  by (cases "frame_ops s") (auto simp: handler_defs res_simps pop_simps arrow_step_def)

lemma validate_i32_const_iff:
  assumes "frame_ok s"
  shows "validate_i32_const s = Inr s' \<longleftrightarrow>
     (\<exists>imm rest. leb128_get_signed (tl (code_curr s)) = (rest, parse_ok, imm :: u32) \<and> arrow_step [] [i32] rest s s')"
  using assms by (auto simp: handler_defs pop_simps arrow_step_def split: prod.splits)

lemma validate_i64_const_iff:
  assumes "frame_ok s"
  shows "validate_i64_const s = Inr s' \<longleftrightarrow>
     (\<exists>imm rest. leb128_get_signed (tl (code_curr s)) = (rest, parse_ok, imm :: u64) \<and> arrow_step [] [i64] rest s s')"
  using assms by (auto simp: handler_defs pop_simps arrow_step_def split: prod.splits)

lemma validate_f32_const_iff:
  assumes "frame_ok s"
  shows "validate_f32_const s = Inr s' \<longleftrightarrow>
     4 \<le> length (tl (code_curr s)) \<and> arrow_step [] [f32] (drop 4 (tl (code_curr s))) s s'"
  using assms by (auto simp: handler_defs res_simps pop_simps arrow_step_def simp del: length_tl)

lemma validate_f64_const_iff:
  assumes "frame_ok s"
  shows "validate_f64_const s = Inr s' \<longleftrightarrow>
     8 \<le> length (tl (code_curr s)) \<and> arrow_step [] [f64] (drop 8 (tl (code_curr s))) s s'"
  using assms by (auto simp: handler_defs res_simps pop_simps arrow_step_def simp del: length_tl)

lemma validate_drop_iff:
  assumes "frame_ok s"
  shows "validate_drop s = Inr s' \<longleftrightarrow> (\<exists>t. arrow_step [t] [] (tl (code_curr s)) s s')"
proof (cases "frame_ops s")
  case Nil
  then show ?thesis by (auto simp: handler_defs res_simps pop_simps arrow_step_def)
next
  case (Cons v ops)
  then have "operand_stack s = v # ops @ below_ops s" by (simp add: operand_stack_split)
  with Cons show ?thesis
    by (auto simp: handler_defs res_simps pop_simps arrow_step_def)
qed

lemma validate_local_get_iff:
  assumes "frame_ok s"
  shows "validate_local_get c s = Inr s' \<longleftrightarrow>
     (\<exists>i t rest. leb128_get_unsigned (tl (code_curr s)) = (rest, parse_ok, i) \<and>
        get_local_type c (code_curr s) i = Inr t \<and> arrow_step [] [t] rest s s')"
  using assms by (auto simp: handler_defs res_simps pop_simps arrow_step_def)


lemma validate_local_set_iff:
  assumes "frame_ok s"
  shows "validate_local_set c s = Inr s' \<longleftrightarrow>
     (\<exists>i t rest. leb128_get_unsigned (tl (code_curr s)) = (rest, parse_ok, i) \<and>
        get_local_type c (code_curr s) i = Inr t \<and> arrow_step [t] [] rest s s')"
proof -
  obtain rest code i where "leb128_get_unsigned (tl (code_curr s)) = (rest, code, i :: u32)"
    by (metis prod_cases3)
  then show ?thesis using assms
    by (cases "get_local_type c (code_curr s) i"; cases "frame_ops s")
       (auto simp: handler_defs read_u32_def res_simps pop_simps arrow_step_def)
qed

lemma validate_local_tee_iff:
  assumes "frame_ok s"
  shows "validate_local_tee c s = Inr s' \<longleftrightarrow>
     (\<exists>i t rest. leb128_get_unsigned (tl (code_curr s)) = (rest, parse_ok, i) \<and>
        get_local_type c (code_curr s) i = Inr t \<and> arrow_step [t] [t] rest s s')"
proof -
  obtain rest code i where "leb128_get_unsigned (tl (code_curr s)) = (rest, code, i :: u32)"
    by (metis prod_cases3)
  then show ?thesis using assms
    by (cases "get_local_type c (code_curr s) i"; cases "frame_ops s")
       (auto simp: handler_defs read_u32_def res_simps pop_simps arrow_step_def try_peek_concrete_operand_def
          operand_stack_split [of s] with_ops_def push_operand_def)
qed

lemma validate_global_get_iff:
  assumes "frame_ok s"
  shows "validate_global_get m s = Inr s' \<longleftrightarrow>
     (\<exists>i g rest. leb128_get_unsigned (tl (code_curr s)) = (rest, parse_ok, i) \<and>
        get_global_type m (code_curr s) i = Inr g \<and> arrow_step [] [global_value_type g] rest s s')"
  using assms by (auto simp: handler_defs res_simps pop_simps arrow_step_def)

lemma validate_global_set_iff:
  assumes "frame_ok s"
  shows "validate_global_set m s = Inr s' \<longleftrightarrow>
     (\<exists>i g rest. leb128_get_unsigned (tl (code_curr s)) = (rest, parse_ok, i) \<and>
        get_global_type m (code_curr s) i = Inr g \<and> is_mutable g \<and>
        arrow_step [global_value_type g] [] rest s s')"
proof -
  obtain rest code i where "leb128_get_unsigned (tl (code_curr s)) = (rest, code, i :: u32)"
    by (metis prod_cases3)
  then show ?thesis using assms
    by (cases "get_global_type m (code_curr s) i"; cases "frame_ops s")
       (auto simp: handler_defs read_u32_def res_simps pop_simps arrow_step_def)
qed

end
