(* ===== verification/Validator_Control_Steps.thy ===== *)
theory Validator_Control_Steps
  imports Validator_Steps
begin

text \<open>
  The control-flow handlers refine the abstract operand machine as well. A branch to a frame
  consumes the types of its label, which a loop does not have; blocks push and pop frames.
\<close>

declare
  validate_unreachable_def [handler_defs] validate_nop_def [handler_defs]
  validate_block_def [handler_defs] validate_loop_op_def [handler_defs] validate_if_def [handler_defs]
  validate_else_def [handler_defs] validate_end_def [handler_defs]
  validate_br_def [handler_defs] validate_br_if_def [handler_defs] validate_br_table_def [handler_defs]
  validate_return_def [handler_defs] validate_call_def [handler_defs] validate_call_indirect_def [handler_defs]

section \<open>Well-formed operands and labels\<close>

text \<open>
  The operands of one frame: an unknown operand carries no type and occurs in unreachable code
  only; a known operand has one of the four value types.
\<close>

definition region_ok :: "bool \<Rightarrow> operand_stack_storage_t list \<Rightarrow> bool" where
  "region_ok p ops \<longleftrightarrow>
     (\<forall>v \<in> set ops. if is_unknown v then p \<and> operand_type v = vt_none else operand_type v \<noteq> vt_none)"

lemma region_ok_simps [simp]:
  "region_ok p []"
  "region_ok p (v # ops) \<longleftrightarrow>
     (if is_unknown v then p \<and> operand_type v = vt_none else operand_type v \<noteq> vt_none) \<and> region_ok p ops"
  "region_ok p (ops @ ops') \<longleftrightarrow> region_ok p ops \<and> region_ok p ops'"
  by (auto simp: region_ok_def)

lemma region_ok_drop: "region_ok p ops \<Longrightarrow> region_ok p (drop n ops)"
  by (auto simp: region_ok_def dest: in_set_dropD)

lemma region_ok_known [simp]: "region_ok p (map known ts) \<longleftrightarrow> vt_none \<notin> set ts"
  by (induction ts) auto

lemma region_known_fits:
  assumes "region_ok False (v # ops)" and "operand_fits t v"
  shows "v = known t"
  using assms by (cases v) (auto simp: operand_fits_def)

definition label_types :: "block_t \<Rightarrow> value_type list" where
  "label_types f = (if block_kind f = bt_loop then [] else block_result f)"

lemma label_arity_types: "label_arity f = length (label_types f)"
  by (simp add: label_arity_def label_types_def)

lemma check_arguments_label:
  "check_arguments op_begin op_name (block_result f) (label_arity f) s =
   check_arguments op_begin op_name (label_types f) (length (label_types f)) s"
  by (simp add: check_arguments_def label_arity_def label_types_def)

lemma read_label_iff [res_simps]:
  "read_label op_begin s = Inr (f, s') \<longleftrightarrow>
     (\<exists>i rest. leb128_get_unsigned (code_curr s) = (rest, parse_ok, i :: u32) \<and>
        unat i < length (control_flow_stack s) \<and> f = control_flow_stack s ! unat i \<and>
        s' = s\<lparr>code_curr := rest\<rparr>)"
  by (cases "leb128_get_unsigned (code_curr s) :: byte list \<times> parse_code \<times> u32")
     (auto simp: read_label_def read_u32_def res_simps vec_simps Let_def not_le)

lemma read_label_no_UB [res_simps]: "read_label op_begin s = Inl UB \<longleftrightarrow> False"
  by (auto simp: read_label_def res_simps vec_simps Let_def)

lemma enter_polymorphic_frame:
  assumes "frame_ok s" and "control_flow_stack s \<noteq> []"
  shows "enter_polymorphic s = Inr ((with_ops [] s)\<lparr>is_polymorphic := True\<rparr>)"
proof -
  obtain f fs where "control_flow_stack s = f # fs" using assms(2) by (cases "control_flow_stack s") auto
  then show ?thesis using truncate_frame [OF assms(1)]
    by (simp add: enter_polymorphic_def curr_frame_operand_stack_base_def)
qed

section \<open>Unreachable, nop and branches\<close>

lemma validate_unreachable_iff:
  assumes "frame_ok s" and "control_flow_stack s \<noteq> []"
  shows "validate_unreachable s = Inr s' \<longleftrightarrow> jump_step [] (tl (code_curr s)) s s'"
proof -
  obtain f fs where cs: "control_flow_stack s = f # fs" using assms(2) by (cases "control_flow_stack s") auto
  then have "truncate_operands (operand_stack_base f) (advance s) = (with_ops [] s)\<lparr>code_curr := tl (code_curr s)\<rparr>"
    using truncate_frame [of "advance s"] assms(1)
    by (simp add: curr_frame_operand_stack_base_def advance_def)
  with cs show ?thesis by (auto simp: handler_defs jump_step_def)
qed

lemma validate_nop_iff:
  "frame_ok s \<Longrightarrow> validate_nop s = Inr s' \<longleftrightarrow> arrow_step [] [] (tl (code_curr s)) s s'"
  by (auto simp: handler_defs arrow_step_def advance_def)

text \<open>The common tail of \<open>br\<close> and \<open>return\<close>.\<close>

lemma jump_arguments:
  assumes "frame_ok s" and "control_flow_stack s \<noteq> []"
  shows "bindE (throw_if (underflows (length ts) s) e) (\<lambda>_.
           bindE (check_arguments op_begin op_name ts (length ts) s) (\<lambda>_.
           enter_polymorphic (pop_available_concrete_operands (length ts) s))) = Inr s' \<longleftrightarrow>
         jump_step ts (code_curr s) s s'"
proof (cases "underflows (length ts) s")
  case True
  then show ?thesis by (auto simp: jump_step_def pop_types_def underflows_frame split: if_splits)
next
  case False
  have "pop_types (is_polymorphic s) (rev ts) (frame_ops s) = Some (drop (length ts) (frame_ops s)) \<longleftrightarrow>
        pop_types (is_polymorphic s) (rev ts) (frame_ops s) \<noteq> None"
    by (simp add: pop_types_def)
  with False assms show ?thesis
    by (auto simp: res_simps enter_polymorphic_frame pop_available_frame jump_step_def check_arguments_iff)
qed

lemma jump_step_code: "jump_step ts rest (s\<lparr>code_curr := b\<rparr>) s' \<longleftrightarrow> jump_step ts rest s s'"
  by (simp add: jump_step_def)

lemma arrow_step_code: "arrow_step ts us rest (s\<lparr>code_curr := b\<rparr>) s' \<longleftrightarrow> arrow_step ts us rest s s'"
  by (simp add: arrow_step_def)

lemma validate_br_iff:
  assumes "frame_ok s" and "control_flow_stack s \<noteq> []"
  shows "validate_br s = Inr s' \<longleftrightarrow>
     (\<exists>i rest. leb128_get_unsigned (tl (code_curr s)) = (rest, parse_ok, i :: u32) \<and>
        unat i < length (control_flow_stack s) \<and>
        jump_step (label_types (control_flow_stack s ! unat i)) rest s s')"
proof -
  have "bindE (throw_if (underflows (label_arity f) (s\<lparr>code_curr := rest\<rparr>)) e) (\<lambda>_.
          bindE (check_arguments b n (block_result f) (label_arity f) (s\<lparr>code_curr := rest\<rparr>)) (\<lambda>_.
          enter_polymorphic (pop_available_concrete_operands (label_arity f) (s\<lparr>code_curr := rest\<rparr>)))) = Inr s'
        \<longleftrightarrow> jump_step (label_types f) rest s s'" for f rest e b n
    using jump_arguments [of "s\<lparr>code_curr := rest\<rparr>" "label_types f"] assms
    unfolding check_arguments_label unfolding label_arity_types by (simp add: jump_step_code)
  then show ?thesis
    by (simp add: handler_defs bindE_eq_Inr [of "read_label _ _"] read_label_iff Let_def split_def advance_def) blast
qed

lemma validate_return_iff:
  assumes "frame_ok s" and "control_flow_stack s \<noteq> []"
  shows "validate_return s = Inr s' \<longleftrightarrow>
     jump_step (block_result (last (control_flow_stack s))) (tl (code_curr s)) s s'"
  using assms jump_arguments [of "advance s" "block_result (last (control_flow_stack s))"]
  by (simp add: handler_defs vec_simps Let_def rev_nth last_conv_nth jump_step_code) (simp add: jump_step_def advance_def)

section \<open>An i32 operand on top of arguments\<close>

lemma snd_try_pop: "frame_ok s \<Longrightarrow> snd (try_pop_concrete_operand s) = with_ops (tl (frame_ops s)) s"
  by (cases "frame_ops s") (simp_all add: try_pop_frame)

lemma try_pop_mismatch:
  assumes "frame_ok s" and "is_polymorphic s \<or> frame_ops s \<noteq> []"
  shows "operand_mismatch (fst (try_pop_concrete_operand s)) t \<longleftrightarrow>
         pop_types (is_polymorphic s) [t] (frame_ops s) \<noteq> Some (tl (frame_ops s))"
  using assms by (cases "frame_ops s") (auto simp: pop_simps)

lemma pop_top: "pop_types p (t # ts) ops = Some ops' \<longleftrightarrow>
  pop_types p [t] ops = Some (tl ops) \<and> pop_types p ts (tl ops) = Some ops'"
  by (cases ops) (auto simp: pop_types_Cons split: if_splits) 

lemma arrow_step_top:
  assumes "frame_ok s"
  shows "arrow_step (args @ [t]) results rest s s' \<longleftrightarrow>
     pop_types (is_polymorphic s) [t] (frame_ops s) = Some (tl (frame_ops s)) \<and>
     arrow_step args results rest (with_ops (tl (frame_ops s)) s) s'"
  using assms by (auto simp: arrow_step_def pop_top [of _ t "rev args"])

lemma jump_step_top:
  assumes "frame_ok s"
  shows "jump_step (args @ [t]) rest s s' \<longleftrightarrow>
     pop_types (is_polymorphic s) [t] (frame_ops s) = Some (tl (frame_ops s)) \<and>
     jump_step args rest (with_ops (tl (frame_ops s)) s) s'"
  using assms by (auto simp: jump_step_def pop_top [of _ t "rev args"])

section \<open>Calls\<close>

lemma pop_types_Some_drop: "pop_types p ts ops = Some ops' \<Longrightarrow> ops' = drop (length ts) ops"
  by (simp add: pop_types_def split: if_splits)

lemma apply_callee_iff:
  assumes "frame_ok s" and "\<not> underflows (length (parameter ft)) s"
  shows "apply_callee op_begin op_name ft s = Inr s' \<longleftrightarrow>
     arrow_step (parameter ft) (result ft) (code_curr s) s s'"
  using assms pop_types_Some_drop [of "is_polymorphic s" "rev (parameter ft)" "frame_ops s"]
  by (auto simp: apply_callee_def Let_def res_simps check_arguments_iff arrow_step_def pop_available_frame
        push_operands_frame)

lemma arrow_step_underflow: "arrow_step args results rest s s' \<Longrightarrow> \<not> underflows (length args) s"
  by (auto simp: arrow_step_def pop_types_def underflows_frame split: if_splits)

lemma jump_step_underflow: "jump_step args rest s s' \<Longrightarrow> \<not> underflows (length args) s"
  by (auto simp: jump_step_def pop_types_def underflows_frame split: if_splits)

lemma underflows_code: "underflows n (s\<lparr>code_curr := b\<rparr>) \<longleftrightarrow> underflows n s"
  by (simp add: underflows_frame)

lemma apply_callee_checked:
  assumes "frame_ok s"
  shows "bindE (throw_if (underflows (length (parameter ft)) s) e) (\<lambda>_. apply_callee op_begin op_name ft s) = Inr s' \<longleftrightarrow>
     arrow_step (parameter ft) (result ft) (code_curr s) s s'"
  using assms using arrow_step_underflow [of "parameter ft" "result ft" "code_curr s" s s']
  by (auto simp: res_simps apply_callee_iff)

lemma validate_call_iff:
  assumes "frame_ok s"
  shows "validate_call m s = Inr s' \<longleftrightarrow>
     (\<exists>i rest ft. leb128_get_unsigned (tl (code_curr s)) = (rest, parse_ok, i :: u32) \<and>
        unat i < length (imported_funcs m) + length (funcs m) \<and>
        callee_type_of m (unat i) = Inr ft \<and> arrow_step (parameter ft) (result ft) rest s s')"
proof -
  obtain rest code i where "leb128_get_unsigned (tl (code_curr s)) = (rest, code, i :: u32)"
    by (metis prod_cases3)
  then show ?thesis using assms
    by (cases "callee_type_of m (unat i) :: function_type vres";
        cases "unat i < length (imported_funcs m) + length (funcs m)")
       (simp_all add: handler_defs read_u32_def Let_def not_le apply_callee_checked arrow_step_code advance_def)
qed

lemma apply_callee_indexed:
  assumes "frame_ok s"
  shows "bindE (throw_if (\<not> is_polymorphic s \<and> length (frame_ops s) < Suc (length (parameter ft))) e) (\<lambda>_.
          bindE (throw_if (operand_mismatch (fst (try_pop_concrete_operand (s\<lparr>code_curr := rest\<rparr>))) i32) e') (\<lambda>_.
          apply_callee op_begin op_name ft (snd (try_pop_concrete_operand (s\<lparr>code_curr := rest\<rparr>))))) = Inr s' \<longleftrightarrow>
        arrow_step (parameter ft @ [i32]) (result ft) rest s s'"
proof (cases "underflows (Suc (length (parameter ft))) s")
  case True
  then show ?thesis using arrow_step_underflow [of "parameter ft @ [i32]"]
    by (auto simp: underflows_frame)
next
  case False
  then have "is_polymorphic s \<or> frame_ops s \<noteq> []"
    and "\<not> underflows (length (parameter ft)) ((with_ops (tl (frame_ops s)) s)\<lparr>code_curr := rest\<rparr>)"
    using assms by (auto simp: underflows_frame)
  then show ?thesis using False assms
    by (simp add: res_simps underflows_frame try_pop_mismatch snd_try_pop arrow_step_top apply_callee_iff
          arrow_step_code)
qed

lemma validate_call_indirect_iff:
  assumes "frame_ok s" and small: "\<forall>ft \<in> set (types m). length (parameter ft) < size_max"
  shows "validate_call_indirect m s = Inr s' \<longleftrightarrow>
     (\<exists>i rest. leb128_get_unsigned (tl (code_curr s)) = (0 # rest, parse_ok, i :: u32) \<and>
        unat i < length (types m) \<and> all_table_count m \<noteq> 0 \<and>
        arrow_step (parameter (types m ! unat i) @ [i32]) (result (types m ! unat i)) rest s s')"
proof -
  obtain rest code i where r: "leb128_get_unsigned (tl (code_curr s)) = (rest, code, i :: u32)"
    by (metis prod_cases3)
  have "length (parameter (types m ! unat i)) \<noteq> size_max" if "unat i < length (types m)"
    using small that nth_mem by fastforce
  then show ?thesis using r assms(1)
    by (cases rest; cases "hd rest = 0"; cases "unat i < length (types m)"; cases "all_table_count m = 0")
       (simp_all add: handler_defs read_u32_def Let_def not_le split_def apply_callee_indexed vec_simps advance_def)
qed

section \<open>Conditional branches\<close>

text \<open>
  \<open>br_if\<close> leaves the label's types on the stack. In reachable code the operands are those types
  already; in unreachable code the code rewrites the single label type.
\<close>

lemma br_if_keeps:
  assumes "frame_ok s" and "region_ok (is_polymorphic s) (frame_ops s)" and "length ts \<le> 1"
    and "\<not> underflows (length ts) s"
  shows "bindE (check_arguments op_begin op_name ts (length ts) s) (\<lambda>_.
           if length ts \<noteq> 0 \<and> is_polymorphic s
           then bindE (index_unchecked ts 0) (\<lambda>t.
             Inr (push_operand t (pop_available_concrete_operands (min (concrete_operand_count s) (length ts)) s)))
           else Inr s) = Inr s' \<longleftrightarrow> arrow_step ts ts (code_curr s) s s'"
proof (cases ts)
  case Nil
  then show ?thesis by (auto simp: check_arguments_def arrow_step_def)
next
  case (Cons t us)
  with assms(3) have [simp]: "ts = [t]" by simp
  show ?thesis
  proof (cases "frame_ops s")
    case Nil
    then show ?thesis using assms
      by (auto simp: check_arguments_def arrow_step_def underflows_frame vec_simps pop_types_Cons push_operand_frame)
  next
    case (Cons v ops)
    have "known t = v" if "\<not> is_polymorphic s" "operand_fits t v"
      using that assms(2) Cons by (metis region_known_fits)
    moreover have "with_ops (v # ops) s = s" by (metis Cons with_ops_id)
    moreover have "check_arguments op_begin op_name [t] (Suc 0) s = Inr () \<longleftrightarrow> operand_fits t v"
      using check_arguments_iff [of "[t]" s] assms(4) Cons by (simp add: pop_types_Cons)
    moreover have "push_operand t (pop_available_concrete_operands (Suc 0) s) = with_ops (known t # ops) s"
      using assms(1) Cons by (simp only: pop_available_frame) (simp add: push_operand_frame)
    ultimately show ?thesis using Cons
      by (auto simp: bindE_eq_Inr [of "check_arguments _ _ _ _ _"] arrow_step_def vec_simps pop_types_Cons
          simp del: pop_available_concrete_operands.simps split: if_splits)
  qed
qed

definition br_if_tail :: "byte list \<Rightarrow> block_t \<Rightarrow> vstate \<Rightarrow> vstate vres" where
  "br_if_tail op_begin target_frame s =
     (let target_arity = label_arity target_frame;
          overflows = is_size_max target_arity;
          required_stack_size = (if overflows then size_max else target_arity + 1) in
      bindE (throw_if (\<not> is_polymorphic s \<and> (overflows \<or> concrete_operand_count s < required_stack_size))
               (report_operand_stack_underflow op_begin ''br_if'' required_stack_size s)) (\<lambda>_.
      let (cond, s) = try_pop_concrete_operand s in
      bindE (throw_if (operand_mismatch cond i32)
               (verr op_begin (br_cond_type_not_i32 ''br_if'' (concrete_type cond)) parse_invalid)) (\<lambda>_.
      bindE (check_arguments op_begin ''br_if'' (block_result target_frame) target_arity s) (\<lambda>_.
      if target_arity \<noteq> 0 \<and> is_polymorphic s
      then bindE (index_unchecked (block_result target_frame) 0) (\<lambda>t.
           Inr (push_operand t (pop_available_concrete_operands
                  (min (concrete_operand_count s) target_arity) s)))
      else Inr s))))"

lemma br_if_tail_iff:
  assumes "frame_ok s" and "region_ok (is_polymorphic s) (frame_ops s)" and small: "length (block_result f) \<le> 1"
  shows "br_if_tail op_begin f s = Inr s' \<longleftrightarrow> arrow_step (label_types f @ [i32]) (label_types f) (code_curr s) s s'"
proof (cases "underflows (Suc (length (label_types f))) s")
  case True
  have "length (label_types f) \<le> 1" using small by (simp add: label_types_def)
  then have "length (label_types f) \<noteq> size_max" by (auto simp: size_max_def)
  with True show ?thesis using arrow_step_underflow [of "label_types f @ [i32]"]
    by (auto simp: br_if_tail_def label_arity_types underflows_frame)
next
  case False
  let ?ts = "label_types f" and ?s1 = "with_ops (tl (frame_ops s)) s"
  have len: "length ?ts \<le> 1" using small by (simp add: label_types_def)
  then have big: "length ?ts \<noteq> size_max" by (auto simp: size_max_def)
  have ne: "is_polymorphic s \<or> frame_ops s \<noteq> []" and under: "\<not> underflows (length ?ts) ?s1"
    using assms(1) False by (auto simp: underflows_frame)
  have reg: "region_ok (is_polymorphic s) (tl (frame_ops s))"
    using region_ok_drop [OF assms(2), of 1] by (simp add: drop_Suc)
  have lab: "block_result f = ?ts" if "?ts \<noteq> []"
    using that by (simp add: label_types_def split: if_splits)
  have keeps: "bindE (check_arguments op_begin ''br_if'' (block_result f) (label_arity f) ?s1) (\<lambda>_.
           if label_arity f \<noteq> 0 \<and> is_polymorphic ?s1
           then bindE (index_unchecked (block_result f) 0) (\<lambda>t.
             Inr (push_operand t (pop_available_concrete_operands (min (concrete_operand_count ?s1) (label_arity f)) ?s1)))
           else Inr ?s1) = Inr s' \<longleftrightarrow> arrow_step ?ts ?ts (code_curr s) ?s1 s'"
    using br_if_keeps [OF _ _ len under, of op_begin "''br_if''" s'] assms(1) reg lab
    unfolding check_arguments_label unfolding label_arity_types
    by (cases "?ts = []"; cases "is_polymorphic s") simp_all
  have "br_if_tail op_begin f s = Inr s' \<longleftrightarrow> \<not> operand_mismatch (fst (try_pop_concrete_operand s)) i32 \<and>
          arrow_step ?ts ?ts (code_curr s) ?s1 s'"
    using False big unfolding br_if_tail_def Let_def split_def snd_try_pop [OF assms(1)] bindE_eq_Inr [of "throw_if _ _"]
      throw_if_eq_Inr keeps
    by (auto simp: underflows_frame label_arity_types)
  then show ?thesis using assms(1) ne by (simp add: try_pop_mismatch arrow_step_top)
qed

lemma validate_br_if_iff:
  assumes "frame_ok s" and "region_ok (is_polymorphic s) (frame_ops s)"
    and small: "\<forall>f \<in> set (control_flow_stack s). length (block_result f) \<le> 1"
  shows "validate_br_if s = Inr s' \<longleftrightarrow>
     (\<exists>i rest. leb128_get_unsigned (tl (code_curr s)) = (rest, parse_ok, i :: u32) \<and>
        unat i < length (control_flow_stack s) \<and>
        arrow_step (label_types (control_flow_stack s ! unat i) @ [i32])
          (label_types (control_flow_stack s ! unat i)) rest s s')"
proof -
  have "br_if_tail b (control_flow_stack s ! i) (s\<lparr>code_curr := rest\<rparr>) = Inr s' \<longleftrightarrow>
        arrow_step (label_types (control_flow_stack s ! i) @ [i32]) (label_types (control_flow_stack s ! i)) rest s s'"
    if "i < length (control_flow_stack s)" for i b rest
    using br_if_tail_iff [of "s\<lparr>code_curr := rest\<rparr>" "control_flow_stack s ! i" b s'] assms that
    by (simp add: arrow_step_code)
  moreover have "validate_br_if s = bindE (read_label (code_curr s) (advance s)) (\<lambda>(f, s1). br_if_tail (code_curr s) f s1)"
    unfolding validate_br_if_def br_if_tail_def Let_def ..
  ultimately show ?thesis
    by (auto simp: bindE_eq_Inr [of "read_label _ _"] read_label_iff advance_def)
qed

end
