(* ===== verification/Validator_Block_Steps.thy ===== *)
theory Validator_Block_Steps
  imports Validator_Control_Steps
begin

text \<open>
  The handlers that look at several frames or change the control stack: \<^verbatim>\<open>br_table\<close>, the
  structured instructions with \<open>else\<close> and \<open>end\<close>, and \<open>select\<close>, whose result can be an unknown
  operand.
\<close>

section \<open>Label vectors\<close>

fun read_labels :: "nat \<Rightarrow> byte list \<Rightarrow> (u32 list \<times> byte list) option" where
  "read_labels 0 b = Some ([], b)"
| "read_labels (Suc n) b =
     (case leb128_get_unsigned b of (rest, code, l) \<Rightarrow>
        if code = parse_ok then map_option (\<lambda>(ls, r). (l # ls, r)) (read_labels n rest) else None)"

lemma length_read_labels: "read_labels n b = Some (ls, rest) \<Longrightarrow> length ls = n"
  by (induction n arbitrary: b ls) (auto split: prod.splits if_splits)

lemma get_sig_label_types:
  assumes "length (block_result f) \<le> 1" and "length (block_result g) \<le> 1"
  shows "get_sig f = get_sig g \<longleftrightarrow> label_types f = label_types g"
  using assms
  by (cases "block_result f"; cases "block_result g") (auto simp: get_sig_def label_types_def split: if_splits)

lemma get_sig_none: "get_sig f = (0, t) \<Longrightarrow> t = vt_none"
  by (auto simp: get_sig_def split: if_splits list.splits)

lemma get_sig_arity: "fst (get_sig f) = length (label_types f)"
  by (simp add: get_sig_def label_types_def)

lemma get_sig_type: "snd (get_sig f) = (case label_types f of [] \<Rightarrow> vt_none | t # _ \<Rightarrow> t)"
  by (simp add: get_sig_def label_types_def)

lemma br_table_label_None:
  "br_table_label op_begin None s = Inr (e, s') \<longleftrightarrow>
     (\<exists>l rest. leb128_get_unsigned (code_curr s) = (rest, parse_ok, l) \<and> unat l < length (control_flow_stack s) \<and>
        e = Some (l, get_sig (control_flow_stack s ! unat l)) \<and> s' = s\<lparr>code_curr := rest\<rparr>)"
  by (cases "leb128_get_unsigned (code_curr s) :: byte list \<times> parse_code \<times> u32")
     (auto simp: br_table_label_def read_u32_def res_simps vec_simps Let_def not_le split: prod.splits)

lemma br_table_label_Some:
  "br_table_label op_begin (Some (l0, get_sig f)) s = Inr (e, s') \<longleftrightarrow>
     (\<exists>l :: u32. \<exists>rest. leb128_get_unsigned (code_curr s) = (rest, parse_ok, l) \<and> unat l < length (control_flow_stack s) \<and>
        get_sig (control_flow_stack s ! unat l) = get_sig f \<and>
        e = Some (l0, get_sig f) \<and> s' = s\<lparr>code_curr := rest\<rparr>)"
proof -
  obtain rest code l where r: "leb128_get_unsigned (code_curr s) = (rest, code, l :: u32)"
    by (metis prod_cases3)
  obtain a t where f: "get_sig f = (a, t)" by fastforce
  obtain a' t' where g: "get_sig (control_flow_stack s ! unat l) = (a', t')" by fastforce
  have "a = 0 \<Longrightarrow> t = vt_none" and "a' = 0 \<Longrightarrow> t' = vt_none" using f g get_sig_none by blast+
  with r f g show ?thesis
    by (auto simp: br_table_label_def read_u32_def res_simps vec_simps Let_def not_le)
qed

lemma br_table_labels_Some:
  "br_table_labels op_begin n (Some (l0, get_sig f)) s = Inr (e, s') \<longleftrightarrow>
     (\<exists>ls rest. read_labels n (code_curr s) = Some (ls, rest) \<and>
        (\<forall>l \<in> set ls. unat l < length (control_flow_stack s) \<and> get_sig (control_flow_stack s ! unat l) = get_sig f) \<and>
        e = Some (l0, get_sig f) \<and> s' = s\<lparr>code_curr := rest\<rparr>)"
proof (induction n arbitrary: s)
  case (Suc n)
  obtain rest code l where r: "leb128_get_unsigned (code_curr s) = (rest, code, l :: u32)"
    by (metis prod_cases3)
  show ?case
    by (auto simp: res_simps br_table_label_Some Suc.IH r split: if_splits)
qed auto

lemma br_table_labels_None:
  "br_table_labels op_begin (Suc n) None s = Inr (e, s') \<longleftrightarrow>
     (\<exists>l ls rest. read_labels (Suc n) (code_curr s) = Some (l # ls, rest) \<and>
        (\<forall>l' \<in> set (l # ls). unat l' < length (control_flow_stack s) \<and>
           get_sig (control_flow_stack s ! unat l') = get_sig (control_flow_stack s ! unat l)) \<and>
        e = Some (l, get_sig (control_flow_stack s ! unat l)) \<and> s' = s\<lparr>code_curr := rest\<rparr>)"
proof -
  obtain rest code l where r: "leb128_get_unsigned (code_curr s) = (rest, code, l :: u32)"
    by (metis prod_cases3)
  show ?thesis
    by (auto simp: res_simps br_table_label_None br_table_labels_Some r split: if_splits)
qed

lemma br_table_labels_last:
  "bindE (br_table_labels op_begin n e s) (\<lambda>(e, s). bindE (br_table_label op_begin e s) k) =
   bindE (br_table_labels op_begin (Suc n) e s) k"
proof (induction n arbitrary: e s)
  case 0
  show ?case by (cases "br_table_label op_begin e s") auto
next
  case (Suc n)
  show ?case
    by (cases "br_table_label op_begin e s") (auto simp: Suc.IH simp del: br_table_labels.simps(2) simp: br_table_labels.simps(2) [of _ n] br_table_labels.simps(2) [of _ "Suc n"])
qed

section \<open>Branch tables\<close>

definition br_table_tail :: "byte list \<Rightarrow> br_sig \<Rightarrow> vstate \<Rightarrow> vstate vres" where
  "br_table_tail op_begin expected s =
     (let (expected_label, expected_arity, expected_type) = the expected;
          overflows = is_size_max expected_arity;
          required_stack_size = (if overflows then size_max else expected_arity + 1) in
      bindE (throw_if (\<not> is_polymorphic s \<and> (overflows \<or> concrete_operand_count s < required_stack_size))
               (report_operand_stack_underflow op_begin ''br_table'' required_stack_size s)) (\<lambda>_.
      let (idx, s) = try_pop_concrete_operand s in
      bindE (throw_if (operand_mismatch idx i32)
               (verr op_begin (br_cond_type_not_i32 ''br_table'' (concrete_type idx)) parse_invalid)) (\<lambda>_.
      bindE (if expected_arity \<noteq> 0
             then check_br_table_values op_begin expected_type (operand_stack s)
                    (min (concrete_operand_count s) expected_arity)
             else Inr ()) (\<lambda>_.
      enter_polymorphic (pop_available_concrete_operands expected_arity s)))))"

lemma validate_br_table_split:
  "validate_br_table s =
     bindE (read_u32 (code_curr s) invalid_label_index (advance s)) (\<lambda>(n, s1).
     let r = length (code_curr s1) in
     bindE (throw_if (is_size_max (unat n) \<or> r = 0 \<or> unat n \<ge> r)
              (verr (code_curr s) (br_table_target_count_exceeds_remaining_bytes n r
                 (if r = 0 then 0 else r - 1)) parse_invalid)) (\<lambda>_.
     bindE (br_table_labels (code_curr s) (Suc (unat n)) None s1) (\<lambda>(e, s1). br_table_tail (code_curr s) e s1)))"
  unfolding validate_br_table_def br_table_tail_def br_table_labels_last [symmetric] Let_def ..

lemma check_br_table_values_iff:
  "check_br_table_values op_begin t ops n = Inr u \<longleftrightarrow>
     n \<le> length ops \<and> (\<forall>v \<in> set (take n ops). operand_type v = t)"
  by (induction op_begin t ops n rule: check_br_table_values.induct) auto

text \<open>The value test of \<^verbatim>\<open>br_table\<close> holds of an operand that fits and is not unknown.\<close>

lemma br_table_values_region:
  assumes "region_ok (is_polymorphic s) (frame_ops s)" and "length ts \<le> 1" and "vt_none \<notin> set ts"
    and "\<not> underflows (length ts) s"
  shows "(if length ts \<noteq> 0
          then check_br_table_values op_begin (case ts of [] \<Rightarrow> vt_none | t # _ \<Rightarrow> t) (operand_stack s)
                 (min (concrete_operand_count s) (length ts)) = Inr u
          else True) \<longleftrightarrow>
     pop_types (is_polymorphic s) (rev ts) (frame_ops s) \<noteq> None \<and>
     (\<forall>v \<in> set (take (length ts) (frame_ops s)). \<not> is_unknown v)"
proof (cases ts)
  case (Cons t us)
  with assms(2) have [simp]: "ts = [t]" by simp
  show ?thesis
  proof (cases "frame_ops s")
    case Nil
    then show ?thesis using assms(4) by (simp add: underflows_frame pop_types_Cons)
  next
    case (Cons v ops)
    with assms(1,3) show ?thesis
      by (auto simp: check_br_table_values_iff pop_types_Cons operand_stack_split [of s] operand_fits_def split: if_splits)
  qed
qed simp

lemma br_table_tail_iff:
  assumes "frame_ok s" and "control_flow_stack s \<noteq> []" and reg: "region_ok (is_polymorphic s) (frame_ops s)"
    and small: "length (label_types f) \<le> 1" and "vt_none \<notin> set (label_types f)"
  shows "br_table_tail op_begin (Some (l, get_sig f)) s = Inr s' \<longleftrightarrow>
     jump_step (label_types f @ [i32]) (code_curr s) s s' \<and>
     (\<forall>v \<in> set (take (length (label_types f)) (tl (frame_ops s))). \<not> is_unknown v)"
proof (cases "underflows (Suc (length (label_types f))) s")
  case True
  have "length (label_types f) \<noteq> size_max" using small by (auto simp: size_max_def)
  with True show ?thesis using jump_step_underflow [of "label_types f @ [i32]"]
    by (auto simp: br_table_tail_def get_sig_arity underflows_frame split_def)
next
  case False
  let ?ts = "label_types f" and ?s1 = "with_ops (tl (frame_ops s)) s"
  have big: "length ?ts \<noteq> size_max" using small by (auto simp: size_max_def)
  have ne: "is_polymorphic s \<or> frame_ops s \<noteq> []" and under: "\<not> underflows (length ?ts) ?s1"
    using assms(1) False by (auto simp: underflows_frame)
  have "region_ok (is_polymorphic s) (tl (frame_ops s))"
    using region_ok_drop [OF reg, of 1] by (simp add: drop_Suc)
  with br_table_values_region [of ?s1 ?ts] assms under
  have vals: "(if length ?ts \<noteq> 0 then check_br_table_values op_begin (case ?ts of [] \<Rightarrow> vt_none | t # _ \<Rightarrow> t)
                (operand_stack ?s1) (min (concrete_operand_count ?s1) (length ?ts)) else Inr ()) = Inr () \<longleftrightarrow>
     pop_types (is_polymorphic s) (rev ?ts) (tl (frame_ops s)) \<noteq> None \<and>
     (\<forall>v \<in> set (take (length ?ts) (tl (frame_ops s))). \<not> is_unknown v)"
    by (cases "length ?ts = 0") auto
  have "enter_polymorphic (pop_available_concrete_operands n ?s1) = Inr s' \<longleftrightarrow>
        s' = (with_ops [] s)\<lparr>is_polymorphic := True\<rparr>" for n
    using assms(1,2) by (auto simp: pop_available_frame enter_polymorphic_frame)
  then have "br_table_tail op_begin (Some (l, get_sig f)) s = Inr s' \<longleftrightarrow>
     \<not> operand_mismatch (fst (try_pop_concrete_operand s)) i32 \<and>
     jump_step ?ts (code_curr s) ?s1 s' \<and> (\<forall>v \<in> set (take (length ?ts) (tl (frame_ops s))). \<not> is_unknown v)"
    using False big vals assms(1)
    unfolding br_table_tail_def Let_def split_def snd_try_pop [OF assms(1)] bindE_eq_Inr throw_if_eq_Inr
      option.sel snd_conv fst_conv get_sig_arity get_sig_type
    by (auto simp: underflows_frame jump_step_def)
  then show ?thesis using assms(1) ne by (auto simp: try_pop_mismatch jump_step_top)
qed

lemma validate_br_table_iff:
  assumes "frame_ok s" and "control_flow_stack s \<noteq> []" and reg: "region_ok (is_polymorphic s) (frame_ops s)"
    and small: "\<forall>f \<in> set (control_flow_stack s). length (block_result f) \<le> 1 \<and> vt_none \<notin> set (block_result f)"
  shows "validate_br_table s = Inr s' \<longleftrightarrow>
     (\<exists>(n :: u32) b ls rest ts. leb128_get_unsigned (tl (code_curr s)) = (b, parse_ok, n) \<and> unat n < length b \<and>
        read_labels (Suc (unat n)) b = Some (ls, rest) \<and>
        (\<forall>l \<in> set ls. unat l < length (control_flow_stack s) \<and> label_types (control_flow_stack s ! unat l) = ts) \<and>
        jump_step (ts @ [i32]) rest s s' \<and>
        (\<forall>v \<in> set (take (length ts) (tl (frame_ops s))). \<not> is_unknown v))"
    (is "_ \<longleftrightarrow> (\<exists>n b ls rest ts. ?P n b ls rest ts)")
proof -
  let ?cs = "control_flow_stack s"
  have frame: "length (label_types f) \<le> 1 \<and> vt_none \<notin> set (label_types f) \<and> length (block_result f) \<le> 1"
    if "f \<in> set ?cs" for f
    using small that by (auto simp: label_types_def)
  have sig: "get_sig (?cs ! i) = get_sig (?cs ! j) \<longleftrightarrow> label_types (?cs ! i) = label_types (?cs ! j)"
    if "i < length ?cs" "j < length ?cs" for i j
    using that frame by (simp add: get_sig_label_types)
  have sigs: "(\<forall>l' \<in> set (l # ls). unat l' < length ?cs \<and> get_sig (?cs ! unat l') = get_sig (?cs ! unat l)) \<longleftrightarrow>
              (\<forall>l' \<in> set (l # ls). unat l' < length ?cs \<and> label_types (?cs ! unat l') = label_types (?cs ! unat l))"
    for l :: u32 and ls
    by (meson list.set_intros(1) sig)
  have tail: "br_table_tail b (Some (l, get_sig (?cs ! i))) (s\<lparr>code_curr := rest\<rparr>) = Inr s' \<longleftrightarrow>
       jump_step (label_types (?cs ! i) @ [i32]) rest s s' \<and>
       (\<forall>v \<in> set (take (length (label_types (?cs ! i))) (tl (frame_ops s))). \<not> is_unknown v)"
    if "i < length ?cs" for b l i rest
    using br_table_tail_iff [of "s\<lparr>code_curr := rest\<rparr>" "?cs ! i"] frame [of "?cs ! i"] assms that
    by (simp add: jump_step_code)
  have "unat (n :: u32) \<noteq> size_max" for n
    using unsigned_less [of n, where ?'a = nat] by (simp add: size_max_def)
  then have "validate_br_table s = Inr s' \<longleftrightarrow>
    (\<exists>(n :: u32) b. leb128_get_unsigned (tl (code_curr s)) = (b, parse_ok, n) \<and> unat n < length b \<and>
       (\<exists>e s1. br_table_labels (code_curr s) (Suc (unat n)) None (s\<lparr>code_curr := b\<rparr>) = Inr (e, s1) \<and>
          br_table_tail (code_curr s) e s1 = Inr s'))"
    unfolding validate_br_table_split
    by (auto simp: bindE_eq_Inr read_u32_iff throw_if_eq_Inr Let_def advance_def not_le simp del: br_table_labels.simps)
  also have "\<dots> \<longleftrightarrow> (\<exists>n b l ls rest. ?P n b (l # ls) rest (label_types (?cs ! unat l)))"
    by (simp add: br_table_labels_None sigs del: br_table_labels.simps read_labels.simps set_simps ball_simps)
       (auto simp: tail simp del: read_labels.simps)
  also have "\<dots> \<longleftrightarrow> (\<exists>n b ls rest ts. ?P n b ls rest ts)"
  proof
    assume "\<exists>n b ls rest ts. ?P n b ls rest ts"
    then obtain n b ls rest ts where P: "?P n b ls rest ts" by blast
    then obtain l ls' where "ls = l # ls'"
      using length_read_labels [of "Suc (unat n)" b ls rest] by (cases ls) auto
    with P have "?P n b (l # ls') rest (label_types (?cs ! unat l))" by auto
    then show "\<exists>n b l ls rest. ?P n b (l # ls) rest (label_types (?cs ! unat l))" by blast
  qed blast
  finally show ?thesis .
qed

section \<open>Structured instructions\<close>

lemma read_block_type_iff [res_simps]:
  "read_block_type op_begin s = Inr (r, s') \<longleftrightarrow>
     (\<exists>b rest. code_curr s = b # rest \<and> block_result_of_byte b = Some r \<and> s' = s\<lparr>code_curr := rest\<rparr>)"
  by (auto simp: read_block_type_def split: list.splits option.splits)

lemma read_block_type_no_UB [res_simps]: "read_block_type op_begin s = Inl UB \<longleftrightarrow> False"
  by (simp add: read_block_type_def split: list.splits option.splits)

lemma block_result_of_byte_wf:
  "block_result_of_byte b = Some r \<Longrightarrow> length r \<le> 1 \<and> vt_none \<notin> set r"
  by (auto simp: block_result_of_byte_def split: if_splits)

lemma validate_block_iff:
  "validate_block s = Inr s' \<longleftrightarrow>
     (\<exists>b rest r. tl (code_curr s) = b # rest \<and> block_result_of_byte b = Some r \<and>
        s' = push_frame bt_block r (s\<lparr>code_curr := rest\<rparr>))"
  by (auto simp: handler_defs res_simps Let_def advance_def)

lemma validate_loop_op_iff:
  "validate_loop_op s = Inr s' \<longleftrightarrow>
     (\<exists>b rest r. tl (code_curr s) = b # rest \<and> block_result_of_byte b = Some r \<and>
        s' = push_frame bt_loop r (s\<lparr>code_curr := rest\<rparr>))"
  by (auto simp: handler_defs res_simps Let_def advance_def)

lemma validate_if_iff:
  assumes "frame_ok s"
  shows "validate_if s = Inr s' \<longleftrightarrow>
     (\<exists>b rest r s1. tl (code_curr s) = b # rest \<and> block_result_of_byte b = Some r \<and>
        arrow_step [i32] [] rest s s1 \<and> s' = push_frame bt_if r s1)"
  using assms
  by (cases "frame_ops s") (auto simp: handler_defs res_simps pop_simps arrow_step_def)

lemma check_frame_result_iff:
  assumes "frame_ok s" and "control_flow_stack s = f # fs"
  shows "check_frame_result mk f s = Inr u \<longleftrightarrow>
     pop_types (is_polymorphic s) (rev (block_result f)) (frame_ops s) = Some []"
proof -
  have c: "(if length (operand_stack s) \<ge> operand_stack_base f
            then length (operand_stack s) - operand_stack_base f else 0) = length (frame_ops s)"
    using assms concrete_count_frame [of s]
    by (simp add: concrete_operand_count_def curr_frame_operand_stack_base_def Let_def del: concrete_count_frame)
  show ?thesis
    unfolding check_frame_result_def Let_def c
    using take_zip_frame [of s "rev (block_result f)"] concrete_le_stack [of s]
    by (auto simp: res_simps check_operand_types_iff pop_types_def min_def split: if_splits)
qed

lemma check_frame_result_no_UB:
  assumes "frame_ok s" and "control_flow_stack s = f # fs"
  shows "check_frame_result mk f s \<noteq> Inl UB"
proof -
  have "(if length (operand_stack s) \<ge> operand_stack_base f
         then length (operand_stack s) - operand_stack_base f else 0) \<le> length (operand_stack s)"
    by simp
  then show ?thesis
    by (auto simp: check_frame_result_def Let_def res_simps check_operand_types_no_UB min.coboundedI1)
qed

lemma truncate_innermost:
  assumes "frame_ok s" and "control_flow_stack s = f # fs"
  shows "truncate_operands (operand_stack_base f) s = with_ops [] s"
  using truncate_frame [OF assms(1)] assms(2) by (simp add: curr_frame_operand_stack_base_def)

lemma validate_else_iff:
  assumes "frame_ok s" and "control_flow_stack s = f # fs"
  shows "validate_else s = Inr s' \<longleftrightarrow>
     block_kind f = bt_if \<and> pop_types (is_polymorphic s) (rev (block_result f)) (frame_ops s) = Some [] \<and>
     s' = s\<lparr>code_curr := tl (code_curr s), operand_stack := below_ops s, is_polymorphic := False,
            control_flow_stack := f\<lparr>block_kind := bt_else\<rparr> # fs\<rparr>"
  using assms check_frame_result_iff [of "advance s" f fs] truncate_innermost [of "advance s" f fs]
  by (auto simp: handler_defs res_simps Let_def with_ops_def advance_def)

text \<open>The state after \<open>end\<close>: the frame is gone and its results are pushed.\<close>

definition pop_frame :: "block_t \<Rightarrow> block_t list \<Rightarrow> vstate \<Rightarrow> vstate" where
  "pop_frame f fs s =
     s\<lparr>code_curr := tl (code_curr s), control_flow_stack := fs,
       operand_stack := map known (rev (block_result f)) @ below_ops s, is_polymorphic := polymorphic_base f\<rparr>"

lemma validate_end_iff:
  assumes "frame_ok s" and "control_flow_stack s = f # fs"
  shows "validate_end s = Inr r \<longleftrightarrow>
     (block_kind f = bt_if \<longrightarrow> block_result f = []) \<and>
     pop_types (is_polymorphic s) (rev (block_result f)) (frame_ops s) = Some [] \<and>
     (if block_kind f = bt_function then tl (code_curr s) = [] \<and> r = Return (pop_frame f fs s)
      else r = Break (pop_frame f fs s))"
proof -
  have after: "(push_operands (block_result f) (truncate_operands (operand_stack_base f) (advance s)))
        \<lparr>is_polymorphic := polymorphic_base f, control_flow_stack := fs\<rparr> = pop_frame f fs s"
    using assms truncate_innermost [of "advance s" f fs]
    by (simp add: push_operands_frame) (simp add: pop_frame_def with_ops_def advance_def)
  have code: "code_curr (pop_frame f fs s) = tl (code_curr s)" by (simp add: pop_frame_def)
  show ?thesis
    unfolding validate_end_def Let_def using assms check_frame_result_iff [of "advance s" f fs]
    by (auto simp: after code res_simps vec_simps)
qed

section \<open>Select\<close>

text \<open>The operand \<open>select\<close> pushes, given the operands of the frame with the condition on top.\<close>

definition select_result :: "operand_stack_storage_t list \<Rightarrow> operand_stack_storage_t" where
  "select_result ops =
     (case ops of
        _ # v2 # v1 # _ \<Rightarrow> if is_unknown v1 then v2 else v1
      | [_, v2] \<Rightarrow> v2
      | _ \<Rightarrow> unknown_operand)"

lemma unknown_region: "region_ok p (v # ops) \<Longrightarrow> is_unknown v \<Longrightarrow> v = unknown_operand"
  by (cases v) auto

lemma known_region: "\<not> is_unknown v \<Longrightarrow> known (operand_type v) = v"
  by (cases v) auto

lemma validate_select_iff:
  assumes "frame_ok s" and "region_ok (is_polymorphic s) (frame_ops s)"
  shows "validate_select s = Inr s' \<longleftrightarrow>
     (\<exists>t. t \<noteq> vt_none \<and> pop_types (is_polymorphic s) [i32, t, t] (frame_ops s) \<noteq> None) \<and>
     s' = (with_ops (select_result (frame_ops s) # drop 3 (frame_ops s)) s)\<lparr>code_curr := tl (code_curr s)\<rparr>"
proof (cases "underflows 3 s")
  case True
  then show ?thesis by (auto simp: handler_defs pop_types_def underflows_frame advance_def)
next
  case False
  have some: "\<exists>t. t \<noteq> vt_none" by (rule exI [of _ i32]) simp
  consider "frame_ops s = []" "is_polymorphic s" | c where "frame_ops s = [c]" "is_polymorphic s"
    | c v2 where "frame_ops s = [c, v2]" "is_polymorphic s" | c v2 v1 ops where "frame_ops s = c # v2 # v1 # ops"
    using False by (auto simp: underflows_frame numeral_3_eq_3 not_less Suc_le_length_iff) (metis neq_Nil_conv)
  then show ?thesis
  proof cases
    case 1
    then have "operand_stack s = below_ops s" by (simp add: operand_stack_split [of s])
    with 1 assms some show ?thesis
      by (auto simp: handler_defs res_simps pop_simps select_result_def with_ops_def)
  next
    case 2
    with assms some show ?thesis
      by (auto simp: handler_defs res_simps pop_simps select_result_def)
  next
    case 3
    with assms some show ?thesis
      by (cases "is_unknown v2") (auto simp: handler_defs res_simps pop_simps select_result_def known_region)
  next
    case 4
    with assms some show ?thesis
      by (cases "is_unknown v2"; cases "is_unknown v1")
         (auto simp: handler_defs res_simps pop_simps select_result_def known_region)
  qed
qed

end
