(* ===== verification/Validator.thy ===== *)
theory Validator
  imports Validator_Block_Steps
begin

text \<open>
  The switch of \<open>validate_code\<close>, its loop and the function itself. The numeric, load and store
  cases, which differ in their operands only, are tables from opcode byte to the arguments of
  the lambda that the case calls; the remaining cases select their handler.
\<close>

section \<open>Opcode tables\<close>

datatype numeric_shape = Unary | Binary

definition load_cases :: "(byte \<times> string \<times> u32 \<times> value_type) list" where
  "load_cases =
    [(0x28, (''i32.load'', 2, i32)),
     (0x29, (''i64.load'', 3, i64)),
     (0x2a, (''f32.load'', 2, f32)),
     (0x2b, (''f64.load'', 3, f64)),
     (0x2c, (''i32.load8_s'', 0, i32)),
     (0x2d, (''i32.load8_u'', 0, i32)),
     (0x2e, (''i32.load16_s'', 1, i32)),
     (0x2f, (''i32.load16_u'', 1, i32)),
     (0x30, (''i64.load8_s'', 0, i64)),
     (0x31, (''i64.load8_u'', 0, i64)),
     (0x32, (''i64.load16_s'', 1, i64)),
     (0x33, (''i64.load16_u'', 1, i64)),
     (0x34, (''i64.load32_s'', 2, i64)),
     (0x35, (''i64.load32_u'', 2, i64))]"

definition store_cases :: "(byte \<times> string \<times> u32 \<times> value_type) list" where
  "store_cases =
    [(0x36, (''i32.store'', 2, i32)),
     (0x37, (''i64.store'', 3, i64)),
     (0x38, (''f32.store'', 2, f32)),
     (0x39, (''f64.store'', 3, f64)),
     (0x3a, (''i32.store8'', 0, i32)),
     (0x3b, (''i32.store16'', 1, i32)),
     (0x3c, (''i64.store8'', 0, i64)),
     (0x3d, (''i64.store16'', 1, i64)),
     (0x3e, (''i64.store32'', 2, i64))]"

definition i32_compare_cases :: "(byte \<times> string \<times> numeric_shape \<times> value_type \<times> value_type) list" where
  "i32_compare_cases =
    [(0x45, (''i32.eqz'', Unary, i32, i32)),
     (0x46, (''i32.eq'', Binary, i32, i32)),
     (0x47, (''i32.ne'', Binary, i32, i32)),
     (0x48, (''i32.lt_s'', Binary, i32, i32)),
     (0x49, (''i32.lt_u'', Binary, i32, i32)),
     (0x4a, (''i32.gt_s'', Binary, i32, i32)),
     (0x4b, (''i32.gt_u'', Binary, i32, i32)),
     (0x4c, (''i32.le_s'', Binary, i32, i32)),
     (0x4d, (''i32.le_u'', Binary, i32, i32)),
     (0x4e, (''i32.ge_s'', Binary, i32, i32)),
     (0x4f, (''i32.ge_u'', Binary, i32, i32))]"

definition i64_compare_cases :: "(byte \<times> string \<times> numeric_shape \<times> value_type \<times> value_type) list" where
  "i64_compare_cases =
    [(0x50, (''i64.eqz'', Unary, i64, i32)),
     (0x51, (''i64.eq'', Binary, i64, i32)),
     (0x52, (''i64.ne'', Binary, i64, i32)),
     (0x53, (''i64.lt_s'', Binary, i64, i32)),
     (0x54, (''i64.lt_u'', Binary, i64, i32)),
     (0x55, (''i64.gt_s'', Binary, i64, i32)),
     (0x56, (''i64.gt_u'', Binary, i64, i32)),
     (0x57, (''i64.le_s'', Binary, i64, i32)),
     (0x58, (''i64.le_u'', Binary, i64, i32)),
     (0x59, (''i64.ge_s'', Binary, i64, i32)),
     (0x5a, (''i64.ge_u'', Binary, i64, i32))]"

definition float_compare_cases :: "(byte \<times> string \<times> numeric_shape \<times> value_type \<times> value_type) list" where
  "float_compare_cases =
    [(0x5b, (''f32.eq'', Binary, f32, i32)),
     (0x5c, (''f32.ne'', Binary, f32, i32)),
     (0x5d, (''f32.lt'', Binary, f32, i32)),
     (0x5e, (''f32.gt'', Binary, f32, i32)),
     (0x5f, (''f32.le'', Binary, f32, i32)),
     (0x60, (''f32.ge'', Binary, f32, i32)),
     (0x61, (''f64.eq'', Binary, f64, i32)),
     (0x62, (''f64.ne'', Binary, f64, i32)),
     (0x63, (''f64.lt'', Binary, f64, i32)),
     (0x64, (''f64.gt'', Binary, f64, i32)),
     (0x65, (''f64.le'', Binary, f64, i32)),
     (0x66, (''f64.ge'', Binary, f64, i32))]"

definition i32_arith_cases :: "(byte \<times> string \<times> numeric_shape \<times> value_type \<times> value_type) list" where
  "i32_arith_cases =
    [(0x67, (''i32.clz'', Unary, i32, i32)),
     (0x68, (''i32.ctz'', Unary, i32, i32)),
     (0x69, (''i32.popcnt'', Unary, i32, i32)),
     (0x6a, (''i32.add'', Binary, i32, i32)),
     (0x6b, (''i32.sub'', Binary, i32, i32)),
     (0x6c, (''i32.mul'', Binary, i32, i32)),
     (0x6d, (''i32.div_s'', Binary, i32, i32)),
     (0x6e, (''i32.div_u'', Binary, i32, i32)),
     (0x6f, (''i32.rem_s'', Binary, i32, i32)),
     (0x70, (''i32.rem_u'', Binary, i32, i32)),
     (0x71, (''i32.and'', Binary, i32, i32)),
     (0x72, (''i32.or'', Binary, i32, i32)),
     (0x73, (''i32.xor'', Binary, i32, i32)),
     (0x74, (''i32.shl'', Binary, i32, i32)),
     (0x75, (''i32.shr_s'', Binary, i32, i32)),
     (0x76, (''i32.shr_u'', Binary, i32, i32)),
     (0x77, (''i32.rotl'', Binary, i32, i32)),
     (0x78, (''i32.rotr'', Binary, i32, i32))]"

definition i64_arith_cases :: "(byte \<times> string \<times> numeric_shape \<times> value_type \<times> value_type) list" where
  "i64_arith_cases =
    [(0x79, (''i64.clz'', Unary, i64, i64)),
     (0x7a, (''i64.ctz'', Unary, i64, i64)),
     (0x7b, (''i64.popcnt'', Unary, i64, i64)),
     (0x7c, (''i64.add'', Binary, i64, i64)),
     (0x7d, (''i64.sub'', Binary, i64, i64)),
     (0x7e, (''i64.mul'', Binary, i64, i64)),
     (0x7f, (''i64.div_s'', Binary, i64, i64)),
     (0x80, (''i64.div_u'', Binary, i64, i64)),
     (0x81, (''i64.rem_s'', Binary, i64, i64)),
     (0x82, (''i64.rem_u'', Binary, i64, i64)),
     (0x83, (''i64.and'', Binary, i64, i64)),
     (0x84, (''i64.or'', Binary, i64, i64)),
     (0x85, (''i64.xor'', Binary, i64, i64)),
     (0x86, (''i64.shl'', Binary, i64, i64)),
     (0x87, (''i64.shr_s'', Binary, i64, i64)),
     (0x88, (''i64.shr_u'', Binary, i64, i64)),
     (0x89, (''i64.rotl'', Binary, i64, i64)),
     (0x8a, (''i64.rotr'', Binary, i64, i64))]"

definition f32_arith_cases :: "(byte \<times> string \<times> numeric_shape \<times> value_type \<times> value_type) list" where
  "f32_arith_cases =
    [(0x8b, (''f32.abs'', Unary, f32, f32)),
     (0x8c, (''f32.neg'', Unary, f32, f32)),
     (0x8d, (''f32.ceil'', Unary, f32, f32)),
     (0x8e, (''f32.floor'', Unary, f32, f32)),
     (0x8f, (''f32.trunc'', Unary, f32, f32)),
     (0x90, (''f32.nearest'', Unary, f32, f32)),
     (0x91, (''f32.sqrt'', Unary, f32, f32)),
     (0x92, (''f32.add'', Binary, f32, f32)),
     (0x93, (''f32.sub'', Binary, f32, f32)),
     (0x94, (''f32.mul'', Binary, f32, f32)),
     (0x95, (''f32.div'', Binary, f32, f32)),
     (0x96, (''f32.min'', Binary, f32, f32)),
     (0x97, (''f32.max'', Binary, f32, f32)),
     (0x98, (''f32.copysign'', Binary, f32, f32))]"

definition f64_arith_cases :: "(byte \<times> string \<times> numeric_shape \<times> value_type \<times> value_type) list" where
  "f64_arith_cases =
    [(0x99, (''f64.abs'', Unary, f64, f64)),
     (0x9a, (''f64.neg'', Unary, f64, f64)),
     (0x9b, (''f64.ceil'', Unary, f64, f64)),
     (0x9c, (''f64.floor'', Unary, f64, f64)),
     (0x9d, (''f64.trunc'', Unary, f64, f64)),
     (0x9e, (''f64.nearest'', Unary, f64, f64)),
     (0x9f, (''f64.sqrt'', Unary, f64, f64)),
     (0xa0, (''f64.add'', Binary, f64, f64)),
     (0xa1, (''f64.sub'', Binary, f64, f64)),
     (0xa2, (''f64.mul'', Binary, f64, f64)),
     (0xa3, (''f64.div'', Binary, f64, f64)),
     (0xa4, (''f64.min'', Binary, f64, f64)),
     (0xa5, (''f64.max'', Binary, f64, f64)),
     (0xa6, (''f64.copysign'', Binary, f64, f64))]"

definition conversion_cases :: "(byte \<times> string \<times> numeric_shape \<times> value_type \<times> value_type) list" where
  "conversion_cases =
    [(0xa7, (''i32.wrap_i64'', Unary, i64, i32)),
     (0xa8, (''i32.trunc_f32_s'', Unary, f32, i32)),
     (0xa9, (''i32.trunc_f32_u'', Unary, f32, i32)),
     (0xaa, (''i32.trunc_f64_s'', Unary, f64, i32)),
     (0xab, (''i32.trunc_f64_u'', Unary, f64, i32)),
     (0xac, (''i64.extend_i32_s'', Unary, i32, i64)),
     (0xad, (''i64.extend_i32_u'', Unary, i32, i64)),
     (0xae, (''i64.trunc_f32_s'', Unary, f32, i64)),
     (0xaf, (''i64.trunc_f32_u'', Unary, f32, i64)),
     (0xb0, (''i64.trunc_f64_s'', Unary, f64, i64)),
     (0xb1, (''i64.trunc_f64_u'', Unary, f64, i64)),
     (0xb2, (''f32.convert_i32_s'', Unary, i32, f32)),
     (0xb3, (''f32.convert_i32_u'', Unary, i32, f32)),
     (0xb4, (''f32.convert_i64_s'', Unary, i64, f32)),
     (0xb5, (''f32.convert_i64_u'', Unary, i64, f32)),
     (0xb6, (''f32.demote_f64'', Unary, f64, f32)),
     (0xb7, (''f64.convert_i32_s'', Unary, i32, f64)),
     (0xb8, (''f64.convert_i32_u'', Unary, i32, f64)),
     (0xb9, (''f64.convert_i64_s'', Unary, i64, f64)),
     (0xba, (''f64.convert_i64_u'', Unary, i64, f64)),
     (0xbb, (''f64.promote_f32'', Unary, f32, f64)),
     (0xbc, (''i32.reinterpret_f32'', Unary, f32, i32)),
     (0xbd, (''i64.reinterpret_f64'', Unary, f64, i64)),
     (0xbe, (''f32.reinterpret_i32'', Unary, i32, f32)),
     (0xbf, (''f64.reinterpret_i64'', Unary, i64, f64))]"

section \<open>The switch\<close>

definition control_handler :: "func_ctx \<Rightarrow> byte \<Rightarrow> (vstate \<Rightarrow> vstate vres) option" where
  "control_handler c b =
     (if b = 0x00 then Some validate_unreachable
      else if b = 0x01 then Some validate_nop
      else if b = 0x02 then Some validate_block
      else if b = 0x03 then Some validate_loop_op
      else if b = 0x04 then Some validate_if
      else if b = 0x05 then Some validate_else
      else if b = 0x0c then Some validate_br
      else if b = 0x0d then Some validate_br_if
      else if b = 0x0e then Some validate_br_table
      else if b = 0x0f then Some validate_return
      else if b = 0x10 then Some (validate_call (module_of c))
      else if b = 0x11 then Some (validate_call_indirect (module_of c))
      else None)"

definition variable_handler :: "func_ctx \<Rightarrow> byte \<Rightarrow> (vstate \<Rightarrow> vstate vres) option" where
  "variable_handler c b =
     (if b = 0x1a then Some validate_drop
      else if b = 0x1b then Some validate_select
      else if b = 0x20 then Some (validate_local_get c)
      else if b = 0x21 then Some (validate_local_set c)
      else if b = 0x22 then Some (validate_local_tee c)
      else if b = 0x23 then Some (validate_global_get (module_of c))
      else if b = 0x24 then Some (validate_global_set (module_of c))
      else None)"

definition memory_handler :: "func_ctx \<Rightarrow> byte \<Rightarrow> (vstate \<Rightarrow> vstate vres) option" where
  "memory_handler c b =
     (case map_of load_cases b of
        Some (n, a, t) \<Rightarrow> Some (validate_mem_load (module_of c) n a t)
      | None \<Rightarrow>
     (case map_of store_cases b of
        Some (n, a, t) \<Rightarrow> Some (validate_mem_store (module_of c) n a t)
      | None \<Rightarrow>
      if b = 0x3f then Some (validate_memory_size (module_of c))
      else if b = 0x40 then Some (validate_memory_grow (module_of c))
      else None))"

definition const_handler :: "byte \<Rightarrow> (vstate \<Rightarrow> vstate vres) option" where
  "const_handler b =
     (if b = 0x41 then Some validate_i32_const
      else if b = 0x42 then Some validate_i64_const
      else if b = 0x43 then Some validate_f32_const
      else if b = 0x44 then Some validate_f64_const
      else None)"

definition numeric_cases :: "(byte \<times> string \<times> numeric_shape \<times> value_type \<times> value_type) list" where
  "numeric_cases = i32_compare_cases @ i64_compare_cases @ float_compare_cases @ i32_arith_cases @
     i64_arith_cases @ f32_arith_cases @ f64_arith_cases @ conversion_cases"

definition numeric_handler :: "byte \<Rightarrow> (vstate \<Rightarrow> vstate vres) option" where
  "numeric_handler b =
     (case map_of numeric_cases b of
        Some (n, Unary, t, r) \<Rightarrow> Some (validate_numeric_unary n t r)
      | Some (n, Binary, t, r) \<Rightarrow> Some (validate_numeric_binary n t r)
      | None \<Rightarrow> None)"

definition opcode_handler :: "func_ctx \<Rightarrow> byte \<Rightarrow> (vstate \<Rightarrow> vstate vres) option" where
  "opcode_handler c b =
     (case control_handler c b of Some h \<Rightarrow> Some h | None \<Rightarrow>
     (case variable_handler c b of Some h \<Rightarrow> Some h | None \<Rightarrow>
     (case memory_handler c b of Some h \<Rightarrow> Some h | None \<Rightarrow>
     (case const_handler b of Some h \<Rightarrow> Some h | None \<Rightarrow> numeric_handler b))))"

text \<open>One iteration of the loop.\<close>

definition validate_op :: "func_ctx \<Rightarrow> vstate \<Rightarrow> flow vres" where
  "validate_op c s =
     (case code_curr s of
        [] \<Rightarrow> Inl (Throw (verr (code_curr s) missing_end parse_invalid))
      | curr_opbase # _ \<Rightarrow>
          if curr_opbase = 0x0b then validate_end s
          else (case opcode_handler c curr_opbase of
                  Some h \<Rightarrow> bindE (h s) (\<lambda>s'. Inr (Break s'))
                | None \<Rightarrow> Inl (Throw (verr (code_curr s) (illegal_opbase curr_opbase) parse_invalid))))"

section \<open>Every iteration consumes code\<close>

named_theorems code_simps

lemma code_curr_lambdas [code_simps]:
  "code_curr (snd (try_pop_concrete_operand s)) = code_curr s"
  "code_curr (push_operand t s) = code_curr s"
  "code_curr (truncate_operands n s) = code_curr s"
  "code_curr (advance s) = tl (code_curr s)"
  "code_curr (push_frame k r s) = code_curr s"
  by (simp_all add: try_pop_concrete_operand_def push_operand_def truncate_operands_def advance_def
        push_frame_def Let_def)

lemma code_curr_pop_available [code_simps]: "code_curr (pop_available_concrete_operands n s) = code_curr s"
  by (induction n arbitrary: s) auto

lemma code_curr_push_operands [code_simps]: "code_curr (push_operands ts s) = code_curr s"
  by (induction ts arbitrary: s) (simp_all add: code_simps)

lemma code_curr_enter_polymorphic [code_simps]: "enter_polymorphic s = Inr s' \<Longrightarrow> code_curr s' = code_curr s"
  by (auto simp: enter_polymorphic_def res_simps code_simps)

lemma code_curr_apply_callee [code_simps]: "apply_callee b n ft s = Inr s' \<Longrightarrow> code_curr s' = code_curr s"
  by (auto simp: apply_callee_def res_simps code_simps Let_def)

lemma read_u32_suffix: "read_u32 b e s = Inr (v, s') \<Longrightarrow> suffix (code_curr s') (code_curr s)"
  by (auto simp: read_u32_iff dest: leb_u32.scan_suffix)

lemma read_label_suffix: "read_label b s = Inr (f, s') \<Longrightarrow> suffix (code_curr s') (code_curr s)"
  by (auto simp: read_label_iff dest: leb_u32.scan_suffix)

lemma read_block_type_suffix: "read_block_type b s = Inr (r, s') \<Longrightarrow> suffix (code_curr s') (code_curr s)"
  by (auto simp: read_block_type_iff suffix_def)

lemma read_memory_index_suffix: "read_memory_index m b n s = Inr s' \<Longrightarrow> suffix (code_curr s') (code_curr s)"
  by (auto simp: read_memory_index_iff suffix_def)

lemma read_labels_suffix: "read_labels n b = Some (ls, rest) \<Longrightarrow> suffix rest b"
proof (induction n arbitrary: b ls)
  case (Suc n)
  then show ?case
    by (auto split: prod.splits if_splits) (meson leb_u32.scan_suffix suffix_order.trans)
qed simp

definition consumes :: "(vstate \<Rightarrow> vstate vres) \<Rightarrow> bool" where
  "consumes h \<longleftrightarrow> (\<forall>s s'. h s = Inr s' \<longrightarrow> suffix (code_curr s') (tl (code_curr s)))"

lemma consumesI: "(\<And>s s'. h s = Inr s' \<Longrightarrow> suffix (code_curr s') (tl (code_curr s))) \<Longrightarrow> consumes h"
  by (simp add: consumes_def)

lemma suffix_tlI: "suffix xs ys \<Longrightarrow> suffix (tl xs) ys"
  by (metis suffix_order.trans suffix_tl)

lemma consumes_plain:
  "consumes validate_unreachable" "consumes validate_nop" "consumes validate_drop" "consumes validate_select"
  "consumes (validate_numeric_unary n t r)" "consumes (validate_numeric_binary n t r)"
  "consumes validate_return" "consumes validate_else"
  "consumes validate_f32_const" "consumes validate_f64_const"
  by (rule consumesI; auto simp: handler_defs Let_def split_def res_simps code_simps suffix_drop
        split: list.splits if_splits dest: code_curr_enter_polymorphic)+

lemma consumes_const: "consumes validate_i32_const" "consumes validate_i64_const"
  by (rule consumesI; auto simp: handler_defs Let_def split_def code_simps prod_eq_iff split: if_splits
        dest!: leb_s32.scan_suffix leb_s64.scan_suffix
        intro: leb_s32.scan_suffix leb_s64.scan_suffix)+

lemma consumes_memory:
  "consumes (validate_mem_load m n a t)" "consumes (validate_mem_store m n a t)"
  "consumes (validate_memory_size m)" "consumes (validate_memory_grow m)"
  by (rule consumesI; auto simp: handler_defs Let_def split_def bindE_eq_Inr code_simps
        dest!: read_u32_suffix read_memory_index_suffix)+

lemma consumes_variable:
  "consumes (validate_local_get c)" "consumes (validate_local_set c)" "consumes (validate_local_tee c)"
  "consumes (validate_global_get m)" "consumes (validate_global_set m)"
  by (rule consumesI; auto simp: handler_defs Let_def split_def bindE_eq_Inr code_simps split: if_splits
        dest!: read_u32_suffix)+

lemma consumes_block: "consumes validate_block" "consumes validate_loop_op" "consumes validate_if"
  by (rule consumesI; auto simp: handler_defs Let_def split_def bindE_eq_Inr code_simps
        dest!: read_block_type_suffix)+

lemma consumes_branch: "consumes validate_br" "consumes validate_br_if"
  by (rule consumesI; auto simp: handler_defs Let_def split_def bindE_eq_Inr code_simps split: if_splits
        dest!: read_label_suffix code_curr_enter_polymorphic)+

lemma consumes_call: "consumes (validate_call m)" "consumes (validate_call_indirect m)"
  by (rule consumesI; auto simp: handler_defs Let_def split_def bindE_eq_Inr code_simps split: if_splits
        dest!: read_u32_suffix code_curr_apply_callee intro: suffix_tlI)+

lemma br_table_label_suffix:
  "br_table_label b e s = Inr (e', s') \<Longrightarrow> suffix (code_curr s') (code_curr s)"
  by (auto simp: br_table_label_def bindE_eq_Inr Let_def split_def split: option.splits dest!: read_u32_suffix)

lemma br_table_labels_suffix:
  "br_table_labels b n e s = Inr (e', s') \<Longrightarrow> suffix (code_curr s') (code_curr s)"
proof (induction n arbitrary: e s)
  case (Suc n)
  then show ?case
    by (auto simp: bindE_eq_Inr) (meson br_table_label_suffix suffix_order.trans)
qed simp

lemma consumes_br_table: "consumes validate_br_table"
proof (rule consumesI)
  fix s s' assume "validate_br_table s = Inr s'"
  then obtain n s1 e s2 where
    "read_u32 (code_curr s) invalid_label_index (advance s) = Inr (n, s1)"
    and "br_table_labels (code_curr s) (Suc (unat n)) None s1 = Inr (e, s2)"
    and "br_table_tail (code_curr s) e s2 = Inr s'"
    unfolding validate_br_table_split bindE_eq_Inr Let_def split_def by auto
  moreover from this(3) have "code_curr s' = code_curr s2"
    by (auto simp: br_table_tail_def Let_def split_def bindE_eq_Inr code_simps dest!: code_curr_enter_polymorphic)
  ultimately show "suffix (code_curr s') (tl (code_curr s))"
    by (metis advance_frame(7) br_table_labels_suffix read_u32_suffix suffix_order.trans)
qed

lemmas consumes_handlers = consumes_plain consumes_const consumes_memory consumes_variable consumes_block
  consumes_branch consumes_call consumes_br_table

lemma opcode_handler_consumes: "opcode_handler c b = Some h \<Longrightarrow> consumes h"
  by (auto simp: opcode_handler_def control_handler_def variable_handler_def memory_handler_def
        const_handler_def numeric_handler_def consumes_handlers
        split: if_splits option.splits prod.splits numeric_shape.splits)

lemma validate_end_code: "validate_end s = Inr (Break s') \<Longrightarrow> code_curr s' = tl (code_curr s)"
  by (auto simp: validate_end_def bindE_eq_Inr Let_def code_simps split: list.splits if_splits)

lemma validate_op_consumes:
  assumes "validate_op c s = Inr (Break s')"
  shows "\<exists>b bs. code_curr s = b # bs \<and> suffix (code_curr s') bs"
  using assms opcode_handler_consumes [of c "hd (code_curr s)"] validate_end_code [of s s']
  by (auto simp: validate_op_def bindE_eq_Inr consumes_def split: list.splits if_splits option.splits)
     (metis list.sel(3))

section \<open>The loop\<close>

function validate_loop :: "func_ctx \<Rightarrow> vstate \<Rightarrow> vstate vres" where
  "validate_loop c s =
     bindE (validate_op c s) (\<lambda>r. case r of Break s' \<Rightarrow> validate_loop c s' | Return s' \<Rightarrow> Inr s')"
  by pat_completeness auto
termination
  by (relation "measure (\<lambda>(c, s). length (code_curr s))")
     (auto dest!: validate_op_consumes suffix_length_le)

declare validate_loop.simps [simp del]

section \<open>The validator\<close>

definition initial_state :: "function_type \<Rightarrow> byte list \<Rightarrow> vstate" where
  "initial_state ft code =
     \<lparr>code_curr = code,
      control_flow_stack =
        [\<lparr>block_result = result ft, operand_stack_base = 0, block_kind = bt_function,
          polymorphic_base = False\<rparr>],
      operand_stack = [], is_polymorphic = False\<rparr>"

definition count_locals :: "function_type \<Rightarrow> local_entry list \<Rightarrow> u32" where
  "count_locals ft ls = fold (\<lambda>local_part n. n + count local_part) ls (of_nat (length (parameter ft)))"

definition validate_code :: "module_storage \<Rightarrow> nat \<Rightarrow> byte list \<Rightarrow> unit vres" where
  "validate_code m function_index code =
     (let import_func_count = length (imported_funcs m); local_func_count = length (funcs m) in
      bindE (throw_if (function_index < import_func_count)
               (verr code (not_local_function function_index) parse_invalid)) (\<lambda>_.
      let local_func_idx = function_index - import_func_count in
      bindE (throw_if (local_func_idx \<ge> local_func_count)
               (verr code (invalid_function_index function_index (import_func_count + local_func_count))
                  parse_invalid)) (\<lambda>_.
      bindE (index_unchecked (funcs m) local_func_idx) (\<lambda>ti.
      bindE (index_unchecked (types m) ti) (\<lambda>ft.
      bindE (index_unchecked (codes m) local_func_idx) (\<lambda>ls.
      let c = \<lparr>module_of = m, curr_func_type = ft, curr_code_locals = ls, all_local_count = count_locals ft ls\<rparr> in
      bindE (validate_loop c (initial_state ft code)) (\<lambda>_. Inr ())))))))"

end
