(* ===== verification/Wasm_Typing.thy ===== *)
theory Wasm_Typing
  imports Validator_State
begin

text \<open>
  The abstract specification of the code validator: WebAssembly 1.0 instructions, their binary
  grammar (chapter 5.4 of the specification) and the declarative typing rules (chapter 3.3). It
  does not mention the validator's stacks; the theorems that relate the two are in
  \<^verbatim>\<open>Validator_Sound\<close>.
\<close>

section \<open>Instructions\<close>

text \<open>
  Numeric, load and store instructions are named by their opcode byte; floating-point immediates
  are uninterpreted byte strings, since neither the grammar nor the typing looks into them.
\<close>

datatype (plugins only: code size) plain_instr =
    Unreachable
  | Nop
  | Br u32
  | Br_If u32
  | Br_Table "u32 list" u32
  | Return_Op
  | Call u32
  | Call_Indirect u32
  | Drop
  | Select
  | Local_Get u32
  | Local_Set u32
  | Local_Tee u32
  | Global_Get u32
  | Global_Set u32
  | Load byte u32 u32 \<comment> \<open>opcode, alignment exponent, offset\<close>
  | Store byte u32 u32
  | Memory_Size
  | Memory_Grow
  | I32_Const u32
  | I64_Const u64
  | F32_Const "byte list"
  | F64_Const "byte list"
  | Numeric byte

datatype instr =
    Plain plain_instr
  | Block "value_type list" "instr list"
  | Loop "value_type list" "instr list"
  | If "value_type list" "instr list" "instr list"

section \<open>Signatures by opcode\<close>

definition numeric_type :: "byte \<Rightarrow> (value_type list \<times> value_type) option" where
  "numeric_type b =
     (if b < 0x45 then None
      else if b = 0x45 then Some ([i32], i32)
      else if b \<le> 0x4f then Some ([i32, i32], i32)
      else if b = 0x50 then Some ([i64], i32)
      else if b \<le> 0x5a then Some ([i64, i64], i32)
      else if b \<le> 0x60 then Some ([f32, f32], i32)
      else if b \<le> 0x66 then Some ([f64, f64], i32)
      else if b \<le> 0x69 then Some ([i32], i32)
      else if b \<le> 0x78 then Some ([i32, i32], i32)
      else if b \<le> 0x7b then Some ([i64], i64)
      else if b \<le> 0x8a then Some ([i64, i64], i64)
      else if b \<le> 0x91 then Some ([f32], f32)
      else if b \<le> 0x98 then Some ([f32, f32], f32)
      else if b \<le> 0x9f then Some ([f64], f64)
      else if b \<le> 0xa6 then Some ([f64, f64], f64)
      else if b = 0xa7 then Some ([i64], i32)
      else if b \<le> 0xa9 then Some ([f32], i32)
      else if b \<le> 0xab then Some ([f64], i32)
      else if b \<le> 0xad then Some ([i32], i64)
      else if b \<le> 0xaf then Some ([f32], i64)
      else if b \<le> 0xb1 then Some ([f64], i64)
      else if b \<le> 0xb3 then Some ([i32], f32)
      else if b \<le> 0xb5 then Some ([i64], f32)
      else if b = 0xb6 then Some ([f64], f32)
      else if b \<le> 0xb8 then Some ([i32], f64)
      else if b \<le> 0xba then Some ([i64], f64)
      else if b = 0xbb then Some ([f32], f64)
      else if b = 0xbc then Some ([f32], i32)
      else if b = 0xbd then Some ([f64], i64)
      else if b = 0xbe then Some ([i32], f32)
      else if b = 0xbf then Some ([i64], f64)
      else None)"

text \<open>The value type and the width in bytes of the memory access of a load and of a store.\<close>

definition load_type :: "byte \<Rightarrow> (value_type \<times> nat) option" where
  "load_type b =
     (if b = 0x28 then Some (i32, 4) else if b = 0x29 then Some (i64, 8)
      else if b = 0x2a then Some (f32, 4) else if b = 0x2b then Some (f64, 8)
      else if b = 0x2c \<or> b = 0x2d then Some (i32, 1) else if b = 0x2e \<or> b = 0x2f then Some (i32, 2)
      else if b = 0x30 \<or> b = 0x31 then Some (i64, 1) else if b = 0x32 \<or> b = 0x33 then Some (i64, 2)
      else if b = 0x34 \<or> b = 0x35 then Some (i64, 4) else None)"

definition store_type :: "byte \<Rightarrow> (value_type \<times> nat) option" where
  "store_type b =
     (if b = 0x36 then Some (i32, 4) else if b = 0x37 then Some (i64, 8)
      else if b = 0x38 then Some (f32, 4) else if b = 0x39 then Some (f64, 8)
      else if b = 0x3a then Some (i32, 1) else if b = 0x3b then Some (i32, 2)
      else if b = 0x3c then Some (i64, 1) else if b = 0x3d then Some (i64, 2)
      else if b = 0x3e then Some (i64, 4) else None)"

text \<open>The opcodes of WebAssembly 1.0, \<open>else\<close> and \<open>end\<close> included.\<close>

definition wasm1_opcodes :: "nat list" where
  "wasm1_opcodes = [0x00..<0x06] @ [0x0b..<0x12] @ [0x1a, 0x1b] @ [0x20..<0x25] @ [0x28..<0xc0]"

section \<open>Binary grammar\<close>

inductive u32_vec :: "u32 list \<Rightarrow> byte list \<Rightarrow> bool" where
  u32_vec_Nil: "u32_vec [] []"
| u32_vec_Cons: "uN 32 b (unat l) \<Longrightarrow> u32_vec ls bs \<Longrightarrow> u32_vec (l # ls) (b @ bs)"

inductive plain_code :: "plain_instr \<Rightarrow> byte list \<Rightarrow> bool" where
  "plain_code Unreachable [0x00]"
| "plain_code Nop [0x01]"
| "uN 32 bs (unat l) \<Longrightarrow> plain_code (Br l) (0x0c # bs)"
| "uN 32 bs (unat l) \<Longrightarrow> plain_code (Br_If l) (0x0d # bs)"
| "uN 32 nb (length ls) \<Longrightarrow> u32_vec (ls @ [l]) vb \<Longrightarrow> plain_code (Br_Table ls l) (0x0e # nb @ vb)"
| "plain_code Return_Op [0x0f]"
| "uN 32 bs (unat x) \<Longrightarrow> plain_code (Call x) (0x10 # bs)"
| "uN 32 bs (unat x) \<Longrightarrow> plain_code (Call_Indirect x) (0x11 # bs @ [0x00])"
| "plain_code Drop [0x1a]"
| "plain_code Select [0x1b]"
| "uN 32 bs (unat x) \<Longrightarrow> plain_code (Local_Get x) (0x20 # bs)"
| "uN 32 bs (unat x) \<Longrightarrow> plain_code (Local_Set x) (0x21 # bs)"
| "uN 32 bs (unat x) \<Longrightarrow> plain_code (Local_Tee x) (0x22 # bs)"
| "uN 32 bs (unat x) \<Longrightarrow> plain_code (Global_Get x) (0x23 # bs)"
| "uN 32 bs (unat x) \<Longrightarrow> plain_code (Global_Set x) (0x24 # bs)"
| "load_type b \<noteq> None \<Longrightarrow> uN 32 ab (unat a) \<Longrightarrow> uN 32 ob (unat off) \<Longrightarrow> plain_code (Load b a off) (b # ab @ ob)"
| "store_type b \<noteq> None \<Longrightarrow> uN 32 ab (unat a) \<Longrightarrow> uN 32 ob (unat off) \<Longrightarrow> plain_code (Store b a off) (b # ab @ ob)"
| "plain_code Memory_Size [0x3f, 0x00]"
| "plain_code Memory_Grow [0x40, 0x00]"
| "sN 32 bs (sint n) \<Longrightarrow> plain_code (I32_Const n) (0x41 # bs)"
| "sN 64 bs (sint n) \<Longrightarrow> plain_code (I64_Const n) (0x42 # bs)"
| "length bs = 4 \<Longrightarrow> plain_code (F32_Const bs) (0x43 # bs)"
| "length bs = 8 \<Longrightarrow> plain_code (F64_Const bs) (0x44 # bs)"
| "numeric_type b \<noteq> None \<Longrightarrow> plain_code (Numeric b) [b]"

definition block_code :: "value_type list \<Rightarrow> byte \<Rightarrow> bool" where
  "block_code rt b \<longleftrightarrow>
     rt = [] \<and> b = 0x40 \<or> rt = [i32] \<and> b = 0x7f \<or> rt = [i64] \<and> b = 0x7e \<or> rt = [f32] \<and> b = 0x7d \<or>
     rt = [f64] \<and> b = 0x7c"

inductive instr_code :: "instr \<Rightarrow> byte list \<Rightarrow> bool" and seq_code :: "instr list \<Rightarrow> byte list \<Rightarrow> bool" where
  code_Plain: "plain_code p bs \<Longrightarrow> instr_code (Plain p) bs"
| code_Block: "block_code rt b \<Longrightarrow> seq_code es bs \<Longrightarrow> instr_code (Block rt es) (0x02 # b # bs @ [0x0b])"
| code_Loop: "block_code rt b \<Longrightarrow> seq_code es bs \<Longrightarrow> instr_code (Loop rt es) (0x03 # b # bs @ [0x0b])"
| code_If: "block_code rt b \<Longrightarrow> seq_code es bs \<Longrightarrow> instr_code (If rt es []) (0x04 # b # bs @ [0x0b])"
| code_If_Else: "block_code rt b \<Longrightarrow> seq_code es1 bs1 \<Longrightarrow> seq_code es2 bs2 \<Longrightarrow>
    instr_code (If rt es1 es2) (0x04 # b # bs1 @ [0x05] @ bs2 @ [0x0b])"
| code_Nil: "seq_code [] []"
| code_snoc: "seq_code es bs \<Longrightarrow> instr_code e bs' \<Longrightarrow> seq_code (es @ [e]) (bs @ bs')"

text \<open>A function body is an instruction sequence followed by \<open>end\<close>.\<close>

definition body_code :: "instr list \<Rightarrow> byte list \<Rightarrow> bool" where
  "body_code es code \<longleftrightarrow> (\<exists>bs. code = bs @ [0x0b] \<and> seq_code es bs)"

section \<open>Typing rules\<close>

record typing_context =
  ctx_types :: "function_type list"
  ctx_funcs :: "function_type list"
  ctx_tables :: nat
  ctx_mems :: nat
  ctx_globals :: "global_type list"
  ctx_locals :: "value_type list"
  ctx_labels :: "value_type list list"
  ctx_return :: "value_type list"

abbreviation proper :: "value_type list \<Rightarrow> bool" where
  "proper ts \<equiv> vt_none \<notin> set ts"

inductive plain_arrow ::
  "typing_context \<Rightarrow> plain_instr \<Rightarrow> value_type list \<Rightarrow> value_type list \<Rightarrow> bool" for C where
  "plain_arrow C Nop [] []"
| "unat l < length (ctx_labels C) \<Longrightarrow> ctx_labels C ! unat l = ts \<Longrightarrow> plain_arrow C (Br_If l) (ts @ [i32]) ts"
| "unat x < length (ctx_funcs C) \<Longrightarrow> ctx_funcs C ! unat x = ft \<Longrightarrow>
     plain_arrow C (Call x) (parameter ft) (result ft)"
| "ctx_tables C > 0 \<Longrightarrow> unat x < length (ctx_types C) \<Longrightarrow> ctx_types C ! unat x = ft \<Longrightarrow>
     plain_arrow C (Call_Indirect x) (parameter ft @ [i32]) (result ft)"
| "t \<noteq> vt_none \<Longrightarrow> plain_arrow C Drop [t] []"
| "t \<noteq> vt_none \<Longrightarrow> plain_arrow C Select [t, t, i32] [t]"
| "unat x < length (ctx_locals C) \<Longrightarrow> ctx_locals C ! unat x = t \<Longrightarrow> plain_arrow C (Local_Get x) [] [t]"
| "unat x < length (ctx_locals C) \<Longrightarrow> ctx_locals C ! unat x = t \<Longrightarrow> plain_arrow C (Local_Set x) [t] []"
| "unat x < length (ctx_locals C) \<Longrightarrow> ctx_locals C ! unat x = t \<Longrightarrow> plain_arrow C (Local_Tee x) [t] [t]"
| "unat x < length (ctx_globals C) \<Longrightarrow> global_value_type (ctx_globals C ! unat x) = t \<Longrightarrow>
     plain_arrow C (Global_Get x) [] [t]"
| "unat x < length (ctx_globals C) \<Longrightarrow> global_value_type (ctx_globals C ! unat x) = t \<Longrightarrow>
     is_mutable (ctx_globals C ! unat x) \<Longrightarrow> plain_arrow C (Global_Set x) [t] []"
| "ctx_mems C > 0 \<Longrightarrow> load_type b = Some (t, w) \<Longrightarrow> 2 ^ unat a \<le> w \<Longrightarrow> plain_arrow C (Load b a off) [i32] [t]"
| "ctx_mems C > 0 \<Longrightarrow> store_type b = Some (t, w) \<Longrightarrow> 2 ^ unat a \<le> w \<Longrightarrow> plain_arrow C (Store b a off) [i32, t] []"
| "ctx_mems C > 0 \<Longrightarrow> plain_arrow C Memory_Size [] [i32]"
| "ctx_mems C > 0 \<Longrightarrow> plain_arrow C Memory_Grow [i32] [i32]"
| "plain_arrow C (I32_Const n) [] [i32]"
| "plain_arrow C (I64_Const k) [] [i64]"
| "plain_arrow C (F32_Const bs) [] [f32]"
| "plain_arrow C (F64_Const bs) [] [f64]"
| "numeric_type b = Some (ts, t) \<Longrightarrow> plain_arrow C (Numeric b) ts [t]"

text \<open>The instructions after which the stack is arbitrary, with the operands they consume.\<close>

inductive plain_jump :: "typing_context \<Rightarrow> plain_instr \<Rightarrow> value_type list \<Rightarrow> bool" for C where
  "plain_jump C Unreachable []"
| "unat l < length (ctx_labels C) \<Longrightarrow> ctx_labels C ! unat l = ts \<Longrightarrow> plain_jump C (Br l) ts"
| "list_all (\<lambda>l. unat l < length (ctx_labels C) \<and> ctx_labels C ! unat l = ts) (ls @ [l]) \<Longrightarrow>
     plain_jump C (Br_Table ls l) (ts @ [i32])"
| "ctx_return C = ts \<Longrightarrow> plain_jump C Return_Op ts"

abbreviation enter_label :: "typing_context \<Rightarrow> value_type list \<Rightarrow> typing_context" where
  "enter_label C ts \<equiv> C\<lparr>ctx_labels := ts # ctx_labels C\<rparr>"

inductive instr_type :: "typing_context \<Rightarrow> instr \<Rightarrow> value_type list \<Rightarrow> value_type list \<Rightarrow> bool"
  and seq_type :: "typing_context \<Rightarrow> instr list \<Rightarrow> value_type list \<Rightarrow> value_type list \<Rightarrow> bool" where
  type_Arrow: "plain_arrow C p args results \<Longrightarrow> instr_type C (Plain p) args results"
| type_Jump: "plain_jump C p args \<Longrightarrow> proper ts1 \<Longrightarrow> proper ts2 \<Longrightarrow> instr_type C (Plain p) (ts1 @ args) ts2"
| type_Block: "seq_type (enter_label C rt) es [] rt \<Longrightarrow> instr_type C (Block rt es) [] rt"
| type_Loop: "seq_type (enter_label C []) es [] rt \<Longrightarrow> instr_type C (Loop rt es) [] rt"
| type_If: "seq_type (enter_label C rt) es1 [] rt \<Longrightarrow> seq_type (enter_label C rt) es2 [] rt \<Longrightarrow>
     instr_type C (If rt es1 es2) [i32] rt"
| type_Nil: "proper ts \<Longrightarrow> seq_type C [] ts ts"
| type_snoc: "seq_type C es ts1 (ts0 @ args) \<Longrightarrow> instr_type C e args results \<Longrightarrow>
     seq_type C (es @ [e]) ts1 (ts0 @ results)"

section \<open>The context of a function body\<close>

definition local_types :: "function_type \<Rightarrow> local_entry list \<Rightarrow> value_type list" where
  "local_types ft ls = parameter ft @ concat (map (\<lambda>l. replicate (unat (count l)) (local_type l)) ls)"

definition function_context ::
  "module_storage \<Rightarrow> function_type \<Rightarrow> local_entry list \<Rightarrow> value_type list list \<Rightarrow> typing_context" where
  "function_context m ft ls labels =
     \<lparr>ctx_types = types m,
      ctx_funcs = imported_funcs m @ map (\<lambda>i. types m ! i) (funcs m),
      ctx_tables = imported_tables m + tables m,
      ctx_mems = imported_memories m + memories m,
      ctx_globals = imported_globals m @ local_globals m,
      ctx_locals = local_types ft ls,
      ctx_labels = labels,
      ctx_return = result ft\<rparr>"

text \<open>A body is valid when it parses and has the type of its function.\<close>

definition valid_body :: "module_storage \<Rightarrow> function_type \<Rightarrow> local_entry list \<Rightarrow> byte list \<Rightarrow> bool" where
  "valid_body m ft ls code \<longleftrightarrow>
     (\<exists>es. body_code es code \<and> seq_type (function_context m ft ls [result ft]) es [] (result ft))"

end
