(* ===== verification/Validator_Context.thy ===== *)
theory Validator_Context
  imports Validator Wasm_Typing
begin

text \<open>
  What the validator looks up while it runs (locals, globals, callees, memories and tables, the
  opcode tables) is what the typing context of the specification holds.
\<close>

section \<open>Opcode tables\<close>

definition case_type :: "string \<times> numeric_shape \<times> value_type \<times> value_type \<Rightarrow> value_type list \<times> value_type" where
  "case_type e = (case e of (n, Unary, t, r) \<Rightarrow> ([t], r) | (n, Binary, t, r) \<Rightarrow> ([t, t], r))"

lemmas numeric_tables = i32_compare_cases_def i64_compare_cases_def float_compare_cases_def
  i32_arith_cases_def i64_arith_cases_def f32_arith_cases_def f64_arith_cases_def conversion_cases_def

lemma numeric_entries:
  "list_all (\<lambda>(b, e). numeric_type b = Some (case_type e)) numeric_cases"
  unfolding numeric_cases_def
  by (simp add: numeric_tables, simp add: numeric_type_def case_type_def)

lemma numeric_keys: "map fst numeric_cases = map of_nat [0x45..<0xc0]"
  unfolding numeric_cases_def by (simp add: numeric_tables upt_rec_numeral)

lemma word_in_range: "a \<le> unat b \<Longrightarrow> unat b < n \<Longrightarrow> b \<in> set (map of_nat [a..<n])" for b :: byte
  by (auto simp: image_iff intro!: bexI [of _ "unat b"])

lemma numeric_table: "numeric_type b = map_option case_type (map_of numeric_cases b)"
proof (cases "map_of numeric_cases b")
  case None
  then have "b \<notin> set (map of_nat [0x45..<0xc0])"
    unfolding numeric_keys [symmetric] by (simp add: map_of_eq_None_iff)
  then have "unat b < 0x45 \<or> 0xc0 \<le> unat b" using word_in_range [of "0x45" b "0xc0"] by linarith
  then have "b < 0x45 \<or> 0xc0 \<le> b" by (simp add: word_less_nat_alt word_le_nat_alt)
  then have "numeric_type b = None"
    by (rule disjE) (simp add: numeric_type_def, auto simp: numeric_type_def word_le_nat_alt word_less_nat_alt)
  with None show ?thesis by simp
next
  case (Some e)
  then have "(b, e) \<in> set numeric_cases" by (rule map_of_SomeD)
  with Some numeric_entries show ?thesis by (auto simp: list_all_iff)
qed

lemma load_entries: "list_all (\<lambda>(b, n, a, t). load_type b = Some (t, 2 ^ unat a) \<and> t \<noteq> vt_none) load_cases"
  by (simp add: load_cases_def load_type_def)

lemma store_entries: "list_all (\<lambda>(b, n, a, t). store_type b = Some (t, 2 ^ unat a) \<and> t \<noteq> vt_none) store_cases"
  by (simp add: store_cases_def store_type_def)

lemma load_caseD: "map_of load_cases b = Some (n, a, t) \<Longrightarrow> load_type b = Some (t, 2 ^ unat a) \<and> t \<noteq> vt_none"
  using load_entries by (auto simp: list_all_iff dest!: map_of_SomeD)

lemma store_caseD: "map_of store_cases b = Some (n, a, t) \<Longrightarrow> store_type b = Some (t, 2 ^ unat a) \<and> t \<noteq> vt_none"
  using store_entries by (auto simp: list_all_iff dest!: map_of_SomeD)

lemma align_power: "align \<le> a \<longleftrightarrow> (2 :: nat) ^ unat align \<le> 2 ^ unat a" for align a :: u32
  by (simp add: word_le_nat_alt)

section \<open>Locals\<close>

definition wf_ctx :: "func_ctx \<Rightarrow> bool" where
  "wf_ctx c \<longleftrightarrow> wf_module (module_of c) \<and> wf_function_type (curr_func_type c) \<and>
     local_total (curr_func_type c) (curr_code_locals c) < 2 ^ 32 \<and>
     list_all (\<lambda>l. local_type l \<noteq> vt_none) (curr_code_locals c) \<and>
     all_local_count c = count_locals (curr_func_type c) (curr_code_locals c)"

lemma length_local_types: "length (local_types ft ls) = local_total ft ls"
  by (simp add: local_types_def local_total_def length_concat comp_def)

lemma unat_fold_counts:
  "unat n + sum_list (map (\<lambda>l. unat (count l)) ls) < 2 ^ 32 \<Longrightarrow>
   unat (fold (\<lambda>l n. n + count l) ls n) = unat n + sum_list (map (\<lambda>l. unat (count l)) ls)"
proof (induction ls arbitrary: n)
  case (Cons l ls)
  then have "unat (n + count l) = unat n + unat (count l)"
    by (simp add: unat_word_ariths)
  with Cons show ?case by (simp add: add.assoc)
qed simp

lemma unat_count_locals: "local_total ft ls < 2 ^ 32 \<Longrightarrow> unat (count_locals ft ls) = local_total ft ls"
  unfolding count_locals_def local_total_def
  by (subst unat_fold_counts) (simp_all add: unat_of_nat)

lemma find_local_nth:
  "find_local ls i =
     (let ts = concat (map (\<lambda>l. replicate (unat (count l)) (local_type l)) ls) in
      if unat i < length ts then Some (ts ! unat i) else None)"
proof (induction ls arbitrary: i)
  case (Cons l ls)
  show ?case
  proof (cases "i < count l")
    case True
    then have "unat i < unat (count l)" by (simp add: word_less_nat_alt)
    with True show ?thesis by (simp add: nth_append)
  next
    case False
    then have "unat (count l) \<le> unat i" "unat (i - count l) = unat i - unat (count l)"
      by (simp_all add: word_less_nat_alt unat_sub word_le_nat_alt)
    then show ?thesis using False
      by (auto simp: Cons.IH nth_append Let_def less_diff_conv2 add.commute)
  qed
qed simp

lemma get_local_type_iff:
  assumes "wf_ctx c"
  shows "get_local_type c b i = Inr t \<longleftrightarrow>
     unat i < length (local_types (curr_func_type c) (curr_code_locals c)) \<and>
     t = local_types (curr_func_type c) (curr_code_locals c) ! unat i"
    and "get_local_type c b i \<noteq> Inl UB"
proof -
  let ?ft = "curr_func_type c" and ?ls = "curr_code_locals c"
  let ?ts = "concat (map (\<lambda>l. replicate (unat (count l)) (local_type l)) ?ls)"
  have total: "length (parameter ?ft) + length ?ts = local_total ?ft ?ls"
    using length_local_types [of ?ft ?ls] by (simp add: local_types_def)
  have bound: "local_total ?ft ?ls < 2 ^ 32" using assms by (simp add: wf_ctx_def)
  then have small: "length (parameter ?ft) < 2 ^ 32" using total by linarith
  have np: "unat (func_parameter_count_u32 c) = length (parameter ?ft)"
    using small by (simp add: func_parameter_count_u32_def unat_of_nat)
  have na: "unat (all_local_count c) = local_total ?ft ?ls"
    using assms bound by (simp add: wf_ctx_def unat_count_locals)
  have "get_local_type c b i = Inr t \<longleftrightarrow>
          unat i < length (local_types ?ft ?ls) \<and> t = local_types ?ft ?ls ! unat i" 
    and "get_local_type c b i \<noteq> Inl UB" if "unat i < length (parameter ?ft)"
    using that np na total unfolding get_local_type_def Let_def
    by (auto simp: word_le_nat_alt word_less_nat_alt vec_simps res_simps local_types_def nth_append)
  moreover have "get_local_type c b i = Inr t \<longleftrightarrow>
          unat i < length (local_types ?ft ?ls) \<and> t = local_types ?ft ?ls ! unat i" 
    and "get_local_type c b i \<noteq> Inl UB" if "length (parameter ?ft) \<le> unat i"
  proof -
    have d: "unat (i - func_parameter_count_u32 c) = unat i - length (parameter ?ft)"
      using that np by (simp add: unat_sub word_le_nat_alt)
    show "get_local_type c b i = Inr t \<longleftrightarrow>
          unat i < length (local_types ?ft ?ls) \<and> t = local_types ?ft ?ls ! unat i" 
      "get_local_type c b i \<noteq> Inl UB"
      using that np na total d length_local_types [of ?ft ?ls] unfolding get_local_type_def Let_def
      by (auto simp: word_le_nat_alt word_less_nat_alt res_simps find_local_nth Let_def local_types_def nth_append
          split: if_splits)
  qed
  ultimately show "get_local_type c b i = Inr t \<longleftrightarrow>
     unat i < length (local_types ?ft ?ls) \<and> t = local_types ?ft ?ls ! unat i"
    and "get_local_type c b i \<noteq> Inl UB"
    by (meson not_le)+
qed

lemma local_types_proper: "wf_ctx c \<Longrightarrow> proper (local_types (curr_func_type c) (curr_code_locals c))"
  by (auto simp: wf_ctx_def wf_function_type_def local_types_def list_all_iff)

section \<open>Globals, memories, tables and functions\<close>

lemma get_global_type_iff:
  assumes "wf_module m"
  shows "get_global_type m b i = Inr g \<longleftrightarrow>
     unat i < length (imported_globals m @ local_globals m) \<and> g = (imported_globals m @ local_globals m) ! unat i"
    and "get_global_type m b i \<noteq> Inl UB"
proof -
  let ?ni = "length (imported_globals m)" and ?nl = "length (local_globals m)"
  have "?ni + ?nl < 2 ^ 32" using assms by (simp add: wf_module_def)
  then have n: "unat (all_global_count m) = ?ni + ?nl" "unat (of_nat ?ni :: u32) = ?ni"
    by (simp_all add: all_global_count_def unat_of_nat unat_word_ariths)
  have "unat (i - of_nat ?ni) = unat i - ?ni" if "?ni \<le> unat i"
    using that n by (simp add: unat_sub word_le_nat_alt)
  with n show "get_global_type m b i = Inr g \<longleftrightarrow>
     unat i < length (imported_globals m @ local_globals m) \<and> g = (imported_globals m @ local_globals m) ! unat i"
    and "get_global_type m b i \<noteq> Inl UB"
    unfolding get_global_type_def Let_def
    by (auto simp: word_le_nat_alt word_less_nat_alt res_simps vec_simps nth_append not_less)
qed

lemma global_proper:
  "wf_module m \<Longrightarrow> i < length (imported_globals m @ local_globals m) \<Longrightarrow>
   global_value_type ((imported_globals m @ local_globals m) ! i) \<noteq> vt_none"
  unfolding wf_module_def list_all_iff by (meson nth_mem)

lemma of_nat_u32_zero: "n < 2 ^ 32 \<Longrightarrow> (of_nat n :: u32) = 0 \<longleftrightarrow> n = 0"
  by (simp add: word_of_nat_eq_0_iff) (auto dest: dvd_imp_le)

lemma all_memory_count_iff: "wf_module m \<Longrightarrow> all_memory_count m \<noteq> 0 \<longleftrightarrow> 0 < imported_memories m + memories m"
  by (simp add: wf_module_def all_memory_count_def of_nat_u32_zero flip: of_nat_add)

lemma all_table_count_iff: "wf_module m \<Longrightarrow> all_table_count m \<noteq> 0 \<longleftrightarrow> 0 < imported_tables m + tables m"
  by (simp add: wf_module_def all_table_count_def of_nat_u32_zero flip: of_nat_add)

lemma callee_type_of_iff:
  assumes "wf_module m" and "i < length (imported_funcs m) + length (funcs m)"
  shows "callee_type_of m i = Inr (((imported_funcs m) @ map (\<lambda>i. types m ! i) (funcs m)) ! i)"
proof (cases "i < length (imported_funcs m)")
  case True
  then show ?thesis by (simp add: callee_type_of_def vec_simps nth_append)
next
  case False
  then have "i - length (imported_funcs m) < length (funcs m)" using assms(2) by linarith
  moreover from this have "funcs m ! (i - length (imported_funcs m)) < length (types m)"
    using assms(1) by (simp add: wf_module_def list_all_length)
  ultimately show ?thesis using False by (simp add: callee_type_of_def vec_simps nth_append)
qed

lemma callee_wf:
  assumes "wf_module m" and "i < length (imported_funcs m) + length (funcs m)"
  shows "wf_function_type (((imported_funcs m) @ map (\<lambda>i. types m ! i) (funcs m)) ! i)"
proof -
  have "list_all wf_function_type (imported_funcs m @ map (\<lambda>i. types m ! i) (funcs m))"
    using assms(1) by (auto simp: wf_module_def list_all_iff)
  then show ?thesis using assms(2) unfolding list_all_length by simp
qed

lemma types_small: "wf_module m \<Longrightarrow> \<forall>ft \<in> set (types m). length (parameter ft) < size_max"
  by (auto simp: wf_module_def list_all_iff wf_function_type_def size_max_def)

end
