(* ===== verification/Validator_Invariant.thy ===== *)
theory Validator_Invariant
  imports Validator_Context
begin

text \<open>
  The well-formedness invariant of the validator's stacks, and the validator as a transition
  system: \<open>vstep\<close> says what one iteration of the loop does in terms of the grammar, the typing
  context and the operands of the innermost frame.
\<close>

section \<open>Well-formed stacks\<close>

fun wf_frames :: "value_type list \<Rightarrow> bool \<Rightarrow> block_t list \<Rightarrow> operand_stack_storage_t list \<Rightarrow> bool" where
  "wf_frames r p [] ops = False"
| "wf_frames r p [f] ops =
     (block_kind f = bt_function \<and> operand_stack_base f = 0 \<and> block_result f = r \<and> region_ok p ops)"
| "wf_frames r p (f # g # fs) ops =
     (block_kind f \<noteq> bt_function \<and> length (block_result f) \<le> 1 \<and> proper (block_result f) \<and>
      operand_stack_base f \<le> length ops \<and> region_ok p (take (length ops - operand_stack_base f) ops) \<and>
      wf_frames r (polymorphic_base f) (g # fs) (drop (length ops - operand_stack_base f) ops))"

definition wf_vstate :: "func_ctx \<Rightarrow> vstate \<Rightarrow> bool" where
  "wf_vstate c s \<longleftrightarrow>
     wf_frames (result (curr_func_type c)) (is_polymorphic s) (control_flow_stack s) (operand_stack s)"

lemma wf_frames_split:
  assumes "length below = operand_stack_base f"
  shows "wf_frames r p (f # fs) (ops @ below) \<longleftrightarrow>
     region_ok p ops \<and>
     (if fs = [] then block_kind f = bt_function \<and> below = [] \<and> block_result f = r
      else block_kind f \<noteq> bt_function \<and> length (block_result f) \<le> 1 \<and> proper (block_result f) \<and>
        wf_frames r (polymorphic_base f) fs below)"
  using assms by (cases fs) auto

lemma wf_frames_bounds:
  "wf_frames r p fs ops \<Longrightarrow> fs \<noteq> [] \<and> operand_stack_base (hd fs) \<le> length ops \<and> block_result (last fs) = r"
  by (induction r p fs ops rule: wf_frames.induct) auto

lemma wf_frames_results:
  "wf_frames r p fs ops \<Longrightarrow> length r \<le> 1 \<Longrightarrow> proper r \<Longrightarrow>
   \<forall>f \<in> set fs. length (block_result f) \<le> 1 \<and> proper (block_result f)"
  by (induction r p fs ops rule: wf_frames.induct) auto

text \<open>A well-formed configuration, and what the handlers rely on in it.\<close>

definition wf_conf :: "func_ctx \<Rightarrow> vstate \<Rightarrow> bool" where
  "wf_conf c s \<longleftrightarrow> wf_ctx c \<and> wf_vstate c s"

lemma wf_conf_frames:
  assumes "wf_conf c s"
  shows "control_flow_stack s \<noteq> []" "block_result (last (control_flow_stack s)) = result (curr_func_type c)"
  using wf_frames_bounds assms unfolding wf_conf_def wf_vstate_def by blast+

lemma wf_conf_frame_ok: "wf_conf c s \<Longrightarrow> frame_ok s"
  using wf_frames_bounds wf_conf_frames(1) [of c s]
  unfolding wf_conf_def wf_vstate_def frame_ok_def curr_frame_operand_stack_base_def
  by (metis list.case_eq_if)

lemma wf_conf_results:
  "wf_conf c s \<Longrightarrow> \<forall>f \<in> set (control_flow_stack s). length (block_result f) \<le> 1 \<and> proper (block_result f)"
  using wf_frames_results unfolding wf_conf_def wf_vstate_def wf_ctx_def wf_function_type_def by blast

lemma wf_conf_below:
  "wf_conf c s \<Longrightarrow> length (below_ops s) = operand_stack_base (hd (control_flow_stack s))"
  using length_below_ops [OF wf_conf_frame_ok] wf_conf_frames(1)
  by (metis curr_frame_operand_stack_base_def list.case_eq_if)

lemma wf_conf_split:
  "wf_conf c s \<Longrightarrow>
   wf_frames (result (curr_func_type c)) (is_polymorphic s) (hd (control_flow_stack s) # tl (control_flow_stack s))
     (frame_ops s @ below_ops s)"
  using wf_conf_frames(1) [of c s] by (simp add: wf_conf_def wf_vstate_def operand_stack_split [symmetric])

lemma wf_conf_region: "wf_conf c s \<Longrightarrow> region_ok (is_polymorphic s) (frame_ops s)"
  using wf_conf_split wf_frames_split [OF wf_conf_below] by blast

lemmas wf_conf_facts = wf_conf_frames wf_conf_frame_ok wf_conf_results wf_conf_region

section \<open>The abstract steps keep the invariant\<close>

lemma replace_frame_ops:
  assumes "wf_conf c s" and "region_ok p ops"
  shows "wf_conf c ((with_ops ops s)\<lparr>code_curr := rest, is_polymorphic := p\<rparr>)"
proof -
  have "wf_frames (result (curr_func_type c)) p (hd (control_flow_stack s) # tl (control_flow_stack s))
     (ops @ below_ops s)"
    using wf_conf_split [OF assms(1)] assms(2) wf_frames_split [OF wf_conf_below [OF assms(1)]] by blast
  then show ?thesis using assms(1) wf_conf_frames(1) [OF assms(1)]
    by (simp add: wf_conf_def wf_vstate_def)
qed

lemma arrow_step_wf:
  assumes "wf_conf c s" and "arrow_step args results rest s s'" and "proper results"
  shows "wf_conf c s'"
proof -
  obtain ops where pop: "pop_types (is_polymorphic s) (rev args) (frame_ops s) = Some ops"
    and s': "s' = (with_ops (map known (rev results) @ ops) s)\<lparr>code_curr := rest\<rparr>"
    using assms(2) by (auto simp: arrow_step_def)
  have "region_ok (is_polymorphic s) (map known (rev results) @ ops)"
    using region_ok_drop [OF wf_conf_region [OF assms(1)]] assms(3) pop_types_Some_drop [OF pop] by simp
  from replace_frame_ops [OF assms(1) this, of rest] show ?thesis by (simp add: s' with_ops_def)
qed

lemma jump_step_wf: "wf_conf c s \<Longrightarrow> jump_step args rest s s' \<Longrightarrow> wf_conf c s'"
  using replace_frame_ops [of c s True "[]" rest] by (simp add: jump_step_def)

lemma push_frame_wf:
  assumes "wf_conf c s" and "length r \<le> 1" and "proper r" and "k \<noteq> bt_function"
  shows "wf_conf c (push_frame k r s)"
  using assms wf_conf_frames(1) [OF assms(1)]
  by (cases "control_flow_stack s") (simp_all add: wf_conf_def wf_vstate_def push_frame_def)

lemma wf_conf_code: "wf_conf c (s\<lparr>code_curr := rest\<rparr>) \<longleftrightarrow> wf_conf c s"
  by (simp add: wf_conf_def wf_vstate_def)

lemma pop_frame_wf:
  assumes "wf_conf c s" and "control_flow_stack s = f # fs" and "block_kind f \<noteq> bt_function"
  shows "wf_conf c (pop_frame f fs s)"
proof -
  have "fs \<noteq> [] \<and> wf_frames (result (curr_func_type c)) (polymorphic_base f) fs (below_ops s) \<and> proper (block_result f)"
    using wf_conf_split [OF assms(1)] wf_frames_split [OF wf_conf_below [OF assms(1)]] assms(2,3)
    by (auto split: if_splits)
  moreover have "wf_frames r p (g # gs) (ops @ ops')"
    if "wf_frames r p (g # gs) ops'" "region_ok p ops" for r p g gs ops ops'
    using that by (cases gs) auto
  ultimately show ?thesis using assms(1)
    by (cases fs) (auto simp: pop_frame_def wf_conf_def wf_vstate_def)
qed

section \<open>The validator as a transition system\<close>

definition tctx_of :: "func_ctx \<Rightarrow> block_t list \<Rightarrow> typing_context" where
  "tctx_of c fs = function_context (module_of c) (curr_func_type c) (curr_code_locals c) (map label_types fs)"

text \<open>
  The value test of \<^verbatim>\<open>br_table\<close> accepts known operands only; the other instructions have no such
  restriction.
\<close>

definition exact_operands :: "plain_instr \<Rightarrow> value_type list \<Rightarrow> vstate \<Rightarrow> bool" where
  "exact_operands e args s \<longleftrightarrow>
     (case e of Br_Table ls l \<Rightarrow> list_all (\<lambda>v. \<not> is_unknown v) (take (length args - 1) (tl (frame_ops s)))
      | _ \<Rightarrow> True)"

inductive vstep :: "func_ctx \<Rightarrow> vstate \<Rightarrow> vstate \<Rightarrow> bool" for c s where
  vstep_arrow: "plain_code e bs \<Longrightarrow> e \<noteq> Select \<Longrightarrow> code_curr s = bs @ rest \<Longrightarrow>
     plain_arrow (tctx_of c (control_flow_stack s)) e args results \<Longrightarrow> proper args \<Longrightarrow> proper results \<Longrightarrow>
     arrow_step args results rest s s' \<Longrightarrow> vstep c s s'"
| vstep_select: "code_curr s = 0x1b # rest \<Longrightarrow> t \<noteq> vt_none \<Longrightarrow>
     pop_types (is_polymorphic s) [i32, t, t] (frame_ops s) \<noteq> None \<Longrightarrow>
     s' = (with_ops (select_result (frame_ops s) # drop 3 (frame_ops s)) s)\<lparr>code_curr := rest\<rparr> \<Longrightarrow>
     vstep c s s'"
| vstep_jump: "plain_code e bs \<Longrightarrow> code_curr s = bs @ rest \<Longrightarrow>
     plain_jump (tctx_of c (control_flow_stack s)) e args \<Longrightarrow> proper args \<Longrightarrow> exact_operands e args s \<Longrightarrow>
     jump_step args rest s s' \<Longrightarrow> vstep c s s'"
| vstep_block: "code_curr s = 0x02 # b # rest \<Longrightarrow> block_code rt b \<Longrightarrow>
     s' = push_frame bt_block rt (s\<lparr>code_curr := rest\<rparr>) \<Longrightarrow> vstep c s s'"
| vstep_loop: "code_curr s = 0x03 # b # rest \<Longrightarrow> block_code rt b \<Longrightarrow>
     s' = push_frame bt_loop rt (s\<lparr>code_curr := rest\<rparr>) \<Longrightarrow> vstep c s s'"
| vstep_if: "code_curr s = 0x04 # b # rest \<Longrightarrow> block_code rt b \<Longrightarrow>
     arrow_step [i32] [] rest s s1 \<Longrightarrow> s' = push_frame bt_if rt s1 \<Longrightarrow> vstep c s s'"
| vstep_else: "code_curr s = 0x05 # rest \<Longrightarrow> control_flow_stack s = f # fs \<Longrightarrow> block_kind f = bt_if \<Longrightarrow>
     pop_types (is_polymorphic s) (rev (block_result f)) (frame_ops s) = Some [] \<Longrightarrow>
     s' = s\<lparr>code_curr := rest, operand_stack := below_ops s, is_polymorphic := False,
            control_flow_stack := f\<lparr>block_kind := bt_else\<rparr> # fs\<rparr> \<Longrightarrow> vstep c s s'"
| vstep_end: "code_curr s = 0x0b # rest \<Longrightarrow> control_flow_stack s = f # fs \<Longrightarrow> block_kind f \<noteq> bt_function \<Longrightarrow>
     (block_kind f = bt_if \<longrightarrow> block_result f = []) \<Longrightarrow>
     pop_types (is_polymorphic s) (rev (block_result f)) (frame_ops s) = Some [] \<Longrightarrow>
     s' = pop_frame f fs s \<Longrightarrow> vstep c s s'"

section \<open>Immediates in the binary grammar\<close>

lemmas get_u32_iff = leb128_get_unsigned_iff [where 'w = 32, simplified]
lemmas get_s32_iff = leb128_get_signed_iff [where 'w = 32, simplified]
lemmas get_s64_iff = leb128_get_signed_iff [where 'w = 64, simplified]

lemma read_labels_vec: "read_labels n b = Some (ls, rest) \<Longrightarrow> \<exists>pre. b = pre @ rest \<and> u32_vec ls pre \<and> length ls = n"
proof (induction n arbitrary: b ls)
  case 0
  then show ?case by (auto intro: u32_vec.intros)
next
  case (Suc n)
  then obtain b' l ls' where "leb128_get_unsigned b = (b', parse_ok, l :: u32)" "read_labels n b' = Some (ls', rest)"
    and "ls = l # ls'"
    by (auto split: prod.splits if_splits)
  with Suc.IH [of b' ls'] show ?case by (auto simp: get_u32_iff intro!: u32_vec_Cons)
qed

lemma block_result_code: "block_result_of_byte b = Some rt \<longleftrightarrow> block_code rt b"
  by (auto simp: block_result_of_byte_def block_code_def value_type_byte_def)

lemma tctx_labels: "ctx_labels (tctx_of c fs) = map label_types fs"
  by (simp add: tctx_of_def function_context_def)

section \<open>Every handler is a transition\<close>

text \<open>The code pointer of a handler is on its opcode.\<close>

lemma arrow_imm:
  assumes "code_curr s = b # pre @ rest" and "arrow_step args results rest s s'" and "plain_code e (b # pre)"
    and "plain_arrow (tctx_of c (control_flow_stack s)) e args results" and "e \<noteq> Select"
    and "proper args" and "proper results"
  shows "vstep c s s'"
  using assms by (auto intro: vstep_arrow [where bs = "b # pre"])

lemma jump_imm:
  assumes "code_curr s = b # pre @ rest" and "jump_step args rest s s'" and "plain_code e (b # pre)"
    and "plain_jump (tctx_of c (control_flow_stack s)) e args"
    and "proper args" and "exact_operands e args s"
  shows "vstep c s s'"
  using assms by (auto intro: vstep_jump [where bs = "b # pre"])

lemmas spec_intros = plain_code.intros plain_arrow.intros plain_jump.intros

lemma tctx_simps [simp]:
  "ctx_types (tctx_of c fs) = types (module_of c)"
  "ctx_funcs (tctx_of c fs) = imported_funcs (module_of c) @ map (\<lambda>i. types (module_of c) ! i) (funcs (module_of c))"
  "ctx_tables (tctx_of c fs) = imported_tables (module_of c) + tables (module_of c)"
  "ctx_mems (tctx_of c fs) = imported_memories (module_of c) + memories (module_of c)"
  "ctx_globals (tctx_of c fs) = imported_globals (module_of c) @ local_globals (module_of c)"
  "ctx_locals (tctx_of c fs) = local_types (curr_func_type c) (curr_code_locals c)"
  "ctx_labels (tctx_of c fs) = map label_types fs"
  "ctx_return (tctx_of c fs) = result (curr_func_type c)"
  by (simp_all add: tctx_of_def function_context_def)

lemma wf_conf_ctx:
  assumes "wf_conf c s"
  shows "wf_ctx c" "wf_module (module_of c)" "wf_function_type (curr_func_type c)"
  using assms by (simp_all add: wf_conf_def wf_ctx_def)

subsection \<open>Plain instructions\<close>

lemma step_unreachable:
  assumes "wf_conf c s" and "code_curr s = 0x00 # bs" and "validate_unreachable s = Inr s'"
  shows "vstep c s s'"
  using assms
  by (auto simp: validate_unreachable_iff wf_conf_facts exact_operands_def
        intro: jump_imm [where e = Unreachable and pre = "[]"] spec_intros)

lemma step_nop:
  assumes "wf_conf c s" and "code_curr s = 0x01 # bs" and "validate_nop s = Inr s'"
  shows "vstep c s s'"
  using assms
  by (auto simp: validate_nop_iff wf_conf_facts intro: arrow_imm [where e = Nop and pre = "[]"] spec_intros)

lemma arrow_step_any:
  assumes "region_ok (is_polymorphic s) (frame_ops s)" and "arrow_step [vt_none] [] rest s s'"
  shows "arrow_step [i32] [] rest s s'"
  using assms
  by (cases "frame_ops s") (auto simp: arrow_step_def pop_types_Cons operand_fits_def split: if_splits)

lemma step_drop:
  assumes "wf_conf c s" and "code_curr s = 0x1a # bs" and "validate_drop s = Inr s'"
  shows "vstep c s s'"
proof -
  obtain t where "arrow_step [t] [] bs s s'"
    using assms by (auto simp: validate_drop_iff wf_conf_facts)
  then obtain t where "t \<noteq> vt_none" "arrow_step [t] [] bs s s'"
    using arrow_step_any wf_conf_region [OF assms(1)] by (cases "t = vt_none") auto
  then show ?thesis using assms
    by (auto intro: arrow_imm [where e = Drop and pre = "[]"] spec_intros)
qed

lemma step_select:
  assumes "wf_conf c s" and "code_curr s = 0x1b # bs" and "validate_select s = Inr s'"
  shows "vstep c s s'"
  using assms by (auto simp: validate_select_iff wf_conf_facts intro: vstep_select)

lemma step_numeric:
  assumes "wf_conf c s" and "code_curr s = b # bs" and "numeric_handler b = Some h" and "h s = Inr s'"
  shows "vstep c s s'"
proof -
  obtain n sh t r where e: "map_of numeric_cases b = Some (n, sh, t, r)"
    using assms(3) by (auto simp: numeric_handler_def split: option.splits)
  obtain args where args: "numeric_type b = Some (args, r)" "arrow_step args [r] bs s s'"
  proof (cases sh)
    case Unary
    then show ?thesis using that assms e
      by (auto simp: numeric_handler_def numeric_table case_type_def validate_numeric_unary_iff wf_conf_facts)
  next
    case Binary
    then show ?thesis using that assms e
      by (auto simp: numeric_handler_def numeric_table case_type_def validate_numeric_binary_iff wf_conf_facts)
  qed
  have "proper args \<and> r \<noteq> vt_none"
    using args(1) by (auto simp: numeric_type_def split: if_splits)
  with args assms(2) show ?thesis
    by (intro arrow_imm [where e = "Numeric b" and pre = "[]" and rest = bs and args = args and results = "[r]"])
       (auto intro: spec_intros)
qed

lemma step_const:
  assumes "wf_conf c s" and "code_curr s = b # bs" and "const_handler b = Some h" and "h s = Inr s'"
  shows "vstep c s s'"
proof -
  consider "b = 0x41" "h = validate_i32_const" | "b = 0x42" "h = validate_i64_const"
    | "b = 0x43" "h = validate_f32_const" | "b = 0x44" "h = validate_f64_const"
    using assms(3) by (auto simp: const_handler_def split: if_splits)
  then show ?thesis
  proof cases
    case 1
    with assms show ?thesis
      by (auto simp: validate_i32_const_iff wf_conf_facts get_s32_iff intro!: spec_intros elim!: arrow_imm)
  next
    case 2
    with assms show ?thesis
      by (auto simp: validate_i64_const_iff wf_conf_facts get_s64_iff intro!: spec_intros elim!: arrow_imm)
  next
    case 3
    with assms show ?thesis
      by (intro arrow_imm [where e = "F32_Const (take 4 bs)" and pre = "take 4 bs" and
              rest = "drop 4 bs" and args = "[]" and results = "[f32]"])
         (auto simp: validate_f32_const_iff wf_conf_facts intro: spec_intros)
  next
    case 4
    with assms show ?thesis
      by (intro arrow_imm [where e = "F64_Const (take 8 bs)" and pre = "take 8 bs" and
              rest = "drop 8 bs" and args = "[]" and results = "[f64]"])
         (auto simp: validate_f64_const_iff wf_conf_facts intro: spec_intros)
  qed
qed

lemma step_load:
  assumes "wf_conf c s" and "code_curr s = b # bs" and e: "map_of load_cases b = Some (n, a, t)"
    and "validate_mem_load (module_of c) n a t s = Inr s'"
  shows "vstep c s s'"
proof -
  obtain align offset r1 rest where r: "leb128_get_unsigned bs = (r1, parse_ok, align)"
    "leb128_get_unsigned r1 = (rest, parse_ok, offset :: u32)"
    and mem: "all_memory_count (module_of c) \<noteq> 0" and align: "align \<le> a" and step: "arrow_step [i32] [t] rest s s'"
    using assms by (auto simp: validate_mem_load_iff wf_conf_facts)
  then obtain pa po where "bs = (pa @ po) @ rest" "uN 32 pa (unat align)" "uN 32 po (unat offset)"
    by (auto simp: get_u32_iff)
  with assms(1,2) mem align step load_caseD [OF e] show ?thesis
    by (intro arrow_imm [where e = "Load b align offset" and pre = "pa @ po"])
       (auto simp: align_power all_memory_count_iff wf_conf_ctx intro: spec_intros)
qed

lemma step_store:
  assumes "wf_conf c s" and "code_curr s = b # bs" and e: "map_of store_cases b = Some (n, a, t)"
    and "validate_mem_store (module_of c) n a t s = Inr s'"
  shows "vstep c s s'"
proof -
  obtain align offset r1 rest where r: "leb128_get_unsigned bs = (r1, parse_ok, align)"
    "leb128_get_unsigned r1 = (rest, parse_ok, offset :: u32)"
    and mem: "all_memory_count (module_of c) \<noteq> 0" and align: "align \<le> a" and step: "arrow_step [i32, t] [] rest s s'"
    using assms by (auto simp: validate_mem_store_iff wf_conf_facts)
  then obtain pa po where "bs = (pa @ po) @ rest" "uN 32 pa (unat align)" "uN 32 po (unat offset)"
    by (auto simp: get_u32_iff)
  with assms(1,2) mem align step store_caseD [OF e] show ?thesis
    by (intro arrow_imm [where e = "Store b align offset" and pre = "pa @ po"])
       (auto simp: align_power all_memory_count_iff wf_conf_ctx intro: spec_intros)
qed

lemma step_memory:
  assumes "wf_conf c s" and "code_curr s = b # bs" and "memory_handler c b = Some h" and "h s = Inr s'"
  shows "vstep c s s'"
proof -
  consider n a t where "map_of load_cases b = Some (n, a, t)" "h = validate_mem_load (module_of c) n a t"
    | n a t where "map_of store_cases b = Some (n, a, t)" "h = validate_mem_store (module_of c) n a t"
    | "b = 0x3f" "h = validate_memory_size (module_of c)" | "b = 0x40" "h = validate_memory_grow (module_of c)"
    using assms(3) by (auto simp: memory_handler_def split: option.splits if_splits)
  then show ?thesis
  proof cases
    case 1
    with assms step_load show ?thesis by blast
  next
    case 2
    with assms step_store show ?thesis by blast
  next
    case 3
    with assms show ?thesis
      by (auto simp: validate_memory_size_iff wf_conf_facts all_memory_count_iff wf_conf_ctx
            intro!: arrow_imm [where e = Memory_Size and pre = "[0]"] spec_intros)
  next
    case 4
    with assms show ?thesis
      by (auto simp: validate_memory_grow_iff wf_conf_facts all_memory_count_iff wf_conf_ctx
            intro!: arrow_imm [where e = Memory_Grow and pre = "[0]"] spec_intros)
  qed
qed

subsection \<open>Variables\<close>

lemma local_proper:
  assumes "wf_conf c s" and "i < length (local_types (curr_func_type c) (curr_code_locals c))"
  shows "vt_none \<noteq> local_types (curr_func_type c) (curr_code_locals c) ! i"
  using local_types_proper [OF wf_conf_ctx(1) [OF assms(1)]] assms(2) by (metis nth_mem)

lemma step_local_get:
  assumes "wf_conf c s" and "code_curr s = 0x20 # bs" and "validate_local_get c s = Inr s'"
  shows "vstep c s s'"
  using assms local_proper [OF assms(1)]
  by (auto simp: validate_local_get_iff wf_conf_facts get_u32_iff get_local_type_iff wf_conf_ctx
        elim!: arrow_imm intro!: spec_intros)

lemma step_local_set:
  assumes "wf_conf c s" and "code_curr s = 0x21 # bs" and "validate_local_set c s = Inr s'"
  shows "vstep c s s'"
  using assms local_proper [OF assms(1)]
  by (auto simp: validate_local_set_iff wf_conf_facts get_u32_iff get_local_type_iff wf_conf_ctx
        elim!: arrow_imm intro!: spec_intros)

lemma step_local_tee:
  assumes "wf_conf c s" and "code_curr s = 0x22 # bs" and "validate_local_tee c s = Inr s'"
  shows "vstep c s s'"
  using assms local_proper [OF assms(1)]
  by (auto simp: validate_local_tee_iff wf_conf_facts get_u32_iff get_local_type_iff wf_conf_ctx
        elim!: arrow_imm intro!: spec_intros)

lemma step_global_get:
  assumes "wf_conf c s" and "code_curr s = 0x23 # bs" and "validate_global_get (module_of c) s = Inr s'"
  shows "vstep c s s'"
  using assms global_proper [OF wf_conf_ctx(2) [OF assms(1)], THEN not_sym]
  by (auto simp: validate_global_get_iff wf_conf_facts get_u32_iff get_global_type_iff wf_conf_ctx
        elim!: arrow_imm intro!: spec_intros)

lemma step_global_set:
  assumes "wf_conf c s" and "code_curr s = 0x24 # bs" and "validate_global_set (module_of c) s = Inr s'"
  shows "vstep c s s'"
  using assms global_proper [OF wf_conf_ctx(2) [OF assms(1)], THEN not_sym]
  by (auto simp: validate_global_set_iff wf_conf_facts get_u32_iff get_global_type_iff wf_conf_ctx
        elim!: arrow_imm intro!: spec_intros)

subsection \<open>Branches and calls\<close>

lemma label_proper:
  assumes "wf_conf c s" and "i < length (control_flow_stack s)"
  shows "proper (label_types (control_flow_stack s ! i))"
  using wf_conf_results [OF assms(1)] nth_mem [OF assms(2)] by (auto simp: label_types_def)

lemma step_br:
  assumes "wf_conf c s" and "code_curr s = 0x0c # bs" and "validate_br s = Inr s'"
  shows "vstep c s s'"
  using assms label_proper [OF assms(1)]
  by (auto simp: validate_br_iff wf_conf_facts get_u32_iff exact_operands_def elim!: jump_imm intro!: spec_intros)

lemma step_br_if:
  assumes "wf_conf c s" and "code_curr s = 0x0d # bs" and "validate_br_if s = Inr s'"
  shows "vstep c s s'"
proof -
  have "\<forall>f \<in> set (control_flow_stack s). length (block_result f) \<le> 1"
    using wf_conf_results [OF assms(1)] by blast
  with assms label_proper [OF assms(1)] show ?thesis
    by (auto simp: validate_br_if_iff [OF wf_conf_frame_ok wf_conf_region] get_u32_iff
          elim!: arrow_imm intro!: spec_intros)
qed

lemma step_br_table:
  assumes "wf_conf c s" and "code_curr s = 0x0e # bs" and "validate_br_table s = Inr s'"
  shows "vstep c s s'"
proof -
  obtain n :: u32 and b ls rest ts where n: "leb128_get_unsigned bs = (b, parse_ok, n)"
    and ls: "read_labels (Suc (unat n)) b = Some (ls, rest)"
    and labels: "\<forall>l \<in> set ls. unat l < length (control_flow_stack s) \<and> label_types (control_flow_stack s ! unat l) = ts"
    and step: "jump_step (ts @ [i32]) rest s s'"
    and exact: "\<forall>v \<in> set (take (length ts) (tl (frame_ops s))). \<not> is_unknown v"
    using assms(3)
    unfolding validate_br_table_iff [OF wf_conf_frame_ok [OF assms(1)] wf_conf_frames(1) [OF assms(1)]
        wf_conf_region [OF assms(1)] wf_conf_results [OF assms(1)]] assms(2) list.sel
    by blast
  obtain nb where nb: "bs = nb @ b" "uN 32 nb (unat n)" using n by (auto simp: get_u32_iff)
  obtain vb where vb: "b = vb @ rest" "u32_vec ls vb" "length ls = Suc (unat n)"
    using read_labels_vec [OF ls] by blast
  then obtain us l where us: "ls = us @ [l]" "length us = unat n"
    by (metis length_Suc_conv_rev)
  have "proper ts" using labels us label_proper [OF assms(1), of "unat l"] by auto
  with labels us step exact nb vb assms(2) show ?thesis
    by (intro jump_imm [where e = "Br_Table us l" and pre = "nb @ vb" and rest = rest and args = "ts @ [i32]"])
       (auto simp: exact_operands_def list_all_iff intro!: spec_intros)
qed

lemma step_return:
  assumes "wf_conf c s" and "code_curr s = 0x0f # bs" and "validate_return s = Inr s'"
  shows "vstep c s s'"
  using assms wf_conf_ctx(3) [OF assms(1)] 
  by (intro jump_imm [where e = Return_Op and pre = "[]" and rest = bs and args = "result (curr_func_type c)"])
     (auto simp: validate_return_iff wf_conf_facts wf_function_type_def exact_operands_def intro!: spec_intros)

lemma step_call:
  assumes "wf_conf c s" and "code_curr s = 0x10 # bs" and "validate_call (module_of c) s = Inr s'"
  shows "vstep c s s'"
  using assms callee_wf [OF wf_conf_ctx(2) [OF assms(1)]]
  by (auto simp: validate_call_iff wf_conf_facts get_u32_iff callee_type_of_iff wf_conf_ctx wf_function_type_def
        elim!: arrow_imm intro!: spec_intros)

lemma step_call_indirect:
  assumes "wf_conf c s" and "code_curr s = 0x11 # bs" and "validate_call_indirect (module_of c) s = Inr s'"
  shows "vstep c s s'"
proof -
  let ?m = "module_of c"
  have wf: "wf_module ?m" using assms(1) by (rule wf_conf_ctx)
  obtain i rest where i: "leb128_get_unsigned bs = (0 # rest, parse_ok, i :: u32)" "unat i < length (types ?m)"
    "all_table_count ?m \<noteq> 0"
    "arrow_step (parameter (types ?m ! unat i) @ [i32]) (result (types ?m ! unat i)) rest s s'"
    using assms types_small [OF wf] by (auto simp: validate_call_indirect_iff wf_conf_facts)
  then obtain pre where pre: "bs = (pre @ [0]) @ rest" "uN 32 pre (unat i)" by (auto simp: get_u32_iff)
  have "wf_function_type (types ?m ! unat i)"
    using wf i(2) unfolding wf_module_def list_all_length by blast
  with i pre assms(2) wf show ?thesis
    by (intro arrow_imm [where e = "Call_Indirect i" and pre = "pre @ [0]" and rest = rest])
       (auto simp: wf_function_type_def all_table_count_iff intro!: spec_intros)
qed

subsection \<open>Structured instructions\<close>

lemma step_block:
  assumes "code_curr s = 0x02 # bs" and "validate_block s = Inr s'"
  shows "vstep c s s'"
  using assms by (auto simp: validate_block_iff block_result_code intro: vstep_block)

lemma step_loop:
  assumes "code_curr s = 0x03 # bs" and "validate_loop_op s = Inr s'"
  shows "vstep c s s'"
  using assms by (auto simp: validate_loop_op_iff block_result_code intro: vstep_loop)

lemma step_if:
  assumes "wf_conf c s" and "code_curr s = 0x04 # bs" and "validate_if s = Inr s'"
  shows "vstep c s s'"
  using assms by (auto simp: validate_if_iff wf_conf_facts block_result_code intro: vstep_if)

lemma step_else:
  assumes "wf_conf c s" and "code_curr s = 0x05 # bs" and "validate_else s = Inr s'"
  shows "vstep c s s'"
proof -
  obtain f fs where "control_flow_stack s = f # fs"
    using wf_conf_frames(1) [OF assms(1)] by (cases "control_flow_stack s") auto
  with assms show ?thesis by (auto simp: validate_else_iff wf_conf_facts intro: vstep_else)
qed

lemma step_end:
  assumes "wf_conf c s" and "code_curr s = 0x0b # bs" and "validate_end s = Inr (Break s')"
  shows "vstep c s s'"
proof -
  obtain f fs where "control_flow_stack s = f # fs"
    using wf_conf_frames(1) [OF assms(1)] by (cases "control_flow_stack s") auto
  with assms show ?thesis
    by (auto simp: validate_end_iff wf_conf_facts split: if_splits intro: vstep_end)
qed

subsection \<open>One iteration\<close>

lemma step_control:
  assumes "wf_conf c s" and "code_curr s = b # bs" and "control_handler c b = Some h" and "h s = Inr s'"
  shows "vstep c s s'"
  using assms(3)
  by (simp add: control_handler_def split: if_split_asm)
     (use assms in \<open>auto intro: step_unreachable step_nop step_block step_loop step_if step_else step_br step_br_if
        step_br_table step_return step_call step_call_indirect\<close>)

lemma step_variable:
  assumes "wf_conf c s" and "code_curr s = b # bs" and "variable_handler c b = Some h" and "h s = Inr s'"
  shows "vstep c s s'"
  using assms(3)
  by (simp add: variable_handler_def split: if_split_asm)
     (use assms in \<open>auto intro: step_drop step_select step_local_get step_local_set step_local_tee
        step_global_get step_global_set\<close>)

lemma validate_op_vstep:
  assumes "wf_conf c s" and "validate_op c s = Inr (Break s')"
  shows "vstep c s s'"
proof -
  obtain b bs where code: "code_curr s = b # bs"
    using assms(2) by (cases "code_curr s") (auto simp: validate_op_def)
  show ?thesis
  proof (cases "b = 0x0b")
    case True
    with assms code step_end show ?thesis by (simp add: validate_op_def)
  next
    case False
    then obtain h where "opcode_handler c b = Some h" "h s = Inr s'"
      using assms(2) code by (auto simp: validate_op_def bindE_eq_Inr split: option.splits)
    then show ?thesis using assms(1) code
      by (auto simp: opcode_handler_def split: option.splits
            intro: step_control step_variable step_memory step_const step_numeric)
  qed
qed

lemma select_region:
  assumes "region_ok p ops" and "pop_types p [i32, t, t] ops \<noteq> None"
  shows "region_ok p (select_result ops # drop 3 ops)"
proof -
  have "p" if "length ops < 3" using assms(2) that by (auto simp: pop_types_def split: if_splits)
  moreover have "region_ok p (drop 3 ops)" using assms(1) by (rule region_ok_drop)
  ultimately show ?thesis using assms(1)
    by (auto simp: select_result_def split: list.splits)
qed

lemma else_frame_wf:
  assumes "wf_conf c s" and "control_flow_stack s = f # fs" and "block_kind f = bt_if"
  shows "wf_conf c (s\<lparr>code_curr := rest, operand_stack := below_ops s, is_polymorphic := False,
           control_flow_stack := f\<lparr>block_kind := bt_else\<rparr> # fs\<rparr>)"
proof -
  have "length (below_ops s) = operand_stack_base (f\<lparr>block_kind := bt_else\<rparr>)"
    using wf_conf_below [OF assms(1)] assms(2) by simp
  from wf_frames_split [OF this, of _ _ fs "[]"] show ?thesis
    using wf_conf_split [OF assms(1)] wf_frames_split [OF wf_conf_below [OF assms(1)]] assms
    by (auto simp: wf_conf_def wf_vstate_def split: if_splits)
qed

lemma vstep_wf:
  assumes "wf_conf c s" and "vstep c s s'"
  shows "wf_conf c s'"
  using assms(2)
proof cases
  case (vstep_select rest t)
  have "region_ok (is_polymorphic s) (select_result (frame_ops s) # drop 3 (frame_ops s))"
    using wf_conf_region [OF assms(1)] vstep_select(3) by (rule select_region)
  from replace_frame_ops [OF assms(1) this, of rest] vstep_select show ?thesis by (simp add: with_ops_def)
next
  case (vstep_else rest f fs)
  with assms(1) show ?thesis by (auto intro: else_frame_wf)
next
  case (vstep_block b rest rt)
  then show ?thesis using block_result_of_byte_wf [of b rt]
    by (auto simp: block_result_code wf_conf_code assms(1) intro!: push_frame_wf)
next
  case (vstep_loop b rest rt)
  then show ?thesis using block_result_of_byte_wf [of b rt]
    by (auto simp: block_result_code wf_conf_code assms(1) intro!: push_frame_wf)
next
  case (vstep_if b rest rt s1)
  then show ?thesis using block_result_of_byte_wf [of b rt] arrow_step_wf [OF assms(1), of "[i32]" "[]" rest s1]
    by (auto simp: block_result_code intro!: push_frame_wf)
qed (use assms(1) in \<open>auto intro: arrow_step_wf jump_step_wf pop_frame_wf\<close>)

end
