(* ===== verification/Validator_Safe.thy ===== *)
theory Validator_Safe
  imports Validator_Invariant
begin

text \<open>
  The unchecked accesses of the validator are in range: in a well-formed configuration no
  iteration of the loop runs into undefined behaviour.
\<close>

section \<open>Handlers without unchecked accesses\<close>

lemma no_UB_plain:
  "validate_unreachable s \<noteq> Inl UB" "validate_nop s \<noteq> Inl UB" "validate_select s \<noteq> Inl UB"
  "validate_numeric_unary n t r s \<noteq> Inl UB" "validate_numeric_binary n t r s \<noteq> Inl UB"
  "validate_i32_const s \<noteq> Inl UB" "validate_i64_const s \<noteq> Inl UB"
  "validate_f32_const s \<noteq> Inl UB" "validate_f64_const s \<noteq> Inl UB"
  "validate_mem_load m n a t s \<noteq> Inl UB" "validate_mem_store m n a t s \<noteq> Inl UB"
  "validate_memory_size m s \<noteq> Inl UB" "validate_memory_grow m s \<noteq> Inl UB"
  "validate_block s \<noteq> Inl UB" "validate_loop_op s \<noteq> Inl UB" "validate_if s \<noteq> Inl UB"
  by (simp_all add: handler_defs Let_def split_def res_simps)

section \<open>Handlers with unchecked accesses\<close>

lemma no_UB_drop: "wf_conf c s \<Longrightarrow> validate_drop s \<noteq> Inl UB"
  by (cases "frame_ops s")
     (auto simp: handler_defs Let_def res_simps operand_stack_split [of s])

lemma no_UB_variable:
  assumes "wf_conf c s"
  shows "validate_local_get c s \<noteq> Inl UB" "validate_local_set c s \<noteq> Inl UB"
    "validate_global_get (module_of c) s \<noteq> Inl UB" "validate_global_set (module_of c) s \<noteq> Inl UB"
  using get_local_type_iff(2) [OF wf_conf_ctx(1) [OF assms]] get_global_type_iff(2) [OF wf_conf_ctx(2) [OF assms]]
  by (auto simp: handler_defs Let_def split_def res_simps)

lemma no_UB_local_tee:
  assumes "wf_conf c s"
  shows "validate_local_tee c s \<noteq> Inl UB"
proof (cases "frame_ops s")
  case Nil
  with get_local_type_iff(2) [OF wf_conf_ctx(1) [OF assms]] show ?thesis
    by (auto simp: handler_defs Let_def split_def res_simps push_operand_def)
next
  case (Cons v ops)
  with get_local_type_iff(2) [OF wf_conf_ctx(1) [OF assms]] show ?thesis
    by (auto simp: handler_defs Let_def split_def res_simps operand_stack_split [of s])
qed

lemma enter_polymorphic_no_UB: "control_flow_stack s \<noteq> [] \<Longrightarrow> enter_polymorphic s \<noteq> Inl UB"
  by (cases "control_flow_stack s") (simp_all add: enter_polymorphic_def)

lemma pop_available_frames [simp]:
  "control_flow_stack (pop_available_concrete_operands n s) = control_flow_stack s"
  by (induction n arbitrary: s) auto

lemma snd_try_pop_frames [simp]:
  "control_flow_stack (snd (try_pop_concrete_operand s)) = control_flow_stack s"
  by (simp add: try_pop_concrete_operand_def Let_def)

lemma label_arguments_no_UB: "check_arguments b n (block_result f) (label_arity f) s \<noteq> Inl UB"
  unfolding check_arguments_label by (rule check_arguments_no_UB)

lemma label_arity_pos: "0 < label_arity f \<Longrightarrow> block_result f \<noteq> []"
  by (auto simp: label_arity_def split: if_splits)

lemma no_UB_br: "wf_conf c s \<Longrightarrow> validate_br s \<noteq> Inl UB"
  by (auto simp: handler_defs Let_def split_def res_simps label_arguments_no_UB
        enter_polymorphic_no_UB wf_conf_facts)

lemma no_UB_return: "wf_conf c s \<Longrightarrow> validate_return s \<noteq> Inl UB"
  by (auto simp: handler_defs Let_def split_def res_simps vec_simps check_arguments_no_UB
        enter_polymorphic_no_UB wf_conf_facts)

lemma no_UB_br_if: "validate_br_if s \<noteq> Inl UB"
  by (auto simp: handler_defs Let_def split_def res_simps vec_simps label_arguments_no_UB label_arity_pos
        split: if_splits)

lemma apply_callee_no_UB: "apply_callee b n ft s \<noteq> Inl UB"
  by (auto simp: apply_callee_def Let_def res_simps check_arguments_no_UB)

lemma no_UB_call:
  assumes "wf_conf c s"
  shows "validate_call (module_of c) s \<noteq> Inl UB"
  using callee_type_of_iff [OF wf_conf_ctx(2) [OF assms]]
  by (auto simp: handler_defs Let_def split_def res_simps apply_callee_no_UB not_le)

lemma no_UB_call_indirect: "validate_call_indirect m s \<noteq> Inl UB"
  by (auto simp: handler_defs Let_def split_def res_simps vec_simps apply_callee_no_UB not_le)

lemma br_table_label_no_UB: "br_table_label b e s \<noteq> Inl UB"
  by (auto simp: br_table_label_def Let_def split_def res_simps vec_simps not_le split: option.splits)

lemma br_table_labels_no_UB: "br_table_labels b n e s \<noteq> Inl UB"
  by (induction n arbitrary: e s) (auto simp: res_simps br_table_label_no_UB)

lemma check_br_table_values_no_UB: "n \<le> length ops \<Longrightarrow> check_br_table_values b t ops n \<noteq> Inl UB"
  by (induction b t ops n rule: check_br_table_values.induct) auto

lemma br_table_tail_no_UB: "control_flow_stack s \<noteq> [] \<Longrightarrow> br_table_tail b e s \<noteq> Inl UB"
  by (auto simp: br_table_tail_def Let_def split_def res_simps snd_try_pop_frames check_br_table_values_no_UB
        enter_polymorphic_no_UB concrete_le_stack min.coboundedI1 split: if_splits)

lemma br_table_labels_frames:
  "br_table_labels b n e s = Inr (e', s') \<Longrightarrow> control_flow_stack s' = control_flow_stack s"
proof (induction n arbitrary: e s)
  case (Suc n)
  then obtain e1 s1 where "br_table_label b e s = Inr (e1, s1)" "br_table_labels b n e1 s1 = Inr (e', s')"
    by (auto simp: bindE_eq_Inr)
  moreover from this(1) have "control_flow_stack s1 = control_flow_stack s"
    by (auto simp: br_table_label_def Let_def split_def res_simps vec_simps split: option.splits)
  ultimately show ?case using Suc.IH by metis
qed simp

lemma no_UB_br_table: "wf_conf c s \<Longrightarrow> validate_br_table s \<noteq> Inl UB"
  unfolding validate_br_table_split
  by (auto simp: Let_def split_def res_simps br_table_labels_no_UB br_table_tail_no_UB wf_conf_facts
        br_table_labels_frames simp del: br_table_labels.simps)

lemma no_UB_else: "wf_conf c s \<Longrightarrow> validate_else s \<noteq> Inl UB"
  using check_frame_result_no_UB [of "advance s"] wf_conf_frame_ok [of c s]
  by (auto simp: handler_defs Let_def res_simps split: list.splits)

lemma no_UB_end: "wf_conf c s \<Longrightarrow> validate_end s \<noteq> Inl UB"
  using check_frame_result_no_UB [of "advance s"] wf_conf_frame_ok [of c s]
  by (auto simp: handler_defs Let_def res_simps vec_simps split: list.splits if_splits)

section \<open>One iteration\<close>

lemmas no_UB_always = no_UB_plain no_UB_br_if no_UB_call_indirect
lemmas no_UB_wf = no_UB_drop no_UB_variable no_UB_local_tee no_UB_br no_UB_return no_UB_call no_UB_br_table no_UB_else

lemma opcode_handler_no_UB:
  assumes "wf_conf c s" and "opcode_handler c b = Some h"
  shows "h s \<noteq> Inl UB"
  using assms(2)
  by (auto simp: opcode_handler_def control_handler_def variable_handler_def memory_handler_def
        const_handler_def numeric_handler_def no_UB_always no_UB_wf [OF assms(1)]
        split: if_splits option.splits prod.splits numeric_shape.splits)

lemma validate_op_no_UB: "wf_conf c s \<Longrightarrow> validate_op c s \<noteq> Inl UB"
  using opcode_handler_no_UB no_UB_end
  by (auto simp: validate_op_def bindE_eq_Inl split: list.splits option.splits)

end
