(* ===== verification/Validator_Sound.thy ===== *)
theory Validator_Sound
  imports Validator_Safe
begin

text \<open>
  The validator implements the specification: while it runs, the code it has consumed is a
  context of the binary grammar with one open instruction sequence per frame, and each open
  sequence has every stack type that the operands of its frame stand for. When it accepts, the
  body parses and has the type of its function.
\<close>

section \<open>The loop over an iteration with a contract\<close>

locale validation_machine =
  fixes step :: "vstate \<Rightarrow> flow vres" and loop :: "vstate \<Rightarrow> vstate vres" and inv :: "vstate \<Rightarrow> bool"
  assumes loop_unfold: "loop s = bindE (step s) (\<lambda>r. case r of Break s' \<Rightarrow> loop s' | Return s' \<Rightarrow> Inr s')"
    and step_consumes: "step s = Inr (Break s') \<Longrightarrow> length (code_curr s') < length (code_curr s)"
    and step_keeps: "inv s \<Longrightarrow> step s = Inr (Break s') \<Longrightarrow> inv s'"
begin

lemma loop_outcome:
  assumes "inv s"
  shows "\<exists>s1. inv s1 \<and> (case loop s of Inl e \<Rightarrow> step s1 = Inl e | Inr s' \<Rightarrow> step s1 = Inr (Return s'))"
  using assms
proof (induction s rule: measure_induct_rule [where f = "\<lambda>s. length (code_curr s)"])
  case (less s)
  show ?case
  proof (cases "step s")
    case (Inl e)
    with less.prems show ?thesis by (intro exI [of _ s]) (simp add: loop_unfold [of s])
  next
    case (Inr r)
    show ?thesis
    proof (cases r)
      case (Break s')
      with Inr have "step s = Inr (Break s')" by simp
      with less step_consumes step_keeps have "\<exists>s1. inv s1 \<and>
        (case loop s' of Inl e \<Rightarrow> step s1 = Inl e | Inr s' \<Rightarrow> step s1 = Inr (Return s'))" by blast
      with Inr Break show ?thesis by (simp add: loop_unfold [of s])
    next
      case (Return s')
      with Inr less.prems show ?thesis by (intro exI [of _ s]) (simp add: loop_unfold [of s])
    qed
  qed
qed

lemma loop_returns: "inv s \<Longrightarrow> loop s = Inr s' \<Longrightarrow> \<exists>s1. inv s1 \<and> step s1 = Inr (Return s')"
  using loop_outcome [of s] by simp

end

locale safe_machine = validation_machine +
  assumes step_safe: "inv s \<Longrightarrow> step s \<noteq> Inl UB"
begin

lemma loop_safe: "inv s \<Longrightarrow> loop s \<noteq> Inl UB"
  using loop_outcome [of s] step_safe by auto

end

lemma validate_op_shorter: "validate_op c s = Inr (Break s') \<Longrightarrow> length (code_curr s') < length (code_curr s)"
  by (auto dest!: validate_op_consumes suffix_length_le)

interpretation wf_machine: safe_machine "validate_op c" "validate_loop c" "wf_conf c" for c
proof
  show "validate_loop c s = bindE (validate_op c s)
      (\<lambda>r. case r of Break s' \<Rightarrow> validate_loop c s' | Return s' \<Rightarrow> Inr s')" for s
    by (rule validate_loop.simps)
qed (auto intro: validate_op_shorter vstep_wf validate_op_vstep dest: validate_op_no_UB)

section \<open>Stack types of a frame\<close>

text \<open>\<open>agree p ops ts\<close>: the operands \<open>ops\<close> stand for the stack type \<open>ts\<close>, topmost first.\<close>

fun agree :: "bool \<Rightarrow> operand_stack_storage_t list \<Rightarrow> value_type list \<Rightarrow> bool" where
  "agree p [] ts \<longleftrightarrow> (p \<or> ts = []) \<and> proper ts"
| "agree p (v # ops) [] \<longleftrightarrow> False"
| "agree p (v # ops) (t # ts) \<longleftrightarrow> t \<noteq> vt_none \<and> operand_fits t v \<and> agree p ops ts"

lemma agree_pop:
  "pop_types p us ops = Some ops' \<Longrightarrow> proper us \<Longrightarrow> agree p ops' ts \<Longrightarrow> agree p ops (us @ ts)"
  by (induction us arbitrary: ops) (auto simp: pop_types_Cons split: list.splits if_splits)

lemma agree_known: "agree p (map known us @ ops) ts \<Longrightarrow> \<exists>ts'. ts = us @ ts' \<and> agree p ops ts'"
proof (induction us arbitrary: ts)
  case (Cons u us)
  then show ?case by (cases ts) (auto simp: operand_fits_def)
qed simp

lemma agree_exists: "region_ok p ops \<Longrightarrow> \<exists>ts. agree p ops ts"
proof (induction ops)
  case (Cons v ops)
  then obtain ts where ts: "agree p ops ts" by auto
  show ?case
  proof (cases "is_unknown v")
    case True
    with ts have "agree p (v # ops) (i32 # ts)" by (simp add: operand_fits_def)
    then show ?thesis ..
  next
    case False
    with ts Cons.prems have "agree p (v # ops) (operand_type v # ts)" by (simp add: operand_fits_def)
    then show ?thesis ..
  qed
qed (auto intro: exI [of _ "[]"])

lemma agree_select:
  assumes "region_ok p ops" and "pop_types p [i32, t0, t0] ops \<noteq> None"
    and "agree p (select_result ops # drop 3 ops) (t # ts)"
  shows "agree p ops (i32 # t # t # ts)"
proof -
  consider "ops = []" | x where "ops = [x]" | x v2 where "ops = [x, v2]" | x v2 v1 ops' where "ops = x # v2 # v1 # ops'"
    by (metis neq_Nil_conv)
  then show ?thesis
    by cases (use assms in \<open>auto simp: pop_types_Cons select_result_def operand_fits_def split: if_splits\<close>)
qed

section \<open>Open instruction sequences\<close>

text \<open>
  \<open>seq_open C es p ops pend\<close>: the sequence \<open>es\<close> has every type that the operands stand for, with
  \<open>pend\<close> on top (the condition of an \<open>if\<close> whose branches are still open).
\<close>

definition seq_open ::
  "typing_context \<Rightarrow> instr list \<Rightarrow> bool \<Rightarrow> operand_stack_storage_t list \<Rightarrow> value_type list \<Rightarrow> bool" where
  "seq_open C es p ops pend \<longleftrightarrow> (\<forall>ts. agree p ops ts \<longrightarrow> seq_type C es [] (rev ts @ pend))"

lemma seq_open_Nil: "seq_open C [] False [] []"
  by (auto simp: seq_open_def intro: type_Nil)

lemma seq_open_pop:
  assumes "seq_open C es p ops pend" and "pop_types p (rev args) ops = Some ops'" and "proper args"
  shows "seq_open C es p ops' (args @ pend)"
proof -
  have "agree p ops (rev args @ ts)" if "agree p ops' ts" for ts
    using that agree_pop assms(2,3) by simp
  then show ?thesis using assms(1) by (fastforce simp: seq_open_def)
qed

lemma seq_open_arrow:
  assumes "seq_open C es p ops args" and "instr_type C e args results"
  shows "seq_open C (es @ [e]) p (map known (rev results) @ ops) []"
  unfolding seq_open_def
proof (intro allI impI)
  fix ts assume "agree p (map known (rev results) @ ops) ts"
  then obtain ts' where "ts = rev results @ ts'" "agree p ops ts'" using agree_known by blast
  then show "seq_type C (es @ [e]) [] (rev ts @ [])"
    using assms by (auto simp: seq_open_def intro: type_snoc)
qed

lemma seq_open_jump:
  assumes "seq_open C es p ops args" and "plain_jump C e args" and "region_ok p ops"
  shows "seq_open C (es @ [Plain e]) True [] []"
  unfolding seq_open_def
proof (intro allI impI)
  fix ts assume "agree True [] ts"
  then have ts: "proper (rev ts)" by simp
  obtain ts0 where ts0: "agree p ops ts0" using agree_exists assms(3) by blast
  then have "proper (rev ts0)" 
    by (induction p ops ts0 rule: agree.induct) auto
  with assms(2) ts have "instr_type C (Plain e) (rev ts0 @ args) (rev ts)" by (intro type_Jump)
  moreover have "seq_type C es [] ([] @ rev ts0 @ args)" using assms(1) ts0 by (simp add: seq_open_def)
  ultimately have "seq_type C (es @ [Plain e]) [] ([] @ rev ts)" by (rule type_snoc [rotated])
  then show "seq_type C (es @ [Plain e]) [] (rev ts @ [])" by simp
qed

lemma seq_open_select:
  assumes "seq_open C es p ops []" and "region_ok p ops" and "pop_types p [i32, t0, t0] ops \<noteq> None"
  shows "seq_open C (es @ [Plain Select]) p (select_result ops # drop 3 ops) []"
  unfolding seq_open_def
proof (intro allI impI)
  fix ts assume ag: "agree p (select_result ops # drop 3 ops) ts"
  then obtain t ts' where ts: "ts = t # ts'" "t \<noteq> vt_none" by (cases ts) auto
  with ag assms agree_select have "agree p ops (i32 # t # t # ts')" by blast
  with assms(1) have "seq_type C es [] (rev ts' @ [t, t, i32])" by (fastforce simp: seq_open_def)
  moreover have "instr_type C (Plain Select) [t, t, i32] [t]" using ts(2) by (intro type_Arrow plain_arrow.intros)
  ultimately have "seq_type C (es @ [Plain Select]) [] (rev ts' @ [t])" by (rule type_snoc)
  then show "seq_type C (es @ [Plain Select]) [] (rev ts @ [])" using ts(1) by simp
qed

text \<open>Closing a frame: its operands stand for its result type.\<close>

lemma seq_open_close:
  assumes "seq_open C es p ops []" and "pop_types p (rev r) ops = Some []" and "proper r"
  shows "seq_type C es [] r"
  using seq_open_pop [OF assms] by (simp add: seq_open_def) (metis append_Nil agree.simps(1) empty_iff list.set(1) rev.simps(1))

section \<open>The consumed code as a context\<close>

text \<open>
  \<open>frame_open c f fs pend ob\<close>: the bytes \<open>ob\<close> open the frame \<open>f\<close> inside the frames \<open>fs\<close> and will take
  the operands \<open>pend\<close>; for an \<open>else\<close> frame they include the first branch.
\<close>

inductive frame_open :: "func_ctx \<Rightarrow> block_t \<Rightarrow> block_t list \<Rightarrow> value_type list \<Rightarrow> byte list \<Rightarrow> bool" for c f fs where
  open_block: "block_kind f = bt_block \<Longrightarrow> block_code (block_result f) b \<Longrightarrow> frame_open c f fs [] [0x02, b]"
| open_loop: "block_kind f = bt_loop \<Longrightarrow> block_code (block_result f) b \<Longrightarrow> frame_open c f fs [] [0x03, b]"
| open_if: "block_kind f = bt_if \<Longrightarrow> block_code (block_result f) b \<Longrightarrow> frame_open c f fs [i32] [0x04, b]"
| open_else: "block_kind f = bt_else \<Longrightarrow> block_code (block_result f) b \<Longrightarrow> seq_code es bs \<Longrightarrow>
    seq_type (tctx_of c (f # fs)) es [] (block_result f) \<Longrightarrow> frame_open c f fs [i32] (0x04 # b # bs @ [0x05])"

inductive zipper ::
  "func_ctx \<Rightarrow> value_type list \<Rightarrow> bool \<Rightarrow> block_t list \<Rightarrow> operand_stack_storage_t list \<Rightarrow> byte list \<Rightarrow> bool"
  for c where
  zip_function: "block_kind f = bt_function \<Longrightarrow> operand_stack_base f = 0 \<Longrightarrow> seq_code es bs \<Longrightarrow>
     seq_open (tctx_of c [f]) es p ops pend \<Longrightarrow> zipper c pend p [f] ops bs"
| zip_frame: "zipper c pend0 (polymorphic_base f) fs ops0 bs0 \<Longrightarrow> operand_stack_base f = length ops0 \<Longrightarrow>
     frame_open c f fs pend0 ob \<Longrightarrow> seq_code es bs \<Longrightarrow> seq_open (tctx_of c (f # fs)) es p ops pend \<Longrightarrow>
     zipper c pend p (f # fs) (ops @ ops0) (bs0 @ ob @ bs)"

lemma zipper_Cons:
  assumes "zipper c pend p (f # fs) (ops @ below) bs" and "length below = operand_stack_base f"
  obtains
    (bottom) es where "block_kind f = bt_function" "fs = []" "below = []" "seq_code es bs"
      "seq_open (tctx_of c [f]) es p ops pend"
  | (inner) pend0 bs0 ob es bs1 where "zipper c pend0 (polymorphic_base f) fs below bs0"
      "frame_open c f fs pend0 ob" "seq_code es bs1" "seq_open (tctx_of c (f # fs)) es p ops pend"
      "bs = bs0 @ ob @ bs1"
  using assms by (cases rule: zipper.cases) (auto simp: append_eq_append_conv)

lemma zipper_nonempty:
  assumes "zipper c pend p fs ops bs"
  obtains f fs' ops1 below where "fs = f # fs'" "ops = ops1 @ below" "length below = operand_stack_base f"
  using assms by cases (metis append_Nil2 list.size(3), metis)

text \<open>A step inside the innermost sequence: it grows by \<open>es'\<close>, its operands change.\<close>

lemma zipper_replace:
  assumes z: "zipper c pend p (f # fs) (ops @ below) bs" and len: "length below = operand_stack_base f"
    and ext: "\<And>es. seq_open (tctx_of c (f # fs)) es p ops pend \<Longrightarrow>
                seq_open (tctx_of c (f # fs)) (es @ es') p' ops' pend'"
    and code: "\<And>es bs. seq_code es bs \<Longrightarrow> seq_code (es @ es') (bs @ bs')"
  shows "zipper c pend' p' (f # fs) (ops' @ below) (bs @ bs')"
  using z len
proof (cases rule: zipper_Cons)
  case (bottom es)
  with len ext [of es] code [of es bs] show ?thesis by (auto intro: zip_function)
next
  case (inner pend0 bs0 ob es bs1)
  with len have "zipper c pend' p' (f # fs) (ops' @ below) (bs0 @ ob @ (bs1 @ bs'))"
    by (intro zip_frame [where es = "es @ es'"] ext code) simp_all
  with inner show ?thesis by simp
qed

lemma frame_close:
  assumes "frame_open c f fs pend ob" and "seq_code es bs" and "seq_type (tctx_of c (f # fs)) es [] (block_result f)"
    and "block_kind f = bt_if \<longrightarrow> block_result f = []"
  shows "\<exists>e. instr_code e (ob @ bs @ [0x0b]) \<and> instr_type (tctx_of c fs) e pend (block_result f)"
proof -
  have ctx: "tctx_of c (f # fs) = enter_label (tctx_of c fs) (label_types f)"
    by (simp add: tctx_of_def function_context_def)
  show ?thesis using assms(1)
  proof cases
    case (open_block b)
    with assms ctx have "instr_code (Block (block_result f) es) (ob @ bs @ [0x0b])"
      "instr_type (tctx_of c fs) (Block (block_result f) es) pend (block_result f)"
      by (auto simp: label_types_def intro: code_Block type_Block)
    then show ?thesis by blast
  next
    case (open_loop b)
    with assms ctx have "instr_code (Loop (block_result f) es) (ob @ bs @ [0x0b])"
      "instr_type (tctx_of c fs) (Loop (block_result f) es) pend (block_result f)"
      by (auto simp: label_types_def intro: code_Loop type_Loop)
    then show ?thesis by blast
  next
    case (open_if b)
    with assms ctx have "instr_code (If (block_result f) es []) (ob @ bs @ [0x0b])"
      "instr_type (tctx_of c fs) (If (block_result f) es []) pend (block_result f)"
      by (auto simp: label_types_def intro!: code_If type_If type_Nil)
    then show ?thesis by blast
  next
    case (open_else b es1 bs1)
    with assms have "instr_code (If (block_result f) es1 es) (ob @ bs @ [0x0b])"
      "instr_type (tctx_of c fs) (If (block_result f) es1 es) pend (block_result f)"
      using code_If_Else [of "block_result f" b es1 bs1 es bs] type_If [where C = "tctx_of c fs" and rt = "block_result f"]
      by (simp_all add: label_types_def ctx)
    then show ?thesis by blast
  qed
qed

section \<open>Every transition keeps the context\<close>

definition typed_conf :: "func_ctx \<Rightarrow> byte list \<Rightarrow> vstate \<Rightarrow> bool" where
  "typed_conf c code s \<longleftrightarrow> wf_conf c s \<and>
     (\<exists>bs. code = bs @ code_curr s \<and>
        zipper c [] (is_polymorphic s) (control_flow_stack s) (operand_stack s) bs)"

lemma typed_conf_wf: "typed_conf c code s \<Longrightarrow> wf_conf c s"
  by (simp add: typed_conf_def)

lemma typed_conf_split:
  assumes "typed_conf c code s"
  obtains f fs bs where "control_flow_stack s = f # fs" "code = bs @ code_curr s"
    "zipper c [] (is_polymorphic s) (f # fs) (frame_ops s @ below_ops s) bs"
    "length (below_ops s) = operand_stack_base f"
proof -
  obtain bs where bs: "wf_conf c s" "code = bs @ code_curr s"
    "zipper c [] (is_polymorphic s) (control_flow_stack s) (operand_stack s) bs"
    using assms by (auto simp: typed_conf_def)
  obtain f fs where "control_flow_stack s = f # fs"
    using wf_conf_frames(1) [OF bs(1)] by (cases "control_flow_stack s") auto
  with bs wf_conf_below [OF bs(1)] that show ?thesis by (simp add: operand_stack_split [symmetric])
qed

lemma typed_arrow:
  assumes conf: "typed_conf c code s" and "plain_code e bs'" "code_curr s = bs' @ rest"
    "plain_arrow (tctx_of c (control_flow_stack s)) e args results" "proper args" "arrow_step args results rest s s'"
    and wf: "wf_conf c s'"
  shows "typed_conf c code s'"
proof -
  obtain f fs bs where cs: "control_flow_stack s = f # fs" and code: "code = bs @ code_curr s"
    and z: "zipper c [] (is_polymorphic s) (f # fs) (frame_ops s @ below_ops s) bs"
    and len: "length (below_ops s) = operand_stack_base f"
    using conf by (rule typed_conf_split)
  obtain ops where ops: "pop_types (is_polymorphic s) (rev args) (frame_ops s) = Some ops"
    "s' = (with_ops (map known (rev results) @ ops) s)\<lparr>code_curr := rest\<rparr>"
    using assms(6) by (auto simp: arrow_step_def)
  have "instr_type (tctx_of c (f # fs)) (Plain e) args results" using assms(4) cs by (simp add: type_Arrow)
  then have "seq_open (tctx_of c (f # fs)) (es @ [Plain e]) (is_polymorphic s) (map known (rev results) @ ops) []"
    if "seq_open (tctx_of c (f # fs)) es (is_polymorphic s) (frame_ops s) []" for es
    using seq_open_pop [OF that ops(1) assms(5)] seq_open_arrow by simp
  from zipper_replace [OF z len this, of bs'] assms(2)
  have "zipper c [] (is_polymorphic s) (f # fs) ((map known (rev results) @ ops) @ below_ops s) (bs @ bs')"
    by (simp add: code_snoc code_Plain)
  with ops cs code assms(3) wf show ?thesis by (simp add: typed_conf_def)
qed

lemma typed_jump:
  assumes conf: "typed_conf c code s" and "plain_code e bs'" "code_curr s = bs' @ rest"
    "plain_jump (tctx_of c (control_flow_stack s)) e args" "proper args" "jump_step args rest s s'"
    and wf: "wf_conf c s'"
  shows "typed_conf c code s'"
proof -
  obtain f fs bs where cs: "control_flow_stack s = f # fs" and code: "code = bs @ code_curr s"
    and z: "zipper c [] (is_polymorphic s) (f # fs) (frame_ops s @ below_ops s) bs"
    and len: "length (below_ops s) = operand_stack_base f"
    using conf by (rule typed_conf_split)
  obtain ops where ops: "pop_types (is_polymorphic s) (rev args) (frame_ops s) = Some ops"
    "s' = (with_ops [] s)\<lparr>code_curr := rest, is_polymorphic := True\<rparr>"
    using assms(6) by (auto simp: jump_step_def)
  have "region_ok (is_polymorphic s) ops"
    using region_ok_drop [OF wf_conf_region [OF typed_conf_wf [OF conf]]] pop_types_Some_drop [OF ops(1)] by simp
  then have "seq_open (tctx_of c (f # fs)) (es @ [Plain e]) True [] []"
    if "seq_open (tctx_of c (f # fs)) es (is_polymorphic s) (frame_ops s) []" for es
    using seq_open_pop [OF that ops(1) assms(5)] seq_open_jump assms(4) cs by simp
  from zipper_replace [OF z len this, of bs'] assms(2)
  have "zipper c [] True (f # fs) ([] @ below_ops s) (bs @ bs')"
    by (simp add: code_snoc code_Plain)
  with ops cs code assms(3) wf show ?thesis by (simp add: typed_conf_def)
qed

lemma typed_select:
  assumes conf: "typed_conf c code s" and "code_curr s = 0x1b # rest"
    and pop: "pop_types (is_polymorphic s) [i32, t, t] (frame_ops s) \<noteq> None"
    and s': "s' = (with_ops (select_result (frame_ops s) # drop 3 (frame_ops s)) s)\<lparr>code_curr := rest\<rparr>"
    and wf: "wf_conf c s'"
  shows "typed_conf c code s'"
proof -
  obtain f fs bs where cs: "control_flow_stack s = f # fs" and code: "code = bs @ code_curr s"
    and z: "zipper c [] (is_polymorphic s) (f # fs) (frame_ops s @ below_ops s) bs"
    and len: "length (below_ops s) = operand_stack_base f"
    using conf by (rule typed_conf_split)
  have "region_ok (is_polymorphic s) (frame_ops s)" by (rule wf_conf_region [OF typed_conf_wf [OF conf]])
  from zipper_replace [OF z len seq_open_select [OF _ this pop], of "[0x1b]"]
  have "zipper c [] (is_polymorphic s) (f # fs) ((select_result (frame_ops s) # drop 3 (frame_ops s)) @ below_ops s)
          (bs @ [0x1b])"
    by (simp add: code_snoc code_Plain plain_code.intros)
  with s' cs code assms(2) wf show ?thesis by (simp add: typed_conf_def)
qed

text \<open>Opening a frame: the new sequence is empty and its frame has no operands.\<close>

lemma typed_push:
  assumes z: "zipper c pend p fs ops bs" and "frame_open c f fs pend ob"
    and "operand_stack_base f = length ops" and "polymorphic_base f = p"
  shows "zipper c [] False (f # fs) ops (bs @ ob)"
  using zip_frame [of c pend f fs ops bs ob "[]" "[]" False "[]" "[]"] assms
  by (simp add: code_Nil seq_open_Nil)

lemma typed_block:
  assumes conf: "typed_conf c code s" and "code_curr s = ob @ rest"
    and op: "\<And>f. f = \<lparr>block_result = rt, operand_stack_base = length (operand_stack s), block_kind = k,
                     polymorphic_base = is_polymorphic s\<rparr> \<Longrightarrow> frame_open c f (control_flow_stack s) [] ob"
    and s': "s' = push_frame k rt (s\<lparr>code_curr := rest\<rparr>)" and wf: "wf_conf c s'"
  shows "typed_conf c code s'"
proof -
  obtain bs where "code = bs @ code_curr s"
    "zipper c [] (is_polymorphic s) (control_flow_stack s) (operand_stack s) bs"
    using conf by (auto simp: typed_conf_def)
  with op [OF refl] typed_push assms(2) s' wf show ?thesis
    by (fastforce simp: typed_conf_def push_frame_def)
qed

lemma typed_if:
  assumes conf: "typed_conf c code s" and "code_curr s = 0x04 # b # rest" and "block_code rt b"
    and step: "arrow_step [i32] [] rest s s1" and s': "s' = push_frame bt_if rt s1" and wf: "wf_conf c s'"
  shows "typed_conf c code s'"
proof -
  obtain f fs bs where cs: "control_flow_stack s = f # fs" and code: "code = bs @ code_curr s"
    and z: "zipper c [] (is_polymorphic s) (f # fs) (frame_ops s @ below_ops s) bs"
    and len: "length (below_ops s) = operand_stack_base f"
    using conf by (rule typed_conf_split)
  obtain ops where ops: "pop_types (is_polymorphic s) (rev [i32]) (frame_ops s) = Some ops"
    "s1 = (with_ops ops s)\<lparr>code_curr := rest\<rparr>"
    using step by (auto simp: arrow_step_def)
  have "zipper c [i32] (is_polymorphic s) (f # fs) (ops @ below_ops s) (bs @ [])"
    using zipper_replace [OF z len, of "[]" "is_polymorphic s" ops "[i32]" "[]"] seq_open_pop [OF _ ops(1)] by simp
  from typed_push [OF this open_if, of "\<lparr>block_result = rt, operand_stack_base = length (ops @ below_ops s),
      block_kind = bt_if, polymorphic_base = is_polymorphic s\<rparr>" b] assms(3)
  have "zipper c [] False (\<lparr>block_result = rt, operand_stack_base = length (ops @ below_ops s),
      block_kind = bt_if, polymorphic_base = is_polymorphic s\<rparr> # f # fs) (ops @ below_ops s) (bs @ [0x04, b])"
    by simp
  with cs code ops s' assms(2) wf show ?thesis by (simp add: typed_conf_def push_frame_def)
qed

lemma typed_else:
  assumes conf: "typed_conf c code s" and "code_curr s = 0x05 # rest" and cs: "control_flow_stack s = f # fs"
    and kind: "block_kind f = bt_if" and pop: "pop_types (is_polymorphic s) (rev (block_result f)) (frame_ops s) = Some []"
    and s': "s' = s\<lparr>code_curr := rest, operand_stack := below_ops s, is_polymorphic := False,
            control_flow_stack := f\<lparr>block_kind := bt_else\<rparr> # fs\<rparr>"
    and wf: "wf_conf c s'"
  shows "typed_conf c code s'"
proof -
  obtain bs where code: "code = bs @ code_curr s"
    and z: "zipper c [] (is_polymorphic s) (f # fs) (frame_ops s @ below_ops s) bs"
    and len: "length (below_ops s) = operand_stack_base f"
    using conf cs by (auto elim!: typed_conf_split)
  have "proper (block_result f)" using wf_conf_results [OF typed_conf_wf [OF conf]] cs by simp
  note close = seq_open_close [OF _ pop this]
  have ctx: "tctx_of c (f\<lparr>block_kind := bt_else\<rparr> # fs) = tctx_of c (f # fs)"
    using kind by (simp add: tctx_of_def label_types_def)
  from z len show ?thesis
  proof (cases rule: zipper_Cons)
    case (bottom es)
    with kind show ?thesis by simp
  next
    case (inner pend0 bs0 ob es bs1)
    obtain b where ob: "pend0 = [i32]" "ob = [0x04, b]" "block_code (block_result f) b"
      using inner(2) kind by cases auto
    have "frame_open c (f\<lparr>block_kind := bt_else\<rparr>) fs [i32] (0x04 # b # bs1 @ [0x05])"
      using ob inner close by (intro open_else) (simp_all add: ctx)
    from typed_push [OF _ this, of "polymorphic_base f" "below_ops s" bs0] inner ob len
    have "zipper c [] False (f\<lparr>block_kind := bt_else\<rparr> # fs) (below_ops s) (bs @ [0x05])" by simp
    with code assms(2) s' wf show ?thesis by (simp add: typed_conf_def)
  qed
qed

lemma typed_end:
  assumes conf: "typed_conf c code s" and "code_curr s = 0x0b # rest" and cs: "control_flow_stack s = f # fs"
    and kind: "block_kind f \<noteq> bt_function" "block_kind f = bt_if \<longrightarrow> block_result f = []"
    and pop: "pop_types (is_polymorphic s) (rev (block_result f)) (frame_ops s) = Some []"
    and s': "s' = pop_frame f fs s" and wf: "wf_conf c s'"
  shows "typed_conf c code s'"
proof -
  obtain bs where code: "code = bs @ code_curr s"
    and z: "zipper c [] (is_polymorphic s) (f # fs) (frame_ops s @ below_ops s) bs"
    and len: "length (below_ops s) = operand_stack_base f"
    using conf cs by (auto elim!: typed_conf_split)
  have "proper (block_result f)" using wf_conf_results [OF typed_conf_wf [OF conf]] cs by simp
  note close = seq_open_close [OF _ pop this]
  from z len show ?thesis
  proof (cases rule: zipper_Cons)
    case (bottom es)
    with kind show ?thesis by simp
  next
    case (inner pend0 bs0 ob es bs1)
    then obtain e where e: "instr_code e (ob @ bs1 @ [0x0b])" "instr_type (tctx_of c fs) e pend0 (block_result f)"
      using frame_close close kind(2) by blast
    obtain g gs ops1 below1 where out: "fs = g # gs" "below_ops s = ops1 @ below1" "length below1 = operand_stack_base g"
      using inner(1) by (rule zipper_nonempty)
    from zipper_replace [OF inner(1) [unfolded out(1,2)] out(3) seq_open_arrow [OF _ e(2) [unfolded out(1)]] code_snoc [OF _ e(1)]]
    have "zipper c [] (polymorphic_base f) fs (map known (rev (block_result f)) @ below_ops s) (bs @ [0x0b])"
      using out inner(5) by simp
    with code assms(2) s' wf show ?thesis by (simp add: typed_conf_def pop_frame_def)
  qed
qed

lemma vstep_typed:
  assumes conf: "typed_conf c code s" and step: "vstep c s s'"
  shows "typed_conf c code s'"
proof -
  have wf: "wf_conf c s'" using typed_conf_wf [OF conf] step by (rule vstep_wf)
  show ?thesis using step
  proof cases
    case (vstep_block b rest rt)
    then show ?thesis using typed_block [OF conf, of "[0x02, b]" rest rt bt_block] wf by (simp add: open_block)
  next
    case (vstep_loop b rest rt)
    then show ?thesis using typed_block [OF conf, of "[0x03, b]" rest rt bt_loop] wf by (simp add: open_loop)
  next
    case (vstep_arrow e bs rest args results)
    with typed_arrow [OF conf] wf show ?thesis by blast
  next
    case (vstep_select rest t)
    with typed_select [OF conf] wf show ?thesis by blast
  next
    case (vstep_jump e bs rest args)
    with typed_jump [OF conf] wf show ?thesis by blast
  next
    case (vstep_if b rest rt s1)
    with typed_if [OF conf] wf show ?thesis by blast
  next
    case (vstep_else rest f fs)
    with typed_else [OF conf] wf show ?thesis by blast
  next
    case (vstep_end rest f fs)
    with typed_end [OF conf] wf show ?thesis by blast
  qed
qed

section \<open>Acceptance\<close>

interpretation typed_machine: validation_machine "validate_op c" "validate_loop c" "typed_conf c code" for c code
  by unfold_locales
     (auto intro: validate_op_shorter vstep_typed validate_op_vstep typed_conf_wf simp: validate_loop.simps [of c])

lemma accepting_step:
  assumes conf: "typed_conf c code s" and ret: "validate_op c s = Inr (Return s')"
  shows "\<exists>es. body_code es code \<and>
     seq_type (function_context (module_of c) (curr_func_type c) (curr_code_locals c) [result (curr_func_type c)])
       es [] (result (curr_func_type c))"
proof -
  obtain f fs bs where cs: "control_flow_stack s = f # fs" and code: "code = bs @ code_curr s"
    and z: "zipper c [] (is_polymorphic s) (f # fs) (frame_ops s @ below_ops s) bs"
    and len: "length (below_ops s) = operand_stack_base f"
    using conf by (rule typed_conf_split)
  note wf = typed_conf_wf [OF conf]
  obtain rest where rest: "code_curr s = 0x0b # rest" and ret': "validate_end s = Inr (Return s')"
    using ret by (auto simp: validate_op_def bindE_eq_Inr split: list.splits if_splits option.splits)
  have fin: "block_kind f = bt_function" "rest = []"
    "pop_types (is_polymorphic s) (rev (block_result f)) (frame_ops s) = Some []"
    using ret' validate_end_iff [OF wf_conf_frame_ok [OF wf] cs] rest by (auto split: if_splits)
  from z len show ?thesis
  proof (cases rule: zipper_Cons)
    case (bottom es)
    have r: "block_result f = result (curr_func_type c)"
      using wf_conf_frames(2) [OF wf] cs bottom(2) by simp
    have "proper (block_result f)" using wf_conf_results [OF wf] cs by simp
    from seq_open_close [OF bottom(5) fin(3) this] r fin(1)
    have "seq_type (function_context (module_of c) (curr_func_type c) (curr_code_locals c)
        [result (curr_func_type c)]) es [] (result (curr_func_type c))"
      by (simp add: tctx_of_def label_types_def)
    with bottom(4) code rest fin(2) show ?thesis by (auto simp: body_code_def)
  next
    case (inner pend0 bs0 ob es bs1)
    from inner(2) fin(1) show ?thesis by cases auto
  qed
qed

lemma initial_wf:
  assumes "wf_ctx c"
  shows "wf_conf c (initial_state (curr_func_type c) code)"
  using assms by (simp add: wf_conf_def wf_vstate_def initial_state_def)

lemma initial_typed:
  assumes "wf_ctx c"
  shows "typed_conf c code (initial_state (curr_func_type c) code)"
  using initial_wf [OF assms] zip_function [of _ "[]" "[]" c False "[]" "[]"]
  by (simp add: typed_conf_def initial_state_def code_Nil seq_open_Nil)

text \<open>The context \<open>validate_code\<close> prepares.\<close>

definition prepared_ctx :: "module_storage \<Rightarrow> nat \<Rightarrow> func_ctx" where
  "prepared_ctx m i =
     \<lparr>module_of = m, curr_func_type = types m ! (funcs m ! i), curr_code_locals = codes m ! i,
      all_local_count = count_locals (types m ! (funcs m ! i)) (codes m ! i)\<rparr>"

lemma prepared_ctx_wf:
  assumes "wf_module m" and "i < length (funcs m)"
  shows "wf_ctx (prepared_ctx m i)"
proof -
  have len: "length (codes m) = length (funcs m)" and ti: "funcs m ! i < length (types m)"
    using assms by (simp_all add: wf_module_def list_all_length)
  have "local_total (types m ! (funcs m ! i)) (codes m ! i) < 2 ^ 32"
    using assms unfolding wf_module_def list_all2_conv_all_nth by blast
  moreover have "list_all (\<lambda>l. local_type l \<noteq> vt_none) (codes m ! i)"
    using assms len by (simp add: wf_module_def list_all_length)
  moreover have "wf_function_type (types m ! (funcs m ! i))"
    using assms(1) ti unfolding wf_module_def list_all_length by blast
  ultimately show ?thesis using assms(1) by (simp add: wf_ctx_def prepared_ctx_def)
qed

lemma validate_code_split:
  assumes "wf_module m"
  shows "validate_code m fi code =
     (if fi < length (imported_funcs m) then Inl (Throw (verr code (not_local_function fi) parse_invalid))
      else if length (imported_funcs m) + length (funcs m) \<le> fi
      then Inl (Throw (verr code (invalid_function_index fi (length (imported_funcs m) + length (funcs m))) parse_invalid))
      else let c = prepared_ctx m (fi - length (imported_funcs m)) in
        bindE (validate_loop c (initial_state (curr_func_type c) code)) (\<lambda>_. Inr ()))"
proof -
  let ?i = "fi - length (imported_funcs m)"
  have "funcs m ! ?i < length (types m)" "?i < length (codes m)" if "?i < length (funcs m)"
    using that assms by (simp_all add: wf_module_def list_all_length)
  moreover have "length (funcs m) \<le> ?i \<longleftrightarrow> length (imported_funcs m) + length (funcs m) \<le> fi"
    if "\<not> fi < length (imported_funcs m)"
    using that by linarith
  ultimately show ?thesis
    by (cases "?i < length (funcs m)") (simp_all add: validate_code_def Let_def vec_simps prepared_ctx_def not_less throw_if_def)
qed

end
