(* ===== verification/Validator_Complete.thy ===== *)
theory Validator_Complete
  imports Validator_Sound
begin

text \<open>
  The converse direction: whatever the grammar and the typing rules allow, the handlers accept.
  The transition relation is exactly one iteration of the loop, and a typable body is accepted
  unless it gives an unknown operand to \<^verbatim>\<open>br_table\<close>.
\<close>

section \<open>Dispatch by opcode\<close>

lemma opcode_handler_control:
  "opcode_handler c 0x00 = Some validate_unreachable" "opcode_handler c 0x01 = Some validate_nop"
  "opcode_handler c 0x02 = Some validate_block" "opcode_handler c 0x03 = Some validate_loop_op"
  "opcode_handler c 0x04 = Some validate_if" "opcode_handler c 0x05 = Some validate_else"
  "opcode_handler c 0x0c = Some validate_br" "opcode_handler c 0x0d = Some validate_br_if"
  "opcode_handler c 0x0e = Some validate_br_table" "opcode_handler c 0x0f = Some validate_return"
  "opcode_handler c 0x10 = Some (validate_call (module_of c))"
  "opcode_handler c 0x11 = Some (validate_call_indirect (module_of c))"
  by (simp_all add: opcode_handler_def control_handler_def)

lemma opcode_handler_variable:
  "opcode_handler c 0x1a = Some validate_drop" "opcode_handler c 0x1b = Some validate_select"
  "opcode_handler c 0x20 = Some (validate_local_get c)" "opcode_handler c 0x21 = Some (validate_local_set c)"
  "opcode_handler c 0x22 = Some (validate_local_tee c)"
  "opcode_handler c 0x23 = Some (validate_global_get (module_of c))"
  "opcode_handler c 0x24 = Some (validate_global_set (module_of c))"
  by (simp_all add: opcode_handler_def control_handler_def variable_handler_def)

lemma opcode_handler_const:
  "opcode_handler c 0x3f = Some (validate_memory_size (module_of c))"
  "opcode_handler c 0x40 = Some (validate_memory_grow (module_of c))"
  "opcode_handler c 0x41 = Some validate_i32_const" "opcode_handler c 0x42 = Some validate_i64_const"
  "opcode_handler c 0x43 = Some validate_f32_const" "opcode_handler c 0x44 = Some validate_f64_const"
  by (simp_all add: opcode_handler_def control_handler_def variable_handler_def memory_handler_def
        const_handler_def load_cases_def store_cases_def)

lemma above_variables:
  assumes "\<not> b < 0x25"
  shows "control_handler c b = None" "variable_handler c b = None" "b \<noteq> 0x0b"
  using assms by (auto simp: control_handler_def variable_handler_def)

lemma load_typeD:
  assumes "load_type b = Some (t, w)"
  shows "\<exists>n a. opcode_handler c b = Some (validate_mem_load (module_of c) n a t) \<and> w = 2 ^ unat a \<and> b \<noteq> 0x0b"
proof -
  have "\<not> b < 0x25" using assms by (auto simp: load_type_def split: if_splits)
  note other = above_variables [OF this]
  have "load_type b = None" if "map_of load_cases b = None"
    using that by (simp add: load_cases_def load_type_def split: if_splits)
  then obtain n a t' where e: "map_of load_cases b = Some (n, a, t')" using assms by fastforce
  with load_caseD [OF e] assms other show ?thesis by (auto simp: opcode_handler_def memory_handler_def)
qed

lemma store_typeD:
  assumes "store_type b = Some (t, w)"
  shows "\<exists>n a. opcode_handler c b = Some (validate_mem_store (module_of c) n a t) \<and> w = 2 ^ unat a \<and> b \<noteq> 0x0b"
proof -
  have "\<not> b < 0x25" using assms by (auto simp: store_type_def split: if_splits)
  note other = above_variables [OF this]
  have "store_type b = None" if "map_of store_cases b = None"
    using that by (simp add: store_cases_def store_type_def split: if_splits)
  then obtain n a t' where e: "map_of store_cases b = Some (n, a, t')" using assms by fastforce
  have "load_type b = None" using assms by (auto simp: store_type_def load_type_def split: if_splits)
  then have "map_of load_cases b = None" using load_caseD [of b] by (cases "map_of load_cases b") auto
  with e store_caseD [OF e] assms other show ?thesis by (auto simp: opcode_handler_def memory_handler_def)
qed

lemma numeric_not_other:
  assumes "numeric_type b \<noteq> None"
  shows "control_handler c b = None" "variable_handler c b = None" "memory_handler c b = None" "const_handler b = None"
    "b \<noteq> 0x0b"
proof -
  have ge: "\<not> b < 0x45" using assms by (auto simp: numeric_type_def)
  have "load_type b = None" "store_type b = None"
    using ge by (auto simp: load_type_def store_type_def)
  then have "map_of load_cases b = None" "map_of store_cases b = None"
    using load_caseD [of b] store_caseD [of b]
    by (cases "map_of load_cases b"; cases "map_of store_cases b"; force)+
  with ge show "memory_handler c b = None" by (auto simp: memory_handler_def)
  show "control_handler c b = None" "variable_handler c b = None" "const_handler b = None" "b \<noteq> 0x0b"
    using ge by (auto simp: control_handler_def variable_handler_def const_handler_def)
qed

lemma opcode_handler_numeric:
  assumes "numeric_type b = Some (ts, t)"
  shows "\<exists>n u. ts = [u] \<and> opcode_handler c b = Some (validate_numeric_unary n u t) \<or>
     ts = [u, u] \<and> opcode_handler c b = Some (validate_numeric_binary n u t)"
proof -
  obtain n sh u r where e: "map_of numeric_cases b = Some (n, sh, u, r)" "case_type (n, sh, u, r) = (ts, t)"
    using assms by (auto simp: numeric_table)
  have "opcode_handler c b = numeric_handler b"
    using assms by (simp add: opcode_handler_def numeric_not_other)
  with e show ?thesis by (cases sh) (auto simp: numeric_handler_def case_type_def)
qed

text \<open>The bytes the switch has a case for, \<open>end\<close> included.\<close>

lemma opcode_handler_domain:
  "b = 0x0b \<or> opcode_handler c b \<noteq> None \<longleftrightarrow>
     b \<in> set [0x0b, 0x00, 0x01, 0x02, 0x03, 0x04, 0x05, 0x0c, 0x0d, 0x0e, 0x0f, 0x10, 0x11,
        0x1a, 0x1b, 0x20, 0x21, 0x22, 0x23, 0x24, 0x3f, 0x40, 0x41, 0x42, 0x43, 0x44] \<or>
     map_of load_cases b \<noteq> None \<or> map_of store_cases b \<noteq> None \<or> map_of numeric_cases b \<noteq> None"
proof -
  have "control_handler c b \<noteq> None \<longleftrightarrow>
      b \<in> set [0x00, 0x01, 0x02, 0x03, 0x04, 0x05, 0x0c, 0x0d, 0x0e, 0x0f, 0x10, 0x11]"
    by (simp add: control_handler_def)
  moreover have "variable_handler c b \<noteq> None \<longleftrightarrow> b \<in> set [0x1a, 0x1b, 0x20, 0x21, 0x22, 0x23, 0x24]"
    by (simp add: variable_handler_def)
  moreover have "memory_handler c b \<noteq> None \<longleftrightarrow>
      map_of load_cases b \<noteq> None \<or> map_of store_cases b \<noteq> None \<or> b \<in> set [0x3f, 0x40]"
    by (auto simp: memory_handler_def split: option.splits)
  moreover have "const_handler b \<noteq> None \<longleftrightarrow> b \<in> set [0x41, 0x42, 0x43, 0x44]"
    by (simp add: const_handler_def)
  moreover have "numeric_handler b \<noteq> None \<longleftrightarrow> map_of numeric_cases b \<noteq> None"
    by (auto simp: numeric_handler_def split: option.splits numeric_shape.splits)
  moreover have "opcode_handler c b \<noteq> None \<longleftrightarrow> control_handler c b \<noteq> None \<or> variable_handler c b \<noteq> None \<or>
      memory_handler c b \<noteq> None \<or> const_handler b \<noteq> None \<or> numeric_handler b \<noteq> None"
    by (simp add: opcode_handler_def split: option.splits)
  ultimately show ?thesis by (simp only: list.set) blast
qed

lemma memory_keys: "map fst load_cases @ map fst store_cases = map of_nat [0x28..<0x3f]"
  by (simp add: load_cases_def store_cases_def upt_rec_numeral)

lemma byte_of_nat_list: "\<forall>n \<in> set ns. n < 256 \<Longrightarrow> (b :: byte) \<in> set (map of_nat ns) \<longleftrightarrow> unat b \<in> set ns"
  by (auto simp: image_iff unat_of_nat intro!: bexI [of _ "unat b"])

lemma opcode_handler_opcodes: "b = 0x0b \<or> opcode_handler c b \<noteq> None \<longleftrightarrow> unat b \<in> set wasm1_opcodes"
proof -
  let ?singles = "[0x0b, 0x00, 0x01, 0x02, 0x03, 0x04, 0x05, 0x0c, 0x0d, 0x0e, 0x0f, 0x10, 0x11,
        0x1a, 0x1b, 0x20, 0x21, 0x22, 0x23, 0x24, 0x3f, 0x40, 0x41, 0x42, 0x43, 0x44]"
  have mem: "map_of load_cases b \<noteq> None \<or> map_of store_cases b \<noteq> None \<longleftrightarrow> unat b \<in> set [0x28..<0x3f]"
    using byte_of_nat_list [of "[0x28..<0x3f]" b] unfolding memory_keys [symmetric]
    by (simp add: map_of_eq_None_iff del: not_None_eq)
  have num: "map_of numeric_cases b \<noteq> None \<longleftrightarrow> unat b \<in> set [0x45..<0xc0]"
    using byte_of_nat_list [of "[0x45..<0xc0]" b] unfolding numeric_keys [symmetric]
    by (simp add: map_of_eq_None_iff del: not_None_eq)
  have single: "b \<in> set ?singles \<longleftrightarrow> unat b \<in> set ?singles"
    using byte_of_nat_list [of ?singles b] by simp
  have "b = 0x0b \<or> opcode_handler c b \<noteq> None \<longleftrightarrow> b \<in> set ?singles \<or>
      (map_of load_cases b \<noteq> None \<or> map_of store_cases b \<noteq> None) \<or> map_of numeric_cases b \<noteq> None"
    unfolding opcode_handler_domain by blast
  also have "\<dots> \<longleftrightarrow> unat b \<in> set (?singles @ [0x28..<0x3f] @ [0x45..<0xc0])"
    unfolding mem num single set_append by blast
  also have "\<dots> \<longleftrightarrow> unat b \<in> set wasm1_opcodes" by (auto simp: wasm1_opcodes_def)
  finally show ?thesis .
qed

section \<open>Every transition is an iteration\<close>

lemma validate_op_handler:
  "code_curr s = b # bs \<Longrightarrow> b \<noteq> 0x0b \<Longrightarrow> opcode_handler c b = Some h \<Longrightarrow> h s = Inr s' \<Longrightarrow>
   validate_op c s = Inr (Break s')"
  by (simp add: validate_op_def)

lemma get_u32_prefix: "uN 32 pre (unat w) \<Longrightarrow> leb128_get_unsigned (pre @ rest) = (rest, parse_ok, w :: u32)"
  using get_u32_iff by blast

lemma get_s32_prefix: "sN 32 pre (sint w) \<Longrightarrow> leb128_get_signed (pre @ rest) = (rest, parse_ok, w :: u32)"
  using get_s32_iff by blast

lemma get_s64_prefix: "sN 64 pre (sint w) \<Longrightarrow> leb128_get_signed (pre @ rest) = (rest, parse_ok, w :: u64)"
  using get_s64_iff by blast

lemma read_labels_complete: "u32_vec ls pre \<Longrightarrow> read_labels (length ls) (pre @ rest) = Some (ls, rest)"
  by (induction rule: u32_vec.induct) (simp_all add: get_u32_prefix)

lemmas imm_prefix = get_u32_prefix get_s32_prefix get_s64_prefix

inductive_simps plain_arrow_simps:
  "plain_arrow C Unreachable args results" "plain_arrow C Nop args results" "plain_arrow C (Br l) args results"
  "plain_arrow C (Br_If l) args results" "plain_arrow C (Br_Table ls l) args results"
  "plain_arrow C Return_Op args results" "plain_arrow C (Call x) args results"
  "plain_arrow C (Call_Indirect x) args results" "plain_arrow C Drop args results"
  "plain_arrow C Select args results" "plain_arrow C (Local_Get x) args results"
  "plain_arrow C (Local_Set x) args results" "plain_arrow C (Local_Tee x) args results"
  "plain_arrow C (Global_Get x) args results" "plain_arrow C (Global_Set x) args results"
  "plain_arrow C (Load b a off) args results" "plain_arrow C (Store b a off) args results"
  "plain_arrow C Memory_Size args results" "plain_arrow C Memory_Grow args results"
  "plain_arrow C (I32_Const n) args results" "plain_arrow C (I64_Const k) args results"
  "plain_arrow C (F32_Const bs) args results" "plain_arrow C (F64_Const bs) args results"
  "plain_arrow C (Numeric b) args results"

inductive_simps plain_jump_simps:
  "plain_jump C Unreachable args" "plain_jump C Nop args" "plain_jump C (Br l) args"
  "plain_jump C (Br_If l) args" "plain_jump C (Br_Table ls l) args" "plain_jump C Return_Op args"
  "plain_jump C (Call x) args" "plain_jump C (Call_Indirect x) args" "plain_jump C Drop args"
  "plain_jump C Select args" "plain_jump C (Local_Get x) args" "plain_jump C (Local_Set x) args"
  "plain_jump C (Local_Tee x) args" "plain_jump C (Global_Get x) args" "plain_jump C (Global_Set x) args"
  "plain_jump C (Load b a off) args" "plain_jump C (Store b a off) args" "plain_jump C Memory_Size args"
  "plain_jump C Memory_Grow args" "plain_jump C (I32_Const n) args" "plain_jump C (I64_Const k) args"
  "plain_jump C (F32_Const bs) args" "plain_jump C (F64_Const bs) args" "plain_jump C (Numeric b) args"

lemma op_load:
  assumes wf: "wf_conf c s" and code: "code_curr s = b # ab @ ob @ rest"
    and imm: "uN 32 ab (unat (a :: u32))" "uN 32 ob (unat (off :: u32))"
    and ty: "ctx_mems (tctx_of c fs) > 0" "load_type b = Some (t, w)" "2 ^ unat a \<le> w"
    and step: "arrow_step [i32] [t] rest s s'"
  shows "validate_op c s = Inr (Break s')"
proof -
  obtain n m where h: "opcode_handler c b = Some (validate_mem_load (module_of c) n m t)" "w = 2 ^ unat m" "b \<noteq> 0x0b"
    using load_typeD [OF ty(2)] by blast
  have "leb128_get_unsigned (tl (code_curr s)) = (ob @ rest, parse_ok, a)"
    "leb128_get_unsigned (ob @ rest) = (rest, parse_ok, off)"
    using code imm by (auto intro: get_u32_prefix)
  moreover have "all_memory_count (module_of c) \<noteq> 0" using ty(1) wf by (simp add: all_memory_count_iff wf_conf_ctx)
  moreover have "a \<le> m" using ty(3) h(2) by (simp add: align_power)
  ultimately have "validate_mem_load (module_of c) n m t s = Inr s'"
    unfolding validate_mem_load_iff [OF wf_conf_frame_ok [OF wf]] using step by blast
  with h code show ?thesis by (auto intro: validate_op_handler)
qed

lemma op_store:
  assumes wf: "wf_conf c s" and code: "code_curr s = b # ab @ ob @ rest"
    and imm: "uN 32 ab (unat (a :: u32))" "uN 32 ob (unat (off :: u32))"
    and ty: "ctx_mems (tctx_of c fs) > 0" "store_type b = Some (t, w)" "2 ^ unat a \<le> w"
    and step: "arrow_step [i32, t] [] rest s s'"
  shows "validate_op c s = Inr (Break s')"
proof -
  obtain n m where h: "opcode_handler c b = Some (validate_mem_store (module_of c) n m t)" "w = 2 ^ unat m" "b \<noteq> 0x0b"
    using store_typeD [OF ty(2)] by blast
  have "leb128_get_unsigned (tl (code_curr s)) = (ob @ rest, parse_ok, a)"
    "leb128_get_unsigned (ob @ rest) = (rest, parse_ok, off)"
    using code imm by (auto intro: get_u32_prefix)
  moreover have "all_memory_count (module_of c) \<noteq> 0" using ty(1) wf by (simp add: all_memory_count_iff wf_conf_ctx)
  moreover have "a \<le> m" using ty(3) h(2) by (simp add: align_power)
  ultimately have "validate_mem_store (module_of c) n m t s = Inr s'"
    unfolding validate_mem_store_iff [OF wf_conf_frame_ok [OF wf]] using step by blast
  with h code show ?thesis by (auto intro: validate_op_handler)
qed

lemma op_numeric:
  assumes wf: "wf_conf c s" and code: "code_curr s = b # rest" and ty: "numeric_type b = Some (ts, t)"
    and step: "arrow_step ts [t] rest s s'"
  shows "validate_op c s = Inr (Break s')"
proof -
  note ok = wf_conf_frame_ok [OF wf]
  have "b \<noteq> 0x0b" using numeric_not_other(5) ty by fastforce
  moreover obtain n u where "ts = [u] \<and> opcode_handler c b = Some (validate_numeric_unary n u t) \<or>
     ts = [u, u] \<and> opcode_handler c b = Some (validate_numeric_binary n u t)"
    using opcode_handler_numeric [OF ty] by blast
  ultimately show ?thesis using code step
    by (auto simp: validate_numeric_unary_iff [OF ok] validate_numeric_binary_iff [OF ok] intro!: validate_op_handler)
qed

lemma op_call_indirect:
  assumes wf: "wf_conf c s" and code: "code_curr s = 0x11 # bs @ 0x00 # rest" and imm: "uN 32 bs (unat (x :: u32))"
    and ty: "ctx_tables (tctx_of c fs) > 0" "unat x < length (ctx_types (tctx_of c fs))"
      "ctx_types (tctx_of c fs) ! unat x = ft"
    and step: "arrow_step (parameter ft @ [i32]) (result ft) rest s s'"
  shows "validate_op c s = Inr (Break s')"
proof -
  have "leb128_get_unsigned (tl (code_curr s)) = (0 # rest, parse_ok, x)"
    using code imm by (auto intro: get_u32_prefix)
  moreover have "all_table_count (module_of c) \<noteq> 0" using ty(1) wf by (simp add: all_table_count_iff wf_conf_ctx)
  ultimately have "validate_call_indirect (module_of c) s = Inr s'"
    unfolding validate_call_indirect_iff [OF wf_conf_frame_ok [OF wf] types_small [OF wf_conf_ctx(2) [OF wf]]]
    using ty step by (metis tctx_simps(1))
  with code show ?thesis by (auto intro!: validate_op_handler simp: opcode_handler_control)
qed

lemma op_br_if:
  assumes wf: "wf_conf c s" and code: "code_curr s = 0x0d # bs @ rest" and imm: "uN 32 bs (unat (l :: u32))"
    and ty: "unat l < length (control_flow_stack s)" "label_types (control_flow_stack s ! unat l) = ts"
    and step: "arrow_step (ts @ [i32]) ts rest s s'"
  shows "validate_op c s = Inr (Break s')"
proof -
  have "leb128_get_unsigned (tl (code_curr s)) = (rest, parse_ok, l)"
    using code imm by (auto intro: get_u32_prefix)
  moreover have "\<forall>f \<in> set (control_flow_stack s). length (block_result f) \<le> 1"
    using wf_conf_results [OF wf] by blast
  ultimately have "validate_br_if s = Inr s'"
    using ty step validate_br_if_iff [OF wf_conf_frame_ok [OF wf] wf_conf_region [OF wf], of s'] by blast
  with code show ?thesis by (auto intro!: validate_op_handler simp: opcode_handler_control)
qed

lemma op_br_table:
  assumes wf: "wf_conf c s" and code: "code_curr s = 0x0e # nb @ vb @ rest"
    and imm: "uN 32 nb (length ls)" "u32_vec (ls @ [l]) vb"
    and ty: "\<forall>l \<in> set (ls @ [l]). unat l < length (control_flow_stack s) \<and> label_types (control_flow_stack s ! unat l) = ts"
    and step: "jump_step (ts @ [i32]) rest s s'"
    and exact: "\<forall>v \<in> set (take (length ts) (tl (frame_ops s))). \<not> is_unknown v"
  shows "validate_op c s = Inr (Break s')"
proof -
  let ?n = "of_nat (length ls) :: u32"
  have n: "unat ?n = length ls" using uN_bound [OF imm(1)] by (simp add: unat_of_nat)
  then have "leb128_get_unsigned (tl (code_curr s)) = (vb @ rest, parse_ok, ?n)"
    using code imm(1) get_u32_prefix [of nb ?n "vb @ rest"] by simp
  moreover have rl: "read_labels (Suc (unat ?n)) (vb @ rest) = Some (ls @ [l], rest)"
    using read_labels_complete [OF imm(2), of rest] n by simp
  moreover have "length (ls @ [l]) \<le> length vb"
    using imm(2) by (induction rule: u32_vec.induct)
      (auto simp: Suc_le_eq trans_less_add2 neq_Nil_conv dest!: uN_nonempty)
  then have "unat ?n < length (vb @ rest)" using n by simp
  ultimately have "validate_br_table s = Inr s'"
    unfolding validate_br_table_iff [OF wf_conf_frame_ok [OF wf] wf_conf_frames(1) [OF wf] wf_conf_region [OF wf]
        wf_conf_results [OF wf]]
    using ty step exact by blast
  with code show ?thesis by (auto intro!: validate_op_handler simp: opcode_handler_control)
qed

lemma drop_op:
  assumes wf: "wf_conf c s" and "code_curr s = 0x1a # rest" and "arrow_step [t] [] rest s s'"
  shows "validate_op c s = Inr (Break s')"
proof -
  have "validate_drop s = Inr s'" using assms(2,3) validate_drop_iff [OF wf_conf_frame_ok [OF wf]] by auto
  then show ?thesis using assms(2) by (auto intro!: validate_op_handler simp: opcode_handler_variable)
qed

lemma op_local:
  assumes wf: "wf_conf c s" and imm: "uN 32 bs (unat (x :: u32))"
    and ty: "unat x < length (ctx_locals (tctx_of c fs))" "ctx_locals (tctx_of c fs) ! unat x = t"
  shows "code_curr s = 0x20 # bs @ rest \<Longrightarrow> arrow_step [] [t] rest s s' \<Longrightarrow> validate_op c s = Inr (Break s')"
    and "code_curr s = 0x21 # bs @ rest \<Longrightarrow> arrow_step [t] [] rest s s' \<Longrightarrow> validate_op c s = Inr (Break s')"
    and "code_curr s = 0x22 # bs @ rest \<Longrightarrow> arrow_step [t] [t] rest s s' \<Longrightarrow> validate_op c s = Inr (Break s')"
proof -
  note ok = wf_conf_frame_ok [OF wf] and lt = get_local_type_iff(1) [OF wf_conf_ctx(1) [OF wf]]
  have r: "leb128_get_unsigned (bs @ rest) = (rest, parse_ok, x)" using imm by (rule get_u32_prefix)
  show "validate_op c s = Inr (Break s')" if "code_curr s = 0x20 # bs @ rest" "arrow_step [] [t] rest s s'"
    using that ty r by (auto intro!: validate_op_handler simp: opcode_handler_variable validate_local_get_iff [OF ok] lt)
  show "validate_op c s = Inr (Break s')" if "code_curr s = 0x21 # bs @ rest" "arrow_step [t] [] rest s s'"
    using that ty r by (auto intro!: validate_op_handler simp: opcode_handler_variable validate_local_set_iff [OF ok] lt)
  show "validate_op c s = Inr (Break s')" if "code_curr s = 0x22 # bs @ rest" "arrow_step [t] [t] rest s s'"
    using that ty r by (auto intro!: validate_op_handler simp: opcode_handler_variable validate_local_tee_iff [OF ok] lt)
qed

lemma op_global:
  assumes wf: "wf_conf c s" and imm: "uN 32 bs (unat (x :: u32))"
    and ty: "unat x < length (ctx_globals (tctx_of c fs))" "global_value_type (ctx_globals (tctx_of c fs) ! unat x) = t"
  shows "code_curr s = 0x23 # bs @ rest \<Longrightarrow> arrow_step [] [t] rest s s' \<Longrightarrow> validate_op c s = Inr (Break s')"
    and "code_curr s = 0x24 # bs @ rest \<Longrightarrow> is_mutable (ctx_globals (tctx_of c fs) ! unat x) \<Longrightarrow>
      arrow_step [t] [] rest s s' \<Longrightarrow> validate_op c s = Inr (Break s')"
proof -
  note ok = wf_conf_frame_ok [OF wf] and gt = get_global_type_iff(1) [OF wf_conf_ctx(2) [OF wf]]
  have r: "leb128_get_unsigned (bs @ rest) = (rest, parse_ok, x)" using imm by (rule get_u32_prefix)
  show "validate_op c s = Inr (Break s')" if "code_curr s = 0x23 # bs @ rest" "arrow_step [] [t] rest s s'"
    using that ty r by (auto intro!: validate_op_handler simp: opcode_handler_variable validate_global_get_iff [OF ok] gt)
  show "validate_op c s = Inr (Break s')"
    if "code_curr s = 0x24 # bs @ rest" "is_mutable (ctx_globals (tctx_of c fs) ! unat x)" "arrow_step [t] [] rest s s'"
    using that ty r by (auto intro!: validate_op_handler simp: opcode_handler_variable validate_global_set_iff [OF ok] gt)
qed

lemma op_call:
  assumes wf: "wf_conf c s" and code: "code_curr s = 0x10 # bs @ rest" and imm: "uN 32 bs (unat (x :: u32))"
    and ty: "unat x < length (ctx_funcs (tctx_of c fs))" "ctx_funcs (tctx_of c fs) ! unat x = ft"
    and step: "arrow_step (parameter ft) (result ft) rest s s'"
  shows "validate_op c s = Inr (Break s')"
proof -
  have r: "leb128_get_unsigned (bs @ rest) = (rest, parse_ok, x)" using imm by (rule get_u32_prefix)
  have "callee_type_of (module_of c) (unat x) = Inr ft"
    using ty callee_type_of_iff [OF wf_conf_ctx(2) [OF wf], of "unat x"] by simp
  with ty r code step have "validate_call (module_of c) s = Inr s'"
    by (auto simp: validate_call_iff [OF wf_conf_frame_ok [OF wf]])
  with code show ?thesis by (auto intro!: validate_op_handler simp: opcode_handler_control)
qed

lemma op_const:
  assumes wf: "wf_conf c s"
  shows "code_curr s = 0x41 # bs @ rest \<Longrightarrow> sN 32 bs (sint (n :: u32)) \<Longrightarrow> arrow_step [] [i32] rest s s' \<Longrightarrow>
      validate_op c s = Inr (Break s')"
    and "code_curr s = 0x42 # bs @ rest \<Longrightarrow> sN 64 bs (sint (k :: u64)) \<Longrightarrow> arrow_step [] [i64] rest s s' \<Longrightarrow>
      validate_op c s = Inr (Break s')"
    and "code_curr s = 0x43 # bs @ rest \<Longrightarrow> length bs = 4 \<Longrightarrow> arrow_step [] [f32] rest s s' \<Longrightarrow>
      validate_op c s = Inr (Break s')"
    and "code_curr s = 0x44 # bs @ rest \<Longrightarrow> length bs = 8 \<Longrightarrow> arrow_step [] [f64] rest s s' \<Longrightarrow>
      validate_op c s = Inr (Break s')"
proof -
  note ok = wf_conf_frame_ok [OF wf]
  show "validate_op c s = Inr (Break s')"
    if "code_curr s = 0x41 # bs @ rest" "sN 32 bs (sint (n :: u32))" "arrow_step [] [i32] rest s s'"
    using that get_s32_prefix [OF that(2)]
    by (auto intro!: validate_op_handler simp: opcode_handler_const validate_i32_const_iff [OF ok])
  show "validate_op c s = Inr (Break s')"
    if "code_curr s = 0x42 # bs @ rest" "sN 64 bs (sint (k :: u64))" "arrow_step [] [i64] rest s s'"
    using that get_s64_prefix [OF that(2)]
    by (auto intro!: validate_op_handler simp: opcode_handler_const validate_i64_const_iff [OF ok])
  show "validate_op c s = Inr (Break s')"
    if "code_curr s = 0x43 # bs @ rest" "length bs = 4" "arrow_step [] [f32] rest s s'"
    using that by (auto intro!: validate_op_handler simp: opcode_handler_const validate_f32_const_iff [OF ok])
  show "validate_op c s = Inr (Break s')"
    if "code_curr s = 0x44 # bs @ rest" "length bs = 8" "arrow_step [] [f64] rest s s'"
    using that by (auto intro!: validate_op_handler simp: opcode_handler_const validate_f64_const_iff [OF ok])
qed

lemma op_memory:
  assumes wf: "wf_conf c s" and "ctx_mems (tctx_of c fs) > 0"
  shows "code_curr s = 0x3f # 0x00 # rest \<Longrightarrow> arrow_step [] [i32] rest s s' \<Longrightarrow> validate_op c s = Inr (Break s')"
    and "code_curr s = 0x40 # 0x00 # rest \<Longrightarrow> arrow_step [i32] [i32] rest s s' \<Longrightarrow> validate_op c s = Inr (Break s')"
proof -
  note ok = wf_conf_frame_ok [OF wf]
  have m: "all_memory_count (module_of c) \<noteq> 0" using assms by (simp add: all_memory_count_iff wf_conf_ctx)
  show "validate_op c s = Inr (Break s')" if "code_curr s = 0x3f # 0x00 # rest" "arrow_step [] [i32] rest s s'"
    using that m by (auto intro!: validate_op_handler simp: opcode_handler_const validate_memory_size_iff [OF ok])
  show "validate_op c s = Inr (Break s')" if "code_curr s = 0x40 # 0x00 # rest" "arrow_step [i32] [i32] rest s s'"
    using that m by (auto intro!: validate_op_handler simp: opcode_handler_const validate_memory_grow_iff [OF ok])
qed

lemma op_arrow:
  assumes wf: "wf_conf c s" and code: "plain_code e bs" and curr: "code_curr s = bs @ rest" and "e \<noteq> Select"
    and ty: "plain_arrow (tctx_of c (control_flow_stack s)) e args results"
    and step: "arrow_step args results rest s s'"
  shows "validate_op c s = Inr (Break s')"
  using code
proof cases
  case 1
  with ty show ?thesis by (simp add: plain_arrow_simps)
next
  case 2
  with ty curr step show ?thesis
    by (auto intro!: validate_op_handler
        simp: plain_arrow_simps opcode_handler_control validate_nop_iff [OF wf_conf_frame_ok [OF wf]])
next
  case 3
  with ty show ?thesis by (simp add: plain_arrow_simps)
next
  case 4
  with ty curr step op_br_if [OF wf] show ?thesis by (auto simp: plain_arrow_simps)
next
  case 5
  with ty show ?thesis by (simp add: plain_arrow_simps)
next
  case 6
  with ty show ?thesis by (simp add: plain_arrow_simps)
next
  case 7
  with ty curr step op_call [OF wf] show ?thesis by (auto simp: plain_arrow_simps simp del: tctx_simps)
next
  case 8
  with ty curr step op_call_indirect [OF wf] show ?thesis by (auto simp: plain_arrow_simps simp del: tctx_simps)
next
  case 9
  with ty curr step drop_op [OF wf] show ?thesis by (auto simp: plain_arrow_simps simp del: tctx_simps)
next
  case 10
  with assms(4) show ?thesis by simp
next
  case 11
  with ty curr step op_local(1) [OF wf] show ?thesis by (auto simp: plain_arrow_simps simp del: tctx_simps)
next
  case 12
  with ty curr step op_local(2) [OF wf] show ?thesis by (auto simp: plain_arrow_simps simp del: tctx_simps)
next
  case 13
  with ty curr step op_local(3) [OF wf] show ?thesis by (auto simp: plain_arrow_simps simp del: tctx_simps)
next
  case 14
  with ty curr step op_global(1) [OF wf] show ?thesis by (auto simp: plain_arrow_simps simp del: tctx_simps)
next
  case 15
  with ty curr step op_global(2) [OF wf] show ?thesis by (auto simp: plain_arrow_simps simp del: tctx_simps)
next
  case 16
  with ty curr step op_load [OF wf] show ?thesis by (auto simp: plain_arrow_simps simp del: tctx_simps)
next
  case 17
  with ty curr step op_store [OF wf] show ?thesis by (auto simp: plain_arrow_simps simp del: tctx_simps)
next
  case 18
  with ty curr step op_memory(1) [OF wf] show ?thesis by (auto simp: plain_arrow_simps simp del: tctx_simps)
next
  case 19
  with ty curr step op_memory(2) [OF wf] show ?thesis by (auto simp: plain_arrow_simps simp del: tctx_simps)
next
  case 20
  with ty curr step op_const(1) [OF wf] show ?thesis by (auto simp: plain_arrow_simps simp del: tctx_simps)
next
  case 21
  with ty curr step op_const(2) [OF wf] show ?thesis by (auto simp: plain_arrow_simps simp del: tctx_simps)
next
  case 22
  with ty curr step op_const(3) [OF wf] show ?thesis by (auto simp: plain_arrow_simps simp del: tctx_simps)
next
  case 23
  with ty curr step op_const(4) [OF wf] show ?thesis by (auto simp: plain_arrow_simps simp del: tctx_simps)
next
  case 24
  with ty curr step op_numeric [OF wf] show ?thesis by (auto simp: plain_arrow_simps simp del: tctx_simps)
qed

inductive_simps plain_code_simps:
  "plain_code Unreachable bs" "plain_code (Br l) bs" "plain_code (Br_Table ls l) bs" "plain_code Return_Op bs"

lemma op_jump:
  assumes wf: "wf_conf c s" and code: "plain_code e bs" and curr: "code_curr s = bs @ rest"
    and ty: "plain_jump (tctx_of c (control_flow_stack s)) e args" and exact: "exact_operands e args s"
    and step: "jump_step args rest s s'"
  shows "validate_op c s = Inr (Break s')"
proof -
  note jump_iff = validate_unreachable_iff [OF wf_conf_frame_ok [OF wf] wf_conf_frames(1) [OF wf]]
    validate_br_iff [OF wf_conf_frame_ok [OF wf] wf_conf_frames(1) [OF wf]]
    validate_return_iff [OF wf_conf_frame_ok [OF wf] wf_conf_frames(1) [OF wf]]
  have labels: "list_all (\<lambda>l. unat l < length (control_flow_stack s) \<and>
        map label_types (control_flow_stack s) ! unat l = ts) xs \<longleftrightarrow>
      (\<forall>l \<in> set xs. unat l < length (control_flow_stack s) \<and> label_types (control_flow_stack s ! unat l) = ts)"
    for ts and xs :: "u32 list"
    by (auto simp: list_all_iff)
  consider "e = Unreachable" "args = []" "bs = [0x00]"
    | l pre where "e = Br l" "unat l < length (control_flow_stack s)" "args = label_types (control_flow_stack s ! unat l)"
        "bs = 0x0c # pre" "uN 32 pre (unat l)"
    | ls l nb vb ts where "e = Br_Table ls l" "args = ts @ [i32]" "bs = 0x0e # nb @ vb" "uN 32 nb (length ls)"
        "u32_vec (ls @ [l]) vb"
        "\<forall>l \<in> set (ls @ [l]). unat l < length (control_flow_stack s) \<and> label_types (control_flow_stack s ! unat l) = ts"
    | "e = Return_Op" "args = result (curr_func_type c)" "bs = [0x0f]"
    using ty code by cases (auto simp: plain_code_simps labels simp del: set_append)
  then show ?thesis
  proof cases
    case 1
    with curr step show ?thesis by (auto intro!: validate_op_handler simp: opcode_handler_control jump_iff)
  next
    case (2 l pre)
    with curr step get_u32_prefix [of pre l rest] show ?thesis
      by (auto intro!: validate_op_handler simp: opcode_handler_control jump_iff)
  next
    case (3 ls l nb vb ts)
    with curr step exact show ?thesis
      by (intro op_br_table [OF wf, of nb vb rest ls l ts]) (auto simp: exact_operands_def list_all_iff)
  next
    case 4
    with curr step wf_conf_frames(2) [OF wf] show ?thesis
      by (auto intro!: validate_op_handler simp: opcode_handler_control jump_iff)
  qed
qed

lemma validate_op_iff:
  assumes wf: "wf_conf c s"
  shows "validate_op c s = Inr (Break s') \<longleftrightarrow> vstep c s s'"
proof
  assume "validate_op c s = Inr (Break s')"
  with wf show "vstep c s s'" by (rule validate_op_vstep)
next
  assume "vstep c s s'"
  then show "validate_op c s = Inr (Break s')"
  proof cases
    case (vstep_arrow e bs rest args results)
    with wf show ?thesis by (auto intro: op_arrow)
  next
    case (vstep_select rest t)
    then have "validate_select s = Inr s'"
      using validate_select_iff [OF wf_conf_frame_ok [OF wf] wf_conf_region [OF wf]] by auto
    with vstep_select show ?thesis by (auto intro!: validate_op_handler simp: opcode_handler_variable)
  next
    case (vstep_jump e bs rest args)
    with wf show ?thesis by (auto intro: op_jump)
  next
    case (vstep_block b rest rt)
    then show ?thesis
      by (auto intro!: validate_op_handler simp: opcode_handler_control validate_block_iff block_result_code)
  next
    case (vstep_loop b rest rt)
    then show ?thesis
      by (auto intro!: validate_op_handler simp: opcode_handler_control validate_loop_op_iff block_result_code)
  next
    case (vstep_if b rest rt s1)
    then have "validate_if s = Inr s'"
      unfolding validate_if_iff [OF wf_conf_frame_ok [OF wf]] block_result_code by (metis list.sel(3))
    with vstep_if show ?thesis by (auto intro!: validate_op_handler simp: opcode_handler_control)
  next
    case (vstep_else rest f fs)
    then show ?thesis
      by (auto intro!: validate_op_handler
            simp: opcode_handler_control validate_else_iff [OF wf_conf_frame_ok [OF wf]])
  next
    case (vstep_end rest f fs)
    then show ?thesis
      using validate_end_iff [OF wf_conf_frame_ok [OF wf] vstep_end(2), of "Break s'"] by (auto simp: validate_op_def)
  qed
qed

end
