(* ===== verification/Validator_Accepts.thy ===== *)
theory Validator_Accepts
  imports Validator_Complete
begin

text \<open>
  Completeness: along a typing derivation the operands of the innermost frame always stand for
  the stack type of the derivation, so every handler on the way accepts. The only instruction
  that asks for more is \<^verbatim>\<open>br_table\<close>, whose value test refuses unknown operands; these come from
  \<open>select\<close> in unreachable code only.
\<close>

section \<open>Operands that stand for a stack type\<close>

lemma agree_proper: "agree p ops ts \<Longrightarrow> proper ts"
  by (induction p ops ts rule: agree.induct) auto

lemma pop_agree:
  "agree p ops (us @ ts) \<Longrightarrow> \<exists>ops'. pop_types p us ops = Some ops' \<and> agree p ops' ts"
proof (induction us arbitrary: ops)
  case (Cons u us)
  then show ?case by (cases ops) (auto simp: pop_types_Cons)
qed simp

lemma pop_agree_all: "agree p ops us \<Longrightarrow> pop_types p us ops = Some []"
proof (induction us arbitrary: ops)
  case (Cons u us)
  then show ?case by (cases ops) (auto simp: pop_types_Cons)
qed (use agree.elims(2) in fastforce)

lemma agree_push: "agree p ops ts \<Longrightarrow> proper us \<Longrightarrow> agree p (map known us @ ops) (us @ ts)"
  by (induction us) (auto simp: operand_fits_def)

lemma select_agree:
  assumes "agree p ops (i32 # t # t # ts)"
  shows "pop_types p [i32, t, t] ops \<noteq> None" and "agree p (select_result ops # drop 3 ops) (t # ts)"
proof -
  show "pop_types p [i32, t, t] ops \<noteq> None"
    using pop_agree [of p ops "[i32, t, t]" ts] assms by auto
  consider "ops = []" | x where "ops = [x]" | x v2 where "ops = [x, v2]" | x v2 v1 ops' where "ops = x # v2 # v1 # ops'"
    by (metis neq_Nil_conv)
  then show "agree p (select_result ops # drop 3 ops) (t # ts)"
    by cases (use assms in \<open>auto simp: select_result_def operand_fits_def\<close>)
qed

section \<open>Plain instructions of a sequence\<close>

fun plains :: "instr \<Rightarrow> plain_instr list" where
  "plains (Plain p) = [p]"
| "plains (Block rt es) = concat (map plains es)"
| "plains (Loop rt es) = concat (map plains es)"
| "plains (If rt es1 es2) = concat (map plains es1) @ concat (map plains es2)"

definition is_br_table :: "plain_instr \<Rightarrow> bool" where
  "is_br_table p = (case p of Br_Table _ _ \<Rightarrow> True | _ \<Rightarrow> False)"

definition all_known :: "vstate \<Rightarrow> bool" where
  "all_known s \<longleftrightarrow> list_all (\<lambda>v. \<not> is_unknown v) (operand_stack s)"

text \<open>The instructions \<open>ps\<close> are no threat to the value test of \<^verbatim>\<open>br_table\<close>.\<close>

definition harmless :: "plain_instr list \<Rightarrow> vstate \<Rightarrow> bool" where
  "harmless ps s \<longleftrightarrow> list_all (\<lambda>p. \<not> is_br_table p) ps \<or> Select \<notin> set ps \<and> all_known s"

text \<open>The state that differs from \<open>s\<close> in the code pointer and the innermost frame only.\<close>

definition arrive :: "vstate \<Rightarrow> byte list \<Rightarrow> operand_stack_storage_t list \<Rightarrow> bool \<Rightarrow> vstate" where
  "arrive s rest ops p = (with_ops ops s)\<lparr>code_curr := rest, is_polymorphic := p\<rparr>"

lemma arrive_simps [simp]:
  "code_curr (arrive s rest ops p) = rest" "is_polymorphic (arrive s rest ops p) = p"
  "control_flow_stack (arrive s rest ops p) = control_flow_stack s"
  "operand_stack (arrive s rest ops p) = ops @ below_ops s"
  by (simp_all add: arrive_def)

lemma arrive_frame [simp]:
  assumes "frame_ok s"
  shows "frame_ops (arrive s rest ops p) = ops" "below_ops (arrive s rest ops p) = below_ops s"
    "arrive (arrive s rest ops p) rest' ops' p' = arrive s rest' ops' p'"
  using assms by (simp_all add: arrive_def)

text \<open>
  \<open>runs c s rest ops p ps\<close>: from \<open>s\<close> the validator reaches \<open>arrive s rest ops p\<close>, and if it started
  without unknown operands and \<open>ps\<close> has no \<open>select\<close>, it has none.
\<close>

definition runs :: "func_ctx \<Rightarrow> vstate \<Rightarrow> byte list \<Rightarrow> operand_stack_storage_t list \<Rightarrow> bool \<Rightarrow> plain_instr list \<Rightarrow> bool" where
  "runs c s rest ops p ps \<longleftrightarrow> (vstep c)\<^sup>*\<^sup>* s (arrive s rest ops p) \<and>
     (Select \<notin> set ps \<and> all_known s \<longrightarrow> all_known (arrive s rest ops p))"

lemma all_known_frame: "all_known s \<longleftrightarrow>
  list_all (\<lambda>v. \<not> is_unknown v) (frame_ops s) \<and> list_all (\<lambda>v. \<not> is_unknown v) (below_ops s)"
  by (simp add: all_known_def operand_stack_split)

lemma all_known_arrive: "all_known (arrive s rest ops p) \<longleftrightarrow>
  list_all (\<lambda>v. \<not> is_unknown v) ops \<and> list_all (\<lambda>v. \<not> is_unknown v) (below_ops s)"
  by (simp add: all_known_def)

lemma vsteps_wf: "(vstep c)\<^sup>*\<^sup>* s s' \<Longrightarrow> wf_conf c s \<Longrightarrow> wf_conf c s'"
  by (induction rule: rtranclp_induct) (auto intro: vstep_wf)

lemma runs_trans:
  assumes "frame_ok s" and "runs c s rest ops p ps" and "runs c (arrive s rest ops p) rest' ops' p' ps'"
  shows "runs c s rest' ops' p' (ps @ ps')"
  using assms by (auto simp: runs_def intro: rtranclp_trans)

section \<open>One instruction\<close>

lemma runs_step: "vstep c s (arrive s rest ops p) \<Longrightarrow>
  (Select \<notin> set ps \<Longrightarrow> all_known s \<Longrightarrow> all_known (arrive s rest ops p)) \<Longrightarrow> runs c s rest ops p ps"
  by (auto simp: runs_def)

lemma pop_known: "pop_types p us ops = Some ops' \<Longrightarrow> list_all P ops \<Longrightarrow> list_all P ops'"
  by (metis in_set_dropD list_all_iff pop_types_Some_drop)

lemma run_arrow:
  assumes wf: "wf_conf c s" and "plain_code e bs" and "code_curr s = bs @ rest" and "e \<noteq> Select"
    and ty: "plain_arrow (tctx_of c (control_flow_stack s)) e args results" and pr: "proper results"
    and ag: "agree (is_polymorphic s) (frame_ops s) (rev (ts0 @ args))"
  shows "\<exists>ops p. runs c s rest ops p [e] \<and> agree p ops (rev (ts0 @ results))"
proof -
  obtain ops where pop: "pop_types (is_polymorphic s) (rev args) (frame_ops s) = Some ops"
    and ag': "agree (is_polymorphic s) ops (rev ts0)"
    using pop_agree [of "is_polymorphic s" "frame_ops s" "rev args" "rev ts0"] ag by auto
  let ?ops = "map known (rev results) @ ops"
  have step: "arrow_step args results rest s (arrive s rest ?ops (is_polymorphic s))"
    using pop by (auto simp: arrow_step_def arrive_def with_ops_def)
  have "proper (rev (ts0 @ args))" using ag by (rule agree_proper)
  then have "vstep c s (arrive s rest ?ops (is_polymorphic s))"
    using assms(2-4) ty pr step by (intro vstep_arrow) auto
  moreover have "list_all (\<lambda>v. \<not> is_unknown v) (map known (rev results))" by (simp add: list_all_iff)
  then have "all_known (arrive s rest ?ops (is_polymorphic s))" if "all_known s"
    using that pop_known [OF pop] by (simp add: all_known_frame [of s] all_known_arrive)
  ultimately have "runs c s rest ?ops (is_polymorphic s) [e]" by (intro runs_step)
  moreover have "agree (is_polymorphic s) ?ops (rev (ts0 @ results))"
    using agree_push [OF ag', of "rev results"] pr by simp
  ultimately show ?thesis by blast
qed

lemma run_select:
  assumes wf: "wf_conf c s" and "code_curr s = 0x1b # rest" and "t \<noteq> vt_none"
    and ag: "agree (is_polymorphic s) (frame_ops s) (rev (ts0 @ [t, t, i32]))"
  shows "\<exists>ops p. runs c s rest ops p [Select] \<and> agree p ops (rev (ts0 @ [t]))"
proof -
  let ?ops = "select_result (frame_ops s) # drop 3 (frame_ops s)"
  have "vstep c s (arrive s rest ?ops (is_polymorphic s))"
    using assms(2,3) select_agree [of "is_polymorphic s" "frame_ops s" t "rev ts0"] ag
    by (intro vstep_select) (auto simp: arrive_def with_ops_def)
  then have "runs c s rest ?ops (is_polymorphic s) [Select]" by (intro runs_step) simp_all
  moreover have "agree (is_polymorphic s) ?ops (rev (ts0 @ [t]))"
    using select_agree(2) ag by simp
  ultimately show ?thesis by blast
qed

lemma in_set_tl: "x \<in> set (tl xs) \<Longrightarrow> x \<in> set xs"
  by (cases xs) auto

lemma run_jump:
  assumes wf: "wf_conf c s" and "plain_code e bs" and "code_curr s = bs @ rest"
    and ty: "plain_jump (tctx_of c (control_flow_stack s)) e args" and pr: "proper ts2"
    and ag: "agree (is_polymorphic s) (frame_ops s) (rev (ts0 @ ts1 @ args))" and harm: "harmless [e] s"
  shows "\<exists>ops p. runs c s rest ops p [e] \<and> agree p ops (rev (ts0 @ ts2))"
proof -
  have pargs: "proper (rev (ts0 @ ts1 @ args))" using ag by (rule agree_proper)
  have "jump_step args rest s (arrive s rest [] True)"
    using pop_agree [of "is_polymorphic s" "frame_ops s" "rev args" "rev (ts0 @ ts1)"] ag
    by (auto simp: jump_step_def arrive_def)
  moreover have "exact_operands e args s"
    using harm by (auto simp: exact_operands_def harmless_def is_br_table_def all_known_frame [of s] list_all_iff
        split: plain_instr.splits dest!: in_set_takeD dest: in_set_tl)
  ultimately have "vstep c s (arrive s rest [] True)"
    using assms(2,3) ty pargs by (intro vstep_jump) auto
  then have "runs c s rest [] True [e]"
    by (intro runs_step) (simp_all add: all_known_frame [of s] all_known_arrive)
  moreover have "agree True [] (rev (ts0 @ ts2))" using pargs pr by simp
  ultimately show ?thesis by blast
qed

lemma plain_arrow_proper:
  assumes wf: "wf_conf c s" and "plain_arrow (tctx_of c (control_flow_stack s)) e args results"
  shows "proper results"
  using assms(2)
proof cases
  case (2 l)
  then show ?thesis using label_proper [OF wf, of "unat l"] by simp
next
  case (3 x ft)
  then show ?thesis using callee_wf [OF wf_conf_ctx(2) [OF wf], of "unat x"] by (simp add: wf_function_type_def)
next
  case (4 x ft)
  then have "wf_function_type ft"
    using wf_conf_ctx(2) [OF wf] by (auto simp: wf_module_def list_all_length)
  with 4 show ?thesis by (simp add: wf_function_type_def)
next
  case (20 b t)
  then show ?thesis by (auto simp: numeric_type_def split: if_splits)
qed (use local_proper [OF wf] global_proper [OF wf_conf_ctx(2) [OF wf], THEN not_sym] in
     \<open>auto simp: load_type_def split: if_splits\<close>)

section \<open>Frames\<close>

lemma push_frame_simps [simp]:
  "frame_ops (push_frame k rt s) = []" "below_ops (push_frame k rt s) = operand_stack s"
  "is_polymorphic (push_frame k rt s) = False" "code_curr (push_frame k rt s) = code_curr s"
  "all_known (push_frame k rt s) = all_known s" "operand_stack (push_frame k rt s) = operand_stack s"
  "control_flow_stack (push_frame k rt s) =
     \<lparr>block_result = rt, operand_stack_base = length (operand_stack s), block_kind = k,
      polymorphic_base = is_polymorphic s\<rparr> # control_flow_stack s"
  by (simp_all add: push_frame_def frame_ops_def below_ops_def all_known_def concrete_operand_count_def
        curr_frame_operand_stack_base_def del: concrete_count_frame)

lemma harmless_append: "harmless (ps @ ps') s \<Longrightarrow> harmless ps s"
  by (auto simp: harmless_def)

lemma harmless_rest: "harmless (ps @ ps') s \<Longrightarrow> runs c s rest ops p ps \<Longrightarrow> harmless ps' (arrive s rest ops p)"
  by (auto simp: harmless_def runs_def)

lemma arrive_code [simp]: "arrive (s\<lparr>code_curr := b\<rparr>) rest ops p = arrive s rest ops p"
  by (simp add: arrive_def)

text \<open>A body that has run to its \<open>end\<close> closes the frame.\<close>

lemma run_end:
  assumes wf: "wf_conf c (push_frame k rt s)" and ok: "frame_ok s" and kind: "k \<noteq> bt_function" "k = bt_if \<longrightarrow> rt = []"
    and "runs c (push_frame k rt s) (0x0b # rest) ops p ps" and ag: "agree p ops (rev rt)"
  shows "(vstep c)\<^sup>*\<^sup>* (push_frame k rt s) (arrive s rest (map known (rev rt) @ frame_ops s) (is_polymorphic s))"
proof -
  let ?f = "\<lparr>block_result = rt, operand_stack_base = length (operand_stack s), block_kind = k,
             polymorphic_base = is_polymorphic s\<rparr>"
  let ?s1 = "push_frame k rt s" and ?s2 = "arrive (push_frame k rt s) (0x0b # rest) ops p"
  have ok1: "frame_ok ?s1" using wf by (rule wf_conf_frame_ok)
  have "vstep c ?s2 (pop_frame ?f (control_flow_stack s) ?s2)"
    using kind pop_agree_all [OF ag] ok1
    by (intro vstep_end [of _ rest ?f]) (auto simp: push_frame_def)
  moreover have "pop_frame ?f (control_flow_stack s) ?s2 =
      arrive s rest (map known (rev rt) @ frame_ops s) (is_polymorphic s)"
    using ok1 by (intro vstate.equality)
      (simp_all add: pop_frame_def operand_stack_split [of s])
  ultimately show ?thesis using assms(5) by (auto simp: runs_def intro: rtranclp.rtrancl_into_rtrancl)
qed

lemma runs_block:
  assumes "(vstep c)\<^sup>*\<^sup>* s (arrive s rest (map known (rev rt) @ ops) p)"
    and "all_known s \<Longrightarrow> list_all (\<lambda>v. \<not> is_unknown v) ops"
  shows "runs c s rest (map known (rev rt) @ ops) p ps"
proof -
  have "list_all (\<lambda>v. \<not> is_unknown v) (map known (rev rt))" by (simp add: list_all_iff)
  then have "all_known (arrive s rest (map known (rev rt) @ ops) p)" if "all_known s"
    using that assms(2) all_known_frame [of s] by (simp add: all_known_arrive)
  then show ?thesis using assms(1) by (simp add: runs_def)
qed

section \<open>Typing derivations run\<close>

definition instr_runs :: "typing_context \<Rightarrow> instr \<Rightarrow> value_type list \<Rightarrow> value_type list \<Rightarrow> bool" where
  "instr_runs C e args results \<longleftrightarrow>
     (\<forall>c s bs rest ts0. C = tctx_of c (control_flow_stack s) \<longrightarrow> wf_conf c s \<longrightarrow> instr_code e bs \<longrightarrow>
        code_curr s = bs @ rest \<longrightarrow> harmless (plains e) s \<longrightarrow>
        agree (is_polymorphic s) (frame_ops s) (rev (ts0 @ args)) \<longrightarrow>
        (\<exists>ops p. runs c s rest ops p (plains e) \<and> agree p ops (rev (ts0 @ results))))"

definition seq_runs :: "typing_context \<Rightarrow> instr list \<Rightarrow> value_type list \<Rightarrow> value_type list \<Rightarrow> bool" where
  "seq_runs C es args results \<longleftrightarrow>
     (\<forall>c s bs rest ts0. C = tctx_of c (control_flow_stack s) \<longrightarrow> wf_conf c s \<longrightarrow> seq_code es bs \<longrightarrow>
        code_curr s = bs @ rest \<longrightarrow> harmless (concat (map plains es)) s \<longrightarrow>
        agree (is_polymorphic s) (frame_ops s) (rev (ts0 @ args)) \<longrightarrow>
        (\<exists>ops p. runs c s rest ops p (concat (map plains es)) \<and> agree p ops (rev (ts0 @ results))))"

lemma instr_runsD:
  assumes "instr_runs C e args results" and "C = tctx_of c (control_flow_stack s)" "wf_conf c s" "instr_code e bs"
    and "code_curr s = bs @ rest" "harmless (plains e) s"
    and "agree (is_polymorphic s) (frame_ops s) (rev (ts0 @ args))"
  shows "\<exists>ops p. runs c s rest ops p (plains e) \<and> agree p ops (rev (ts0 @ results))"
  using assms unfolding instr_runs_def by blast

lemma seq_runsD:
  assumes "seq_runs C es args results" and "C = tctx_of c (control_flow_stack s)" "wf_conf c s" "seq_code es bs"
    and "code_curr s = bs @ rest" "harmless (concat (map plains es)) s"
    and "agree (is_polymorphic s) (frame_ops s) (rev (ts0 @ args))"
  shows "\<exists>ops p. runs c s rest ops p (concat (map plains es)) \<and> agree p ops (rev (ts0 @ results))"
  using assms unfolding seq_runs_def by blast

inductive_simps instr_code_Plain: "instr_code (Plain p) bs"
inductive_simps instr_code_Block: "instr_code (Block rt es) bs"
inductive_simps instr_code_Loop: "instr_code (Loop rt es) bs"
inductive_cases instr_code_If: "instr_code (If rt es1 es2) bs"
inductive_simps seq_code_Nil: "seq_code [] bs"
inductive_simps seq_code_snoc: "seq_code (es @ [e]) bs"
inductive_simps plain_code_Select: "plain_code Select bs"

lemma arrow_runs:
  assumes "plain_arrow C p args results"
  shows "instr_runs C (Plain p) args results"
  unfolding instr_runs_def
proof (intro allI impI)
  fix c s bs rest ts0
  assume *: "C = tctx_of c (control_flow_stack s)" "wf_conf c s" "instr_code (Plain p) bs" "code_curr s = bs @ rest"
    "harmless (plains (Plain p)) s" "agree (is_polymorphic s) (frame_ops s) (rev (ts0 @ args))"
  show "\<exists>ops q. runs c s rest ops q (plains (Plain p)) \<and> agree q ops (rev (ts0 @ results))"
  proof (cases "p = Select")
    case True
    then obtain t where "args = [t, t, i32]" "results = [t]" "t \<noteq> vt_none"
      using assms by (auto simp: plain_arrow_simps)
    with True * run_select [of c s rest t ts0] show ?thesis by (auto simp: instr_code_Plain plain_code_Select)
  next
    case False
    with * assms run_arrow [of c s p bs rest args results ts0] plain_arrow_proper [of c s p args results]
    show ?thesis by (auto simp: instr_code_Plain)
  qed
qed

lemma jump_runs:
  assumes "plain_jump C p args" and "proper ts2"
  shows "instr_runs C (Plain p) (ts1 @ args) ts2"
  unfolding instr_runs_def
proof (intro allI impI)
  fix c s bs rest ts0
  assume *: "C = tctx_of c (control_flow_stack s)" "wf_conf c s" "instr_code (Plain p) bs" "code_curr s = bs @ rest"
    "harmless (plains (Plain p)) s" "agree (is_polymorphic s) (frame_ops s) (rev (ts0 @ ts1 @ args))"
  with assms run_jump [of c s p bs rest args ts2 ts0 ts1]
  show "\<exists>ops q. runs c s rest ops q (plains (Plain p)) \<and> agree q ops (rev (ts0 @ ts2))"
    by (auto simp: instr_code_Plain)
qed

lemma snoc_runs:
  assumes es: "seq_runs C es ts1 (us @ args)" and e: "instr_runs C e args results"
  shows "seq_runs C (es @ [e]) ts1 (us @ results)"
  unfolding seq_runs_def
proof (intro allI impI)
  fix c s bs rest ts0
  assume *: "C = tctx_of c (control_flow_stack s)" "wf_conf c s" "seq_code (es @ [e]) bs" "code_curr s = bs @ rest"
    "harmless (concat (map plains (es @ [e]))) s" "agree (is_polymorphic s) (frame_ops s) (rev (ts0 @ ts1))"
  let ?ps = "concat (map plains es)"
  note ok = wf_conf_frame_ok [OF *(2)]
  obtain bs1 bs2 where bs: "bs = bs1 @ bs2" "seq_code es bs1" "instr_code e bs2"
    using *(3) by (auto simp: seq_code_snoc)
  obtain ops p where r1: "runs c s (bs2 @ rest) ops p ?ps" "agree p ops (rev (ts0 @ us @ args))"
    using seq_runsD [OF es *(1,2) bs(2) _ _ *(6), of "bs2 @ rest"] *(4,5) bs(1) harmless_append [of ?ps "plains e" s]
    by auto
  let ?s1 = "arrive s (bs2 @ rest) ops p"
  have "wf_conf c ?s1" using r1(1) *(2) vsteps_wf by (auto simp: runs_def)
  moreover have "harmless (plains e) ?s1" using harmless_rest [OF _ r1(1)] *(5) by simp
  moreover have "agree p ops (rev ((ts0 @ us) @ args))" using r1(2) by simp
  ultimately obtain ops' p' where "runs c ?s1 rest ops' p' (plains e)" "agree p' ops' (rev ((ts0 @ us) @ results))"
    using instr_runsD [OF e _ _ bs(3), of c ?s1 rest "ts0 @ us"] *(1) ok by auto
  with runs_trans [OF ok r1(1)]
  show "\<exists>ops p. runs c s rest ops p (concat (map plains (es @ [e]))) \<and> agree p ops (rev (ts0 @ us @ results))"
    by fastforce
qed

lemma block_code_wf: "block_code rt b \<Longrightarrow> length rt \<le> 1 \<and> proper rt"
  by (auto simp: block_code_def)

lemma body_runs:
  assumes body: "seq_runs (enter_label C lt) es [] rt" and C: "C = tctx_of c (control_flow_stack s)"
    and lt: "lt = (if k = bt_loop then [] else rt)" and wf: "wf_conf c s" and k: "k \<noteq> bt_function"
    and bt: "block_code rt b" and code: "seq_code es bs" "code_curr s = bs @ rest"
    and harm: "harmless (concat (map plains es)) s"
  shows "wf_conf c (push_frame k rt s)"
    and "\<exists>ops p. runs c (push_frame k rt s) rest ops p (concat (map plains es)) \<and> agree p ops (rev rt)"
proof -
  show wf': "wf_conf c (push_frame k rt s)" using push_frame_wf [OF wf] block_code_wf [OF bt] k by blast
  have "enter_label C lt = tctx_of c (control_flow_stack (push_frame k rt s))"
    using C lt by (simp add: tctx_of_def function_context_def push_frame_def label_types_def)
  moreover have "harmless (concat (map plains es)) (push_frame k rt s)" using harm by (simp add: harmless_def)
  ultimately show "\<exists>ops p. runs c (push_frame k rt s) rest ops p (concat (map plains es)) \<and> agree p ops (rev rt)"
    using seq_runsD [OF body _ wf' code(1), of rest "[]"] code(2) by auto
qed

lemma push_code: "push_frame k rt (s\<lparr>code_curr := b\<rparr>) = (push_frame k rt s)\<lparr>code_curr := b\<rparr>"
  by (simp add: push_frame_def)

text \<open>A block or loop: open, run the body, close.\<close>

lemma block_runs:
  assumes body: "seq_runs (enter_label C lt) es [] rt" and C: "C = tctx_of c (control_flow_stack s)"
    and lt: "lt = (if k = bt_loop then [] else rt)" and wf: "wf_conf c s" and k: "k \<noteq> bt_function" "k \<noteq> bt_if"
    and bt: "block_code rt b" and code: "seq_code es bs"
    and first: "vstep c s (push_frame k rt (s\<lparr>code_curr := bs @ 0x0b # rest\<rparr>))"
    and harm: "harmless (concat (map plains es)) s"
    and ag: "agree (is_polymorphic s) (frame_ops s) (rev ts0)"
  shows "\<exists>ops p. runs c s rest ops p (concat (map plains es)) \<and> agree p ops (rev (ts0 @ rt))"
proof -
  let ?s0 = "s\<lparr>code_curr := bs @ 0x0b # rest\<rparr>"
  let ?ops = "map known (rev rt) @ frame_ops s"
  have s0: "wf_conf c ?s0" "harmless (concat (map plains es)) ?s0" "C = tctx_of c (control_flow_stack ?s0)"
    using wf harm C by (simp_all add: wf_conf_code harmless_def all_known_def)
  note body_run = body_runs [OF body s0(3) lt s0(1) k(1) bt code _ s0(2), of "0x0b # rest"]
  obtain ops p where "runs c (push_frame k rt ?s0) (0x0b # rest) ops p (concat (map plains es))" "agree p ops (rev rt)"
    using body_run(2) by auto
  then have "(vstep c)\<^sup>*\<^sup>* (push_frame k rt ?s0) (arrive s rest ?ops (is_polymorphic s))"
    using run_end [OF body_run(1), of rest ops p] k wf_conf_frame_ok [OF s0(1)] by simp
  then have "(vstep c)\<^sup>*\<^sup>* s (arrive s rest ?ops (is_polymorphic s))"
    using first by (rule converse_rtranclp_into_rtranclp [rotated])
  then have "runs c s rest ?ops (is_polymorphic s) (concat (map plains es))"
    by (rule runs_block) (simp add: all_known_frame)
  moreover have "agree (is_polymorphic s) ?ops (rev (ts0 @ rt))"
    using agree_push [OF ag, of "rev rt"] block_code_wf [OF bt] by simp
  ultimately show ?thesis by blast
qed

lemma Block_runs:
  assumes "seq_runs (enter_label C rt) es [] rt"
  shows "instr_runs C (Block rt es) [] rt"
  unfolding instr_runs_def
proof (intro allI impI)
  fix c s bs rest ts0
  assume *: "C = tctx_of c (control_flow_stack s)" "wf_conf c s" "instr_code (Block rt es) bs" "code_curr s = bs @ rest"
    "harmless (plains (Block rt es)) s" "agree (is_polymorphic s) (frame_ops s) (rev (ts0 @ []))"
  obtain b bs1 where b: "bs = 0x02 # b # bs1 @ [0x0b]" "block_code rt b" "seq_code es bs1"
    using *(3) by (auto simp: instr_code_Block)
  then have "vstep c s (push_frame bt_block rt (s\<lparr>code_curr := bs1 @ 0x0b # rest\<rparr>))"
    using *(4) by (intro vstep_block) auto
  with block_runs [OF assms *(1) _ *(2) _ _ b(2,3), of bt_block] *(5,6)
  show "\<exists>ops p. runs c s rest ops p (plains (Block rt es)) \<and> agree p ops (rev (ts0 @ rt))" by simp
qed

lemma Loop_runs:
  assumes "seq_runs (enter_label C []) es [] rt"
  shows "instr_runs C (Loop rt es) [] rt"
  unfolding instr_runs_def
proof (intro allI impI)
  fix c s bs rest ts0
  assume *: "C = tctx_of c (control_flow_stack s)" "wf_conf c s" "instr_code (Loop rt es) bs" "code_curr s = bs @ rest"
    "harmless (plains (Loop rt es)) s" "agree (is_polymorphic s) (frame_ops s) (rev (ts0 @ []))"
  obtain b bs1 where b: "bs = 0x03 # b # bs1 @ [0x0b]" "block_code rt b" "seq_code es bs1"
    using *(3) by (auto simp: instr_code_Loop)
  then have "vstep c s (push_frame bt_loop rt (s\<lparr>code_curr := bs1 @ 0x0b # rest\<rparr>))"
    using *(4) by (intro vstep_loop) auto
  with block_runs [OF assms *(1) _ *(2) _ _ b(2,3), of bt_loop] *(5,6)
  show "\<exists>ops p. runs c s rest ops p (plains (Loop rt es)) \<and> agree p ops (rev (ts0 @ rt))" by simp
qed

text \<open>An \<open>if\<close> pops its condition and opens its first branch.\<close>

lemma if_opens:
  assumes wf: "wf_conf c s" and code: "code_curr s = 0x04 # b # bs" "block_code rt b"
    and ag: "agree (is_polymorphic s) (frame_ops s) (rev (ts0 @ [i32]))"
  obtains ops where "vstep c s (push_frame bt_if rt (arrive s bs ops (is_polymorphic s)))"
    "wf_conf c (arrive s bs ops (is_polymorphic s))" "agree (is_polymorphic s) ops (rev ts0)"
    "\<And>P. list_all P (frame_ops s) \<Longrightarrow> list_all P ops"
proof -
  obtain ops where pop: "pop_types (is_polymorphic s) [i32] (frame_ops s) = Some ops"
    and ag': "agree (is_polymorphic s) ops (rev ts0)"
    using pop_agree [of "is_polymorphic s" "frame_ops s" "[i32]" "rev ts0"] ag by auto
  have step: "arrow_step [i32] [] bs s (arrive s bs ops (is_polymorphic s))"
    using pop by (simp add: arrow_step_def arrive_def with_ops_def)
  show ?thesis
  proof (rule that [of ops])
    show "vstep c s (push_frame bt_if rt (arrive s bs ops (is_polymorphic s)))"
      using code step by (intro vstep_if) auto
    show "wf_conf c (arrive s bs ops (is_polymorphic s))" using arrow_step_wf [OF wf step] by simp
  qed (use ag' pop_known [OF pop] in auto)
qed

lemma else_switches:
  assumes wf: "wf_conf c (push_frame bt_if rt s)" and ag: "agree p ops (rev rt)"
  shows "vstep c (arrive (push_frame bt_if rt s) (0x05 # bs) ops p) (push_frame bt_else rt (s\<lparr>code_curr := bs\<rparr>))"
proof -
  have ok: "frame_ok (push_frame bt_if rt s)" using wf by (rule wf_conf_frame_ok)
  show ?thesis
    by (rule vstep_else [of _ bs "\<lparr>block_result = rt, operand_stack_base = length (operand_stack s),
          block_kind = bt_if, polymorphic_base = is_polymorphic s\<rparr>" "control_flow_stack s"])
       (use pop_agree_all [OF ag] ok in \<open>auto intro!: vstate.equality\<close>)
qed

lemma If_runs:
  assumes b1: "seq_runs (enter_label C rt) es1 [] rt" and b2: "seq_runs (enter_label C rt) es2 [] rt"
    and empty: "es2 = [] \<Longrightarrow> rt = []"
  shows "instr_runs C (If rt es1 es2) [i32] rt"
  unfolding instr_runs_def
proof (intro allI impI)
  fix c s bs rest ts0
  let ?ps1 = "concat (map plains es1)" and ?ps2 = "concat (map plains es2)"
  assume C: "C = tctx_of c (control_flow_stack s)" and wf: "wf_conf c s" and bs: "instr_code (If rt es1 es2) bs"
    and code: "code_curr s = bs @ rest" and harm: "harmless (plains (If rt es1 es2)) s"
    and ag: "agree (is_polymorphic s) (frame_ops s) (rev (ts0 @ [i32]))"
  let ?p = "is_polymorphic s"
  obtain b bs1 tail where b: "bs @ rest = 0x04 # b # bs1 @ tail" "block_code rt b" "seq_code es1 bs1"
    and tail: "es2 = [] \<and> tail = 0x0b # rest \<or> (\<exists>bs2. seq_code es2 bs2 \<and> tail = 0x05 # bs2 @ 0x0b # rest)"
    using bs by (rule instr_code_If) auto
  obtain ops where open_step: "vstep c s (push_frame bt_if rt (arrive s (bs1 @ tail) ops ?p))"
    and wf1: "wf_conf c (arrive s (bs1 @ tail) ops ?p)" and ag1: "agree ?p ops (rev ts0)"
    and known: "\<And>P. list_all P (frame_ops s) \<Longrightarrow> list_all P ops"
    using if_opens [OF wf, of b "bs1 @ tail" rt ts0] code b ag by auto
  let ?s1 = "arrive s (bs1 @ tail) ops ?p" and ?ops = "map known (rev rt) @ ops"
  have ok: "frame_ok s" and ok1: "frame_ok ?s1" using wf wf1 wf_conf_frame_ok by blast+
  have "all_known ?s1" if "all_known s" using that known by (simp add: all_known_frame [of s] all_known_arrive)
  then have harm1: "harmless ?ps1 ?s1" "harmless ?ps2 ?s1" using harm by (auto simp: harmless_def)
  have C1: "C = tctx_of c (control_flow_stack ?s1)" using C by simp
  note run1 = body_runs [OF b1 C1 _ wf1 _ b(2,3) _ harm1(1), of bt_if tail]
  obtain ops1 p1 where r1: "runs c (push_frame bt_if rt ?s1) tail ops1 p1 ?ps1" "agree p1 ops1 (rev rt)"
    using run1(2) by auto
  have closes: "(vstep c)\<^sup>*\<^sup>* s (arrive s rest ?ops ?p)"
    using tail
  proof
    assume "es2 = [] \<and> tail = 0x0b # rest"
    then show ?thesis
      using run_end [OF run1(1) ok1, of rest ops1 p1 ?ps1] r1 empty open_step ok
      by (auto intro: converse_rtranclp_into_rtranclp)
  next
    assume "\<exists>bs2. seq_code es2 bs2 \<and> tail = 0x05 # bs2 @ 0x0b # rest"
    then obtain bs2 where bs2: "seq_code es2 bs2" "tail = 0x05 # bs2 @ 0x0b # rest" by blast
    let ?s2 = "?s1\<lparr>code_curr := bs2 @ 0x0b # rest\<rparr>"
    have s2: "wf_conf c ?s2" "harmless ?ps2 ?s2" "C = tctx_of c (control_flow_stack ?s2)" "frame_ok ?s2"
      using wf1 harm1 C1 ok1 by (simp_all add: wf_conf_code harmless_def all_known_def)
    note run2 = body_runs [OF b2 s2(3) _ s2(1) _ b(2) bs2(1) _ s2(2), of bt_else "0x0b # rest"]
    have "wf_conf c (push_frame bt_if rt ?s1)" using run1(1) by simp
    from else_switches [OF this r1(2), of "bs2 @ 0x0b # rest"] r1(1) bs2(2) 
    have "(vstep c)\<^sup>*\<^sup>* (push_frame bt_if rt ?s1) (push_frame bt_else rt ?s2)"
      by (auto simp: runs_def intro: rtranclp.rtrancl_into_rtrancl)
    moreover obtain ops2 p2 where "runs c (push_frame bt_else rt ?s2) (0x0b # rest) ops2 p2 ?ps2" "agree p2 ops2 (rev rt)"
      using run2(2) by auto
    then have "(vstep c)\<^sup>*\<^sup>* (push_frame bt_else rt ?s2) (arrive s rest ?ops ?p)"
      using run_end [OF run2(1) s2(4), of rest ops2 p2] ok by simp
    ultimately show ?thesis using open_step by auto
  qed
  have "runs c s rest ?ops ?p (plains (If rt es1 es2))"
    using closes by (rule runs_block) (simp add: all_known_frame known)
  moreover have "agree ?p ?ops (rev (ts0 @ rt))"
    using agree_push [OF ag1, of "rev rt"] block_code_wf [OF b(2)] by simp
  ultimately show "\<exists>ops p. runs c s rest ops p (plains (If rt es1 es2)) \<and> agree p ops (rev (ts0 @ rt))" by blast
qed

inductive_cases seq_type_Nil: "seq_type C [] ts1 ts2"

lemma Nil_runs: "seq_runs C [] ts ts"
proof -
  have "runs c s (code_curr s) (frame_ops s) (is_polymorphic s) []" for c s
    by (simp add: runs_def arrive_def)
  then show ?thesis unfolding seq_runs_def by (fastforce simp: seq_code_Nil)
qed

lemma typed_runs:
  shows "instr_type C e args results \<Longrightarrow> instr_runs C e args results"
    and "seq_type C es ts1 ts2 \<Longrightarrow> seq_runs C es ts1 ts2"
proof (induction rule: instr_type_seq_type.inducts)
  case (type_If C rt es1 es2)
  then show ?case by (intro If_runs) (auto elim: seq_type_Nil)
qed (auto intro: arrow_runs jump_runs Block_runs Loop_runs Nil_runs snoc_runs)

section \<open>Acceptance of typable bodies\<close>

lemma loop_vsteps:
  assumes "(vstep c)\<^sup>*\<^sup>* s s'" and "wf_conf c s"
  shows "validate_loop c s = validate_loop c s'"
  using assms
proof (induction rule: converse_rtranclp_induct)
  case (step s s1)
  then have "validate_op c s = Inr (Break s1)" "wf_conf c s1" using validate_op_iff vstep_wf by blast+
  with step show ?case by (subst validate_loop.simps) simp
qed simp

lemma body_accepted:
  assumes wf: "wf_ctx c" and code: "body_code es code"
    and ty: "seq_type (function_context (module_of c) (curr_func_type c) (curr_code_locals c)
       [result (curr_func_type c)]) es [] (result (curr_func_type c))"
    and harm: "list_all (\<lambda>p. \<not> is_br_table p) (concat (map plains es)) \<or> Select \<notin> set (concat (map plains es))"
  shows "\<exists>s. validate_loop c (initial_state (curr_func_type c) code) = Inr s"
proof -
  let ?s = "initial_state (curr_func_type c) code" and ?r = "result (curr_func_type c)"
  let ?f = "\<lparr>block_result = ?r, operand_stack_base = 0, block_kind = bt_function, polymorphic_base = False\<rparr>"
  have wfs: "wf_conf c ?s" using wf by (rule initial_wf)
  obtain bs where bs: "code = bs @ [0x0b]" "seq_code es bs" using code by (auto simp: body_code_def)
  have ctx: "function_context (module_of c) (curr_func_type c) (curr_code_locals c) [?r] = tctx_of c (control_flow_stack ?s)"
    by (simp add: initial_state_def tctx_of_def label_types_def)
  have harmless: "harmless (concat (map plains es)) ?s"
    using harm by (auto simp: harmless_def all_known_def initial_state_def)
  have "code_curr ?s = bs @ [0x0b]" using bs(1) by (simp add: initial_state_def)
  moreover have "agree (is_polymorphic ?s) (frame_ops ?s) (rev ([] @ []))"
    using operand_stack_split [of ?s] by (simp add: initial_state_def)
  ultimately have "\<exists>ops p. runs c ?s [0x0b] ops p (concat (map plains es)) \<and> agree p ops (rev ([] @ ?r))"
    by (rule seq_runsD [OF typed_runs(2) [OF ty] ctx wfs bs(2) _ harmless])
  then obtain ops p where run: "(vstep c)\<^sup>*\<^sup>* ?s (arrive ?s [0x0b] ops p)" and ag: "agree p ops (rev ?r)"
    by (auto simp: runs_def)
  let ?s1 = "arrive ?s [0x0b] ops p"
  have cs: "control_flow_stack ?s1 = ?f # []" by (simp add: initial_state_def)
  have "validate_end ?s1 = Inr (Return (pop_frame ?f [] ?s1))"
    using validate_end_iff [OF wf_conf_frame_ok [OF vsteps_wf [OF run wfs]] cs] pop_agree_all [OF ag]
      wf_conf_frame_ok [OF wfs] by simp
  then have "validate_loop c ?s1 = Inr (pop_frame ?f [] ?s1)"
    by (subst validate_loop.simps) (simp add: validate_op_def)
  with loop_vsteps [OF run wfs] show ?thesis by simp
qed

end
