(* ===== verification/Validator_Errors.thy ===== *)
theory Validator_Errors
  imports Validator_Sound
begin

text \<open>
  Error reports. Every error of the loop is recorded at the instruction that caused it, inside
  the function body, and carries a parse code other than \<open>ok\<close>.
\<close>

section \<open>Where an outcome reports its error\<close>

definition errs_at :: "byte list \<Rightarrow> 'a vres \<Rightarrow> bool" where
  "errs_at b r \<longleftrightarrow> (\<forall>e. r = Inl (Throw e) \<longrightarrow> err_curr e = b \<and> thrown e \<noteq> parse_ok)"

named_theorems err_rules

lemma errs_at_Inr [err_rules]: "errs_at b (Inr x)"
  by (simp add: errs_at_def)

lemma errs_at_Throw [err_rules]: "c \<noteq> parse_ok \<Longrightarrow> errs_at b (Inl (Throw (verr b e c)))"
  by (simp add: errs_at_def verr_def)

lemma errs_at_bindE [err_rules]: "errs_at b m \<Longrightarrow> (\<And>x. errs_at b (f x)) \<Longrightarrow> errs_at b (bindE m f)"
  by (auto simp: errs_at_def bindE_eq_Inl)

lemma errs_at_throw_if [err_rules]: "c \<noteq> parse_ok \<Longrightarrow> errs_at b (throw_if t (verr b e c))"
  by (simp add: errs_at_def throw_if_def verr_def)

lemma errs_at_underflow [err_rules]: "errs_at b (throw_if t (report_operand_stack_underflow b n k s))"
  by (simp add: report_operand_stack_underflow_def errs_at_throw_if)

lemma errs_at_if [err_rules]: "errs_at b r \<Longrightarrow> errs_at b r' \<Longrightarrow> errs_at b (if t then r else r')"
  by simp

lemma errs_at_unchecked [err_rules]:
  "errs_at b (index_unchecked xs i)" "errs_at b (back_unchecked ys)" "errs_at b (pop_back_unchecked ys)"
  by (auto simp: errs_at_def index_unchecked_def back_unchecked_def pop_back_unchecked_def split: list.splits)

lemma errs_at_check [err_rules]:
  "errs_at b (check_operand_types (\<lambda>e a. verr b (k e a) parse_invalid) es ops n)"
proof (induction "\<lambda>e a. verr b (k e a) parse_invalid" es ops n rule: check_operand_types.induct)
  case (2 e es a ops n)
  then show ?case by (simp add: errs_at_Throw)
qed (simp_all add: errs_at_def)

lemma errs_at_check_br_table [err_rules]: "errs_at b (check_br_table_values b t ops n)"
  by (induction b t ops n rule: check_br_table_values.induct) (simp_all add: errs_at_def verr_def)

section \<open>Shared parts of the handlers\<close>

lemma errs_at_read_u32 [err_rules]: "errs_at b (read_u32 b e s)"
  by (auto simp: read_u32_def errs_at_def verr_def split: prod.splits if_splits)

lemma errs_at_read_memory_index [err_rules]: "errs_at b (read_memory_index m b n s)"
  unfolding read_memory_index_def Let_def by (cases "code_curr s") (auto intro!: err_rules)

lemma errs_at_read_block_type [err_rules]: "errs_at b (read_block_type b s)"
  by (auto simp: read_block_type_def errs_at_def verr_def split: list.splits option.splits)

lemma errs_at_read_label [err_rules]: "errs_at b (read_label b s)"
  unfolding read_label_def Let_def split_def by (intro err_rules) simp

lemma errs_at_get_local [err_rules]: "errs_at b (get_local_type c b i)"
  unfolding get_local_type_def Let_def by (intro err_rules) (auto intro: err_rules split: option.splits)

lemma errs_at_get_global [err_rules]: "errs_at b (get_global_type m b i)"
  unfolding get_global_type_def Let_def by (intro err_rules) simp

lemma errs_at_check_arguments [err_rules]: "errs_at b (check_arguments b n ts k s)"
  unfolding check_arguments_def by (intro err_rules)

lemma errs_at_enter_polymorphic [err_rules]: "errs_at b (enter_polymorphic s)"
  unfolding enter_polymorphic_def by (intro err_rules)

lemma errs_at_apply_callee [err_rules]: "errs_at b (apply_callee b n ft s)"
  unfolding apply_callee_def Let_def by (intro err_rules)

lemma errs_at_callee_type [err_rules]: "errs_at b (callee_type_of m i)"
  unfolding callee_type_of_def Let_def by (intro err_rules)

lemma errs_at_frame_result [err_rules]:
  "errs_at b (check_frame_result (\<lambda>ec ac et at. verr b (k ec ac et at) parse_invalid) f s)"
  unfolding check_frame_result_def Let_def by (intro err_rules) simp

lemma errs_at_br_table_label [err_rules]: "errs_at b (br_table_label b e s)"
  unfolding br_table_label_def Let_def split_def
  by (intro err_rules) (auto intro!: err_rules split: option.splits)

lemma errs_at_br_table_labels [err_rules]: "errs_at b (br_table_labels b n e s)"
proof (induction n arbitrary: e s)
  case (Suc n)
  then show ?case unfolding br_table_labels.simps split_def by (intro err_rules)
qed (simp add: errs_at_Inr)

section \<open>Handlers\<close>

lemma errs_at_plain:
  "errs_at (code_curr s) (validate_unreachable s)" "errs_at (code_curr s) (validate_nop s)"
  "errs_at (code_curr s) (validate_drop s)" "errs_at (code_curr s) (validate_select s)"
  "errs_at (code_curr s) (validate_numeric_unary n t r s)" "errs_at (code_curr s) (validate_numeric_binary n t r s)"
  "errs_at (code_curr s) (validate_mem_load m n a t s)" "errs_at (code_curr s) (validate_mem_store m n a t s)"
  "errs_at (code_curr s) (validate_memory_size m s)" "errs_at (code_curr s) (validate_memory_grow m s)"
  "errs_at (code_curr s) (validate_f32_const s)" "errs_at (code_curr s) (validate_f64_const s)"
  unfolding handler_defs Let_def split_def by (intro err_rules; simp)+

lemma errs_at_int_const:
  "errs_at (code_curr s) (validate_i32_const s)" "errs_at (code_curr s) (validate_i64_const s)"
  by (auto simp: handler_defs Let_def split_def errs_at_def verr_def split: if_splits)

lemma errs_at_variable:
  "errs_at (code_curr s) (validate_local_get c s)" "errs_at (code_curr s) (validate_local_set c s)"
  "errs_at (code_curr s) (validate_local_tee c s)"
  "errs_at (code_curr s) (validate_global_get m s)" "errs_at (code_curr s) (validate_global_set m s)"
  unfolding handler_defs Let_def split_def by (intro err_rules; simp)+

lemma errs_at_control:
  "errs_at (code_curr s) (validate_block s)" "errs_at (code_curr s) (validate_loop_op s)"
  "errs_at (code_curr s) (validate_if s)" "errs_at (code_curr s) (validate_br s)"
  "errs_at (code_curr s) (validate_br_if s)" "errs_at (code_curr s) (validate_br_table s)"
  "errs_at (code_curr s) (validate_return s)" "errs_at (code_curr s) (validate_call m s)"
  "errs_at (code_curr s) (validate_call_indirect m s)"
  unfolding handler_defs Let_def split_def by (intro err_rules; simp)+

lemma errs_at_else: "errs_at (code_curr s) (validate_else s)"
  unfolding handler_defs Let_def split_def
  by (cases "control_flow_stack (advance s)") (auto intro!: err_rules)

lemma errs_at_end: "errs_at (code_curr s) (validate_end s)"
  unfolding handler_defs Let_def split_def
  by (cases "control_flow_stack (advance s)") (auto intro!: err_rules)

lemmas errs_at_handlers = errs_at_plain errs_at_int_const errs_at_variable errs_at_control errs_at_else

lemma opcode_handler_errs_at: "opcode_handler c b = Some h \<Longrightarrow> errs_at (code_curr s) (h s)"
  by (auto simp: opcode_handler_def control_handler_def variable_handler_def memory_handler_def
        const_handler_def numeric_handler_def errs_at_handlers
        split: if_splits option.splits prod.splits numeric_shape.splits)

lemma validate_op_errs_at: "errs_at (code_curr s) (validate_op c s)"
proof (cases "code_curr s")
  case Nil
  then show ?thesis by (simp add: validate_op_def errs_at_def verr_def)
next
  case (Cons b bs)
  show ?thesis
  proof (cases "opcode_handler c b")
    case None
    with Cons errs_at_end [of s] show ?thesis by (simp add: validate_op_def errs_at_def verr_def)
  next
    case (Some h)
    with opcode_handler_errs_at [of c b h s] errs_at_end [of s] Cons show ?thesis
      by (simp add: validate_op_def errs_at_def bindE_eq_Inl)
  qed
qed

section \<open>The loop\<close>

text \<open>The code pointer stays inside the body, whatever the stacks are.\<close>

interpretation code_machine: validation_machine "validate_op c" "validate_loop c" "\<lambda>s. suffix (code_curr s) code"
  for c code
proof
  show "validate_loop c s = bindE (validate_op c s)
      (\<lambda>r. case r of Break s' \<Rightarrow> validate_loop c s' | Return s' \<Rightarrow> Inr s')" for s
    by (rule validate_loop.simps)
  show "suffix (code_curr s') code" if "suffix (code_curr s) code" "validate_op c s = Inr (Break s')" for s s'
    using validate_op_consumes [OF that(2)] that(1) by (metis suffix_ConsI suffix_order.trans)
qed (rule validate_op_shorter)

lemma loop_error:
  assumes "validate_loop c s = Inl (Throw e)"
  shows "suffix (err_curr e) (code_curr s) \<and> thrown e \<noteq> parse_ok"
  using code_machine.loop_outcome [of s "code_curr s" c] validate_op_errs_at assms
  by (fastforce simp: errs_at_def)

end
