(* ===== verification/Utf8.thy ===== *)
theory Utf8
  imports Leb128
begin

text \<open>
  The UTF-8 check of \<^verbatim>\<open>utils/utf/utf8.h\<close> that the parser applies to the names of imports, exports
  and custom sections. The model is the scalar loop, the code of a host without vector
  instructions. The variants for hosts with them, in the same function, check whole blocks by tables and go back to such a loop
  to find the position of an error; they are not modelled.

  The check succeeds exactly on the concatenations of UTF-8 encodings of Unicode scalar values,
  and an error is reported at the first byte that does not begin such an encoding.
\<close>

section \<open>The check\<close>

datatype (plugins only: code size) utf_error_code =
    success
  | long_header_bits
  | too_short_sequence
  | too_long_sequence
  | overlong_encoding
  | excessive_codepoint
  | illegal_surrogate
  | contains_empty_characters

text \<open>One multi-byte sequence at \<open>str_curr\<close>: the reason of its refusal, or the pointer behind it.\<close>

definition utf8_sequence_2 :: "byte list \<Rightarrow> utf_error_code + byte list" where
  "utf8_sequence_2 str_curr =
     (if length str_curr < 2 then Inl too_short_sequence
      else if (str_curr ! 1) AND 0xC0 \<noteq> 0x80 then Inl too_short_sequence
      else let utf8_b0 = push_bit 6 (ucast (str_curr ! 0) AND 0x1F :: u32);
               utf8_b1 = (ucast (str_curr ! 1) AND 0x3F :: u32);
               utf8_c = utf8_b0 OR utf8_b1
           in if utf8_c < 0x80 then Inl overlong_encoding else Inr (drop 2 str_curr))"

definition utf8_sequence_3 :: "byte list \<Rightarrow> utf_error_code + byte list" where
  "utf8_sequence_3 str_curr =
     (if length str_curr < 3 then Inl too_short_sequence
      else if (str_curr ! 1) AND 0xC0 \<noteq> 0x80 then Inl too_short_sequence
      else if (str_curr ! 2) AND 0xC0 \<noteq> 0x80 then Inl too_short_sequence
      else let utf8_b0 = push_bit 12 (ucast (str_curr ! 0) AND 0xF :: u32);
               utf8_b1 = push_bit 6 (ucast (str_curr ! 1) AND 0x3F :: u32);
               utf8_b2 = (ucast (str_curr ! 2) AND 0x3F :: u32);
               utf8_c = utf8_b0 OR utf8_b1 OR utf8_b2
           in if utf8_c < 0x800 then Inl overlong_encoding
              else if 0xD7FF < utf8_c \<and> utf8_c < 0xE000 then Inl illegal_surrogate
              else Inr (drop 3 str_curr))"

definition utf8_sequence_4 :: "byte list \<Rightarrow> utf_error_code + byte list" where
  "utf8_sequence_4 str_curr =
     (if length str_curr < 4 then Inl too_short_sequence
      else if (str_curr ! 1) AND 0xC0 \<noteq> 0x80 then Inl too_short_sequence
      else if (str_curr ! 2) AND 0xC0 \<noteq> 0x80 then Inl too_short_sequence
      else if (str_curr ! 3) AND 0xC0 \<noteq> 0x80 then Inl too_short_sequence
      else let utf8_b0 = push_bit 18 (ucast (str_curr ! 0) AND 0x7 :: u32);
               utf8_b1 = push_bit 12 (ucast (str_curr ! 1) AND 0x3F :: u32);
               utf8_b2 = push_bit 6 (ucast (str_curr ! 2) AND 0x3F :: u32);
               utf8_b3 = (ucast (str_curr ! 3) AND 0x3F :: u32);
               utf8_c = utf8_b0 OR utf8_b1 OR utf8_b2 OR utf8_b3
           in if utf8_c < 0x10000 then Inl overlong_encoding
              else if 0x10FFFF < utf8_c then Inl excessive_codepoint
              else Inr (drop 4 str_curr))"

definition utf8_character :: "bool \<Rightarrow> byte list \<Rightarrow> utf_error_code + byte list" where
  "utf8_character zero_illegal str_curr =
     (let str_curr_val = hd str_curr in
      if str_curr_val < 0x80
      then if zero_illegal \<and> str_curr_val = 0 then Inl contains_empty_characters else Inr (tl str_curr)
      else if str_curr_val AND 0xE0 = 0xC0 then utf8_sequence_2 str_curr
      else if str_curr_val AND 0xF0 = 0xE0 then utf8_sequence_3 str_curr
      else if str_curr_val AND 0xF8 = 0xF0 then utf8_sequence_4 str_curr
      else if str_curr_val AND 0xC0 = 0x80 then Inl too_long_sequence
      else Inl long_header_bits)"

lemma utf8_character_shorter:
  "str_curr \<noteq> [] \<Longrightarrow> utf8_character zero_illegal str_curr = Inr rest \<Longrightarrow> length rest < length str_curr"
  by (auto simp: utf8_character_def utf8_sequence_2_def utf8_sequence_3_def utf8_sequence_4_def Let_def
      split: if_splits)

function check_legal_utf8_rfc3629_unchecked :: "bool \<Rightarrow> byte list \<Rightarrow> byte list \<times> utf_error_code" where
  "check_legal_utf8_rfc3629_unchecked zero_illegal str_curr =
     (if str_curr = [] then (str_curr, success)
      else case utf8_character zero_illegal str_curr of
             Inl e \<Rightarrow> (str_curr, e)
           | Inr next \<Rightarrow> check_legal_utf8_rfc3629_unchecked zero_illegal next)"
  by pat_completeness auto
termination
  by (relation "measure (\<lambda>(z, p). length p)") (auto simp: utf8_character_shorter)

declare check_legal_utf8_rfc3629_unchecked.simps [simp del]

definition check_legal_utf8_unchecked :: "byte list \<Rightarrow> byte list \<times> utf_error_code" where
  "check_legal_utf8_unchecked str = check_legal_utf8_rfc3629_unchecked False str"

section \<open>The encoding of the specification\<close>

definition unicode_scalar :: "nat \<Rightarrow> bool" where
  "unicode_scalar c \<longleftrightarrow> c < 0xD800 \<or> 0xE000 \<le> c \<and> c \<le> 0x10FFFF"

definition utf8_encode :: "nat \<Rightarrow> byte list" where
  "utf8_encode c =
     (if c < 0x80 then [of_nat c]
      else if c < 0x800 then [of_nat (0xC0 + c div 64), of_nat (0x80 + c mod 64)]
      else if c < 0x10000 then [of_nat (0xE0 + c div 4096), of_nat (0x80 + c div 64 mod 64), of_nat (0x80 + c mod 64)]
      else [of_nat (0xF0 + c div 262144), of_nat (0x80 + c div 4096 mod 64), of_nat (0x80 + c div 64 mod 64),
            of_nat (0x80 + c mod 64)])"

section \<open>Bytes\<close>

text \<open>The header tests of the check, on the value of the byte.\<close>

lemma and_not_mask_eq: "unat m = 2 ^ n * k \<Longrightarrow> ((b::byte) AND NOT (mask n) = m) = (unat b div 2 ^ n = k)"
  by (simp add: word_unat_eq_iff unat_and_not_mask mult.commute)

lemma utf8_header_tests:
  "(b < (0x80::byte)) = (unat b < 0x80)"
  "((b::byte) AND 0xC0 = 0x80) = (unat b div 64 = 2)"
  "((b::byte) AND 0xE0 = 0xC0) = (unat b div 32 = 6)"
  "((b::byte) AND 0xF0 = 0xE0) = (unat b div 16 = 14)"
  "((b::byte) AND 0xF8 = 0xF0) = (unat b div 8 = 30)"
proof -
  show "(b < (0x80::byte)) = (unat b < 0x80)" by (simp add: word_less_nat_alt)
  have m: "0xC0 = NOT (mask 6 :: byte)" "0xE0 = NOT (mask 5 :: byte)" "0xF0 = NOT (mask 4 :: byte)" "0xF8 = NOT (mask 3 :: byte)"
    by code_simp+
  show "((b::byte) AND 0xC0 = 0x80) = (unat b div 64 = 2)" unfolding m(1) using and_not_mask_eq [of "0x80" 6 2] by simp
  show "((b::byte) AND 0xE0 = 0xC0) = (unat b div 32 = 6)" unfolding m(2) using and_not_mask_eq [of "0xC0" 5 6] by simp
  show "((b::byte) AND 0xF0 = 0xE0) = (unat b div 16 = 14)" unfolding m(3) using and_not_mask_eq [of "0xE0" 4 14] by simp
  show "((b::byte) AND 0xF8 = 0xF0) = (unat b div 8 = 30)" unfolding m(4) using and_not_mask_eq [of "0xF0" 3 30] by simp
qed

text \<open>The groups of bits that make the code point, as a number.\<close>

lemma ucast_and_mask:
  "(ucast (b::byte) AND 0x7 :: u32) = of_nat (unat b mod 8)"
  "(ucast (b::byte) AND 0xF :: u32) = of_nat (unat b mod 16)"
  "(ucast (b::byte) AND 0x1F :: u32) = of_nat (unat b mod 32)"
  "(ucast (b::byte) AND 0x3F :: u32) = of_nat (unat b mod 64)"
proof -
  have "(ucast (b::byte) AND mask n :: u32) = of_nat (unat b mod 2 ^ n)" for n
    by (metis of_nat_unat take_bit_eq_mask take_bit_eq_mod take_bit_of_nat)
  from this [of 3] this [of 4] this [of 5] this [of 6] show
    "(ucast (b::byte) AND 0x7 :: u32) = of_nat (unat b mod 8)"
    "(ucast (b::byte) AND 0xF :: u32) = of_nat (unat b mod 16)"
    "(ucast (b::byte) AND 0x1F :: u32) = of_nat (unat b mod 32)"
    "(ucast (b::byte) AND 0x3F :: u32) = of_nat (unat b mod 64)"
    by (simp_all add: mask_eq_exp_minus_1)
qed

lemma push_bit_or_of_nat:
  assumes "y < 2 ^ n"
  shows "push_bit n (of_nat x) OR of_nat y = (of_nat (2 ^ n * x + y) :: u32)"
proof -
  have "take_bit n (of_nat y :: u32) = of_nat y" using assms by (simp add: take_bit_of_nat take_bit_nat_eq_self)
  then have "of_nat y OR push_bit n (of_nat x) = (of_nat y + push_bit n (of_nat x) :: u32)"
    by (rule or_push_bit_eq_plus)
  then show ?thesis by (simp add: or.commute push_bit_eq_mult mult.commute add.commute)
qed

text \<open>The code points of two, three and four bytes.\<close>

lemma utf8_code_point_2:
  "push_bit 6 (ucast (a::byte) AND 0x1F) OR (ucast (b::byte) AND 0x3F) = (of_nat (64 * (unat a mod 32) + unat b mod 64) :: u32)"
  using push_bit_or_of_nat [of "unat b mod 64" 6 "unat a mod 32"] by (simp add: ucast_and_mask)

lemma utf8_code_point_3:
  "push_bit 12 (ucast (a::byte) AND 0xF) OR push_bit 6 (ucast (b::byte) AND 0x3F) OR (ucast (c::byte) AND 0x3F)
     = (of_nat (4096 * (unat a mod 16) + (64 * (unat b mod 64) + unat c mod 64)) :: u32)"
proof -
  have "64 * (unat b mod 64) + unat c mod 64 < 2 ^ 12" by simp
  then show ?thesis
    using push_bit_or_of_nat [of "unat c mod 64" 6 "unat b mod 64"]
      push_bit_or_of_nat [of "64 * (unat b mod 64) + unat c mod 64" 12 "unat a mod 16"]
    by (simp add: ucast_and_mask del: of_nat_add of_nat_mult)
qed

lemma utf8_code_point_4:
  "push_bit 18 (ucast (a::byte) AND 0x7) OR push_bit 12 (ucast (b::byte) AND 0x3F) OR
      push_bit 6 (ucast (c::byte) AND 0x3F) OR (ucast (d::byte) AND 0x3F)
     = (of_nat (262144 * (unat a mod 8) + (4096 * (unat b mod 64) + (64 * (unat c mod 64) + unat d mod 64))) :: u32)"
proof -
  have "64 * (unat c mod 64) + unat d mod 64 < 2 ^ 12"
    and "4096 * (unat b mod 64) + (64 * (unat c mod 64) + unat d mod 64) < 2 ^ 18" by simp_all
  then show ?thesis
    using push_bit_or_of_nat [of "unat d mod 64" 6 "unat c mod 64"]
      push_bit_or_of_nat [of "64 * (unat c mod 64) + unat d mod 64" 12 "unat b mod 64"]
      push_bit_or_of_nat [of "4096 * (unat b mod 64) + (64 * (unat c mod 64) + unat d mod 64)" 18 "unat a mod 8"]
    by (simp add: ucast_and_mask del: of_nat_add of_nat_mult)
qed

lemma utf8_of_nat_tests:
  assumes "n < 2 ^ 32"
  shows "(of_nat n < (0x80 :: u32)) = (n < 0x80)" "(of_nat n < (0x800 :: u32)) = (n < 0x800)"
    "(of_nat n < (0x10000 :: u32)) = (n < 0x10000)" "((0xD7FF :: u32) < of_nat n) = (0xD7FF < n)"
    "(of_nat n < (0xE000 :: u32)) = (n < 0xE000)" "((0x10FFFF :: u32) < of_nat n) = (0x10FFFF < n)"
  using assms by (simp_all add: word_less_nat_alt unat_of_nat)

section \<open>One character\<close>

lemma unat_of_nat_byte: "n < 256 \<Longrightarrow> unat (of_nat n :: byte) = n"
  by (simp add: unat_of_nat)

lemma utf8_sequence_length:
  "utf8_sequence_2 bs = Inr rest \<Longrightarrow> \<exists>a b bs'. bs = a # b # bs'"
  "utf8_sequence_3 bs = Inr rest \<Longrightarrow> \<exists>a b c bs'. bs = a # b # c # bs'"
  "utf8_sequence_4 bs = Inr rest \<Longrightarrow> \<exists>a b c d bs'. bs = a # b # c # d # bs'"
  by (simp_all add: utf8_sequence_2_def utf8_sequence_3_def utf8_sequence_4_def not_less numeral_eq_Suc Suc_le_length_iff
      split: if_splits)

lemma utf8_sequence_2_iff:
  "utf8_sequence_2 (a # b # rest) = Inr next \<longleftrightarrow> next = rest \<and> unat b div 64 = 2 \<and> 2 \<le> unat a mod 32"
  by (auto simp: utf8_sequence_2_def utf8_header_tests utf8_code_point_2 utf8_of_nat_tests Let_def
      simp del: of_nat_add of_nat_mult push_bit_and split: if_splits)

lemma utf8_sequence_3_iff:
  "utf8_sequence_3 (a # b # c # rest) = Inr next \<longleftrightarrow> next = rest \<and> unat b div 64 = 2 \<and> unat c div 64 = 2 \<and>
     (let p = 4096 * (unat a mod 16) + (64 * (unat b mod 64) + unat c mod 64) in 0x800 \<le> p \<and> \<not> (0xD7FF < p \<and> p < 0xE000))"
  by (auto simp: utf8_sequence_3_def utf8_header_tests utf8_code_point_3 utf8_of_nat_tests Let_def
      simp del: of_nat_add of_nat_mult push_bit_and split: if_splits)

lemma utf8_sequence_4_iff:
  "utf8_sequence_4 (a # b # c # d # rest) = Inr next \<longleftrightarrow> next = rest \<and> unat b div 64 = 2 \<and> unat c div 64 = 2 \<and> unat d div 64 = 2 \<and>
     (let p = 262144 * (unat a mod 8) + (4096 * (unat b mod 64) + (64 * (unat c mod 64) + unat d mod 64)) in 0x10000 \<le> p \<and> p \<le> 0x10FFFF)"
  by (auto simp: utf8_sequence_4_def utf8_header_tests utf8_code_point_4 utf8_of_nat_tests Let_def
      simp del: of_nat_add of_nat_mult push_bit_and split: if_splits)

text \<open>A header byte and its payload: \<open>k\<close> is the header, shifted down by the width \<open>m\<close> of the payload.\<close>

lemma of_nat_header: "unat (b::byte) div m = k \<Longrightarrow> of_nat (m * k + unat b mod m) = b"
  by (metis mult_div_mod_eq of_nat_unat ucast_id)

lemma header_of_nat:
  assumes "x < m" "m * k + x < 256"
  shows "unat (of_nat (m * k + x) :: byte) div m = k" "unat (of_nat (m * k + x) :: byte) mod m = x"
  using assms unat_of_nat_byte [OF assms(2)] by simp_all

lemma utf8_sequence_2_encode:
  "bs \<noteq> [] \<and> unat (hd bs) div 32 = 6 \<and> utf8_sequence_2 bs = Inr rest \<longleftrightarrow>
     (\<exists>c. 0x80 \<le> c \<and> c < 0x800 \<and> bs = utf8_encode c @ rest)" (is "?L = ?R")
proof
  assume L: ?L
  then obtain a b where bs: "bs = a # b # rest" and h: "unat a div 32 = 6" "unat b div 64 = 2" "2 \<le> unat a mod 32"
    using utf8_sequence_length(1) [of bs rest] by (auto simp: utf8_sequence_2_iff)
  define c where "c = 64 * (unat a mod 32) + unat b mod 64"
  have c: "0x80 \<le> c" "c < 0x800" "c div 64 = unat a mod 32" "c mod 64 = unat b mod 64"
    using h(3) by (simp_all add: c_def)
  have "utf8_encode c = [a, b]"
    using c(1,2) of_nat_header [OF h(1)] of_nat_header [OF h(2)] by (simp add: utf8_encode_def c(3,4))
  then show ?R using bs c(1,2) by auto
next
  assume ?R
  then obtain c where c: "0x80 \<le> c" "c < 0x800" "bs = utf8_encode c @ rest" by blast
  define a b :: byte where ab: "a = of_nat (32 * 6 + c div 64)" "b = of_nat (64 * 2 + c mod 64)"
  have a: "unat a div 32 = 6" "unat a mod 32 = c div 64" and b: "unat b div 64 = 2"
    using c(2) header_of_nat [of "c div 64" 32 6] header_of_nat [of "c mod 64" 64 2] by (simp_all add: ab del: of_nat_add)
  have "bs = a # b # rest" using c by (simp add: utf8_encode_def ab)
  then show ?L using a b c(1) by (simp add: utf8_sequence_2_iff)
qed

text \<open>The digits of a number to base 64.\<close>

lemma base64_digits:
  assumes "(y::nat) < 64" "z < 64"
  shows "(4096 * x + (64 * y + z)) mod 64 = z" "(4096 * x + (64 * y + z)) div 64 mod 64 = y"
    "(4096 * x + (64 * y + z)) div 4096 = x" "(4096 * x + (64 * y + z)) div 64 = 64 * x + y"
proof -
  have h: "4096 * x + (64 * y + z) = 64 * (64 * x + y) + z" by simp
  have d: "(64 * w + z) div 64 = w" "(64 * w + z) mod 64 = z" for w using assms(2) by simp_all
  show "(4096 * x + (64 * y + z)) mod 64 = z" "(4096 * x + (64 * y + z)) div 64 = 64 * x + y" unfolding h by (rule d)+
  show "(4096 * x + (64 * y + z)) div 64 mod 64 = y" unfolding h d(1) using assms(1) by simp
  have "n div 4096 = n div 64 div 64" for n :: nat by (simp add: div_mult2_eq [symmetric])
  then show "(4096 * x + (64 * y + z)) div 4096 = x" unfolding h d(1) using assms(1) by (metis d(1) div_less div_mult_self4 add_0_right zero_neq_numeral)
qed

lemma base64_split: "4096 * (c div 4096) + (64 * (c div 64 mod 64) + c mod 64) = (c::nat)"
proof -
  have "c div 4096 = c div 64 div 64" by (simp add: div_mult2_eq [symmetric])
  then show ?thesis using mult_div_mod_eq [of 64 c] mult_div_mod_eq [of 64 "c div 64"] by linarith
qed

lemma utf8_sequence_3_encode:
  "bs \<noteq> [] \<and> unat (hd bs) div 16 = 14 \<and> utf8_sequence_3 bs = Inr rest \<longleftrightarrow>
     (\<exists>c. 0x800 \<le> c \<and> c < 0x10000 \<and> unicode_scalar c \<and> bs = utf8_encode c @ rest)" (is "?L = ?R")
proof
  assume L: ?L
  then obtain a1 a2 a3 where bs: "bs = a1 # a2 # a3 # rest"
    and h: "unat a1 div 16 = 14" "unat a2 div 64 = 2" "unat a3 div 64 = 2"
    and p: "let p = 4096 * (unat a1 mod 16) + (64 * (unat a2 mod 64) + unat a3 mod 64) in 0x800 \<le> p \<and> \<not> (0xD7FF < p \<and> p < 0xE000)"
    using utf8_sequence_length(2) [of bs rest] by (auto simp: utf8_sequence_3_iff)
  define c where "c = 4096 * (unat a1 mod 16) + (64 * (unat a2 mod 64) + unat a3 mod 64)"
  have c: "c mod 64 = unat a3 mod 64" "c div 64 mod 64 = unat a2 mod 64" "c div 4096 = unat a1 mod 16"
    unfolding c_def by (rule base64_digits; simp)+
  have r: "c < 0x10000" "0x800 \<le> c" "unicode_scalar c"
    using p by (auto simp: c_def [symmetric] Let_def unicode_scalar_def) (simp_all add: c_def)
  have "utf8_encode c = [a1, a2, a3]"
    using r(1,2) of_nat_header [OF h(1)] of_nat_header [OF h(2)] of_nat_header [OF h(3)]
    by (simp add: utf8_encode_def c(1-3))
  then show ?R using bs r by auto
next
  assume ?R
  then obtain c where c: "0x800 \<le> c" "c < 0x10000" "unicode_scalar c" "bs = utf8_encode c @ rest" by blast
  define a1 a2 a3 :: byte where
    a: "a1 = of_nat (16 * 14 + c div 4096)" "a2 = of_nat (64 * 2 + c div 64 mod 64)" "a3 = of_nat (64 * 2 + c mod 64)"
  have h: "unat a1 div 16 = 14" "unat a2 div 64 = 2" "unat a3 div 64 = 2"
    and m: "unat a1 mod 16 = c div 4096" "unat a2 mod 64 = c div 64 mod 64" "unat a3 mod 64 = c mod 64"
    using c(2) header_of_nat [of "c div 4096" 16 14] header_of_nat [of "c div 64 mod 64" 64 2] header_of_nat [of "c mod 64" 64 2]
    by (simp_all add: a del: of_nat_add)
  have "bs = a1 # a2 # a3 # rest" using c by (simp add: utf8_encode_def a)
  then show ?L using h c by (auto simp: utf8_sequence_3_iff m base64_split unicode_scalar_def Let_def)
qed

lemma utf8_sequence_4_encode:
  "bs \<noteq> [] \<and> unat (hd bs) div 8 = 30 \<and> utf8_sequence_4 bs = Inr rest \<longleftrightarrow>
     (\<exists>c. 0x10000 \<le> c \<and> c \<le> 0x10FFFF \<and> bs = utf8_encode c @ rest)" (is "?L = ?R")
proof
  assume L: ?L
  then obtain a1 a2 a3 a4 where bs: "bs = a1 # a2 # a3 # a4 # rest"
    and h: "unat a1 div 8 = 30" "unat a2 div 64 = 2" "unat a3 div 64 = 2" "unat a4 div 64 = 2"
    and p: "let p = 262144 * (unat a1 mod 8) + (4096 * (unat a2 mod 64) + (64 * (unat a3 mod 64) + unat a4 mod 64)) in 0x10000 \<le> p \<and> p \<le> 0x10FFFF"
    using utf8_sequence_length(3) [of bs rest] by (auto simp: utf8_sequence_4_iff)
  define c where "c = 4096 * (64 * (unat a1 mod 8) + unat a2 mod 64) + (64 * (unat a3 mod 64) + unat a4 mod 64)"
  have c: "c mod 64 = unat a4 mod 64" "c div 64 mod 64 = unat a3 mod 64" "c div 4096 = 64 * (unat a1 mod 8) + unat a2 mod 64"
    unfolding c_def by (rule base64_digits; simp)+
  have c': "c div 4096 mod 64 = unat a2 mod 64" "c div 262144 = unat a1 mod 8"
    using div_mult2_eq [of c 4096 64] by (simp_all add: c(3))
  have r: "0x10000 \<le> c" "c \<le> 0x10FFFF" using p by (simp_all add: c_def Let_def)
  have "utf8_encode c = [a1, a2, a3, a4]"
    using r(1) of_nat_header [OF h(1)] of_nat_header [OF h(2)] of_nat_header [OF h(3)] of_nat_header [OF h(4)]
    by (simp add: utf8_encode_def c(1,2) c')
  then show ?R using bs r by auto
next
  assume ?R
  then obtain c where c: "0x10000 \<le> c" "c \<le> 0x10FFFF" "bs = utf8_encode c @ rest" by blast
  define a1 a2 a3 a4 :: byte where
    a: "a1 = of_nat (8 * 30 + c div 262144)" "a2 = of_nat (64 * 2 + c div 4096 mod 64)"
       "a3 = of_nat (64 * 2 + c div 64 mod 64)" "a4 = of_nat (64 * 2 + c mod 64)"
  have h: "unat a1 div 8 = 30" "unat a2 div 64 = 2" "unat a3 div 64 = 2" "unat a4 div 64 = 2"
    and m: "unat a1 mod 8 = c div 262144" "unat a2 mod 64 = c div 4096 mod 64" "unat a3 mod 64 = c div 64 mod 64" "unat a4 mod 64 = c mod 64"
    using c(2) header_of_nat [of "c div 262144" 8 30] header_of_nat [of "c div 4096 mod 64" 64 2]
      header_of_nat [of "c div 64 mod 64" 64 2] header_of_nat [of "c mod 64" 64 2]
    by (simp_all add: a del: of_nat_add)
  have "262144 * (c div 262144) + 4096 * (c div 4096 mod 64) = 4096 * (c div 4096)"
    using div_mult2_eq [of c 4096 64] mult_div_mod_eq [of 64 "c div 4096"] by (simp only: numeral_times_numeral semiring_norm)
  then have "262144 * (c div 262144) + (4096 * (c div 4096 mod 64) + (64 * (c div 64 mod 64) + c mod 64)) = c"
    using base64_split [of c] by linarith
  moreover have "bs = a1 # a2 # a3 # a4 # rest" using c by (simp add: utf8_encode_def a)
  ultimately show ?L using h c by (auto simp: utf8_sequence_4_iff m Let_def)
qed

lemma utf8_encode_1: "c < 0x80 \<Longrightarrow> utf8_encode c = [of_nat c]"
  by (simp add: utf8_encode_def)

lemma utf8_encode_nonempty [simp]: "utf8_encode c \<noteq> []"
  by (simp add: utf8_encode_def)

lemma utf8_one_byte:
  "bs \<noteq> [] \<and> unat (hd bs) < 0x80 \<and> P (hd bs) \<and> tl bs = rest \<longleftrightarrow> (\<exists>c < 0x80. P (of_nat c) \<and> bs = utf8_encode c @ rest)"
proof
  assume *: "bs \<noteq> [] \<and> unat (hd bs) < 0x80 \<and> P (hd bs) \<and> tl bs = rest"
  then have "bs = utf8_encode (unat (hd bs)) @ rest" by (cases bs) (auto simp: utf8_encode_1)
  with * show "\<exists>c < 0x80. P (of_nat c) \<and> bs = utf8_encode c @ rest" by (metis of_nat_unat ucast_id)
qed (auto simp: utf8_encode_1 unat_of_nat_byte)

text \<open>The five header classes are disjoint; each refuses or leads to its own range of code points.\<close>

lemma utf8_character_cases:
  assumes "bs \<noteq> []"
  shows "utf8_character z bs = Inr rest \<longleftrightarrow>
    (bs \<noteq> [] \<and> unat (hd bs) < 0x80 \<and> \<not> (z \<and> hd bs = 0) \<and> tl bs = rest) \<or>
    (bs \<noteq> [] \<and> unat (hd bs) div 32 = 6 \<and> utf8_sequence_2 bs = Inr rest) \<or>
    (bs \<noteq> [] \<and> unat (hd bs) div 16 = 14 \<and> utf8_sequence_3 bs = Inr rest) \<or>
    (bs \<noteq> [] \<and> unat (hd bs) div 8 = 30 \<and> utf8_sequence_4 bs = Inr rest)"
proof -
  define x where "x = unat (hd bs)"
  have i: "x div 32 = 6 \<longleftrightarrow> 192 \<le> x \<and> x < 224" "x div 16 = 14 \<longleftrightarrow> 224 \<le> x \<and> x < 240" "x div 8 = 30 \<longleftrightarrow> 240 \<le> x \<and> x < 248"
    by linarith+
  show ?thesis using assms unfolding utf8_character_def utf8_header_tests Let_def x_def [symmetric] i
    by (cases "x < 128"; cases "x < 192"; cases "x < 224"; cases "x < 240"; simp)
qed

lemma unicode_scalar_ranges:
  "unicode_scalar c \<and> \<not> (z \<and> c = 0) \<and> B c \<longleftrightarrow>
     (c < 0x80 \<and> \<not> (z \<and> of_nat c = (0::byte)) \<and> B c) \<or> (0x80 \<le> c \<and> c < 0x800 \<and> B c) \<or>
     (0x800 \<le> c \<and> c < 0x10000 \<and> unicode_scalar c \<and> B c) \<or> (0x10000 \<le> c \<and> c \<le> 0x10FFFF \<and> B c)"
proof -
  have "(of_nat c = (0::byte)) = (c = 0)" if "c < 0x80"
    using that by (simp add: word_unat_eq_iff unat_of_nat)
  then show ?thesis
    by (cases "c < 0x80"; cases "c < 0x800"; cases "c < 0x10000"; simp add: unicode_scalar_def)
qed

lemma utf8_character_iff:
  assumes "bs \<noteq> []"
  shows "utf8_character z bs = Inr rest \<longleftrightarrow> (\<exists>c. unicode_scalar c \<and> \<not> (z \<and> c = 0) \<and> bs = utf8_encode c @ rest)"
  unfolding utf8_character_cases [OF assms] utf8_one_byte [where P = "\<lambda>b. \<not> (z \<and> b = 0)"]
    utf8_sequence_2_encode utf8_sequence_3_encode utf8_sequence_4_encode
    unicode_scalar_ranges [of _ z "\<lambda>c. bs = utf8_encode c @ rest"] ex_disj_distrib ..

section \<open>Strings\<close>

definition utf8_string :: "byte list \<Rightarrow> bool" where
  "utf8_string bs \<longleftrightarrow> (\<exists>cs. list_all unicode_scalar cs \<and> bs = concat (map utf8_encode cs))"

lemma utf8_string_Nil [simp]: "utf8_string []"
  unfolding utf8_string_def by (rule exI [of _ "[]"]) simp

lemma utf8_string_append: "unicode_scalar c \<Longrightarrow> utf8_string bs \<Longrightarrow> utf8_string (utf8_encode c @ bs)"
  unfolding utf8_string_def by (metis concat.simps(2) list.simps(9) list.pred_inject(2))

lemma utf8_character_not_success: "utf8_character z bs = Inl e \<Longrightarrow> e \<noteq> success"
  by (auto simp: utf8_character_def utf8_sequence_2_def utf8_sequence_3_def utf8_sequence_4_def Let_def split: if_splits)

text \<open>
  The outcome of the check: it consumes whole characters up to the reported position and stops
  there either at the end of the string or in front of bytes that begin no character.
\<close>

lemma check_legal_utf8_outcome:
  "check_legal_utf8_unchecked bs = (pos, e) \<Longrightarrow>
     (\<exists>pre. bs = pre @ pos \<and> utf8_string pre) \<and>
     (if e = success then pos = [] else \<nexists>c rest. unicode_scalar c \<and> pos = utf8_encode c @ rest)"
proof (induction "False" bs rule: check_legal_utf8_rfc3629_unchecked.induct)
  case (1 bs)
  note step = check_legal_utf8_rfc3629_unchecked.simps [of False bs]
  show ?case
  proof (cases "bs = []")
    case True
    then show ?thesis using 1 step by (auto simp: check_legal_utf8_unchecked_def)
  next
    case False
    show ?thesis
    proof (cases "utf8_character False bs")
      case (Inl e')
      then show ?thesis using 1(2) step False utf8_character_iff [OF False, of False] utf8_character_not_success [OF Inl]
        by (auto simp: check_legal_utf8_unchecked_def)
    next
      case (Inr rest)
      then obtain c where c: "unicode_scalar c" "bs = utf8_encode c @ rest" using utf8_character_iff [OF False, of False] by auto
      have "check_legal_utf8_unchecked rest = (pos, e)" using 1(2) step False Inr by (simp add: check_legal_utf8_unchecked_def)
      from 1(1) [OF False Inr this] c show ?thesis by (metis append_assoc utf8_string_append)
    qed
  qed
qed

lemma utf8_string_decompose:
  "utf8_string bs \<Longrightarrow> bs \<noteq> [] \<Longrightarrow> \<exists>c rest. unicode_scalar c \<and> bs = utf8_encode c @ rest \<and> utf8_string rest"
  unfolding utf8_string_def by (metis concat.simps list.exhaust list.simps(8,9) list.pred_inject(2))

lemma check_legal_utf8_accepts: "utf8_string bs \<Longrightarrow> check_legal_utf8_unchecked bs = ([], success)"
proof (induction "length bs" arbitrary: bs rule: less_induct)
  case less
  note step = check_legal_utf8_rfc3629_unchecked.simps [of False bs]
  show ?case
  proof (cases "bs = []")
    case True
    then show ?thesis using step by (simp add: check_legal_utf8_unchecked_def)
  next
    case False
    with less.prems obtain c rest where c: "unicode_scalar c" "bs = utf8_encode c @ rest" "utf8_string rest"
      using utf8_string_decompose by blast
    then have "utf8_character False bs = Inr rest" using utf8_character_iff [OF False, of False] by auto
    with False have "check_legal_utf8_unchecked bs = check_legal_utf8_unchecked rest"
      by (simp add: check_legal_utf8_unchecked_def step)
    also have "\<dots> = ([], success)" using less.hyps c by simp
    finally show ?thesis .
  qed
qed

end
