(* ===== verification/Parser_Base.thy ===== *)
theory Parser_Base
  imports Wasm_Types Utf8
begin

text \<open>
  What the section parsers of \<^verbatim>\<open>parser/wasm/standard/wasm1/features\<close> share: the error record of
  \<^verbatim>\<open>parser/wasm/base/error_code.h\<close>, the parser limits, the element counter, and the loop that reads
  the elements of a section until its end. The model is the instance for WebAssembly 1.0: the
  hooks and limits that other feature packs add are not compiled in.
\<close>

section \<open>Errors and limits\<close>

text \<open>
  The error codes that the modelled code reports, with the fields of \<open>err_selectable\<close> they fill:
  first those of the framing of the module, the limits, and the types of \<^verbatim>\<open>types.h\<close>,
  then those of the type, import, function, table and memory sections, of the global, element and data sections and the constant expressions,
  and of the export, start and code sections.
\<close>

datatype (plugins only: code size) common_error =
    illegal_begin_pointer
  | illegal_wasm_file_format
  | no_wasm_section_found
  | invalid_section_length
  | illegal_section_length u32
  | illegal_section_id byte
  | invalid_section_canonical_order byte byte
  | illegal_custom_section_order "byte list" byte byte byte \<comment> \<open>custom_name, custom_order, wasm_order, wasm_sec\<close>
  | invalid_custom_name_length
  | illegal_custom_name_length u32
  | duplicate_section byte
  | exceed_the_max_parser_limit string nat nat \<comment> \<open>name, value, maxval\<close>
  | imp_def_num_exceed_u32max byte u32 u32 \<comment> \<open>type, defined, imported\<close>
  | counter_overflows
  | unexpected_section_data
  | invalid_char_sequence utf_error_code
  | limit_type_cannot_find_flag
  | limit_type_illegal_flag byte
  | limit_type_invalid_min
  | limit_type_invalid_max
  | limit_type_max_lt_min u32 u32
  | table_type_cannot_find_element
  | table_type_illegal_element byte
  | global_type_cannot_find_valtype
  | global_type_illegal_valtype byte
  | global_type_cannot_find_mut
  | global_type_illegal_mut byte

datatype (plugins only: code size) declaration_error =
    invalid_type_count
  | type_section_resolved_exceeded_the_actual_number u32
  | type_section_resolved_not_match_the_actual_number u32 u32
  | illegal_type_prefix byte
  | invalid_parameter_length
  | illegal_parameter_length u32
  | illegal_value_type byte
  | invalid_result_length
  | illegal_result_length u32
  | wasm1_not_allow_multi_value
  | invalid_import_count
  | import_section_resolved_exceeded_the_actual_number u32
  | import_section_resolved_not_match_the_actual_number u32 u32
  | invalid_import_module_name_length
  | import_module_name_too_length u32
  | invalid_import_extern_name_length
  | import_extern_name_too_length u32
  | import_missing_import_type
  | illegal_importdesc_prefix byte
  | parse_invalid_type_index
  | parse_illegal_type_index u32
  | invalid_func_count
  | func_section_resolved_exceeded_the_actual_number u32
  | func_section_resolved_not_match_the_actual_number u32 u32
  | invalid_table_count
  | wasm1_not_allow_multi_table
  | table_section_resolved_exceeded_the_actual_number u32
  | table_section_resolved_not_match_the_actual_number u32 u32
  | invalid_memory_count
  | wasm1_not_allow_multi_memory
  | memory_section_resolved_exceeded_the_actual_number u32
  | memory_section_resolved_not_match_the_actual_number u32 u32
  | memory_section_resolved_exceeded_the_maximum_value u32

datatype (plugins only: code size) initializer_error =
    invalid_global_count
  | global_section_resolved_exceeded_the_actual_number u32
  | global_section_resolved_not_match_the_actual_number u32 u32
  | init_const_expr_terminator_not_found
  | init_const_expr_stack_should_be_only_one_element
  | init_const_expr_illegal_instruction
  | init_const_expr_type_mismatch byte byte
  | init_const_expr_stack_empty
  | init_const_expr_illegal_data
  | init_const_expr_ref_illegal_imported_global u32 u32
  | init_const_expr_ref_mutable_imported_global u32
  | invalid_elem_count
  | elem_section_resolved_exceeded_the_actual_number u32
  | element_section_resolved_not_match_the_actual_number u32 u32
  | invalid_elem_table_idx
  | elem_table_index_exceeds_maxvul u32 u32
  | invalid_elem_funcidx_count
  | invalid_elem_funcidx
  | elem_func_index_exceeds_maxvul u32 u32
  | invalid_data_count
  | data_section_resolved_exceeded_the_actual_number u32
  | data_section_resolved_not_match_the_actual_number u32 u32
  | invalid_data_memory_idx
  | data_memory_index_exceeds_maxvul u32 u32
  | invalid_data_byte_size_count
  | illegal_data_byte_size_count u32

datatype (plugins only: code size) definition_error =
    invalid_export_count
  | export_section_resolved_exceeded_the_actual_number u32
  | export_section_resolved_not_match_the_actual_number u32 u32
  | invalid_export_name_length
  | export_name_too_length u32
  | export_missing_export_type
  | illegal_exportdesc_prefix byte
  | duplicate_exports_of_the_same_export_type "byte list" byte
  | export_missing_export_idx
  | invalid_export_idx
  | exported_index_exceeds_maxvul u32 u32 byte \<comment> \<open>idx, maxval, type\<close>
  | invalid_start_idx
  | start_index_exceeds_maxvul u32 u32
  | func_ref_by_start_has_illegal_sign u32
  | invalid_code_count
  | code_ne_defined_func u32 u32
  | code_section_resolved_exceeded_the_actual_number u32
  | code_section_resolved_not_match_the_actual_number u32 u32
  | invalid_code_body_size
  | illegal_code_body_size u32
  | invalid_local_count
  | invalid_clocal_n
  | final_list_of_locals_exceeds_the_maximum_value_of_u32max_minus_parameter_size u32
  | code_missing_local_type
  | missing_code_body_end

datatype wasm_parse_error =
    in_common common_error
  | in_declaration declaration_error
  | in_initializer initializer_error
  | in_definition definition_error

record error_impl =
  perr_curr :: "byte list"
  perr_code :: wasm_parse_error
  perr_thrown :: parse_code

definition perr :: "byte list \<Rightarrow> wasm_parse_error \<Rightarrow> parse_code \<Rightarrow> error_impl" where
  "perr p e c = \<lparr>perr_curr = p, perr_code = e, perr_thrown = c\<rparr>"

type_synonym 'a pres = "(error_impl, 'a) res"

text \<open>The limits that the modelled sections test; every field is set by the embedder.\<close>

record wasm1_parser_limit_t =
  max_code_sec_codes :: nat
  max_code_locals :: nat
  max_data_sec_entries :: nat
  max_elem_sec_funcidx :: nat
  max_elem_sec_elems :: nat
  max_export_sec_exports :: nat
  max_global_sec_globals :: nat
  max_import_sec_imports :: nat
  max_memory_sec_memories :: nat
  max_table_sec_tables :: nat
  max_type_sec_types :: nat

section \<open>Counting and scanning\<close>

definition counter_selfinc_throw_when_overflow :: "u32 \<Rightarrow> byte list \<Rightarrow> u32 pres" where
  "counter_selfinc_throw_when_overflow i section_curr =
     bindE (throw_if (i = - 1) (perr section_curr (in_common counter_overflows) parse_invalid)) (\<lambda>_. Inr (i + 1))"

text \<open>
  \<^verbatim>\<open>parse_by_scan(curr, end, leb128_get(x))\<close> with the test of its code: the error is recorded at
  \<open>section_curr\<close> and the scanner's code is thrown.
\<close>

definition scan_u32 :: "wasm_parse_error \<Rightarrow> byte list \<Rightarrow> (u32 \<times> byte list) pres" where
  "scan_u32 e section_curr =
     (case leb128_get_unsigned section_curr of (next, code, v) \<Rightarrow>
        bindE (throw_if (code \<noteq> parse_ok) (perr section_curr e code)) (\<lambda>_. Inr (v, next)))"

text \<open>
  The test for the end of the range, with code \<open>invalid\<close>, followed by the copy of one byte.
\<close>

definition read_byte :: "wasm_parse_error \<Rightarrow> byte list \<Rightarrow> (byte \<times> byte list) pres" where
  "read_byte e section_curr =
     (case section_curr of [] \<Rightarrow> Inl (Throw (perr section_curr e parse_invalid)) | b # next \<Rightarrow> Inr (b, next))"

text \<open>The copy of one byte without a test.\<close>

definition next_byte :: "byte list \<Rightarrow> (byte \<times> byte list) pres" where
  "next_byte section_curr = (case section_curr of [] \<Rightarrow> Inl UB | b # next \<Rightarrow> Inr (b, next))"

lemma counter_selfinc_eq_Inr:
  "counter_selfinc_throw_when_overflow i p = Inr j \<longleftrightarrow> i \<noteq> - 1 \<and> j = i + 1"
  by (auto simp: counter_selfinc_throw_when_overflow_def res_simps)

lemma unat_plus_one: "(i :: 'a::len word) \<noteq> - 1 \<Longrightarrow> unat (i + 1) = Suc (unat i)"
  by (metis Suc_eq_plus1 add.commute add_eq_0_iff2 unatSuc)

text \<open>
  The loop \<^verbatim>\<open>while(section_curr != section_end)\<close> of a vector section with the test of the count
  behind it. \<open>entry\<close> reads one element; it is given the counter, which includes this element, and
  the elements read before.
\<close>

function section_loop ::
  "(u32 \<Rightarrow> 'a list \<Rightarrow> byte list \<Rightarrow> ('a \<times> byte list) pres) \<Rightarrow> (u32 \<Rightarrow> wasm_parse_error) \<Rightarrow>
   (u32 \<Rightarrow> u32 \<Rightarrow> wasm_parse_error) \<Rightarrow> u32 \<Rightarrow> u32 \<Rightarrow> 'a list \<Rightarrow> byte list \<Rightarrow> 'a list pres" where
  "section_loop entry exceeded not_match cnt counter acc section_curr =
     (if section_curr = []
      then bindE (throw_if (counter \<noteq> cnt) (perr section_curr (not_match counter cnt) parse_invalid)) (\<lambda>_.
           Inr acc)
      else bindE (counter_selfinc_throw_when_overflow counter section_curr) (\<lambda>counter'.
           bindE (throw_if (counter' > cnt) (perr section_curr (exceeded cnt) parse_invalid)) (\<lambda>_.
           bindE (entry counter' acc section_curr) (\<lambda>r.
           section_loop entry exceeded not_match cnt counter' (acc @ [fst r]) (snd r)))))"
  by pat_completeness auto
termination
proof (relation "measure (\<lambda>(entry, exceeded, not_match, cnt, counter, acc, p). unat cnt - unat counter)", goal_cases)
  case (2 entry exceeded not_match cnt counter acc p counter' u r)
  then have "counter \<noteq> - 1" "counter' = counter + 1" "\<not> cnt < counter'"
    by (simp_all add: counter_selfinc_eq_Inr throw_if_eq_Inr)
  then have "unat counter' = Suc (unat counter)" "unat counter' \<le> unat cnt"
    by (simp_all add: unat_plus_one not_less word_le_nat_alt)
  then show ?case by simp
qed simp

declare section_loop.simps [simp del]

text \<open>\<^verbatim>\<open>[[assume(b)]]\<close>: undefined behaviour unless \<open>b\<close> holds.\<close>

definition cpp_assume :: "bool \<Rightarrow> unit pres" where
  "cpp_assume b = (if b then Inr () else Inl UB)"

text \<open>Sums of an element count with the number of imports, as the handlers test them.\<close>

lemma unat_u32_le: "unat (c::u32) \<le> 2 ^ 32"
  using unsigned_less [of c, where 'a = nat] by simp

lemma u32_sum_overflow: "n < 2 ^ 32 \<Longrightarrow> (- 1 - of_nat n < (c::u32)) = (2 ^ 32 \<le> unat c + n)"
  by (simp add: word_less_nat_alt unat_sub_if' unat_of_nat unsigned_minus_1_eq_mask mask_eq_exp_minus_1) linarith

lemma u32_sum: "unat c + n < 2 ^ 32 \<Longrightarrow> unat (c + of_nat n :: u32) = unat c + n"
  by (simp add: unat_word_ariths unat_of_nat)

text \<open>
  A routine that works on a range which ends before the enclosing one does: its error positions are
  pointers into the enclosing range, where \<open>after\<close> follows.
\<close>

definition shift_err :: "byte list \<Rightarrow> 'a pres \<Rightarrow> 'a pres" where
  "shift_err after r =
     (case r of Inl (Throw e) \<Rightarrow> Inl (Throw (e\<lparr>perr_curr := perr_curr e @ after\<rparr>)) | Inl UB \<Rightarrow> Inl UB | Inr x \<Rightarrow> Inr x)"

text \<open>The loop that enters pointers to the elements into one vector per kind.\<close>

definition fill_desc :: "('a \<Rightarrow> nat) \<Rightarrow> 'a list list \<Rightarrow> 'a list \<Rightarrow> 'a list list" where
  "fill_desc kind desc xs = foldl (\<lambda>d x. d[kind x := d ! kind x @ [x]]) desc xs"

lemma fill_desc_nth:
  "k < length desc \<Longrightarrow> fill_desc kind desc xs ! k = desc ! k @ filter (\<lambda>x. kind x = k) xs"
proof (induction xs arbitrary: desc)
  case (Cons x xs)
  have "fill_desc kind desc (x # xs) = fill_desc kind (desc[kind x := desc ! kind x @ [x]]) xs"
    by (simp add: fill_desc_def)
  then show ?case using Cons by (simp add: nth_list_update)
qed (simp add: fill_desc_def)

lemma length_fill_desc [simp]: "length (fill_desc kind desc xs) = length desc"
  by (induction xs arbitrary: desc) (simp_all add: fill_desc_def)

lemma fill_desc_empty: "fill_desc kind (replicate n []) xs = map (\<lambda>k. filter (\<lambda>x. kind x = k) xs) [0..<n]"
  by (rule nth_equalityI) (simp_all add: fill_desc_nth)

section \<open>Vectors of the binary format\<close>

text \<open>A sequence of elements of the grammar \<open>G\<close>, and a vector: its length followed by the elements.\<close>

inductive list_code :: "('a \<Rightarrow> byte list \<Rightarrow> bool) \<Rightarrow> 'a list \<Rightarrow> byte list \<Rightarrow> bool" for G where
  list_code_Nil: "list_code G [] []"
| list_code_Cons: "G x b \<Longrightarrow> list_code G xs bs \<Longrightarrow> list_code G (x # xs) (b @ bs)"

definition vec_code :: "('a \<Rightarrow> byte list \<Rightarrow> bool) \<Rightarrow> 'a list \<Rightarrow> byte list \<Rightarrow> bool" where
  "vec_code G xs bs \<longleftrightarrow> (\<exists>n b. bs = n @ b \<and> uN 32 n (length xs) \<and> list_code G xs b)"

lemma vec_code_length: "vec_code G xs bs \<Longrightarrow> length xs < 2 ^ 32"
  unfolding vec_code_def using uN_bound by blast

lemma uN_u32: "uN 32 n k \<longleftrightarrow> (\<exists>v::u32. k = unat v \<and> uN 32 n (unat v))"
proof
  assume k: "uN 32 n k"
  then have "unat (of_nat k :: u32) = k" using uN_bound [OF k] by (simp add: unat_of_nat)
  with k show "\<exists>v::u32. k = unat v \<and> uN 32 n (unat v)" by metis
qed auto

text \<open>\<open>bs\<close> begins with the number \<open>v\<close>, and \<open>rest\<close> follows.\<close>

definition u32_prefix :: "byte list \<Rightarrow> u32 \<Rightarrow> byte list \<Rightarrow> bool" where
  "u32_prefix bs v rest \<longleftrightarrow> (\<exists>n. bs = n @ rest \<and> uN 32 n (unat v))"

lemma u32_prefix_iff:
  "(\<exists>n b. bs = n @ b \<and> uN 32 n k \<and> R b) \<longleftrightarrow> (\<exists>v rest. u32_prefix bs v rest \<and> k = unat v \<and> R rest)"
  unfolding u32_prefix_def by (metis uN_u32)

lemma vec_code_count:
  "vec_code G xs bs \<longleftrightarrow> (\<exists>v rest. u32_prefix bs v rest \<and> length xs = unat v \<and> list_code G xs rest)"
proof
  assume v: "vec_code G xs bs"
  then have "unat (of_nat (length xs) :: u32) = length xs" using vec_code_length [OF v] by (simp add: unat_of_nat)
  with v show "\<exists>v rest. u32_prefix bs v rest \<and> length xs = unat v \<and> list_code G xs rest"
    unfolding vec_code_def u32_prefix_def by metis
qed (use vec_code_def u32_prefix_def in metis)

inductive_simps list_code_Nil_iff [simp]: "list_code G [] bs"
inductive_simps list_code_Cons_iff: "list_code G (x # xs) bs"

text \<open>A test of every element that may look at the elements before it.\<close>

fun all_after :: "('a list \<Rightarrow> 'a \<Rightarrow> bool) \<Rightarrow> 'a list \<Rightarrow> 'a list \<Rightarrow> bool" where
  "all_after ok acc [] = True"
| "all_after ok acc (x # xs) = (ok acc x \<and> all_after ok (acc @ [x]) xs)"

lemma all_after_list_all [simp]: "all_after (\<lambda>_. P) acc xs = list_all P xs"
  by (induction xs arbitrary: acc) simp_all

lemma all_after_index: "all_after (\<lambda>acc. P (length acc)) acc xs \<longleftrightarrow> (\<forall>i < length xs. P (length acc + i) (xs ! i))"
  by (induction xs arbitrary: acc) (auto simp: All_less_Suc2)

lemma all_after_fresh:
  "all_after (\<lambda>acc x. f x \<notin> f ` set acc) acc xs \<longleftrightarrow> distinct (map f xs) \<and> f ` set acc \<inter> f ` set xs = {}"
  by (induction xs arbitrary: acc) auto

section \<open>Reading an element\<close>

text \<open>
  \<open>throws_in bs f\<close>: the failure is a thrown error whose position lies in \<open>bs\<close> (never undefined
  behaviour), with a parse code other than \<open>ok\<close>.

  \<open>reads bs\<^sub>0 bs G r\<close> is the contract of a routine that reads at \<open>bs\<close>, inside a range that starts at
  \<open>bs\<^sub>0\<close>, and returns \<open>r\<close>: it succeeds exactly when \<open>bs\<close> begins with an element of the grammar \<open>G\<close>,
  and returns that element and the pointer behind it.
\<close>

definition throws_in :: "byte list \<Rightarrow> error_impl fault \<Rightarrow> bool" where
  "throws_in bs f \<longleftrightarrow> (\<exists>e. f = Throw e \<and> suffix (perr_curr e) bs \<and> perr_thrown e \<noteq> parse_ok)"

definition reads :: "byte list \<Rightarrow> byte list \<Rightarrow> ('a \<Rightarrow> byte list \<Rightarrow> bool) \<Rightarrow> ('a \<times> byte list) pres \<Rightarrow> bool" where
  "reads bs\<^sub>0 bs G r \<longleftrightarrow>
     (\<forall>x rest. r = Inr (x, rest) \<longleftrightarrow> (\<exists>b. bs = b @ rest \<and> G x b)) \<and> (\<forall>f. r = Inl f \<longrightarrow> throws_in bs\<^sub>0 f)"

named_theorems reads_intros

lemma throws_in_trans: "throws_in bs f \<Longrightarrow> suffix bs bs' \<Longrightarrow> throws_in bs' f"
  unfolding throws_in_def using suffix_order.trans by blast

lemma throws_in_perr: "throws_in bs (Throw (perr p e c)) \<longleftrightarrow> suffix p bs \<and> c \<noteq> parse_ok"
  by (simp add: throws_in_def perr_def)

lemma readsD:
  assumes "reads bs\<^sub>0 bs G r"
  shows "r = Inr (x, rest) \<longleftrightarrow> (\<exists>b. bs = b @ rest \<and> G x b)" and "r = Inl f \<Longrightarrow> throws_in bs\<^sub>0 f"
  using assms by (auto simp: reads_def)

lemma reads_cong:
  assumes "reads bs\<^sub>0 bs G r" "\<And>x b rest. bs = b @ rest \<Longrightarrow> G x b = H x b"
  shows "reads bs\<^sub>0 bs H r"
  using assms by (auto simp: reads_def)

lemma reads_bind [reads_intros]:
  assumes "suffix bs bs\<^sub>0" "reads bs\<^sub>0 bs G r"
    and "\<And>x rest b. bs = b @ rest \<Longrightarrow> G x b \<Longrightarrow> suffix rest bs\<^sub>0 \<Longrightarrow> reads bs\<^sub>0 rest (H x) (f x rest)"
  shows "reads bs\<^sub>0 bs (\<lambda>y b. \<exists>x b1 b2. b = b1 @ b2 \<and> G x b1 \<and> H x y b2) (bindE r (case_prod f))"
proof -
  have step: "reads bs\<^sub>0 rest (H x) (f x rest)" if r: "r = Inr (x, rest)" for x rest
  proof -
    obtain b where b: "bs = b @ rest" "G x b" using r readsD(1) [OF assms(2)] by blast
    with assms(1) show ?thesis by (intro assms(3) [OF b]) (auto simp: suffix_def)
  qed
  have "bindE r (case_prod f) = Inr (y, rest') \<longleftrightarrow> (\<exists>b. bs = b @ rest' \<and> (\<exists>x b1 b2. b = b1 @ b2 \<and> G x b1 \<and> H x y b2))" for y rest'
  proof
    assume "bindE r (case_prod f) = Inr (y, rest')"
    then obtain x rest where r: "r = Inr (x, rest)" and "f x rest = Inr (y, rest')" by (auto simp: bindE_eq_Inr)
    then obtain b2 where "rest = b2 @ rest'" "H x y b2" using readsD(1) [OF step [OF r]] by blast
    moreover obtain b1 where "bs = b1 @ rest" "G x b1" using r readsD(1) [OF assms(2)] by blast
    ultimately show "\<exists>b. bs = b @ rest' \<and> (\<exists>x b1 b2. b = b1 @ b2 \<and> G x b1 \<and> H x y b2)" by auto
  next
    assume "\<exists>b. bs = b @ rest' \<and> (\<exists>x b1 b2. b = b1 @ b2 \<and> G x b1 \<and> H x y b2)"
    then obtain x b1 b2 where b: "bs = b1 @ b2 @ rest'" "G x b1" "H x y b2" by auto
    then have r: "r = Inr (x, b2 @ rest')" using readsD(1) [OF assms(2)] by blast
    then have "f x (b2 @ rest') = Inr (y, rest')" using readsD(1) [OF step [OF r]] b(3) by blast
    with r show "bindE r (case_prod f) = Inr (y, rest')" by simp
  qed
  moreover have "throws_in bs\<^sub>0 g" if "bindE r (case_prod f) = Inl g" for g
    using that step assms(2) by (auto simp: bindE_eq_Inl dest: readsD(2))
  ultimately show ?thesis by (simp add: reads_def)
qed

lemma reads_throw_if [reads_intros]:
  assumes "suffix p bs\<^sub>0" "c \<noteq> parse_ok" "\<not> t \<Longrightarrow> reads bs\<^sub>0 bs G (f ())"
  shows "reads bs\<^sub>0 bs (\<lambda>x b. \<not> t \<and> G x b) (bindE (throw_if t (perr p e c)) f)"
  using assms by (cases t) (simp_all add: reads_def throws_in_perr)

lemma reads_return [reads_intros]: "reads bs\<^sub>0 bs (\<lambda>y b. y = x \<and> b = []) (Inr (x, bs))"
  by (auto simp: reads_def)

lemma reads_throw [reads_intros]:
  "suffix p bs\<^sub>0 \<Longrightarrow> c \<noteq> parse_ok \<Longrightarrow> reads bs\<^sub>0 bs (\<lambda>x b. False) (Inl (Throw (perr p e c)))"
  by (simp add: reads_def throws_in_perr)

lemma reads_absurd: "False \<Longrightarrow> reads bs\<^sub>0 bs (\<lambda>x b. False) (Inl UB)"
  by simp

lemma reads_if [reads_intros]:
  assumes "c \<Longrightarrow> reads bs\<^sub>0 bs G r" "\<not> c \<Longrightarrow> reads bs\<^sub>0 bs H r'"
  shows "reads bs\<^sub>0 bs (\<lambda>x b. if c then G x b else H x b) (if c then r else r')"
  using assms by simp

text \<open>The test that the rest of the range is long enough for what follows.\<close>

lemma reads_throw_short:
  assumes "suffix p bs\<^sub>0" "c \<noteq> parse_ok" "n \<le> length bs \<Longrightarrow> reads bs\<^sub>0 bs G (f ())" "\<And>x b. G x b \<Longrightarrow> n \<le> length b"
  shows "reads bs\<^sub>0 bs G (bindE (throw_if (length bs < n) (perr p e c)) f)"
proof (cases "length bs < n")
  case True
  then show ?thesis using assms(1,2,4) by (fastforce simp: reads_def throws_in_perr)
qed (simp add: assms(3))

lemma reads_index_unchecked:
  assumes "i < length xs" "reads bs\<^sub>0 bs G (f (xs ! i))"
  shows "reads bs\<^sub>0 bs G (bindE (index_unchecked xs i) f)"
  using assms by (simp add: index_unchecked_def)

lemma reads_shift_err: "throws_in bs f \<Longrightarrow> shift_err after (Inl f) = Inl g \<Longrightarrow> throws_in (bs @ after) g"
  by (cases f) (auto simp: shift_err_def throws_in_def suffix_def)

lemma shift_err_eq_Inr [simp]: "shift_err after r = Inr x \<longleftrightarrow> r = Inr x"
  by (auto simp: shift_err_def split: sum.splits fault.splits)

lemma shift_err_throws:
  assumes "\<And>f. r = Inl f \<Longrightarrow> throws_in bs f" "shift_err after r = Inl g" "suffix (bs @ after) bs\<^sub>0"
  shows "throws_in bs\<^sub>0 g"
proof -
  obtain f where f: "r = Inl f" using assms(2) by (cases r) (auto simp: shift_err_def)
  then show ?thesis using reads_shift_err assms throws_in_trans by blast
qed

lemma reads_read_byte [reads_intros]:
  assumes "suffix bs bs\<^sub>0"
  shows "reads bs\<^sub>0 bs (\<lambda>x b. b = [x]) (read_byte e bs)"
  using assms by (cases bs) (auto simp: reads_def read_byte_def throws_in_perr)

lemma reads_next_byte:
  assumes "bs \<noteq> []"
  shows "reads bs\<^sub>0 bs (\<lambda>x b. b = [x]) (next_byte bs)"
  using assms by (cases bs) (auto simp: reads_def next_byte_def)

lemma reads_scan_u32 [reads_intros]:
  assumes "suffix bs bs\<^sub>0"
  shows "reads bs\<^sub>0 bs (\<lambda>v b. uN 32 b (unat v)) (scan_u32 e bs)"
proof -
  have "scan_u32 e bs = Inr (v, rest) \<longleftrightarrow> (\<exists>n. bs = n @ rest \<and> uN 32 n (unat v))" for v rest
  proof -
    have "scan_u32 e bs = Inr (v, rest) \<longleftrightarrow> leb128_get_unsigned bs = (rest, parse_ok, v)"
      by (auto simp: scan_u32_def res_simps split: prod.splits)
    then show ?thesis using leb128_get_unsigned_iff [where 'w = 32] by simp
  qed
  moreover have "throws_in bs\<^sub>0 f" if "scan_u32 e bs = Inl f" for f
    using that assms by (cases f) (auto simp: scan_u32_def res_simps throws_in_perr split: prod.splits)
  ultimately show ?thesis by (simp add: reads_def)
qed

section \<open>Handling a section\<close>

text \<open>
  \<open>handles ptr P r\<close> is the contract of a handler with outcome \<open>r\<close>: it succeeds exactly with the
  results that satisfy \<open>P\<close>, and otherwise throws an error that lies behind \<open>ptr\<close>.
\<close>

definition handles :: "byte list \<Rightarrow> ('s \<Rightarrow> bool) \<Rightarrow> 's pres \<Rightarrow> bool" where
  "handles ptr P r \<longleftrightarrow> (\<forall>s. r = Inr s \<longleftrightarrow> P s) \<and> (\<forall>f. r = Inl f \<longrightarrow> throws_in ptr f)"

named_theorems handles_intros

lemma handlesD:
  assumes "handles ptr P r"
  shows "r = Inr s \<longleftrightarrow> P s" and "r = Inl f \<Longrightarrow> throws_in ptr f"
  using assms by (auto simp: handles_def)

lemma handles_cong: "handles ptr P r \<Longrightarrow> (\<And>s. P s = Q s) \<Longrightarrow> handles ptr Q r"
  by (simp add: handles_def)

lemma handles_return [handles_intros]: "handles ptr (\<lambda>s. s = x) (Inr x)"
  by (auto simp: handles_def)

lemma handles_throw_if [handles_intros]:
  assumes "suffix p ptr" "c \<noteq> parse_ok" "\<not> t \<Longrightarrow> handles ptr P (f ())"
  shows "handles ptr (\<lambda>s. \<not> t \<and> P s) (bindE (throw_if t (perr p e c)) f)"
  using assms by (cases t) (simp_all add: handles_def throws_in_perr)

lemma handles_if:
  assumes "c \<Longrightarrow> handles ptr P r" "\<not> c \<Longrightarrow> handles ptr Q r'"
  shows "handles ptr (\<lambda>s. if c then P s else Q s) (if c then r else r')"
  using assms by simp

lemma handles_bind:
  assumes "handles ptr P r" "\<And>x. handles ptr (Q x) (f x)"
  shows "handles ptr (\<lambda>s. \<exists>x. P x \<and> Q x s) (bindE r f)"
  using handlesD [OF assms(1)] handlesD [OF assms(2)] by (auto simp: handles_def bindE_eq_Inr bindE_eq_Inl)

lemma handles_assume [handles_intros]: "t \<Longrightarrow> handles ptr P (f ()) \<Longrightarrow> handles ptr P (bindE (cpp_assume t) f)"
  by (simp add: cpp_assume_def)

lemma handles_index_unchecked:
  assumes "i < length xs" "handles ptr P (f (xs ! i))"
  shows "handles ptr P (bindE (index_unchecked xs i) f)"
  using assms by (simp add: index_unchecked_def)

lemma handles_shift_err:
  assumes "handles p P r" "suffix (p @ after) ptr"
  shows "handles ptr P (shift_err after r)"
  using assms shift_err_throws [of r p after _ ptr] by (simp add: handles_def)

lemma suffix_Nil_any [simp, intro]: "suffix [] bs"
  by (simp add: suffix_def)

lemma handles_reads:
  assumes "suffix bs ptr" "reads bs\<^sub>0 bs G r" "suffix bs\<^sub>0 ptr"
    and "\<And>x rest b. bs = b @ rest \<Longrightarrow> G x b \<Longrightarrow> suffix rest ptr \<Longrightarrow> handles ptr (P x rest) (f x rest)"
  shows "handles ptr (\<lambda>s. \<exists>x b rest. bs = b @ rest \<and> G x b \<and> P x rest s) (bindE r (case_prod f))"
proof -
  have step: "handles ptr (P x rest) (f x rest)" if r: "r = Inr (x, rest)" for x rest
  proof -
    obtain b where b: "bs = b @ rest" "G x b" using r readsD(1) [OF assms(2)] by blast
    with assms(1) show ?thesis by (intro assms(4) [OF b]) (auto simp: suffix_def)
  qed
  have "bindE r (case_prod f) = Inr s \<longleftrightarrow> (\<exists>x rest. r = Inr (x, rest) \<and> P x rest s)" for s
    using handlesD(1) [OF step] by (auto simp: bindE_eq_Inr)
  moreover have "throws_in ptr g" if "bindE r (case_prod f) = Inl g" for g
    using that handlesD(2) [OF step] readsD(2) [OF assms(2)] assms(3) throws_in_trans by (auto simp: bindE_eq_Inl)
  ultimately show ?thesis unfolding handles_def readsD(1) [OF assms(2)] by blast
qed

lemma handles_scan_u32 [handles_intros]:
  assumes "suffix bs ptr" "\<And>cnt rest. u32_prefix bs cnt rest \<Longrightarrow> suffix rest ptr \<Longrightarrow> handles ptr (P cnt rest) (f cnt rest)"
  shows "handles ptr (\<lambda>s. \<exists>cnt rest. u32_prefix bs cnt rest \<and> P cnt rest s) (bindE (scan_u32 e bs) (case_prod f))"
  by (rule handles_cong, rule handles_reads [OF assms(1) reads_scan_u32 [OF suffix_order.refl] assms(1)], rule assms(2))
    (auto simp: u32_prefix_def)

lemma u32_prefix_unique:
  assumes "u32_prefix bs v r" "u32_prefix bs v' r'"
  shows "v = v'" "r = r'"
proof -
  have "scan_u32 undefined bs = Inr (v, r)" "scan_u32 undefined bs = Inr (v', r')"
    using readsD(1) [OF reads_scan_u32 [OF suffix_order.refl]] assms by (auto simp: u32_prefix_def)
  then show "v = v'" "r = r'" by simp_all
qed

section \<open>The interface of an element parser\<close>

text \<open>
  An element parser of a section with at most \<open>bound\<close> elements: it reads the elements of a grammar
  \<open>G\<close> that pass the test \<open>ok\<close>, which may depend on the elements before.
\<close>

locale section_entry =
  fixes entry :: "u32 \<Rightarrow> 'a list \<Rightarrow> byte list \<Rightarrow> ('a \<times> byte list) pres"
    and G :: "'a \<Rightarrow> byte list \<Rightarrow> bool"
    and ok :: "'a list \<Rightarrow> 'a \<Rightarrow> bool"
    and bound :: nat
  assumes entry_reads: "unat counter = Suc (length acc) \<Longrightarrow> length acc < bound \<Longrightarrow> bs \<noteq> [] \<Longrightarrow>
      reads bs bs (\<lambda>x b. G x b \<and> ok acc x) (entry counter acc bs)"
    and G_nonempty: "\<not> G x []"
begin

lemma list_code_empty_iff: "list_code G xs bs \<Longrightarrow> xs = [] \<longleftrightarrow> bs = []"
  using G_nonempty by (cases xs) (auto simp: list_code_Cons_iff)

lemma counter_not_below: "\<not> (counter \<noteq> - 1 \<and> counter + 1 \<le> (counter :: u32))"
  by (metis not_less_eq_eq order_refl unat_plus_one word_le_nat_alt)

lemma loop_end:
  assumes "unat counter = length acc" "length acc \<le> unat cnt" "length acc = unat cnt \<or> bs = []"
  shows "section_loop entry exc nm cnt counter acc bs = Inr ys \<longleftrightarrow> length acc = unat cnt \<and> bs = [] \<and> ys = acc"
proof -
  have "cnt = counter \<longleftrightarrow> length acc = unat cnt" using assms by (auto simp: word_unat_eq_iff)
  then show ?thesis using assms counter_not_below [of counter] unfolding section_loop.simps [of entry exc nm cnt counter acc bs]
    by (auto simp: bindE_eq_Inr throw_if_eq_Inr counter_selfinc_eq_Inr not_less)
qed

lemma loop_more:
  assumes "unat counter = length acc" "length acc < unat cnt" "bs \<noteq> []"
  shows "unat (counter + 1) = Suc (length acc)"
    and "section_loop entry exc nm cnt counter acc bs =
      bindE (entry (counter + 1) acc bs) (\<lambda>r. section_loop entry exc nm cnt (counter + 1) (acc @ [fst r]) (snd r))"
proof -
  have c: "counter \<noteq> - 1" using assms(1,2) word_order.extremum [of cnt] by (auto simp: word_le_nat_alt)
  with assms(1,2) have "\<not> cnt < counter + 1" by (simp add: not_less word_le_nat_alt unat_plus_one)
  note c = c this
  then show "unat (counter + 1) = Suc (length acc)" using assms unat_plus_one [of counter] by simp
  show "section_loop entry exc nm cnt counter acc bs =
      bindE (entry (counter + 1) acc bs) (\<lambda>r. section_loop entry exc nm cnt (counter + 1) (acc @ [fst r]) (snd r))"
    unfolding section_loop.simps [of entry exc nm cnt counter acc bs] counter_selfinc_throw_when_overflow_def
    using c assms(3) by simp
qed

text \<open>\<open>xs\<close> are elements that follow the elements \<open>acc\<close>.\<close>

abbreviation elements :: "'a list \<Rightarrow> 'a list \<Rightarrow> byte list \<Rightarrow> bool" where
  "elements acc xs bs \<equiv> list_code G xs bs \<and> all_after ok acc xs"

lemma elements_Cons:
  "elements acc (x # xs) bs \<longleftrightarrow> (\<exists>b rest. bs = b @ rest \<and> G x b \<and> ok acc x \<and> elements (acc @ [x]) xs rest)"
  by (auto simp: list_code_Cons_iff)

lemma loop_outcome:
  assumes "unat counter = length acc" "length acc \<le> unat cnt" "unat cnt \<le> bound"
  shows "section_loop entry exc nm cnt counter acc bs = Inr ys \<longleftrightarrow>
      (\<exists>xs. ys = acc @ xs \<and> length ys = unat cnt \<and> elements acc xs bs)" (is "?ok counter acc bs")
    and "section_loop entry exc nm cnt counter acc bs = Inl f \<Longrightarrow> throws_in bs f" (is "?err counter acc bs \<Longrightarrow> _")
proof -
  have "?ok counter acc bs \<and> (?err counter acc bs \<longrightarrow> throws_in bs f)" using assms
  proof (induction "unat cnt - length acc" arbitrary: counter acc bs)
    case 0
    then have "?ok counter acc bs" using loop_end [of counter acc cnt bs exc nm ys] list_code_empty_iff by fastforce
    moreover have "cnt = counter" using 0 by (simp add: word_unat_eq_iff)
    with counter_not_below [of counter] have "?err counter acc bs \<longrightarrow> throws_in bs f"
      unfolding section_loop.simps [of entry exc nm cnt counter acc bs]
      by (auto simp: bindE_eq_Inl throw_if_def throws_in_perr counter_selfinc_throw_when_overflow_def split: if_splits)
    ultimately show ?case ..
  next
    case (Suc n)
    have lt: "length acc < unat cnt" using Suc by simp
    show ?case
    proof (cases "bs = []")
      case True
      then have "?ok counter acc bs" using Suc loop_end [of counter acc cnt bs exc nm ys] list_code_empty_iff by fastforce
      moreover have "?err counter acc bs \<longrightarrow> throws_in bs f" using True
        unfolding section_loop.simps [of entry exc nm cnt counter acc bs]
        by (auto simp: bindE_eq_Inl throw_if_def throws_in_perr split: if_splits)
      ultimately show ?thesis ..
    next
      case False
      note more = loop_more [OF Suc.prems(1) lt False]
      have ent: "reads bs bs (\<lambda>x b. G x b \<and> ok acc x) (entry (counter + 1) acc bs)"
        using entry_reads [OF more(1)] Suc.prems lt False by simp
      have IH: "?ok (counter + 1) (acc @ [x]) rest \<and> (?err (counter + 1) (acc @ [x]) rest \<longrightarrow> throws_in rest f)" for x rest
        using Suc.hyps(1) [of "acc @ [x]" "counter + 1" rest] Suc.hyps(2) Suc.prems more(1) lt by simp
      have "section_loop entry exc nm cnt counter acc bs = Inr ys \<longleftrightarrow>
          (\<exists>x xs. ys = acc @ x # xs \<and> length ys = unat cnt \<and> elements acc (x # xs) bs)"
        unfolding more(2) elements_Cons by (simp add: bindE_eq_Inr readsD(1) [OF ent] IH) blast
      also have "\<dots> \<longleftrightarrow> (\<exists>xs. ys = acc @ xs \<and> length ys = unat cnt \<and> elements acc xs bs)"
        using lt by (metis append_Nil2 nat_neq_iff neq_Nil_conv)
      finally have "?ok counter acc bs" .
      moreover have "throws_in bs f" if "?err counter acc bs"
      proof -
        from that consider "entry (counter + 1) acc bs = Inl f"
          | x rest where "entry (counter + 1) acc bs = Inr (x, rest)" "?err (counter + 1) (acc @ [x]) rest"
          unfolding more(2) by (auto simp: bindE_eq_Inl)
        then show ?thesis
        proof cases
          case 1
          then show ?thesis by (rule readsD(2) [OF ent])
        next
          case 2
          then have "suffix rest bs" using readsD(1) [OF ent] by (auto simp: suffix_def)
          with 2 IH show ?thesis using throws_in_trans by blast
        qed
      qed
      ultimately show ?thesis by blast
    qed
  qed
  then show "?ok counter acc bs" "?err counter acc bs \<Longrightarrow> throws_in bs f" by auto
qed

text \<open>The loop of a section handler, behind tests that keep the count within the bound.\<close>

lemma handles_loop_from:
  assumes "suffix bs ptr" "unat cnt \<le> bound" "unat counter = length acc" "length acc \<le> unat cnt"
    and "\<And>xs. handles ptr (P xs) (f xs)"
  shows "handles ptr (\<lambda>s. \<exists>xs. length acc + length xs = unat cnt \<and> list_code G xs bs \<and> all_after ok acc xs \<and> P (acc @ xs) s)
    (bindE (section_loop entry exc nm cnt counter acc bs) f)"
  using loop_outcome [OF assms(3,4,2), of exc nm bs] throws_in_trans [OF _ assms(1)] handlesD [OF assms(5)]
  by (auto simp: handles_def bindE_eq_Inr bindE_eq_Inl) (metis length_append)

lemma handles_loop:
  assumes "suffix bs ptr" "unat cnt \<le> bound" "acc = []" "\<And>xs. handles ptr (P xs) (f xs)"
  shows "handles ptr (\<lambda>s. \<exists>xs. length xs = unat cnt \<and> list_code G xs bs \<and> all_after ok [] xs \<and> P xs s)
    (bindE (section_loop entry exc nm cnt 0 acc bs) f)"
  unfolding assms(3) by (rule handles_cong, rule handles_loop_from [OF assms(1,2) _ _ assms(4)]) simp_all

end

end
