(* ===== verification/Binary_Types.thy ===== *)
theory Binary_Types
  imports Parser_Base
begin

text \<open>
  The types of \<^verbatim>\<open>standard/wasm1/features/types.h\<close> as they stand in a binary: value types, limits, table,
  memory and global types. Each scanner reads exactly its grammar and leaves the pointer behind it.
\<close>

section \<open>Value types\<close>

definition is_valid_value_type :: "byte \<Rightarrow> bool" where
  "is_valid_value_type vt \<longleftrightarrow> vt = 0x7F \<or> vt = 0x7E \<or> vt = 0x7D \<or> vt = 0x7C"

text \<open>The enumerator of a byte that passed the test; bytes are copied into \<open>value_type\<close> as they are.\<close>

definition to_value_type :: "byte \<Rightarrow> value_type" where
  "to_value_type b =
     (if b = 0x7F then i32 else if b = 0x7E then i64 else if b = 0x7D then f32 else if b = 0x7C then f64 else vt_none)"

text \<open>The grammar of value types.\<close>

definition valtype_code :: "value_type \<Rightarrow> byte list \<Rightarrow> bool" where
  "valtype_code t bs \<longleftrightarrow> t \<noteq> vt_none \<and> bs = [value_type_byte t]"

lemma value_type_byte_iff: "t \<noteq> vt_none \<and> b = value_type_byte t \<longleftrightarrow> is_valid_value_type b \<and> t = to_value_type b"
  by (cases t) (auto simp: value_type_byte_def is_valid_value_type_def to_value_type_def)

lemma valtype_code_iff: "valtype_code t bs \<longleftrightarrow> (\<exists>b. bs = [b] \<and> is_valid_value_type b \<and> t = to_value_type b)"
  unfolding valtype_code_def using value_type_byte_iff by metis

lemma list_valtype_Cons: "list_code valtype_code (t # ts) bs \<longleftrightarrow>
    (\<exists>b bs'. bs = b # bs' \<and> is_valid_value_type b \<and> t = to_value_type b \<and> list_code valtype_code ts bs')"
  unfolding list_code_Cons_iff valtype_code_iff [of t] by (metis append_Cons append_Nil)

lemma list_valtype_length: "list_code valtype_code ts b \<Longrightarrow> length b = length ts"
  by (induction ts arbitrary: b) (auto simp: list_valtype_Cons)

section \<open>Limits, table, memory and global types\<close>

record limits_type =
  limits_min :: u32
  limits_max :: u32
  present_max :: bool

text \<open>A table type and a memory type have no member but their limits.\<close>

type_synonym table_type = limits_type
type_synonym memory_type = limits_type

definition scan_limit_type :: "byte list \<Rightarrow> (limits_type \<times> byte list) pres" where
  "scan_limit_type begin_ptr =
     bindE (read_byte (in_common limit_type_cannot_find_flag) begin_ptr) (\<lambda>(flags, p).
     bindE (throw_if (flags \<noteq> 0 \<and> flags \<noteq> 1) (perr begin_ptr (in_common (limit_type_illegal_flag flags)) parse_invalid)) (\<lambda>_.
     bindE (scan_u32 (in_common limit_type_invalid_min) p) (\<lambda>(n_min, p).
     if flags = 1
     then bindE (scan_u32 (in_common limit_type_invalid_max) p) (\<lambda>(n_max, next).
          bindE (throw_if (n_max < n_min) (perr p (in_common (limit_type_max_lt_min n_max n_min)) parse_invalid)) (\<lambda>_.
          Inr (\<lparr>limits_min = n_min, limits_max = n_max, present_max = True\<rparr>, next)))
     else Inr (\<lparr>limits_min = n_min, limits_max = - 1, present_max = False\<rparr>, p))))"

definition scan_table_type :: "byte list \<Rightarrow> (table_type \<times> byte list) pres" where
  "scan_table_type begin_ptr =
     bindE (read_byte (in_common table_type_cannot_find_element) begin_ptr) (\<lambda>(elemtype, p).
     bindE (throw_if (elemtype \<noteq> 0x70) (perr begin_ptr (in_common (table_type_illegal_element elemtype)) parse_invalid)) (\<lambda>_.
     scan_limit_type p))"

definition scan_memory_type :: "byte list \<Rightarrow> (memory_type \<times> byte list) pres" where
  "scan_memory_type begin_ptr = scan_limit_type begin_ptr"

definition scan_global_type :: "byte list \<Rightarrow> (global_type \<times> byte list) pres" where
  "scan_global_type begin_ptr =
     bindE (read_byte (in_common global_type_cannot_find_valtype) begin_ptr) (\<lambda>(gvt, p).
     bindE (throw_if (\<not> is_valid_value_type gvt) (perr begin_ptr (in_common (global_type_illegal_valtype gvt)) parse_invalid)) (\<lambda>_.
     bindE (read_byte (in_common global_type_cannot_find_mut) p) (\<lambda>(mut, next).
     bindE (throw_if (mut > 1) (perr p (in_common (global_type_illegal_mut mut)) parse_invalid)) (\<lambda>_.
     Inr (\<lparr>global_value_type = to_value_type gvt, is_mutable = (mut \<noteq> 0)\<rparr>, next)))))"

text \<open>The grammars; a missing maximum is recorded as the largest \<open>u32\<close>.\<close>

definition limits_code :: "limits_type \<Rightarrow> byte list \<Rightarrow> bool" where
  "limits_code l bs \<longleftrightarrow>
     (if present_max l
      then \<exists>n m. bs = 0x01 # n @ m \<and> uN 32 n (unat (limits_min l)) \<and> uN 32 m (unat (limits_max l))
      else \<exists>n. bs = 0x00 # n \<and> uN 32 n (unat (limits_min l)) \<and> limits_max l = - 1)"

definition limits_valid :: "limits_type \<Rightarrow> bool" where
  "limits_valid l \<longleftrightarrow> limits_min l \<le> limits_max l"

definition table_code :: "table_type \<Rightarrow> byte list \<Rightarrow> bool" where
  "table_code t bs \<longleftrightarrow> (\<exists>b. bs = 0x70 # b \<and> limits_code t b)"

definition global_type_code :: "global_type \<Rightarrow> byte list \<Rightarrow> bool" where
  "global_type_code g bs \<longleftrightarrow> (\<exists>b. bs = b @ [if is_mutable g then 0x01 else 0x00] \<and> valtype_code (global_value_type g) b)"

lemma limits_type_eq:
  "l = \<lparr>limits_min = n, limits_max = m, present_max = p\<rparr> \<longleftrightarrow> n = limits_min l \<and> m = limits_max l \<and> p = present_max l"
  by (cases l) auto

lemma limits_code_nonempty: "\<not> limits_code l []"
  by (simp add: limits_code_def)

lemma reads_limit_type [reads_intros]:
  assumes "suffix bs bs\<^sub>0"
  shows "reads bs\<^sub>0 bs (\<lambda>l b. limits_code l b \<and> limits_valid l) (scan_limit_type bs)"
  unfolding scan_limit_type_def
proof (rule reads_cong, (rule reads_intros assms | assumption | (simp; fail))+, goal_cases)
  case (1 l b rest)
  show ?case
  proof (cases b)
    case (Cons flags b')
    show ?thesis unfolding Cons
      by (cases "flags = 0"; cases "flags = 1")
        (auto simp: limits_type_eq limits_code_def limits_valid_def not_less, metis word_order.extremum)
  qed (simp add: limits_code_def)
qed

lemma reads_table_type [reads_intros]:
  assumes "suffix bs bs\<^sub>0"
  shows "reads bs\<^sub>0 bs (\<lambda>t b. table_code t b \<and> limits_valid t) (scan_table_type bs)"
  unfolding scan_table_type_def
  by (rule reads_cong, (rule reads_intros assms | assumption | (simp; fail))+) (auto simp: table_code_def)

lemma reads_memory_type [reads_intros]:
  "suffix bs bs\<^sub>0 \<Longrightarrow> reads bs\<^sub>0 bs (\<lambda>l b. limits_code l b \<and> limits_valid l) (scan_memory_type bs)"
  unfolding scan_memory_type_def by (rule reads_limit_type)

lemma byte_bool: "(m::byte) \<le> 1 \<Longrightarrow> m = 0 \<or> m = 1"
  by (metis One_nat_def le_Suc_eq le_zero_eq unat_1 unat_eq_zero word_le_nat_alt word_unat_eq_iff)

lemma global_type_eq:
  "g = \<lparr>global_value_type = t, is_mutable = m\<rparr> \<longleftrightarrow> t = global_value_type g \<and> m = is_mutable g"
  by (cases g) auto

lemma reads_global_type [reads_intros]:
  assumes "suffix bs bs\<^sub>0"
  shows "reads bs\<^sub>0 bs global_type_code (scan_global_type bs)"
  unfolding scan_global_type_def
proof (rule reads_cong, (rule reads_intros assms | assumption | (simp; fail))+, goal_cases)
  case (1 g b rest)
  show ?case by (auto simp: global_type_eq global_type_code_def valtype_code_iff not_less dest: byte_bool)
qed

section \<open>Names\<close>

text \<open>
  The text format of WebAssembly 1.0 is UTF-8. \<open>after\<close> is what follows the name in the section, so that
  the position of an error is again a pointer into the section.
\<close>

definition check_import_export_text_format :: "byte list \<Rightarrow> byte list \<Rightarrow> unit pres" where
  "check_import_export_text_format name after =
     (case check_legal_utf8_unchecked name of (utf8pos, utf8err) \<Rightarrow>
        throw_if (utf8err \<noteq> success) (perr (utf8pos @ after) (in_common (invalid_char_sequence utf8err)) parse_invalid))"

text \<open>A name: its length in bytes, then the bytes.\<close>

definition scan_name ::
  "wasm_parse_error \<Rightarrow> (u32 \<Rightarrow> wasm_parse_error) \<Rightarrow> byte list \<Rightarrow> (byte list \<times> byte list) pres" where
  "scan_name invalid_length too_length section_curr =
     bindE (scan_u32 invalid_length section_curr) (\<lambda>(namelen, p).
     bindE (throw_if (length p < unat namelen) (perr section_curr (too_length namelen) parse_invalid)) (\<lambda>_.
     let name = take (unat namelen) p; after = drop (unat namelen) p in
     bindE (check_import_export_text_format name after) (\<lambda>_.
     Inr (name, after))))"

definition name_code :: "byte list \<Rightarrow> byte list \<Rightarrow> bool" where
  "name_code name bs \<longleftrightarrow> (\<exists>n. bs = n @ name \<and> uN 32 n (length name) \<and> utf8_string name)"

lemma check_text_format_outcome:
  assumes "suffix (name @ after) bs\<^sub>0"
  shows "check_import_export_text_format name after = Inr u \<longleftrightarrow> utf8_string name"
    and "check_import_export_text_format name after = Inl f \<Longrightarrow> throws_in bs\<^sub>0 f"
proof -
  obtain pos e where c: "check_legal_utf8_unchecked name = (pos, e)" by fastforce
  note o = check_legal_utf8_outcome [OF c]
  have "utf8_string name \<longleftrightarrow> e = success" using o check_legal_utf8_accepts [of name] c by (auto split: if_splits)
  then show "check_import_export_text_format name after = Inr u \<longleftrightarrow> utf8_string name"
    by (simp add: check_import_export_text_format_def c throw_if_eq_Inr)
  have "suffix (pos @ after) bs\<^sub>0" using o assms by (auto simp: suffix_def)
  then show "throws_in bs\<^sub>0 f" if "check_import_export_text_format name after = Inl f"
    using that by (auto simp: check_import_export_text_format_def c throw_if_def throws_in_perr split: if_splits)
qed

lemma reads_name_bytes:
  assumes "n \<le> length bs" "suffix bs bs\<^sub>0"
  shows "reads bs\<^sub>0 bs (\<lambda>x b. b = x \<and> length x = n \<and> utf8_string x)
    (let name = take n bs; after = drop n bs in
     bindE (check_import_export_text_format name after) (\<lambda>_. Inr (name, after)))"
  using assms check_text_format_outcome [of "take n bs" "drop n bs" bs\<^sub>0]
  by (auto simp: reads_def Let_def bindE_eq_Inr bindE_eq_Inl)

lemma reads_name [reads_intros]:
  assumes "suffix bs bs\<^sub>0"
  shows "reads bs\<^sub>0 bs name_code (scan_name e1 e2 bs)"
  unfolding scan_name_def
  by (rule reads_cong, (rule reads_bind reads_scan_u32 reads_throw_short reads_name_bytes assms | assumption | (simp; fail))+)
    (auto simp: name_code_def uN_u32 [of _ "length _"])

end
