(* ===== verification/Table_Memory_Section.thy ===== *)
theory Table_Memory_Section
  imports Binary_Types
begin

text \<open>
  The table and memory sections (\<^verbatim>\<open>table_section.h\<close>, \<^verbatim>\<open>memory_section.h\<close>, section ids 4 and 5).
  WebAssembly 1.0 allows one table and one memory, imports included.
\<close>

section \<open>The table section\<close>

record table_section_storage_t =
  tablesec_span :: "byte list option"
  tablesec_tables :: "table_type list"

definition table_section_table_handler :: "byte list \<Rightarrow> (table_type \<times> byte list) pres" where
  "table_section_table_handler section_curr = scan_table_type section_curr"

text \<open>\<open>imported\<close> is the number of imported tables.\<close>

definition handle_table_section ::
  "wasm1_parser_limit_t \<Rightarrow> nat \<Rightarrow> table_section_storage_t \<Rightarrow> byte list \<Rightarrow> byte list \<Rightarrow> table_section_storage_t pres" where
  "handle_table_section limit imported tablesec section_begin sec_id_module_ptr =
     (let imported_table_size = of_nat imported :: u32 in
     bindE (throw_if (tablesec_span tablesec \<noteq> None) (perr sec_id_module_ptr (in_common (duplicate_section 4)) parse_invalid)) (\<lambda>_.
     bindE (scan_u32 (in_declaration invalid_table_count) section_begin) (\<lambda>(table_count, section_curr).
     bindE (cpp_assume (imported_table_size \<le> 1)) (\<lambda>_.
     bindE (throw_if (table_count > - 1 - imported_table_size \<or> table_count + imported_table_size > 1)
             (perr section_begin (in_declaration wasm1_not_allow_multi_table) parse_invalid)) (\<lambda>_.
     bindE (throw_if (unat table_count > max_table_sec_tables limit)
             (perr section_begin (in_common (exceed_the_max_parser_limit ''tablesec_tables'' (unat table_count) (max_table_sec_tables limit)))
                parse_invalid)) (\<lambda>_.
     bindE (section_loop (\<lambda>_ _. table_section_table_handler)
             (\<lambda>cnt. in_declaration (table_section_resolved_exceeded_the_actual_number cnt))
             (\<lambda>counter cnt. in_declaration (table_section_resolved_not_match_the_actual_number counter cnt))
             table_count 0 (tablesec_tables tablesec) section_curr) (\<lambda>ts.
     Inr \<lparr>tablesec_span = Some section_begin, tablesec_tables = ts\<rparr>)))))))"

section \<open>The memory section\<close>

record memory_section_storage_t =
  memorysec_span :: "byte list option"
  memorysec_memories :: "memory_type list"

definition memory_section_memory_handler :: "byte list \<Rightarrow> (memory_type \<times> byte list) pres" where
  "memory_section_memory_handler section_curr =
     bindE (scan_memory_type section_curr) (\<lambda>(memory, next).
     bindE (throw_if (limits_min memory > 65536)
             (perr section_curr (in_declaration (memory_section_resolved_exceeded_the_maximum_value (limits_min memory))) parse_invalid)) (\<lambda>_.
     bindE (throw_if (present_max memory \<and> limits_max memory > 65536)
             (perr section_curr (in_declaration (memory_section_resolved_exceeded_the_maximum_value (limits_max memory))) parse_invalid)) (\<lambda>_.
     Inr (memory, next))))"

definition handle_memory_section ::
  "wasm1_parser_limit_t \<Rightarrow> nat \<Rightarrow> memory_section_storage_t \<Rightarrow> byte list \<Rightarrow> byte list \<Rightarrow> memory_section_storage_t pres" where
  "handle_memory_section limit imported memorysec section_begin sec_id_module_ptr =
     (let imported_memory_size = of_nat imported :: u32 in
     bindE (throw_if (memorysec_span memorysec \<noteq> None) (perr sec_id_module_ptr (in_common (duplicate_section 5)) parse_invalid)) (\<lambda>_.
     bindE (scan_u32 (in_declaration invalid_memory_count) section_begin) (\<lambda>(memory_count, section_curr).
     bindE (cpp_assume (imported_memory_size \<le> 1)) (\<lambda>_.
     bindE (throw_if (memory_count > - 1 - imported_memory_size \<or> memory_count + imported_memory_size > 1)
             (perr section_begin (in_declaration wasm1_not_allow_multi_memory) parse_invalid)) (\<lambda>_.
     bindE (throw_if (unat memory_count > max_memory_sec_memories limit)
             (perr section_begin (in_common (exceed_the_max_parser_limit ''memorysec_memories'' (unat memory_count) (max_memory_sec_memories limit)))
                parse_invalid)) (\<lambda>_.
     bindE (section_loop (\<lambda>_ _. memory_section_memory_handler)
             (\<lambda>cnt. in_declaration (memory_section_resolved_exceeded_the_actual_number cnt))
             (\<lambda>counter cnt. in_declaration (memory_section_resolved_not_match_the_actual_number counter cnt))
             memory_count 0 (memorysec_memories memorysec) section_curr) (\<lambda>ms.
     Inr \<lparr>memorysec_span = Some section_begin, memorysec_memories = ms\<rparr>)))))))"

section \<open>Correctness\<close>

lemma single_test:
  assumes "n \<le> 1"
  shows "(- 1 - of_nat n < (c::u32) \<or> 1 < c + of_nat n) = (1 < unat c + n)"
  using assms u32_sum_overflow [of n c] u32_sum [of c n] by (auto simp: word_less_nat_alt)

lemma of_nat_le_1: "n \<le> 1 \<Longrightarrow> (of_nat n :: u32) \<le> 1"
  by (cases n) auto

text \<open>A memory type within the 65536 pages that a 32-bit address can reach.\<close>

definition memory_valid :: "memory_type \<Rightarrow> bool" where
  "memory_valid m \<longleftrightarrow> limits_min m \<le> 65536 \<and> (present_max m \<longrightarrow> limits_min m \<le> limits_max m \<and> limits_max m \<le> 65536)"

lemma reads_memory_handler [reads_intros]:
  assumes "suffix bs bs\<^sub>0"
  shows "reads bs\<^sub>0 bs (\<lambda>m b. limits_code m b \<and> memory_valid m) (memory_section_memory_handler bs)"
  unfolding memory_section_memory_handler_def
  by (rule reads_cong, (rule reads_intros assms | assumption | (simp; fail))+)
    (auto simp: memory_valid_def limits_valid_def not_less limits_code_def split: if_splits)

interpretation table_entries: section_entry "\<lambda>_ _. table_section_table_handler" table_code "\<lambda>_. limits_valid" "2 ^ 32"
  by unfold_locales (simp_all add: table_section_table_handler_def reads_intros, simp add: table_code_def)

interpretation memory_entries: section_entry "\<lambda>_ _. memory_section_memory_handler" limits_code "\<lambda>_. memory_valid" "2 ^ 32"
  by unfold_locales (auto simp: limits_code_nonempty intro: reads_intros)

lemma table_section_storage_eq:
  "s = \<lparr>tablesec_span = x, tablesec_tables = y\<rparr> \<longleftrightarrow> x = tablesec_span s \<and> y = tablesec_tables s"
  by (cases s) auto

lemma memory_section_storage_eq:
  "s = \<lparr>memorysec_span = x, memorysec_memories = y\<rparr> \<longleftrightarrow> x = memorysec_span s \<and> y = memorysec_memories s"
  by (cases s) auto

lemma handles_table_section:
  assumes "tablesec_span s = None" "tablesec_tables s = []" "imported \<le> 1" "suffix bs ptr"
  shows "handles ptr (\<lambda>s'. tablesec_span s' = Some bs \<and> vec_code table_code (tablesec_tables s') bs \<and>
      list_all limits_valid (tablesec_tables s') \<and> length (tablesec_tables s') + imported \<le> 1 \<and>
      length (tablesec_tables s') \<le> max_table_sec_tables limit) (handle_table_section limit imported s bs ptr)"
  unfolding handle_table_section_def Let_def single_test [OF assms(3)]
  by (rule handles_cong, (rule handles_intros table_entries.handles_loop of_nat_le_1 unat_u32_le assms suffix_order.refl | assumption | (simp; fail))+)
    (auto simp: vec_code_count table_section_storage_eq assms not_less; blast)

lemma handles_memory_section:
  assumes "memorysec_span s = None" "memorysec_memories s = []" "imported \<le> 1" "suffix bs ptr"
  shows "handles ptr (\<lambda>s'. memorysec_span s' = Some bs \<and> vec_code limits_code (memorysec_memories s') bs \<and>
      list_all memory_valid (memorysec_memories s') \<and> length (memorysec_memories s') + imported \<le> 1 \<and>
      length (memorysec_memories s') \<le> max_memory_sec_memories limit) (handle_memory_section limit imported s bs ptr)"
  unfolding handle_memory_section_def Let_def single_test [OF assms(3)]
  by (rule handles_cong, (rule handles_intros memory_entries.handles_loop of_nat_le_1 unat_u32_le assms suffix_order.refl | assumption | (simp; fail))+)
    (auto simp: vec_code_count memory_section_storage_eq assms not_less; blast)

end
