(* ===== verification/Type_Section.thy ===== *)
theory Type_Section
  imports Binary_Types
begin

text \<open>
  The type section (\<^verbatim>\<open>type_section.h\<close>, section id 1): a vector of function types with at most one
  result. The handler accepts exactly the encodings of such vectors within the parser limit.
\<close>

section \<open>The parser\<close>

record type_section_storage_t =
  typesec_span :: "byte list option"
  typesec_types :: "function_type list"

text \<open>The loop over the value types of a parameter or result list of known length.\<close>

fun check_typesec_value_types :: "nat \<Rightarrow> byte list \<Rightarrow> (value_type list \<times> byte list) pres" where
  "check_typesec_value_types 0 p = Inr ([], p)"
| "check_typesec_value_types (Suc n) p =
     bindE (next_byte p) (\<lambda>(b, next).
     bindE (throw_if (\<not> is_valid_value_type b) (perr p (in_declaration (illegal_value_type b)) parse_invalid)) (\<lambda>_.
     bindE (check_typesec_value_types n next) (\<lambda>(ts, rest).
     Inr (to_value_type b # ts, rest))))"

definition parameter_list :: "byte list \<Rightarrow> (value_type list \<times> byte list) pres" where
  "parameter_list section_curr =
     bindE (scan_u32 (in_declaration invalid_parameter_length) section_curr) (\<lambda>(para_len, section_curr).
     bindE (throw_if (length section_curr < unat para_len)
             (perr section_curr (in_declaration (illegal_parameter_length para_len)) parse_invalid)) (\<lambda>_.
     check_typesec_value_types (unat para_len) section_curr))"

definition result_list :: "byte list \<Rightarrow> (value_type list \<times> byte list) pres" where
  "result_list section_curr =
     bindE (scan_u32 (in_declaration invalid_result_length) section_curr) (\<lambda>(result_len, section_curr).
     bindE (throw_if (result_len > 1) (perr section_curr (in_declaration wasm1_not_allow_multi_value) parse_invalid)) (\<lambda>_.
     bindE (throw_if (length section_curr < unat result_len)
             (perr section_curr (in_declaration (illegal_result_length result_len)) parse_invalid)) (\<lambda>_.
     check_typesec_value_types (unat result_len) section_curr)))"

definition handle_type_prefix_functype ::
  "wasm1_parser_limit_t \<Rightarrow> function_type list \<Rightarrow> byte list \<Rightarrow> (function_type \<times> byte list) pres" where
  "handle_type_prefix_functype limit ts section_curr =
     bindE (throw_if (length ts \<ge> max_type_sec_types limit)
             (perr section_curr (in_common (exceed_the_max_parser_limit ''typesec_types'' (length ts + 1) (max_type_sec_types limit)))
                parse_invalid)) (\<lambda>_.
     bindE (parameter_list section_curr) (\<lambda>(ps, section_curr).
     bindE (result_list section_curr) (\<lambda>(rs, section_curr).
     Inr (\<lparr>parameter = ps, result = rs\<rparr>, section_curr))))"

definition define_type_prefix_handler ::
  "wasm1_parser_limit_t \<Rightarrow> function_type list \<Rightarrow> byte \<Rightarrow> byte list \<Rightarrow> byte list \<Rightarrow> (function_type \<times> byte list) pres" where
  "define_type_prefix_handler limit ts type_prefix section_curr prefix_module_ptr =
     (if type_prefix = 0x60 then handle_type_prefix_functype limit ts section_curr
      else Inl (Throw (perr prefix_module_ptr (in_declaration (illegal_type_prefix type_prefix)) parse_invalid)))"

definition type_section_entry ::
  "wasm1_parser_limit_t \<Rightarrow> u32 \<Rightarrow> function_type list \<Rightarrow> byte list \<Rightarrow> (function_type \<times> byte list) pres" where
  "type_section_entry limit counter ts section_curr =
     bindE (next_byte section_curr) (\<lambda>(type_prefix, next).
     bindE (define_type_prefix_handler limit ts type_prefix next section_curr) (\<lambda>(ft, next).
     bindE (throw_if (length ts + 1 > max_type_sec_types limit)
             (perr next (in_common (exceed_the_max_parser_limit ''typesec_types'' (length ts + 1) (max_type_sec_types limit)))
                parse_invalid)) (\<lambda>_.
     Inr (ft, next))))"

definition handle_type_section ::
  "wasm1_parser_limit_t \<Rightarrow> type_section_storage_t \<Rightarrow> byte list \<Rightarrow> byte list \<Rightarrow> type_section_storage_t pres" where
  "handle_type_section limit typesec section_begin sec_id_module_ptr =
     bindE (throw_if (typesec_span typesec \<noteq> None) (perr sec_id_module_ptr (in_common (duplicate_section 1)) parse_invalid)) (\<lambda>_.
     bindE (scan_u32 (in_declaration invalid_type_count) section_begin) (\<lambda>(type_count, section_curr).
     bindE (throw_if (unat type_count > max_type_sec_types limit)
             (perr section_begin (in_common (exceed_the_max_parser_limit ''typesec_types'' (unat type_count) (max_type_sec_types limit)))
                parse_invalid)) (\<lambda>_.
     bindE (section_loop (type_section_entry limit)
             (\<lambda>cnt. in_declaration (type_section_resolved_exceeded_the_actual_number cnt))
             (\<lambda>counter cnt. in_declaration (type_section_resolved_not_match_the_actual_number counter cnt))
             type_count 0 (typesec_types typesec) section_curr) (\<lambda>ts.
     Inr \<lparr>typesec_span = Some section_begin, typesec_types = ts\<rparr>))))"

section \<open>Correctness\<close>

definition functype_code :: "function_type \<Rightarrow> byte list \<Rightarrow> bool" where
  "functype_code ft bs \<longleftrightarrow> (\<exists>p r. bs = 0x60 # p @ r \<and> vec_code valtype_code (parameter ft) p \<and>
     vec_code valtype_code (result ft) r)"

lemma reads_value_types:
  assumes "n \<le> length bs" "suffix bs bs\<^sub>0"
  shows "reads bs\<^sub>0 bs (\<lambda>ts b. length ts = n \<and> list_code valtype_code ts b) (check_typesec_value_types n bs)"
  using assms
proof (induction n arbitrary: bs)
  case 0
  show ?case unfolding check_typesec_value_types.simps by (rule reads_cong, rule reads_return) auto
next
  case (Suc n)
  show ?case unfolding check_typesec_value_types.simps
    by (rule reads_cong, (rule reads_intros reads_next_byte Suc.IH | assumption | (use Suc.prems in auto; fail))+)
      (auto simp: length_Suc_conv list_valtype_Cons)
qed

lemma reads_parameter_list:
  assumes "suffix bs bs\<^sub>0"
  shows "reads bs\<^sub>0 bs (vec_code valtype_code) (parameter_list bs)"
  unfolding parameter_list_def
  by (rule reads_cong, (rule reads_bind reads_scan_u32 reads_throw_short reads_value_types assms | assumption | (auto simp: list_valtype_length; fail))+)
    (simp add: vec_code_count u32_prefix_def; metis)

lemma reads_result_list:
  assumes "suffix bs bs\<^sub>0"
  shows "reads bs\<^sub>0 bs (\<lambda>ts b. vec_code valtype_code ts b \<and> length ts \<le> 1) (result_list bs)"
  unfolding result_list_def
  by (rule reads_cong, (rule reads_bind reads_scan_u32 reads_throw_short reads_value_types reads_throw_if assms | assumption | (auto simp: list_valtype_length; fail))+)
    (simp add: vec_code_count u32_prefix_def not_less word_le_nat_alt; metis)

lemma function_type_eq: "ft = \<lparr>parameter = p, result = r\<rparr> \<longleftrightarrow> p = parameter ft \<and> r = result ft"
  by (cases ft) auto

lemma reads_functype:
  assumes "suffix bs bs\<^sub>0" "length ts < max_type_sec_types limit"
  shows "reads bs\<^sub>0 bs (\<lambda>ft b. \<exists>p r. b = p @ r \<and> vec_code valtype_code (parameter ft) p \<and> vec_code valtype_code (result ft) r \<and>
      length (result ft) \<le> 1) (handle_type_prefix_functype limit ts bs)"
  unfolding handle_type_prefix_functype_def
  by (rule reads_cong, (rule reads_intros reads_parameter_list reads_result_list assms | assumption | (simp; fail))+)
    (use assms(2) in \<open>simp add: function_type_eq; blast\<close>)

interpretation type_entries: section_entry "type_section_entry limit" functype_code
  "\<lambda>_ ft. length (result ft) \<le> 1" "max_type_sec_types limit"
proof
  fix counter :: u32 and acc :: "function_type list" and bs :: "byte list"
  assume bs: "bs \<noteq> []" and acc: "length acc < max_type_sec_types limit"
  show "reads bs bs (\<lambda>ft b. functype_code ft b \<and> length (result ft) \<le> 1) (type_section_entry limit counter acc bs)"
    unfolding type_section_entry_def define_type_prefix_handler_def
    by (rule reads_cong, (rule reads_intros reads_next_byte reads_functype bs acc | assumption | (simp; fail))+)
       (use acc in \<open>simp add: functype_code_def; auto\<close>)
qed (simp add: functype_code_def)

lemma type_section_storage_eq:
  "s = \<lparr>typesec_span = x, typesec_types = y\<rparr> \<longleftrightarrow> x = typesec_span s \<and> y = typesec_types s"
  by (cases s) auto

lemma handles_type_section:
  assumes "typesec_span s = None" "typesec_types s = []" "suffix bs ptr"
  shows "handles ptr (\<lambda>s'. typesec_span s' = Some bs \<and> vec_code functype_code (typesec_types s') bs \<and>
      list_all (\<lambda>ft. length (result ft) \<le> 1) (typesec_types s') \<and>
      length (typesec_types s') \<le> max_type_sec_types limit) (handle_type_section limit s bs ptr)"
  unfolding handle_type_section_def
  by (rule handles_cong, (rule handles_intros type_entries.handles_loop assms suffix_order.refl | assumption | (simp; fail))+)
    (auto simp: vec_code_count type_section_storage_eq assms not_less; blast)

end
