(* ===== verification/Import_Section.thy ===== *)
theory Import_Section
  imports Table_Memory_Section Type_Section
begin

text \<open>
  The import section (\<^verbatim>\<open>import_section.h\<close>, section id 2): a vector of module name, external name and
  description. The handler also sorts the imports by kind into \<open>importdesc\<close>, where the later sections
  look them up.
\<close>

section \<open>The parser\<close>

text \<open>An imported function is a pointer into the types of the type section, kept as the index.\<close>

datatype wasm1_final_extern_type =
    extern_function nat
  | extern_table table_type
  | extern_memory memory_type
  | extern_global global_type

record final_import_type =
  import_module_name :: "byte list"
  import_extern_name :: "byte list"
  import_extern :: wasm1_final_extern_type

record import_section_storage_t =
  importsec_span :: "byte list option"
  importsec_imports :: "final_import_type list"
  importsec_importdesc :: "final_import_type list list"

definition extern_imports_func_handler :: "function_type list \<Rightarrow> byte list \<Rightarrow> (wasm1_final_extern_type \<times> byte list) pres" where
  "extern_imports_func_handler ts section_curr =
     bindE (scan_u32 (in_declaration parse_invalid_type_index) section_curr) (\<lambda>(type_index, next).
     bindE (throw_if (unat type_index \<ge> length ts)
             (perr section_curr (in_declaration (parse_illegal_type_index type_index)) parse_invalid)) (\<lambda>_.
     Inr (extern_function (unat type_index), next)))"

definition extern_imports_table_handler :: "byte list \<Rightarrow> (wasm1_final_extern_type \<times> byte list) pres" where
  "extern_imports_table_handler section_curr =
     bindE (scan_table_type section_curr) (\<lambda>(table, next). Inr (extern_table table, next))"

definition extern_imports_memory_handler :: "byte list \<Rightarrow> (wasm1_final_extern_type \<times> byte list) pres" where
  "extern_imports_memory_handler section_curr =
     bindE (scan_memory_type section_curr) (\<lambda>(memory, next).
     bindE (throw_if (limits_min memory > 65536)
             (perr section_curr (in_declaration (memory_section_resolved_exceeded_the_maximum_value (limits_min memory))) parse_invalid)) (\<lambda>_.
     bindE (throw_if (present_max memory \<and> limits_max memory > 65536)
             (perr section_curr (in_declaration (memory_section_resolved_exceeded_the_maximum_value (limits_max memory))) parse_invalid)) (\<lambda>_.
     Inr (extern_memory memory, next))))"

definition extern_imports_global_handler :: "byte list \<Rightarrow> (wasm1_final_extern_type \<times> byte list) pres" where
  "extern_imports_global_handler section_curr =
     bindE (scan_global_type section_curr) (\<lambda>(global, next). Inr (extern_global global, next))"

definition define_extern_prefix_imports_handler ::
  "function_type list \<Rightarrow> byte \<Rightarrow> byte list \<Rightarrow> (wasm1_final_extern_type \<times> byte list) pres" where
  "define_extern_prefix_imports_handler ts extern_type section_curr =
     (if extern_type = 0 then extern_imports_func_handler ts section_curr
      else if extern_type = 1 then extern_imports_table_handler section_curr
      else if extern_type = 2 then extern_imports_memory_handler section_curr
      else if extern_type = 3 then extern_imports_global_handler section_curr
      else if extern_type = 4
      then Inl (Throw (perr section_curr (in_declaration (illegal_importdesc_prefix 4)) parse_invalid))
      else Inl UB)"

definition import_section_entry ::
  "function_type list \<Rightarrow> byte list \<Rightarrow> (final_import_type \<times> byte list) pres" where
  "import_section_entry ts section_curr =
     bindE (scan_name (in_declaration invalid_import_module_name_length)
             (\<lambda>n. in_declaration (import_module_name_too_length n)) section_curr) (\<lambda>(m, section_curr).
     bindE (scan_name (in_declaration invalid_import_extern_name_length)
             (\<lambda>n. in_declaration (import_extern_name_too_length n)) section_curr) (\<lambda>(e, section_curr).
     bindE (read_byte (in_declaration import_missing_import_type) section_curr) (\<lambda>(extern_type, next).
     bindE (throw_if (extern_type \<ge> 5)
             (perr section_curr (in_declaration (illegal_importdesc_prefix extern_type)) parse_invalid)) (\<lambda>_.
     bindE (define_extern_prefix_imports_handler ts extern_type next) (\<lambda>(imp, next).
     Inr (\<lparr>import_module_name = m, import_extern_name = e, import_extern = imp\<rparr>, next))))))"

text \<open>The number of the enumerator, which is the index into \<open>importdesc\<close>.\<close>

definition extern_kind :: "wasm1_final_extern_type \<Rightarrow> nat" where
  "extern_kind x = (case x of extern_function _ \<Rightarrow> 0 | extern_table _ \<Rightarrow> 1 | extern_memory _ \<Rightarrow> 2 | extern_global _ \<Rightarrow> 3)"

definition fill_importdesc :: "final_import_type list list \<Rightarrow> final_import_type list \<Rightarrow> final_import_type list list" where
  "fill_importdesc desc imps = fill_desc (\<lambda>imp. extern_kind (import_extern imp)) desc imps"

definition handle_import_section ::
  "wasm1_parser_limit_t \<Rightarrow> function_type list \<Rightarrow> import_section_storage_t \<Rightarrow> byte list \<Rightarrow> byte list \<Rightarrow> import_section_storage_t pres" where
  "handle_import_section limit ts importsec section_begin sec_id_module_ptr =
     bindE (throw_if (importsec_span importsec \<noteq> None) (perr sec_id_module_ptr (in_common (duplicate_section 2)) parse_invalid)) (\<lambda>_.
     bindE (scan_u32 (in_declaration invalid_import_count) section_begin) (\<lambda>(import_count, section_curr).
     bindE (throw_if (unat import_count > max_import_sec_imports limit)
             (perr section_begin (in_common (exceed_the_max_parser_limit ''importsec_imports'' (unat import_count) (max_import_sec_imports limit)))
                parse_invalid)) (\<lambda>_.
     bindE (section_loop (\<lambda>_ _. import_section_entry ts)
             (\<lambda>cnt. in_declaration (import_section_resolved_exceeded_the_actual_number cnt))
             (\<lambda>counter cnt. in_declaration (import_section_resolved_not_match_the_actual_number counter cnt))
             import_count 0 (importsec_imports importsec) section_curr) (\<lambda>imps.
     let desc = fill_importdesc (importsec_importdesc importsec) imps in
     bindE (throw_if (length (desc ! 2) > 1) (perr [] (in_declaration wasm1_not_allow_multi_memory) parse_invalid)) (\<lambda>_.
     bindE (throw_if (length (desc ! 1) > 1) (perr [] (in_declaration wasm1_not_allow_multi_table) parse_invalid)) (\<lambda>_.
     Inr \<lparr>importsec_span = Some section_begin, importsec_imports = imps, importsec_importdesc = desc\<rparr>))))))"

section \<open>Correctness\<close>

fun importdesc_code :: "wasm1_final_extern_type \<Rightarrow> byte list \<Rightarrow> bool" where
  "importdesc_code (extern_function i) bs \<longleftrightarrow> (\<exists>n. bs = 0x00 # n \<and> uN 32 n i)"
| "importdesc_code (extern_table t) bs \<longleftrightarrow> (\<exists>b. bs = 0x01 # b \<and> table_code t b)"
| "importdesc_code (extern_memory m) bs \<longleftrightarrow> (\<exists>b. bs = 0x02 # b \<and> limits_code m b)"
| "importdesc_code (extern_global g) bs \<longleftrightarrow> (\<exists>b. bs = 0x03 # b \<and> global_type_code g b)"

definition import_code :: "final_import_type \<Rightarrow> byte list \<Rightarrow> bool" where
  "import_code imp bs \<longleftrightarrow> (\<exists>m e d. bs = m @ e @ d \<and> name_code (import_module_name imp) m \<and> name_code (import_extern_name imp) e \<and>
     importdesc_code (import_extern imp) d)"

fun extern_valid :: "function_type list \<Rightarrow> wasm1_final_extern_type \<Rightarrow> bool" where
  "extern_valid ts (extern_function i) \<longleftrightarrow> i < length ts"
| "extern_valid ts (extern_table t) \<longleftrightarrow> limits_valid t"
| "extern_valid ts (extern_memory m) \<longleftrightarrow> memory_valid m"
| "extern_valid ts (extern_global g) \<longleftrightarrow> True"

definition imports_of_kind :: "nat \<Rightarrow> final_import_type list \<Rightarrow> final_import_type list" where
  "imports_of_kind k imps = filter (\<lambda>imp. extern_kind (import_extern imp) = k) imps"

definition importdesc_of :: "final_import_type list \<Rightarrow> final_import_type list list" where
  "importdesc_of imps = map (\<lambda>k. imports_of_kind k imps) [0..<5]"

lemma importdesc_lists: "fill_importdesc (replicate 5 []) imps = importdesc_of imps"
  unfolding fill_importdesc_def fill_desc_empty importdesc_of_def imports_of_kind_def ..

lemma importdesc_of_nth: "k < 5 \<Longrightarrow> importdesc_of imps ! k = imports_of_kind k imps"
  unfolding importdesc_of_def by (simp del: upt_rec_numeral)

lemma final_import_type_eq:
  "x = \<lparr>import_module_name = m, import_extern_name = e, import_extern = d\<rparr> \<longleftrightarrow> m = import_module_name x \<and> e = import_extern_name x \<and> d = import_extern x"
  by (cases x) auto

lemma reads_import_func [reads_intros]:
  assumes "suffix bs bs\<^sub>0"
  shows "reads bs\<^sub>0 bs (\<lambda>x b. \<exists>i. x = extern_function i \<and> uN 32 b i \<and> i < length ts) (extern_imports_func_handler ts bs)"
  unfolding extern_imports_func_handler_def
  by (rule reads_cong, (rule reads_intros assms | assumption | (simp; fail))+) (simp add: not_le, metis uN_u32)

lemma reads_import_table [reads_intros]:
  assumes "suffix bs bs\<^sub>0"
  shows "reads bs\<^sub>0 bs (\<lambda>x b. \<exists>t. x = extern_table t \<and> table_code t b \<and> limits_valid t) (extern_imports_table_handler bs)"
  unfolding extern_imports_table_handler_def
  by (rule reads_cong, (rule reads_intros assms | assumption | (simp; fail))+) auto

lemma reads_import_memory [reads_intros]:
  assumes "suffix bs bs\<^sub>0"
  shows "reads bs\<^sub>0 bs (\<lambda>x b. \<exists>m. x = extern_memory m \<and> limits_code m b \<and> memory_valid m) (extern_imports_memory_handler bs)"
  unfolding extern_imports_memory_handler_def
  by (rule reads_cong, (rule reads_intros assms | assumption | (simp; fail))+)
    (auto simp: memory_valid_def limits_valid_def not_less limits_code_def split: if_splits)

lemma reads_import_global [reads_intros]:
  assumes "suffix bs bs\<^sub>0"
  shows "reads bs\<^sub>0 bs (\<lambda>x b. \<exists>g. x = extern_global g \<and> global_type_code g b) (extern_imports_global_handler bs)"
  unfolding extern_imports_global_handler_def
  by (rule reads_cong, (rule reads_intros assms | assumption | (simp; fail))+) auto

lemma byte_below_5: "(k::byte) < 5 \<Longrightarrow> k = 0 \<or> k = 1 \<or> k = 2 \<or> k = 3 \<or> k = 4"
proof -
  assume "k < 5"
  then have "unat k < 5" by (simp add: word_less_nat_alt)
  then have "unat k = 0 \<or> unat k = 1 \<or> unat k = 2 \<or> unat k = 3 \<or> unat k = 4" by linarith
  then show ?thesis by (simp add: word_unat_eq_iff)
qed

lemma reads_import_extern:
  assumes "suffix bs bs\<^sub>0" "\<not> k \<ge> 5"
  shows "reads bs\<^sub>0 bs (\<lambda>x b. importdesc_code x (k # b) \<and> extern_valid ts x) (define_extern_prefix_imports_handler ts k bs)"
proof -
  have k: "k = 0 \<or> k = 1 \<or> k = 2 \<or> k = 3 \<or> k = 4" using byte_below_5 [of k] assms(2) by simp
  show ?thesis unfolding define_extern_prefix_imports_handler_def
  proof (rule reads_cong, (rule reads_intros reads_absurd assms(1) | assumption | (use k in \<open>simp; fail\<close>))+, goal_cases)
    case (1 x b rest)
    show ?case by (cases x) auto
  qed
qed

lemma importdesc_head: "importdesc_code x d \<Longrightarrow> \<exists>k c. d = k # c \<and> \<not> 5 \<le> k"
  by (cases x) (auto simp: word_le_nat_alt)

lemma reads_import_entry:
  assumes "suffix bs bs\<^sub>0"
  shows "reads bs\<^sub>0 bs (\<lambda>x b. import_code x b \<and> extern_valid ts (import_extern x)) (import_section_entry ts bs)"
  unfolding import_section_entry_def
proof (rule reads_cong, (rule reads_intros reads_import_extern assms | assumption | (simp; fail))+, goal_cases)
  case (1 x b rest)
  show ?case (is "?L = ?R")
  proof
    show "?L \<Longrightarrow> ?R" by (simp add: final_import_type_eq import_code_def del: not_le) blast
    assume ?R
    then obtain m e k c where "b = m @ e @ k # c" "name_code (import_module_name x) m" "name_code (import_extern_name x) e"
      "\<not> 5 \<le> k" "importdesc_code (import_extern x) (k # c)" "extern_valid ts (import_extern x)"
      unfolding import_code_def using importdesc_head by blast
    then show ?L by (simp add: final_import_type_eq del: not_le) blast
  qed
qed

interpretation import_entries: section_entry "\<lambda>_ _. import_section_entry ts" import_code
  "\<lambda>_ imp. extern_valid ts (import_extern imp)" "2 ^ 32"
  by unfold_locales (simp add: reads_import_entry, auto simp: import_code_def dest: importdesc_head)

lemma import_section_storage_eq:
  "s = \<lparr>importsec_span = x, importsec_imports = y, importsec_importdesc = z\<rparr> \<longleftrightarrow>
     x = importsec_span s \<and> y = importsec_imports s \<and> z = importsec_importdesc s"
  by (cases s) auto

lemma handles_import_section:
  assumes "importsec_span s = None" "importsec_imports s = []" "importsec_importdesc s = replicate 5 []" "suffix bs ptr"
  shows "handles ptr (\<lambda>s'. importsec_span s' = Some bs \<and> vec_code import_code (importsec_imports s') bs \<and>
      list_all (\<lambda>imp. extern_valid ts (import_extern imp)) (importsec_imports s') \<and>
      length (importsec_imports s') \<le> max_import_sec_imports limit \<and>
      importsec_importdesc s' = importdesc_of (importsec_imports s') \<and>
      length (imports_of_kind 1 (importsec_imports s')) \<le> 1 \<and>
      length (imports_of_kind 2 (importsec_imports s')) \<le> 1) (handle_import_section limit ts s bs ptr)"
  unfolding handle_import_section_def Let_def assms(3) importdesc_lists
  by (rule handles_cong, (rule handles_intros import_entries.handles_loop unat_u32_le assms suffix_order.refl suffix_Nil_any
    | assumption | (simp; fail))+)
    (auto simp: vec_code_count import_section_storage_eq assms not_less importdesc_of_nth; blast)

end
