(* ===== verification/Function_Section.thy ===== *)
theory Function_Section
  imports Type_Section
begin

text \<open>
  The function section (\<^verbatim>\<open>function_section.h\<close>, section id 3): a vector of type indices, stored in the
  narrowest representation that the number of types allows, as \<open>vectypeidx_minimize_storage_t\<close>
  (\<^verbatim>\<open>feature_def.h\<close>) describes. With fewer than 128 types the encoded bytes themselves serve as the
  vector, as long as every index is encoded in one byte.

  The model is the scalar code of each of the five scanners, which is all there is on a target without vector
  instructions; the vectorised blocks in front of it are not modelled. The count is tested in \<open>section_loop\<close>; the source does it
  behind the call of the scanner, when the pointer has reached the end of the section.
\<close>

section \<open>Storage\<close>

datatype vectypeidx_minimize_storage_t =
    typeidx_null
  | typeidx_u8_view "byte list"
  | typeidx_u8_vector "byte list"
  | typeidx_u16_vector "16 word list"
  | typeidx_u32_vector "u32 list"

text \<open>The indices that \<open>size\<close> and \<open>index_unchecked\<close> give access to.\<close>

definition funcs_size :: "vectypeidx_minimize_storage_t \<Rightarrow> nat" where
  "funcs_size st = (case st of typeidx_null \<Rightarrow> 0 | typeidx_u8_view xs \<Rightarrow> length xs | typeidx_u8_vector xs \<Rightarrow> length xs
     | typeidx_u16_vector xs \<Rightarrow> length xs | typeidx_u32_vector xs \<Rightarrow> length xs)"

definition funcs_index_unchecked :: "vectypeidx_minimize_storage_t \<Rightarrow> nat \<Rightarrow> ('e, u32) res" where
  "funcs_index_unchecked st i = (case st of typeidx_null \<Rightarrow> Inl UB
     | typeidx_u8_view xs \<Rightarrow> bindE (index_unchecked xs i) (\<lambda>x. Inr (ucast x))
     | typeidx_u8_vector xs \<Rightarrow> bindE (index_unchecked xs i) (\<lambda>x. Inr (ucast x))
     | typeidx_u16_vector xs \<Rightarrow> bindE (index_unchecked xs i) (\<lambda>x. Inr (ucast x))
     | typeidx_u32_vector xs \<Rightarrow> index_unchecked xs i)"

record function_section_storage_t =
  functionsec_span :: "byte list option"
  functionsec_funcs :: vectypeidx_minimize_storage_t

section \<open>The parser\<close>

text \<open>One type index, narrowed to the width of the vector.\<close>

definition typeidx_entry :: "u32 \<Rightarrow> byte list \<Rightarrow> ('w::len word \<times> byte list) pres" where
  "typeidx_entry type_section_count section_curr =
     bindE (scan_u32 (in_declaration parse_invalid_type_index) section_curr) (\<lambda>(typeidx, next).
     bindE (throw_if (typeidx \<ge> type_section_count)
             (perr section_curr (in_declaration (parse_illegal_type_index typeidx)) parse_invalid)) (\<lambda>_.
     Inr (ucast typeidx, next)))"

abbreviation func_exceeded :: "u32 \<Rightarrow> wasm_parse_error" where
  "func_exceeded cnt \<equiv> in_declaration (func_section_resolved_exceeded_the_actual_number cnt)"

abbreviation func_not_match :: "u32 \<Rightarrow> u32 \<Rightarrow> wasm_parse_error" where
  "func_not_match counter cnt \<equiv> in_declaration (func_section_resolved_not_match_the_actual_number counter cnt)"

text \<open>
  \<open>change_u8_1b_view_to_vec\<close> copies the bytes read so far, one per index, into a vector and goes on
  with the general decoder.
\<close>

definition change_u8_1b_view_to_vec ::
  "u32 \<Rightarrow> u32 \<Rightarrow> byte list \<Rightarrow> u32 \<Rightarrow> byte list \<Rightarrow> vectypeidx_minimize_storage_t pres" where
  "change_u8_1b_view_to_vec type_section_count func_count section_leb_begin func_counter section_curr =
     bindE (section_loop (\<lambda>_ _. typeidx_entry type_section_count) func_exceeded func_not_match func_count func_counter
             (take (unat func_counter) section_leb_begin) section_curr) (\<lambda>xs.
     Inr (typeidx_u8_vector xs))"

lemma scan_u32_shorter: "scan_u32 e bs = Inr (v, rest) \<Longrightarrow> length rest < length bs"
  using readsD(1) [OF reads_scan_u32 [OF suffix_order.refl]] uN_nonempty by fastforce

function scan_function_section_impl_u8_1b ::
  "u32 \<Rightarrow> u32 \<Rightarrow> byte list \<Rightarrow> u32 \<Rightarrow> byte list \<Rightarrow> vectypeidx_minimize_storage_t pres" where
  "scan_function_section_impl_u8_1b type_section_count func_count section_leb_begin func_counter section_curr =
     (if section_curr = []
      then bindE (throw_if (func_counter \<noteq> func_count) (perr section_curr (func_not_match func_counter func_count) parse_invalid)) (\<lambda>_.
           Inr (typeidx_u8_view (take (length section_leb_begin - length section_curr) section_leb_begin)))
      else let func_counter_this_round_end = func_counter + 1 in
           bindE (throw_if (func_counter_this_round_end < func_counter) (perr section_curr (in_common counter_overflows) parse_invalid)) (\<lambda>_.
           bindE (throw_if (func_counter_this_round_end > func_count) (perr section_curr (func_exceeded func_count) parse_invalid)) (\<lambda>_.
           bindE (scan_u32 (in_declaration parse_invalid_type_index) section_curr) (\<lambda>(typeidx, next).
           bindE (throw_if (typeidx \<ge> type_section_count)
                   (perr section_curr (in_declaration (parse_illegal_type_index typeidx)) parse_invalid)) (\<lambda>_.
           if length section_curr - length next > 1
           then change_u8_1b_view_to_vec type_section_count func_count section_leb_begin func_counter section_curr
           else scan_function_section_impl_u8_1b type_section_count func_count section_leb_begin
                  func_counter_this_round_end next)))))"
  by pat_completeness auto
termination
  by (relation "measure (\<lambda>(tc, cnt, b, c, p). length p)") (auto dest: scan_u32_shorter)

declare scan_function_section_impl_u8_1b.simps [simp del]

text \<open>The fast decoder looks at two bytes at most and leaves everything else to the general one.\<close>

definition fast_decode_uleb128_u32 :: "byte list \<Rightarrow> (u32 \<times> nat) option" where
  "fast_decode_uleb128_u32 p =
     (if p = [] then None
      else case leb128_get_unsigned (take 2 p) of (next, code, v) \<Rightarrow>
        if code \<noteq> parse_ok then None else Some (v, length (take 2 p) - length next))"

definition typeidx_entry_u8_2b :: "u32 \<Rightarrow> byte list \<Rightarrow> (byte \<times> byte list) pres" where
  "typeidx_entry_u8_2b type_section_count section_curr =
     (case fast_decode_uleb128_u32 section_curr of
        None \<Rightarrow> typeidx_entry type_section_count section_curr
      | Some (typeidx, len_bytes) \<Rightarrow>
          bindE (throw_if (typeidx \<ge> type_section_count)
                  (perr section_curr (in_declaration (parse_illegal_type_index typeidx)) parse_invalid)) (\<lambda>_.
          Inr (ucast typeidx, drop len_bytes section_curr)))"

definition scan_function_section_impl_u8_2b :: "u32 \<Rightarrow> u32 \<Rightarrow> byte list \<Rightarrow> vectypeidx_minimize_storage_t pres" where
  "scan_function_section_impl_u8_2b type_section_count func_count section_curr =
     bindE (section_loop (\<lambda>_ _. typeidx_entry_u8_2b type_section_count) func_exceeded func_not_match func_count 0 [] section_curr) (\<lambda>xs.
     Inr (typeidx_u8_vector xs))"

definition scan_function_section_impl_u16_2b :: "u32 \<Rightarrow> u32 \<Rightarrow> byte list \<Rightarrow> vectypeidx_minimize_storage_t pres" where
  "scan_function_section_impl_u16_2b type_section_count func_count section_curr =
     bindE (section_loop (\<lambda>_ _. typeidx_entry type_section_count) func_exceeded func_not_match func_count 0 [] section_curr) (\<lambda>xs.
     Inr (typeidx_u16_vector xs))"

definition scan_function_section_impl_u16_3b :: "u32 \<Rightarrow> u32 \<Rightarrow> byte list \<Rightarrow> vectypeidx_minimize_storage_t pres" where
  "scan_function_section_impl_u16_3b type_section_count func_count section_curr =
     bindE (section_loop (\<lambda>_ _. typeidx_entry type_section_count) func_exceeded func_not_match func_count 0 [] section_curr) (\<lambda>xs.
     Inr (typeidx_u16_vector xs))"

definition scan_function_section_impl_u32_5b :: "u32 \<Rightarrow> u32 \<Rightarrow> byte list \<Rightarrow> vectypeidx_minimize_storage_t pres" where
  "scan_function_section_impl_u32_5b type_section_count func_count section_curr =
     bindE (section_loop (\<lambda>_ _. typeidx_entry type_section_count) func_exceeded func_not_match func_count 0 [] section_curr) (\<lambda>xs.
     Inr (typeidx_u32_vector xs))"

text \<open>\<open>imported\<close> is the number of imported functions.\<close>

definition handle_function_section ::
  "wasm1_parser_limit_t \<Rightarrow> function_type list \<Rightarrow> nat \<Rightarrow> function_section_storage_t \<Rightarrow> byte list \<Rightarrow> byte list \<Rightarrow>
   function_section_storage_t pres" where
  "handle_function_section limit ts imported functionsec section_begin sec_id_module_ptr =
     (let imported_func_size = of_nat imported :: u32; type_section_count = of_nat (length ts) :: u32 in
     bindE (throw_if (functionsec_span functionsec \<noteq> None) (perr sec_id_module_ptr (in_common (duplicate_section 3)) parse_invalid)) (\<lambda>_.
     bindE (scan_u32 (in_declaration invalid_func_count) section_begin) (\<lambda>(func_count, section_curr).
     bindE (throw_if (unat func_count > max_code_sec_codes limit)
             (perr section_begin (in_common (exceed_the_max_parser_limit ''codesec_codes'' (unat func_count) (max_code_sec_codes limit)))
                parse_invalid)) (\<lambda>_.
     bindE (throw_if (func_count > - 1 - imported_func_size)
             (perr section_begin (in_common (imp_def_num_exceed_u32max 0 func_count imported_func_size)) parse_invalid)) (\<lambda>_.
     bindE (if type_section_count < push_bit 7 1
            then scan_function_section_impl_u8_1b type_section_count func_count section_curr 0 section_curr
            else if type_section_count < push_bit 8 1
            then scan_function_section_impl_u8_2b type_section_count func_count section_curr
            else if type_section_count < push_bit 14 1
            then scan_function_section_impl_u16_2b type_section_count func_count section_curr
            else if type_section_count < push_bit 16 1
            then scan_function_section_impl_u16_3b type_section_count func_count section_curr
            else scan_function_section_impl_u32_5b type_section_count func_count section_curr) (\<lambda>st.
     Inr \<lparr>functionsec_span = Some section_begin, functionsec_funcs = st\<rparr>))))))"

section \<open>Correctness\<close>

definition typeidx_code :: "nat \<Rightarrow> byte list \<Rightarrow> bool" where
  "typeidx_code i bs \<longleftrightarrow> uN 32 bs i"

text \<open>The indices in a storage.\<close>

definition funcs_of :: "vectypeidx_minimize_storage_t \<Rightarrow> nat list" where
  "funcs_of st = (case st of typeidx_null \<Rightarrow> [] | typeidx_u8_view xs \<Rightarrow> map unat xs | typeidx_u8_vector xs \<Rightarrow> map unat xs
     | typeidx_u16_vector xs \<Rightarrow> map unat xs | typeidx_u32_vector xs \<Rightarrow> map unat xs)"

text \<open>The representation of the indices \<open>idxs\<close>, encoded as \<open>b\<close>, in a module with \<open>n\<close> types.\<close>

definition typeidx_storage :: "nat \<Rightarrow> nat list \<Rightarrow> byte list \<Rightarrow> vectypeidx_minimize_storage_t" where
  "typeidx_storage n idxs b =
     (if n < 2 ^ 7 \<and> length b = length idxs then typeidx_u8_view b
      else if n < 2 ^ 8 then typeidx_u8_vector (map of_nat idxs)
      else if n < 2 ^ 16 then typeidx_u16_vector (map of_nat idxs)
      else typeidx_u32_vector (map of_nat idxs))"

lemma funcs_access:
  "funcs_size st = length (funcs_of st)"
  "i < length (funcs_of st) \<Longrightarrow> funcs_index_unchecked st i = Inr (of_nat (funcs_of st ! i))"
  by (cases st; simp add: funcs_size_def funcs_of_def)
    (cases st; simp add: funcs_index_unchecked_def funcs_of_def index_unchecked_def)

lemma list_code_map: "list_code (\<lambda>x. G (f x)) xs b \<longleftrightarrow> list_code G (map f xs) b"
  by (induction xs arbitrary: b) (auto simp: list_code_Cons_iff)

lemma unat_ucast_less: "unat (w::'a::len word) < 2 ^ LENGTH('b) \<Longrightarrow> unat (ucast w :: 'b::len word) = unat w"
  by (metis mod_less of_nat_unat unat_of_nat)

lemma reads_typeidx:
  assumes "suffix bs bs\<^sub>0" "unat n \<le> 2 ^ LENGTH('w)" "LENGTH('w) \<le> 32"
  shows "reads bs\<^sub>0 bs (\<lambda>(x::'w::len word) b. typeidx_code (unat x) b \<and> unat x < unat n) (typeidx_entry n bs)"
  unfolding typeidx_entry_def
proof (rule reads_cong, (rule reads_intros assms(1) | assumption | (simp; fail))+, goal_cases)
  case (1 x b rest)
  have "unat v = unat x" if "v < n" "x = ucast v" for v :: u32
    using that assms(2) unat_ucast_less [where 'b = 'w, of v] by (simp add: word_less_nat_alt)
  moreover have "unat x < 2 ^ 32" using unsigned_less [of x, where 'a = nat] assms(3) power_increasing [of "LENGTH('w)" 32 "2::nat"] by linarith
  then have x: "unat (ucast x :: u32) = unat x" using unat_ucast_less [where 'b = 32, of x] by simp
  moreover have "ucast (ucast x :: u32) = x" by (metis of_nat_unat ucast_id x)
  ultimately show ?case by (auto simp: typeidx_code_def not_le word_less_nat_alt) metis+
qed

lemma typeidx_entries:
  assumes "unat n \<le> 2 ^ LENGTH('w)" "LENGTH('w) \<le> 32"
  shows "section_entry (\<lambda>_ _. typeidx_entry n :: _ \<Rightarrow> ('w::len word \<times> byte list) pres) (\<lambda>x. typeidx_code (unat x)) (\<lambda>_ x. unat x < unat n) (2 ^ 32)"
  by unfold_locales (simp add: reads_typeidx assms, simp add: typeidx_code_def)

lemma fast_decode_outcome:
  "fast_decode_uleb128_u32 p = Some (v, k) \<Longrightarrow> leb128_get_unsigned p = (drop k p, parse_ok, v)"
proof -
  assume "fast_decode_uleb128_u32 p = Some (v, k)"
  then obtain nx where n: "leb128_get_unsigned (take 2 p) = (nx, parse_ok, v)" and k: "k = length (take 2 p) - length nx"
    by (auto simp: fast_decode_uleb128_u32_def split: if_splits prod.splits)
  obtain pre where pre: "take 2 p = pre @ nx" using leb_u32.scan_suffix [OF n] by (auto simp: suffix_def)
  have "leb128_get_unsigned (pre @ nx @ drop 2 p) = (nx @ drop 2 p, parse_ok, v)"
    using leb_u32.scan_local n pre by metis
  moreover have "p = pre @ nx @ drop 2 p" using pre by (metis append_assoc append_take_drop_id)
  moreover have "drop k (pre @ nx @ drop 2 p) = nx @ drop 2 p" using k pre by simp
  ultimately show ?thesis by metis
qed

lemma typeidx_entry_fast: "typeidx_entry_u8_2b n p = typeidx_entry n p"
proof (cases "fast_decode_uleb128_u32 p")
  case (Some r)
  then obtain v k where r: "fast_decode_uleb128_u32 p = Some (v, k)" by (cases r) auto
  then have "scan_u32 e p = Inr (v, drop k p)" for e using fast_decode_outcome [OF r] by (simp add: scan_u32_def)
  then show ?thesis using r by (simp add: typeidx_entry_u8_2b_def typeidx_entry_def)
qed (simp add: typeidx_entry_u8_2b_def)

lemma ex_word_list:
  assumes "n \<le> 2 ^ LENGTH('w)"
  shows "(\<exists>xs :: 'w::len word list. length xs = k \<and> list_code (\<lambda>x. G (unat x)) xs bs \<and> list_all (\<lambda>x. unat x < n) xs \<and> P xs) \<longleftrightarrow>
    (\<exists>idxs. length idxs = k \<and> list_code G idxs bs \<and> list_all (\<lambda>i. i < n) idxs \<and> P (map of_nat idxs))" (is "?L = ?R")
proof
  assume ?L
  then obtain xs :: "'w word list" where xs: "length xs = k" "list_code (\<lambda>x. G (unat x)) xs bs" "list_all (\<lambda>x. unat x < n) xs" "P xs"
    by blast
  have "map of_nat (map unat xs) = xs" by (simp add: map_idI)
  with xs show ?R by (intro exI [of _ "map unat xs"]) (simp add: list_code_map list_all_iff)
next
  assume ?R
  then obtain idxs where i: "length idxs = k" "list_code G idxs bs" "list_all (\<lambda>i. i < n) idxs" "P (map of_nat idxs)" by blast
  have u: "map unat (map of_nat idxs :: 'w word list) = idxs"
    using i(3) assms by (auto simp: list_all_iff unat_of_nat intro!: map_idI)
  have "list_all (\<lambda>x. unat x < n) ws \<longleftrightarrow> list_all (\<lambda>i. i < n) (map unat ws)" for ws :: "'w word list"
    by (simp add: list_all_iff)
  then have "list_all (\<lambda>x. unat x < n) (map of_nat idxs :: 'w word list)" by (simp only: u i(3))
  with i u show ?L by (intro exI [of _ "map of_nat idxs"]) (simp add: list_code_map)
qed

lemma handles_typeidx_vector:
  assumes "unat n \<le> 2 ^ LENGTH('w)" "LENGTH('w) \<le> 32" "suffix bs ptr"
  shows "handles ptr (\<lambda>st. \<exists>idxs. length idxs = unat cnt \<and> list_code typeidx_code idxs bs \<and> list_all (\<lambda>i. i < unat n) idxs \<and>
      st = c (map of_nat idxs))
    (bindE (section_loop (\<lambda>_ _. typeidx_entry n :: _ \<Rightarrow> ('w::len word \<times> byte list) pres) exc nm cnt 0 [] bs) (\<lambda>xs. Inr (c xs)))"
  by (rule handles_cong, rule section_entry.handles_loop [OF typeidx_entries [OF assms(1,2)] assms(3) unat_u32_le refl handles_return])
    (simp add: ex_word_list [OF assms(1), of _ typeidx_code])

lemma handles_change_to_vec:
  assumes "unat n \<le> 2 ^ 8" "length pre = unat c" "length pre \<le> unat cnt" "suffix bs ptr"
  shows "handles ptr (\<lambda>st. \<exists>idxs. length pre + length idxs = unat cnt \<and> list_code typeidx_code idxs bs \<and>
      list_all (\<lambda>i. i < unat n) idxs \<and> st = typeidx_u8_vector (pre @ map of_nat idxs))
    (change_u8_1b_view_to_vec n cnt (pre @ bs) c bs)"
proof -
  have e: "section_entry (\<lambda>_ _. typeidx_entry n :: _ \<Rightarrow> (byte \<times> byte list) pres) (\<lambda>x. typeidx_code (unat x)) (\<lambda>_ x. unat x < unat n) (2 ^ 32)"
    using typeidx_entries [where 'w = 8, of n] assms(1) by simp
  have t: "take (unat c) (pre @ bs) = pre" using assms(2) by simp
  have q: "(length pre + k = unat cnt) = (k = unat cnt - length pre)" for k using assms(3) by auto
  have n: "unat n \<le> 2 ^ LENGTH(8)" using assms(1) by simp
  show ?thesis unfolding change_u8_1b_view_to_vec_def t
    by (rule handles_cong, rule section_entry.handles_loop_from
        [OF e assms(4) unat_u32_le assms(2) [symmetric] assms(3) handles_return])
      (simp only: all_after_list_all q ex_word_list [OF n, of _ typeidx_code])
qed

lemma list_typeidx_length: "list_code typeidx_code idxs b \<Longrightarrow> length idxs \<le> length b"
proof (induction idxs arbitrary: b)
  case (Cons i idxs)
  then obtain b1 b2 where b: "b = b1 @ b2" "typeidx_code i b1" "list_code typeidx_code idxs b2" by (auto simp: list_code_Cons_iff)
  then have "b1 \<noteq> []" by (auto simp: typeidx_code_def)
  with Cons.IH [OF b(3)] b(1) show ?case by (cases b1) auto
qed simp

lemma list_typeidx_empty [simp]: "list_code typeidx_code idxs [] \<longleftrightarrow> idxs = []"
  using list_typeidx_length [of idxs "[]"] by auto

lemma list_typeidx_Cons:
  "list_code typeidx_code (i # idxs) bs \<longleftrightarrow> (\<exists>v rest. u32_prefix bs v rest \<and> i = unat v \<and> list_code typeidx_code idxs rest)"
  unfolding list_code_Cons_iff typeidx_code_def u32_prefix_def by (metis uN_u32)

text \<open>
  What the scanner for fewer than 128 types returns when it has read one byte each for the indices
  \<open>pre\<close> and goes on at \<open>bs\<close>.
\<close>

definition u8_1b_result :: "u32 \<Rightarrow> u32 \<Rightarrow> byte list \<Rightarrow> byte list \<Rightarrow> vectypeidx_minimize_storage_t \<Rightarrow> bool" where
  "u8_1b_result n cnt pre bs st \<longleftrightarrow> (\<exists>idxs. length pre + length idxs = unat cnt \<and> list_code typeidx_code idxs bs \<and>
     list_all (\<lambda>i. i < unat n) idxs \<and>
     st = (if length bs = length idxs then typeidx_u8_view (pre @ bs) else typeidx_u8_vector (pre @ map of_nat idxs)))"

lemma u8_1b_result_long:
  assumes "u32_prefix bs v rest" "1 < length bs - length rest" "bs \<noteq> []"
  shows "u8_1b_result n cnt pre bs st \<longleftrightarrow> (\<exists>idxs. length pre + length idxs = unat cnt \<and> list_code typeidx_code idxs bs \<and>
     list_all (\<lambda>i. i < unat n) idxs \<and> st = typeidx_u8_vector (pre @ map of_nat idxs))"
proof -
  have "length bs \<noteq> length idxs" if l: "list_code typeidx_code idxs bs" for idxs
  proof (cases idxs)
    case (Cons i idxs')
    then obtain v' rest' where r: "u32_prefix bs v' rest'" "list_code typeidx_code idxs' rest'"
      using l unfolding Cons list_typeidx_Cons by blast
    then have "rest' = rest" using u32_prefix_unique assms(1) by blast
    with r(2) list_typeidx_length assms(2) show ?thesis unfolding Cons by fastforce
  qed (use l assms in auto)
  then show ?thesis unfolding u8_1b_result_def by auto
qed

lemma u32_prefix_one_byte:
  assumes "u32_prefix bs v rest" "\<not> 1 < length bs - length rest"
  shows "bs = ucast v # rest" "v < 128"
proof -
  obtain b where b: "bs = b @ rest" "uN 32 b (unat v)" using assms(1) by (auto simp: u32_prefix_def)
  with assms(2) have "length b = 1" using uN_nonempty [OF b(2)] by (cases b) auto
  then obtain x where x: "b = [x]" by (auto simp: length_Suc_conv)
  with b(2) have u: "unat x = unat v" "unat x < 128" by (auto elim: uN.cases)
  then show "v < 128" by (simp add: word_less_nat_alt)
  have "ucast v = x" using u(1) by (metis of_nat_unat ucast_id)
  then show "bs = ucast v # rest" using b(1) x by simp
qed

lemma u8_1b_result_short:
  assumes "u32_prefix bs v rest" "\<not> 1 < length bs - length rest" "v < n" "length pre < unat cnt"
  shows "u8_1b_result n cnt pre bs st \<longleftrightarrow> u8_1b_result n cnt (pre @ [ucast v]) rest st"
proof -
  note bs = u32_prefix_one_byte [OF assms(1,2)]
  have v: "unat v < unat n" using assms(3) by (simp add: word_less_nat_alt)
  have l: "list_code typeidx_code idxs bs \<longleftrightarrow> (\<exists>idxs'. idxs = unat v # idxs' \<and> list_code typeidx_code idxs' rest)" for idxs
  proof (cases idxs)
    case (Cons i idxs')
    then show ?thesis using u32_prefix_unique assms(1) by (auto simp: list_typeidx_Cons; metis)
  qed (simp add: bs)
  have ex: "(\<exists>idxs. P idxs \<and> list_code typeidx_code idxs bs \<and> Q idxs) \<longleftrightarrow>
      (\<exists>idxs. P (unat v # idxs) \<and> list_code typeidx_code idxs rest \<and> Q (unat v # idxs))" for P Q
    unfolding l by auto
  show ?thesis unfolding u8_1b_result_def ex by (simp add: bs(1) v)
qed

lemma u8_1b_result_step:
  assumes "bs \<noteq> []"
  shows "u8_1b_result n cnt pre bs st \<longleftrightarrow> length pre < unat cnt \<and> (\<exists>v rest. u32_prefix bs v rest \<and> v < n \<and>
    (if 1 < length bs - length rest
     then \<exists>idxs. length pre + length idxs = unat cnt \<and> list_code typeidx_code idxs bs \<and> list_all (\<lambda>i. i < unat n) idxs \<and>
            st = typeidx_u8_vector (pre @ map of_nat idxs)
     else u8_1b_result n cnt (pre @ [ucast v]) rest st))" (is "?L = (?c \<and> (\<exists>v rest. ?R v rest))")
proof
  assume l: ?L
  then obtain idxs where i: "length pre + length idxs = unat cnt" "list_code typeidx_code idxs bs" "list_all (\<lambda>i. i < unat n) idxs"
    by (auto simp: u8_1b_result_def)
  then obtain i idxs' v rest where v: "idxs = i # idxs'" "u32_prefix bs v rest" "i = unat v"
    using assms by (cases idxs) (auto simp: list_typeidx_Cons)
  have "?c" using i(1) v(1) by simp
  moreover have "v < n" using i(3) v by (simp add: word_less_nat_alt)
  with \<open>?c\<close> have "?R v rest" using v(2) l
      u8_1b_result_long [OF v(2) _ assms, of n cnt pre st] u8_1b_result_short [OF v(2), of n pre cnt st] by (auto split: if_splits)
  ultimately show "?c \<and> (\<exists>v rest. ?R v rest)" by blast
next
  assume "?c \<and> (\<exists>v rest. ?R v rest)"
  then obtain v rest where "?c" "u32_prefix bs v rest" "?R v rest" by blast
  then show ?L using u8_1b_result_long [of bs v rest n cnt pre st, OF _ _ assms] u8_1b_result_short [of bs v rest n pre cnt st]
    by (auto split: if_splits)
qed

lemma handles_u8_1b:
  assumes "unat n < 2 ^ 7" "length pre = unat c" "length pre \<le> unat cnt" "suffix bs ptr"
  shows "handles ptr (u8_1b_result n cnt pre bs) (scan_function_section_impl_u8_1b n cnt (pre @ bs) c bs)"
  using assms(2-4)
proof (induction "length bs" arbitrary: bs pre c rule: less_induct)
  case less
  note step = scan_function_section_impl_u8_1b.simps [of n cnt "pre @ bs" c bs]
  show ?case
  proof (cases "bs = []")
    case True
    show ?thesis unfolding step if_P [OF True]
      by (rule handles_cong, (rule handles_intros less.prems | (simp; fail))+)
        (use True less.prems in \<open>auto simp: u8_1b_result_def word_unat_eq_iff\<close>)
  next
    case False
    have c: "\<not> c + 1 < c \<and> \<not> cnt < c + 1 \<longleftrightarrow> length pre < unat cnt"
    proof (cases "c = - 1")
      case True
      then show ?thesis using less.prems word_order.extremum [of cnt] by (auto simp: word_le_nat_alt word_greater_zero_iff)
    qed (use less.prems unat_plus_one [of c] in \<open>auto simp: word_less_nat_alt\<close>)
    have rec: "handles ptr (u8_1b_result n cnt (pre @ [ucast v]) rest) (scan_function_section_impl_u8_1b n cnt (pre @ bs) (c + 1) rest)"
      if r: "u32_prefix bs v rest" "\<not> 1 < length bs - length rest" "suffix rest ptr" "\<not> c + 1 < c" "\<not> cnt < c + 1" for v rest
    proof -
      have "c \<noteq> - 1" "length pre < unat cnt" using r(4,5) c by (auto simp: word_greater_zero_iff)
      then show ?thesis using less.hyps [of rest "pre @ [ucast v]" "c + 1"] u32_prefix_one_byte [OF r(1,2)] less.prems r(3)
          unat_plus_one [of c] by simp
    qed
    have "unat n \<le> 2 ^ 8" using assms(1) by simp
    note change = handles_change_to_vec [OF this less.prems(1,2,3)]
    show ?thesis unfolding step Let_def if_not_P [OF False]
      by (rule handles_cong, (rule handles_throw_if handles_scan_u32 handles_if change rec less.prems | assumption | (simp; fail))+)
        (unfold u8_1b_result_step [OF False] c [symmetric] not_le, blast)
  qed
qed

lemma funcs_of_view: "list_code typeidx_code idxs b \<Longrightarrow> length b = length idxs \<Longrightarrow> map unat b = idxs"
proof (induction idxs arbitrary: b)
  case (Cons i idxs)
  then obtain v rest where v: "u32_prefix b v rest" "i = unat v" "list_code typeidx_code idxs rest" by (auto simp: list_typeidx_Cons)
  have "length idxs \<le> length rest" using list_typeidx_length [OF v(3)] .
  then have short: "\<not> 1 < length b - length rest" using Cons.prems(2) by simp
  note b = u32_prefix_one_byte [OF v(1) short]
  have "unat (ucast v :: byte) = unat v" using b(2) unat_ucast_less [where 'b = 8, of v] by (simp add: word_less_nat_alt)
  then show ?case using Cons.IH [OF v(3)] Cons.prems(2) b(1) v(2) by simp
qed simp

lemma map_unat_of_nat:
  "list_all (\<lambda>i. i < n) idxs \<Longrightarrow> n \<le> 2 ^ LENGTH('w) \<Longrightarrow> map unat (map of_nat idxs :: 'w::len word list) = idxs"
  by (auto simp: list_all_iff unat_of_nat intro!: map_idI)

lemma funcs_of_typeidx_storage:
  assumes "list_code typeidx_code idxs b" "list_all (\<lambda>i. i < n) idxs" "n < 2 ^ 32"
  shows "funcs_of (typeidx_storage n idxs b) = idxs"
  using funcs_of_view [OF assms(1)] assms(3) map_unat_of_nat [OF assms(2), where 'w = 8]
    map_unat_of_nat [OF assms(2), where 'w = 16] map_unat_of_nat [OF assms(2), where 'w = 32]
  by (auto simp: typeidx_storage_def funcs_of_def simp del: map_map)

lemma handles_scan_function_section:
  assumes "N < 2 ^ 32" "n = of_nat N" "suffix bs ptr"
  shows "handles ptr (\<lambda>st. \<exists>idxs. length idxs = unat cnt \<and> list_code typeidx_code idxs bs \<and> list_all (\<lambda>i. i < N) idxs \<and>
      st = typeidx_storage N idxs bs)
    (if n < push_bit 7 1 then scan_function_section_impl_u8_1b n cnt bs 0 bs
     else if n < push_bit 8 1 then scan_function_section_impl_u8_2b n cnt bs
     else if n < push_bit 14 1 then scan_function_section_impl_u16_2b n cnt bs
     else if n < push_bit 16 1 then scan_function_section_impl_u16_3b n cnt bs
     else scan_function_section_impl_u32_5b n cnt bs)"
proof -
  have n: "unat n = N" using assms(1,2) by (simp add: unat_of_nat)
  have t: "n < push_bit 7 1 \<longleftrightarrow> N < 2 ^ 7" "n < push_bit 8 1 \<longleftrightarrow> N < 2 ^ 8" "n < push_bit 14 1 \<longleftrightarrow> N < 2 ^ 14" "n < push_bit 16 1 \<longleftrightarrow> N < 2 ^ 16"
    by (simp_all add: word_less_nat_alt n push_bit_eq_mult)
  have u8: "handles ptr (u8_1b_result n cnt [] bs) (scan_function_section_impl_u8_1b n cnt bs 0 bs)" if "N < 2 ^ 7"
    using handles_u8_1b [of n "[]" 0 cnt bs ptr] that n assms(3) by simp
  show ?thesis unfolding t scan_function_section_impl_u8_2b_def scan_function_section_impl_u16_2b_def
    scan_function_section_impl_u16_3b_def scan_function_section_impl_u32_5b_def typeidx_entry_fast
  proof (rule handles_cong, (rule handles_if u8 handles_typeidx_vector assms(3) | assumption | (use n assms(1) in simp; fail))+, goal_cases)
    case (1 st)
    show ?case by (auto simp: n u8_1b_result_def typeidx_storage_def)
  qed
qed

lemma function_section_storage_eq:
  "s = \<lparr>functionsec_span = x, functionsec_funcs = y\<rparr> \<longleftrightarrow> x = functionsec_span s \<and> y = functionsec_funcs s"
  by (cases s) auto

lemma handles_function_section:
  assumes "functionsec_span s = None" "length ts < 2 ^ 32" "imported < 2 ^ 32" "suffix bs ptr"
  shows "handles ptr (\<lambda>s'. functionsec_span s' = Some bs \<and> (\<exists>n b idxs. bs = n @ b \<and> uN 32 n (length idxs) \<and>
      list_code typeidx_code idxs b \<and> list_all (\<lambda>i. i < length ts) idxs \<and> length idxs \<le> max_code_sec_codes limit \<and>
      length idxs + imported < 2 ^ 32 \<and> functionsec_funcs s' = typeidx_storage (length ts) idxs b)) (handle_function_section limit ts imported s bs ptr)"
  unfolding handle_function_section_def Let_def u32_sum_overflow [OF assms(3)]
proof (rule handles_cong, (rule handles_intros handles_bind handles_scan_function_section [OF assms(2) refl] assms suffix_order.refl
      | assumption | (simp; fail))+, goal_cases)
  case (1 s')
  have ex: "(\<exists>n b idxs. bs = n @ b \<and> uN 32 n (length idxs) \<and> R idxs b) \<longleftrightarrow>
      (\<exists>v rest idxs. u32_prefix bs v rest \<and> length idxs = unat v \<and> R idxs rest)" for R :: "nat list \<Rightarrow> byte list \<Rightarrow> bool"
    using u32_prefix_iff [of bs] by blast
  show ?case unfolding ex by (cases s') (auto simp: assms not_less not_le; metis)
qed

end
