(* ===== verification/Module_Storage.thy ===== *)
theory Module_Storage
  imports Import_Section Function_Section
begin

text \<open>
  The storage of a parsed module, \<^verbatim>\<open>wasm_binfmt_ver1_module_extensible_storage_t\<close> with the twelve
  sections of WebAssembly 1.0, and the sizes of its index spaces. A pair of pointers that delimits bytes
  of the module is kept as these bytes.
\<close>

section \<open>Sections\<close>

datatype base_const_expr_opcode_t =
    const_i32 u32
  | const_i64 u64
  | const_f32 u32
  | const_f64 u64
  | const_global_get u32

record wasm1_const_expr_storage_t =
  const_expr_bytes :: "byte list"
  const_expr_opcodes :: "base_const_expr_opcode_t list"

record final_local_global_type =
  global_decl :: global_type
  global_expr :: wasm1_const_expr_storage_t

record global_section_storage_t =
  globalsec_span :: "byte list option"
  globalsec_local_globals :: "final_local_global_type list"

record final_wasm_export_type =
  export_name :: "byte list"
  exports_type :: byte
  exports_idx :: u32

record export_section_storage_t =
  exportsec_span :: "byte list option"
  exportsec_exports :: "final_wasm_export_type list"
  exportsec_exportdesc :: "final_wasm_export_type list list"

record start_section_storage_t =
  startsec_span :: "byte list option"
  startsec_start_idx :: u32

record wasm1_elem_storage_t =
  elem_table_idx :: u32
  elem_expr :: wasm1_const_expr_storage_t
  elem_vec_funcidx :: "u32 list"

record element_section_storage_t =
  elemsec_span :: "byte list option"
  elemsec_elems :: "wasm1_elem_storage_t list"

record code_body_t =
  body_bytes :: "byte list" \<comment> \<open>\<^verbatim>\<open>code_begin\<close> to \<^verbatim>\<open>code_end\<close>\<close>
  body_expr_bytes :: "byte list" \<comment> \<open>\<^verbatim>\<open>expr_begin\<close> to \<^verbatim>\<open>code_end\<close>\<close>

record final_wasm_code_t =
  code_body :: code_body_t
  code_locals :: "local_entry list"
  code_all_local_count :: u32

record code_section_storage_t =
  codesec_span :: "byte list option"
  codesec_codes :: "final_wasm_code_t list"

record wasm1_data_storage_t =
  data_memory_idx :: u32
  data_expr :: wasm1_const_expr_storage_t
  data_byte :: "byte list"

record data_section_storage_t =
  datasec_span :: "byte list option"
  datasec_datas :: "wasm1_data_storage_t list"

record custom_section =
  custom_span :: "byte list"
  custom_name :: "byte list"
  custom_content :: "byte list" \<comment> \<open>\<^verbatim>\<open>custom_begin\<close> to the end of the section\<close>

record custom_section_storage_t =
  customsec_customs :: "custom_section list"

section \<open>The module\<close>

record wasm_module_storage =
  module_span :: "byte list"
  customsec :: custom_section_storage_t
  typesec :: type_section_storage_t
  importsec :: import_section_storage_t
  functionsec :: function_section_storage_t
  tablesec :: table_section_storage_t
  memorysec :: memory_section_storage_t
  globalsec :: global_section_storage_t
  exportsec :: export_section_storage_t
  startsec :: start_section_storage_t
  elemsec :: element_section_storage_t
  codesec :: code_section_storage_t
  datasec :: data_section_storage_t

definition empty_module :: "byte list \<Rightarrow> wasm_module_storage" where
  "empty_module span = \<lparr>module_span = span,
     customsec = \<lparr>customsec_customs = []\<rparr>,
     typesec = \<lparr>typesec_span = None, typesec_types = []\<rparr>,
     importsec = \<lparr>importsec_span = None, importsec_imports = [], importsec_importdesc = replicate 5 []\<rparr>,
     functionsec = \<lparr>functionsec_span = None, functionsec_funcs = typeidx_null\<rparr>,
     tablesec = \<lparr>tablesec_span = None, tablesec_tables = []\<rparr>,
     memorysec = \<lparr>memorysec_span = None, memorysec_memories = []\<rparr>,
     globalsec = \<lparr>globalsec_span = None, globalsec_local_globals = []\<rparr>,
     exportsec = \<lparr>exportsec_span = None, exportsec_exports = [], exportsec_exportdesc = replicate 5 []\<rparr>,
     startsec = \<lparr>startsec_span = None, startsec_start_idx = 0\<rparr>,
     elemsec = \<lparr>elemsec_span = None, elemsec_elems = []\<rparr>,
     codesec = \<lparr>codesec_span = None, codesec_codes = []\<rparr>,
     datasec = \<lparr>datasec_span = None, datasec_datas = []\<rparr>\<rparr>"

text \<open>The vectors of \<open>importdesc\<close>, by the number of the external kind.\<close>

definition imported :: "wasm_module_storage \<Rightarrow> nat \<Rightarrow> final_import_type list" where
  "imported m k = importsec_importdesc (importsec m) ! k"

definition all_func_size :: "wasm_module_storage \<Rightarrow> u32" where
  "all_func_size m = of_nat (funcs_size (functionsec_funcs (functionsec m))) + of_nat (length (imported m 0))"

definition all_table_size :: "wasm_module_storage \<Rightarrow> u32" where
  "all_table_size m = of_nat (length (tablesec_tables (tablesec m))) + of_nat (length (imported m 1))"

definition all_memory_size :: "wasm_module_storage \<Rightarrow> u32" where
  "all_memory_size m = of_nat (length (memorysec_memories (memorysec m))) + of_nat (length (imported m 2))"

definition all_global_size :: "wasm_module_storage \<Rightarrow> u32" where
  "all_global_size m = of_nat (length (globalsec_local_globals (globalsec m))) + of_nat (length (imported m 3))"

section \<open>What earlier sections guarantee\<close>

text \<open>
  The declarations that are in the module when a later section is read: the types, imports and
  indices are consistent and every index space fits \<open>u32\<close>. \<open>index_space m k\<close> is the size of the index space
  of kind \<open>k\<close>, counted in natural numbers.
\<close>

abbreviation mod_types :: "wasm_module_storage \<Rightarrow> function_type list" where
  "mod_types m \<equiv> typesec_types (typesec m)"

abbreviation mod_imports :: "wasm_module_storage \<Rightarrow> final_import_type list" where
  "mod_imports m \<equiv> importsec_imports (importsec m)"

abbreviation mod_funcs :: "wasm_module_storage \<Rightarrow> nat list" where
  "mod_funcs m \<equiv> funcs_of (functionsec_funcs (functionsec m))"

definition defined_count :: "wasm_module_storage \<Rightarrow> nat \<Rightarrow> nat" where
  "defined_count m k = (if k = 0 then length (mod_funcs m) else if k = 1 then length (tablesec_tables (tablesec m))
     else if k = 2 then length (memorysec_memories (memorysec m)) else length (globalsec_local_globals (globalsec m)))"

definition index_space :: "wasm_module_storage \<Rightarrow> nat \<Rightarrow> nat" where
  "index_space m k = defined_count m k + length (imports_of_kind k (mod_imports m))"

definition declarations_ok :: "wasm_module_storage \<Rightarrow> bool" where
  "declarations_ok m \<longleftrightarrow>
     length (mod_types m) < 2 ^ 32 \<and> list_all wf_function_type (mod_types m) \<and>
     importsec_importdesc (importsec m) = importdesc_of (mod_imports m) \<and>
     list_all (\<lambda>imp. extern_valid (mod_types m) (import_extern imp)) (mod_imports m) \<and>
     length (mod_imports m) < 2 ^ 32 \<and>
     index_space m 1 \<le> 1 \<and> index_space m 2 \<le> 1 \<and>
     list_all (\<lambda>i. i < length (mod_types m)) (mod_funcs m) \<and>
     (\<forall>k < 4. index_space m k < 2 ^ 32)"

lemma length_imports_of_kind: "length (imports_of_kind k imps) \<le> length imps"
  by (simp add: imports_of_kind_def)

lemma importdesc_of_Nil: "importdesc_of [] = replicate 5 []"
  by (simp add: importdesc_of_def imports_of_kind_def map_replicate_const del: upt_rec_numeral)

lemma declarations_okD:
  assumes "declarations_ok m"
  shows "length (mod_types m) < 2 ^ 32"
    and "list_all (\<lambda>imp. extern_valid (mod_types m) (import_extern imp)) (mod_imports m)"
    and "list_all (\<lambda>i. i < length (mod_types m)) (mod_funcs m)"
    and "k < 4 \<Longrightarrow> index_space m k < 2 ^ 32"
    and "length (imports_of_kind k (mod_imports m)) < 2 ^ 32"
    and "list_all wf_function_type (mod_types m)"
  using assms length_imports_of_kind [of k "mod_imports m"] by (simp_all add: declarations_ok_def)

lemma imported_eq: "declarations_ok m \<Longrightarrow> k < 5 \<Longrightarrow> imported m k = imports_of_kind k (mod_imports m)"
  by (simp add: imported_def declarations_ok_def importdesc_of_nth)

lemma unat_of_nat_sum: "a + b < 2 ^ 32 \<Longrightarrow> unat (of_nat a + of_nat b :: u32) = a + b"
  by (simp add: unat_word_ariths unat_of_nat)

text \<open>The sizes that the code computes in \<open>u32\<close> are the sizes of the index spaces.\<close>

lemma all_sizes:
  assumes "declarations_ok m"
  shows "unat (all_func_size m) = index_space m 0"
    and "unat (all_table_size m) = index_space m 1"
    and "unat (all_memory_size m) = index_space m 2"
    and "unat (all_global_size m) = index_space m 3"
  using declarations_okD(4) [OF assms, of 0] declarations_okD(4) [OF assms, of 1] declarations_okD(4) [OF assms, of 2]
    declarations_okD(4) [OF assms, of 3]
  by (simp_all add: all_func_size_def all_table_size_def all_memory_size_def all_global_size_def imported_eq [OF assms]
      funcs_access index_space_def defined_count_def unat_of_nat_sum del: of_nat_add)

lemma declarations_ok_empty: "declarations_ok (empty_module span)"
  by (simp add: declarations_ok_def empty_module_def importdesc_of_Nil imports_of_kind_def index_space_def defined_count_def
      funcs_of_def)

end
