(* ===== verification/Const_Expr.thy ===== *)
theory Const_Expr
  imports Module_Storage
begin

text \<open>
  The constant expressions that initialise globals and give the offset of element and data segments
  (\<^verbatim>\<open>global_section.h\<close>, \<^verbatim>\<open>element_section.h\<close>, \<^verbatim>\<open>data_section.h\<close>). The parser accepts exactly one constant instruction
  of the expected type, or a read of an immutable imported global of that type, closed by \<^verbatim>\<open>end\<close>.
\<close>

section \<open>The parser\<close>

text \<open>The immediates; a float is copied bytewise, least significant byte first.\<close>

definition scan_signed :: "wasm_parse_error \<Rightarrow> byte list \<Rightarrow> ('w::len word \<times> byte list) pres" where
  "scan_signed e section_curr =
     (case leb128_get_signed section_curr of (next, code, v) \<Rightarrow>
        bindE (throw_if (code \<noteq> parse_ok) (perr section_curr e code)) (\<lambda>_. Inr (v, next)))"

definition little_endian :: "byte list \<Rightarrow> 'w::len word" where
  "little_endian bs = foldr (\<lambda>b acc. push_bit 8 acc OR ucast b) bs 0"

definition copy_bytes :: "wasm_parse_error \<Rightarrow> nat \<Rightarrow> byte list \<Rightarrow> ('w::len word \<times> byte list) pres" where
  "copy_bytes e n section_curr =
     bindE (throw_if (length section_curr < n) (perr section_curr e parse_invalid)) (\<lambda>_.
     Inr (little_endian (take n section_curr), drop n section_curr))"

text \<open>\<^verbatim>\<open>imports.storage.global\<close>, the member of the union that an imported global sets.\<close>

definition storage_global :: "final_import_type \<Rightarrow> global_type pres" where
  "storage_global imp = (case import_extern imp of extern_global g \<Rightarrow> Inr g | _ \<Rightarrow> Inl UB)"

text \<open>
  The body of the loop, at an opcode. \<open>expected\<close> is the type of the global, or \<open>i32\<close> for an offset, and
  \<open>mismatch\<close> the error for a constant of another type: the routines fill its two bytes in different orders.
\<close>

definition const_expr_instr ::
  "value_type \<Rightarrow> (value_type \<Rightarrow> initializer_error) \<Rightarrow> final_import_type list \<Rightarrow> bool \<Rightarrow> byte list \<Rightarrow> (base_const_expr_opcode_t \<times> byte list) pres" where
  "const_expr_instr expected mismatch imported_global has_data_on_type_stack section_curr =
     bindE (next_byte section_curr) (\<lambda>(opc, operand).
     let only_one = throw_if has_data_on_type_stack (perr section_curr (in_initializer init_const_expr_stack_should_be_only_one_element) parse_invalid);
         typed = (\<lambda>t. throw_if (expected \<noteq> t) (perr section_curr (in_initializer (mismatch t)) parse_invalid));
         illegal_data = in_initializer init_const_expr_illegal_data in
     if opc = 0x41 then
       bindE only_one (\<lambda>_. bindE (typed i32) (\<lambda>_. bindE (scan_signed illegal_data operand) (\<lambda>(v, next). Inr (const_i32 v, next))))
     else if opc = 0x42 then
       bindE only_one (\<lambda>_. bindE (typed i64) (\<lambda>_. bindE (scan_signed illegal_data operand) (\<lambda>(v, next). Inr (const_i64 v, next))))
     else if opc = 0x43 then
       bindE only_one (\<lambda>_. bindE (typed f32) (\<lambda>_. bindE (copy_bytes illegal_data 4 operand) (\<lambda>(v, next). Inr (const_f32 v, next))))
     else if opc = 0x44 then
       bindE only_one (\<lambda>_. bindE (typed f64) (\<lambda>_. bindE (copy_bytes illegal_data 8 operand) (\<lambda>(v, next). Inr (const_f64 v, next))))
     else if opc = 0x23 then
       bindE only_one (\<lambda>_.
       bindE (scan_u32 illegal_data operand) (\<lambda>(test_global_idx, next).
       bindE (throw_if (test_global_idx \<ge> of_nat (length imported_global))
               (perr operand (in_initializer (init_const_expr_ref_illegal_imported_global (of_nat (length imported_global)) test_global_idx)) parse_invalid)) (\<lambda>_.
       bindE (index_unchecked imported_global (unat test_global_idx)) (\<lambda>imp.
       bindE (storage_global imp) (\<lambda>curr_imported_global.
       bindE (throw_if (global_value_type curr_imported_global \<noteq> expected)
               (perr operand (in_initializer (init_const_expr_type_mismatch (value_type_byte expected)
                  (value_type_byte (global_value_type curr_imported_global)))) parse_invalid)) (\<lambda>_.
       bindE (throw_if (is_mutable curr_imported_global)
               (perr operand (in_initializer (init_const_expr_ref_mutable_imported_global test_global_idx)) parse_invalid)) (\<lambda>_.
       Inr (const_global_get test_global_idx, next))))))))
     else Inl (Throw (perr section_curr (in_initializer init_const_expr_illegal_instruction) parse_invalid)))"

lemma const_expr_instr_first:
  assumes "const_expr_instr t mm imps has p = Inr r"
  shows "\<not> has"
  using assms by (auto simp: const_expr_instr_def Let_def next_byte_def bindE_eq_Inr throw_if_eq_Inr split: list.splits if_splits prod.splits)

text \<open>The loop ends after one instruction, since a second one is an error.\<close>

function const_expr_loop ::
  "value_type \<Rightarrow> (value_type \<Rightarrow> initializer_error) \<Rightarrow> final_import_type list \<Rightarrow> bool \<Rightarrow> base_const_expr_opcode_t list \<Rightarrow> byte list \<Rightarrow>
   ((bool \<times> base_const_expr_opcode_t list) \<times> byte list) pres" where
  "const_expr_loop expected mismatch imported_global has_data_on_type_stack opcodes section_curr =
     (if section_curr = []
      then Inl (Throw (perr section_curr (in_initializer init_const_expr_terminator_not_found) parse_invalid))
      else if hd section_curr = 0x0B then Inr ((has_data_on_type_stack, opcodes), tl section_curr)
      else bindE (const_expr_instr expected mismatch imported_global has_data_on_type_stack section_curr) (\<lambda>(x, next).
           const_expr_loop expected mismatch imported_global True (opcodes @ [x]) next))"
  by pat_completeness auto
termination
  by (relation "measure (\<lambda>(t, mm, imps, has, ops, p). if has then 0 else 1)") (auto dest: const_expr_instr_first)

declare const_expr_loop.simps [simp del]

definition parse_const_expr ::
  "value_type \<Rightarrow> (value_type \<Rightarrow> initializer_error) \<Rightarrow> final_import_type list \<Rightarrow> byte list \<Rightarrow> (wasm1_const_expr_storage_t \<times> byte list) pres" where
  "parse_const_expr expected mismatch imported_global section_begin =
     bindE (const_expr_loop expected mismatch imported_global False [] section_begin) (\<lambda>((has_data_on_type_stack, opcodes), section_curr).
     bindE (throw_if (\<not> has_data_on_type_stack) (perr section_curr (in_initializer init_const_expr_stack_empty) parse_invalid)) (\<lambda>_.
     Inr (\<lparr>const_expr_bytes = take (length section_begin - length section_curr) section_begin, const_expr_opcodes = opcodes\<rparr>, section_curr)))"

definition parse_and_check_global_expr_valid ::
  "wasm_module_storage \<Rightarrow> global_type \<Rightarrow> byte list \<Rightarrow> (wasm1_const_expr_storage_t \<times> byte list) pres" where
  "parse_and_check_global_expr_valid m global_r section_curr =
     parse_const_expr (global_value_type global_r)
       (\<lambda>t. init_const_expr_type_mismatch (value_type_byte (global_value_type global_r)) (value_type_byte t)) (imported m 3) section_curr"

definition parse_and_check_element_expr_valid :: "wasm_module_storage \<Rightarrow> byte list \<Rightarrow> (wasm1_const_expr_storage_t \<times> byte list) pres" where
  "parse_and_check_element_expr_valid m section_curr =
     parse_const_expr i32 (\<lambda>t. init_const_expr_type_mismatch (value_type_byte t) (value_type_byte i32)) (imported m 3) section_curr"

definition parse_and_check_data_expr_valid :: "wasm_module_storage \<Rightarrow> byte list \<Rightarrow> (wasm1_const_expr_storage_t \<times> byte list) pres" where
  "parse_and_check_data_expr_valid m section_curr =
     parse_const_expr i32 (\<lambda>t. init_const_expr_type_mismatch (value_type_byte t) (value_type_byte i32)) (imported m 3) section_curr"

section \<open>Correctness\<close>

fun const_instr_code :: "base_const_expr_opcode_t \<Rightarrow> byte list \<Rightarrow> bool" where
  "const_instr_code (const_i32 v) bs \<longleftrightarrow> (\<exists>n. bs = 0x41 # n \<and> sN 32 n (sint v))"
| "const_instr_code (const_i64 v) bs \<longleftrightarrow> (\<exists>n. bs = 0x42 # n \<and> sN 64 n (sint v))"
| "const_instr_code (const_f32 v) bs \<longleftrightarrow> (\<exists>z. bs = 0x43 # z \<and> length z = 4 \<and> v = little_endian z)"
| "const_instr_code (const_f64 v) bs \<longleftrightarrow> (\<exists>z. bs = 0x44 # z \<and> length z = 8 \<and> v = little_endian z)"
| "const_instr_code (const_global_get i) bs \<longleftrightarrow> (\<exists>n. bs = 0x23 # n \<and> uN 32 n (unat i))"

text \<open>The type of the value; a global must be imported and immutable.\<close>

fun const_instr_typed :: "final_import_type list \<Rightarrow> value_type \<Rightarrow> base_const_expr_opcode_t \<Rightarrow> bool" where
  "const_instr_typed imps t (const_i32 v) \<longleftrightarrow> t = i32"
| "const_instr_typed imps t (const_i64 v) \<longleftrightarrow> t = i64"
| "const_instr_typed imps t (const_f32 v) \<longleftrightarrow> t = f32"
| "const_instr_typed imps t (const_f64 v) \<longleftrightarrow> t = f64"
| "const_instr_typed imps t (const_global_get i) \<longleftrightarrow>
     unat i < length imps \<and> import_extern (imps ! unat i) = extern_global \<lparr>global_value_type = t, is_mutable = False\<rparr>"

definition const_expr_code :: "wasm1_const_expr_storage_t \<Rightarrow> byte list \<Rightarrow> bool" where
  "const_expr_code e bs \<longleftrightarrow> const_expr_bytes e = bs \<and>
     (\<exists>x i. bs = i @ [0x0B] \<and> const_instr_code x i \<and> const_expr_opcodes e = [x])"

definition const_expr_typed :: "wasm_module_storage \<Rightarrow> value_type \<Rightarrow> wasm1_const_expr_storage_t \<Rightarrow> bool" where
  "const_expr_typed m t e \<longleftrightarrow> list_all (const_instr_typed (imports_of_kind 3 (mod_imports m)) t) (const_expr_opcodes e)"

lemma reads_scan_signed:
  assumes "suffix bs bs\<^sub>0" "7 < LENGTH('w)" "\<not> 7 dvd LENGTH('w)"
  shows "reads bs\<^sub>0 bs (\<lambda>(v::'w::len word) b. sN LENGTH('w) b (sint v)) (scan_signed e bs)"
proof -
  have "scan_signed e bs = Inr (v, rest) \<longleftrightarrow> leb128_get_signed bs = (rest, parse_ok, v)" for v :: "'w word" and rest
    by (auto simp: scan_signed_def res_simps split: prod.splits)
  moreover have "throws_in bs\<^sub>0 f" if "(scan_signed e bs :: ('w word \<times> _) pres) = Inl f" for f
    using that assms(1) by (cases f) (auto simp: scan_signed_def res_simps throws_in_perr split: prod.splits)
  ultimately show ?thesis using leb128_get_signed_iff [OF assms(2,3)] by (simp add: reads_def)
qed

lemma reads_copy_bytes:
  assumes "suffix bs bs\<^sub>0"
  shows "reads bs\<^sub>0 bs (\<lambda>v z. length z = n \<and> v = little_endian z) (copy_bytes e n bs)"
proof (cases "length bs < n")
  case True
  then show ?thesis using assms by (auto simp: reads_def copy_bytes_def throws_in_perr)
next
  case False
  then show ?thesis by (auto simp: reads_def copy_bytes_def intro!: exI [of _ "take n bs"])
qed

text \<open>An entry of \<open>importdesc[3]\<close> is an imported global.\<close>

definition imported_global_type :: "final_import_type \<Rightarrow> global_type" where
  "imported_global_type imp = (case import_extern imp of extern_global g \<Rightarrow> g | _ \<Rightarrow> \<lparr>global_value_type = vt_none, is_mutable = False\<rparr>)"

lemma extern_kind_global: "extern_kind (import_extern imp) = 3 \<Longrightarrow> import_extern imp = extern_global (imported_global_type imp)"
  by (cases "import_extern imp") (simp_all add: extern_kind_def imported_global_type_def)

lemma reads_imported_global:
  assumes "i < length imps" "list_all (\<lambda>imp. extern_kind (import_extern imp) = 3) imps" "reads bs\<^sub>0 bs G (f (imported_global_type (imps ! i)))"
  shows "reads bs\<^sub>0 bs G (bindE (index_unchecked imps i) (\<lambda>imp. bindE (storage_global imp) f))"
  using assms extern_kind_global [of "imps ! i"] by (simp add: index_unchecked_def storage_global_def list_all_length)

lemma reads_const_instr:
  assumes "suffix bs bs\<^sub>0" "bs \<noteq> []" "length imps < 2 ^ 32" "list_all (\<lambda>imp. extern_kind (import_extern imp) = 3) imps"
  shows "reads bs\<^sub>0 bs (\<lambda>x b. \<not> has \<and> const_instr_code x b \<and> const_instr_typed imps t x) (const_expr_instr t mm imps has bs)"
proof -
  have n: "(of_nat (length imps) \<le> i) = (length imps \<le> unat i)" for i :: u32
    using assms(3) by (simp add: word_le_nat_alt unat_of_nat)
  have g: "import_extern (imps ! i) = extern_global \<lparr>global_value_type = u, is_mutable = False\<rparr> \<longleftrightarrow>
      global_value_type (imported_global_type (imps ! i)) = u \<and> \<not> is_mutable (imported_global_type (imps ! i))" if "i < length imps" for i u
    using extern_kind_global [of "imps ! i"] that assms(4) global_type_eq by (auto simp: list_all_length)
  show ?thesis unfolding const_expr_instr_def Let_def n
  proof (rule reads_cong, (rule reads_intros reads_next_byte reads_scan_signed reads_copy_bytes reads_imported_global assms | assumption
        | (simp add: not_le; fail))+, goal_cases)
    case (1 x b rest)
    show ?case
    proof (cases b)
      case (Cons opc operand)
      show ?thesis unfolding Cons by (cases x) (auto simp: g not_le)
    qed (cases x; simp)
  qed
qed

text \<open>The loop in its two states: after an instruction only \<^verbatim>\<open>end\<close> is accepted, before it one instruction and \<^verbatim>\<open>end\<close>.\<close>

lemma reads_end: "bs \<noteq> [] \<Longrightarrow> hd bs = x \<Longrightarrow> reads bs\<^sub>0 bs (\<lambda>y b. b = [x] \<and> y = r) (Inr (r, tl bs))"
  by (cases bs) (auto simp: reads_def)

lemma reads_const_loop_done:
  assumes "suffix bs bs\<^sub>0" "length imps < 2 ^ 32" "list_all (\<lambda>imp. extern_kind (import_extern imp) = 3) imps"
  shows "reads bs\<^sub>0 bs (\<lambda>r b. b = [0x0B] \<and> r = (True, ops)) (const_expr_loop t mm imps True ops bs)"
proof -
  have i: "\<exists>f. const_expr_instr t mm imps True bs = Inl f \<and> throws_in bs\<^sub>0 f" if "bs \<noteq> []"
  proof (cases "const_expr_instr t mm imps True bs")
    case (Inl f)
    then show ?thesis using readsD(2) [OF reads_const_instr [OF assms(1) that assms(2,3)]] by blast
  qed (use const_expr_instr_first [of t mm imps True bs] in simp)
  show ?thesis
  proof (cases "bs = [] \<or> hd bs = 0x0B")
    case True
    then show ?thesis using assms(1) unfolding const_expr_loop.simps [of _ _ _ _ _ bs]
      by (cases bs) (auto simp: reads_def throws_in_perr)
  next
    case False
    then show ?thesis using i unfolding const_expr_loop.simps [of _ _ _ _ _ bs] by (cases bs) (auto simp: reads_def)
  qed
qed

lemma reads_const_loop:
  assumes "suffix bs bs\<^sub>0" "length imps < 2 ^ 32" "list_all (\<lambda>imp. extern_kind (import_extern imp) = 3) imps"
  shows "reads bs\<^sub>0 bs (\<lambda>r b. (b = [0x0B] \<and> r = (False, [])) \<or>
      (\<exists>x i. b = i @ [0x0B] \<and> const_instr_code x i \<and> const_instr_typed imps t x \<and> r = (True, [x]))) (const_expr_loop t mm imps False [] bs)"
  unfolding const_expr_loop.simps [of _ _ _ False _ bs]
proof (rule reads_cong, (rule reads_intros reads_end reads_const_instr reads_const_loop_done assms | assumption | (simp; fail))+, goal_cases)
  case (1 r b rest)
  have "\<not> const_instr_code x (0x0B # i)" for x i by (cases x) simp_all
  moreover have "const_instr_code x i \<Longrightarrow> i \<noteq> []" for x i by (cases x) auto
  ultimately show ?case using 1 by (cases b) (auto simp: append_eq_Cons_conv Cons_eq_append_conv)
qed

lemma reads_const_expr:
  assumes "suffix bs bs\<^sub>0" "length imps < 2 ^ 32" "list_all (\<lambda>imp. extern_kind (import_extern imp) = 3) imps"
  shows "reads bs\<^sub>0 bs (\<lambda>e b. const_expr_code e b \<and> list_all (const_instr_typed imps t) (const_expr_opcodes e)) (parse_const_expr t mm imps bs)"
proof -
  note L = reads_const_loop [OF assms, of t mm]
  have "parse_const_expr t mm imps bs = Inr (e, rest) \<longleftrightarrow>
      (\<exists>b. bs = b @ rest \<and> const_expr_code e b \<and> list_all (const_instr_typed imps t) (const_expr_opcodes e))" for e rest
    by (cases e) (auto simp: parse_const_expr_def bindE_eq_Inr throw_if_eq_Inr readsD(1) [OF L] const_expr_code_def)
  moreover have "throws_in bs\<^sub>0 f" if "parse_const_expr t mm imps bs = Inl f" for f
  proof -
    have "suffix rest bs\<^sub>0" if "const_expr_loop t mm imps False [] bs = Inr (r, rest)" for r rest
      using that readsD(1) [OF L] assms(1) by (metis suffix_appendD)
    with that readsD(2) [OF L] show ?thesis
      by (fastforce simp: parse_const_expr_def bindE_eq_Inl throw_if_def throws_in_perr split: if_splits)
  qed
  ultimately show ?thesis by (simp add: reads_def)
qed

text \<open>The three routines, in a module whose earlier sections are consistent.\<close>

lemma imported_globals:
  assumes "declarations_ok m"
  shows "length (imported m 3) < 2 ^ 32" "list_all (\<lambda>imp. extern_kind (import_extern imp) = 3) (imported m 3)"
  using declarations_okD(5) [OF assms, of 3] by (simp_all add: imported_eq [OF assms] imports_of_kind_def list_all_iff)

lemma reads_init_expr [reads_intros]:
  assumes "suffix bs bs\<^sub>0" "declarations_ok m"
  shows "reads bs\<^sub>0 bs (\<lambda>e b. const_expr_code e b \<and> const_expr_typed m (global_value_type g) e) (parse_and_check_global_expr_valid m g bs)"
    and "reads bs\<^sub>0 bs (\<lambda>e b. const_expr_code e b \<and> const_expr_typed m i32 e) (parse_and_check_element_expr_valid m bs)"
    and "reads bs\<^sub>0 bs (\<lambda>e b. const_expr_code e b \<and> const_expr_typed m i32 e) (parse_and_check_data_expr_valid m bs)"
  unfolding parse_and_check_global_expr_valid_def parse_and_check_element_expr_valid_def parse_and_check_data_expr_valid_def
    const_expr_typed_def
  using reads_const_expr [OF assms(1) imported_globals [OF assms(2)]] by (simp_all add: imported_eq [OF assms(2)])

lemma const_expr_nonempty: "\<not> const_expr_code e []"
  by (simp add: const_expr_code_def)

end
