(* ===== verification/Global_Section.thy ===== *)
theory Global_Section
  imports Const_Expr
begin

text \<open>
  The global section (\<^verbatim>\<open>global_section.h\<close>, section id 6): a vector of global types, each with the constant
  expression that initialises the global.
\<close>

section \<open>The parser\<close>

definition global_section_global_handler :: "byte list \<Rightarrow> (global_type \<times> byte list) pres" where
  "global_section_global_handler section_curr = scan_global_type section_curr"

definition global_section_entry :: "wasm_module_storage \<Rightarrow> byte list \<Rightarrow> (final_local_global_type \<times> byte list) pres" where
  "global_section_entry m section_curr =
     bindE (global_section_global_handler section_curr) (\<lambda>(global, section_curr).
     bindE (parse_and_check_global_expr_valid m global section_curr) (\<lambda>(expr, section_curr).
     Inr (\<lparr>global_decl = global, global_expr = expr\<rparr>, section_curr)))"

definition handle_global_section ::
  "wasm1_parser_limit_t \<Rightarrow> wasm_module_storage \<Rightarrow> byte list \<Rightarrow> byte list \<Rightarrow> global_section_storage_t pres" where
  "handle_global_section limit m section_begin sec_id_module_ptr =
     (let imported_global_size = of_nat (length (imported m 3)) :: u32 in
     bindE (throw_if (globalsec_span (globalsec m) \<noteq> None) (perr sec_id_module_ptr (in_common (duplicate_section 6)) parse_invalid)) (\<lambda>_.
     bindE (scan_u32 (in_initializer invalid_global_count) section_begin) (\<lambda>(global_count, section_curr).
     bindE (throw_if (unat global_count > max_global_sec_globals limit)
             (perr section_begin (in_common (exceed_the_max_parser_limit ''globalsec_globals'' (unat global_count) (max_global_sec_globals limit)))
                parse_invalid)) (\<lambda>_.
     bindE (throw_if (global_count > - 1 - imported_global_size)
             (perr section_begin (in_common (imp_def_num_exceed_u32max 3 global_count imported_global_size)) parse_invalid)) (\<lambda>_.
     bindE (section_loop (\<lambda>_ _. global_section_entry m)
             (\<lambda>cnt. in_initializer (global_section_resolved_exceeded_the_actual_number cnt))
             (\<lambda>counter cnt. in_initializer (global_section_resolved_not_match_the_actual_number counter cnt))
             global_count 0 (globalsec_local_globals (globalsec m)) section_curr) (\<lambda>gs.
     Inr \<lparr>globalsec_span = Some section_begin, globalsec_local_globals = gs\<rparr>))))))"

section \<open>Correctness\<close>

definition global_code :: "final_local_global_type \<Rightarrow> byte list \<Rightarrow> bool" where
  "global_code g bs \<longleftrightarrow> (\<exists>t e. bs = t @ e \<and> global_type_code (global_decl g) t \<and> const_expr_code (global_expr g) e)"

definition global_typed :: "wasm_module_storage \<Rightarrow> final_local_global_type \<Rightarrow> bool" where
  "global_typed m g \<longleftrightarrow> const_expr_typed m (global_value_type (global_decl g)) (global_expr g)"

lemma final_local_global_type_eq:
  "x = \<lparr>global_decl = g, global_expr = e\<rparr> \<longleftrightarrow> g = global_decl x \<and> e = global_expr x"
  by (cases x) auto

lemma reads_global_entry:
  assumes "suffix bs bs\<^sub>0" "declarations_ok m"
  shows "reads bs\<^sub>0 bs (\<lambda>g b. global_code g b \<and> global_typed m g) (global_section_entry m bs)"
  unfolding global_section_entry_def global_section_global_handler_def
  by (rule reads_cong, (rule reads_intros assms | assumption | (simp; fail))+)
    (auto simp: final_local_global_type_eq global_code_def global_typed_def)

lemma global_entries:
  assumes "declarations_ok m"
  shows "section_entry (\<lambda>_ _. global_section_entry m) global_code (\<lambda>_. global_typed m) (2 ^ 32)"
  by unfold_locales (simp add: reads_global_entry assms, auto simp: global_code_def const_expr_nonempty)

lemma global_section_storage_eq:
  "s = \<lparr>globalsec_span = x, globalsec_local_globals = y\<rparr> \<longleftrightarrow> x = globalsec_span s \<and> y = globalsec_local_globals s"
  by (cases s) auto

lemma handles_global_section:
  assumes "declarations_ok m" "globalsec_span (globalsec m) = None" "globalsec_local_globals (globalsec m) = []" "suffix bs ptr"
  shows "handles ptr (\<lambda>s'. globalsec_span s' = Some bs \<and> vec_code global_code (globalsec_local_globals s') bs \<and>
      list_all (global_typed m) (globalsec_local_globals s') \<and>
      length (globalsec_local_globals s') \<le> max_global_sec_globals limit \<and>
      length (globalsec_local_globals s') + length (imports_of_kind 3 (mod_imports m)) < 2 ^ 32) (handle_global_section limit m bs ptr)"
proof -
  note n = u32_sum_overflow [OF declarations_okD(5) [OF assms(1), of 3]]
  note loop = section_entry.handles_loop [OF global_entries [OF assms(1)]]
  have i: "imported m 3 = imports_of_kind 3 (mod_imports m)" using imported_eq [OF assms(1)] by simp
  show ?thesis unfolding handle_global_section_def Let_def i n
    by (rule handles_cong, (rule handles_intros loop unat_u32_le assms suffix_order.refl | assumption | (simp; fail))+)
      (auto simp: vec_code_count global_section_storage_eq assms not_less not_le; metis)
qed

end
