(* ===== verification/Export_Section.thy ===== *)
theory Export_Section
  imports Module_Storage
begin

text \<open>
  The export section (\<^verbatim>\<open>export_section.h\<close>, section id 7): a vector of distinct names, each with the kind and
  the index of what it exports; and the start section (\<^verbatim>\<open>start_section.h\<close>, section id 8): the index of a
  function without parameters and results.
\<close>

section \<open>The export section\<close>

definition define_handler_export_index :: "wasm_module_storage \<Rightarrow> byte \<Rightarrow> byte list \<Rightarrow> (u32 \<times> byte list) pres" where
  "define_handler_export_index m type section_curr =
     bindE (scan_u32 (in_definition invalid_export_idx) section_curr) (\<lambda>(export_idx, next).
     let check = (\<lambda>size. bindE (throw_if (export_idx \<ge> size)
                   (perr section_curr (in_definition (exported_index_exceeds_maxvul export_idx size type)) parse_invalid)) (\<lambda>_.
                   Inr (export_idx, next))) in
     if type = 0 then check (all_func_size m)
     else if type = 1 then check (all_table_size m)
     else if type = 2 then check (all_memory_size m)
     else if type = 3 then check (all_global_size m)
     else if type = 4 then Inl (Throw (perr section_curr (in_definition (illegal_exportdesc_prefix 4)) parse_invalid))
     else Inl UB)"

text \<open>\<open>duplicate_name_checker\<close> holds the names of the exports read before.\<close>

definition export_section_entry ::
  "wasm_module_storage \<Rightarrow> final_wasm_export_type list \<Rightarrow> byte list \<Rightarrow> (final_wasm_export_type \<times> byte list) pres" where
  "export_section_entry m es section_curr =
     bindE (scan_name (in_definition invalid_export_name_length) (\<lambda>n. in_definition (export_name_too_length n)) section_curr) (\<lambda>(name, section_curr).
     bindE (read_byte (in_definition export_missing_export_type) section_curr) (\<lambda>(type, next).
     bindE (throw_if (type \<ge> 5) (perr section_curr (in_definition (illegal_exportdesc_prefix type)) parse_invalid)) (\<lambda>_.
     bindE (throw_if (name \<in> set (map export_name es))
             (perr section_curr (in_definition (duplicate_exports_of_the_same_export_type name type)) parse_invalid)) (\<lambda>_.
     bindE (throw_if (next = []) (perr next (in_definition export_missing_export_idx) parse_invalid)) (\<lambda>_.
     bindE (define_handler_export_index m type next) (\<lambda>(idx, next).
     Inr (\<lparr>export_name = name, exports_type = type, exports_idx = idx\<rparr>, next)))))))"

definition handle_export_section ::
  "wasm1_parser_limit_t \<Rightarrow> wasm_module_storage \<Rightarrow> byte list \<Rightarrow> byte list \<Rightarrow> export_section_storage_t pres" where
  "handle_export_section limit m section_begin sec_id_module_ptr =
     bindE (throw_if (exportsec_span (exportsec m) \<noteq> None) (perr sec_id_module_ptr (in_common (duplicate_section 7)) parse_invalid)) (\<lambda>_.
     bindE (scan_u32 (in_definition invalid_export_count) section_begin) (\<lambda>(export_count, section_curr).
     bindE (throw_if (unat export_count > max_export_sec_exports limit)
             (perr section_begin (in_common (exceed_the_max_parser_limit ''exportsec_exports'' (unat export_count) (max_export_sec_exports limit)))
                parse_invalid)) (\<lambda>_.
     bindE (section_loop (\<lambda>_. export_section_entry m)
             (\<lambda>cnt. in_definition (export_section_resolved_exceeded_the_actual_number cnt))
             (\<lambda>counter cnt. in_definition (export_section_resolved_not_match_the_actual_number counter cnt))
             export_count 0 (exportsec_exports (exportsec m)) section_curr) (\<lambda>es.
     Inr \<lparr>exportsec_span = Some section_begin, exportsec_exports = es,
          exportsec_exportdesc = fill_desc (\<lambda>e. unat (exports_type e)) (exportsec_exportdesc (exportsec m)) es\<rparr>))))"

section \<open>The start section\<close>

text \<open>The type that an imported function points to.\<close>

definition storage_function :: "wasm_module_storage \<Rightarrow> final_import_type \<Rightarrow> function_type pres" where
  "storage_function m imp =
     (case import_extern imp of extern_function i \<Rightarrow> index_unchecked (mod_types m) i | _ \<Rightarrow> Inl UB)"

definition function_type_at :: "wasm_module_storage \<Rightarrow> u32 \<Rightarrow> function_type pres" where
  "function_type_at m idx =
     (let imported_func_size = of_nat (length (imported m 0)) in
      if idx \<ge> imported_func_size
      then bindE (funcs_index_unchecked (functionsec_funcs (functionsec m)) (unat (idx - imported_func_size))) (\<lambda>t.
           index_unchecked (mod_types m) (unat t))
      else bindE (index_unchecked (imported m 0) (unat idx)) (storage_function m))"

definition handle_start_section :: "wasm_module_storage \<Rightarrow> byte list \<Rightarrow> byte list \<Rightarrow> start_section_storage_t pres" where
  "handle_start_section m section_begin sec_id_module_ptr =
     bindE (throw_if (startsec_span (startsec m) \<noteq> None) (perr sec_id_module_ptr (in_common (duplicate_section 8)) parse_invalid)) (\<lambda>_.
     bindE (scan_u32 (in_definition invalid_start_idx) section_begin) (\<lambda>(start_idx, section_curr).
     bindE (throw_if (start_idx \<ge> all_func_size m)
             (perr section_begin (in_definition (start_index_exceeds_maxvul start_idx (all_func_size m))) parse_invalid)) (\<lambda>_.
     bindE (function_type_at m start_idx) (\<lambda>ft.
     bindE (throw_if (of_nat (length (parameter ft)) \<noteq> (0::u32) \<or> of_nat (length (result ft)) \<noteq> (0::u32))
             (perr section_curr (in_definition (func_ref_by_start_has_illegal_sign start_idx)) parse_invalid)) (\<lambda>_.
     bindE (throw_if (section_curr \<noteq> []) (perr section_curr (in_common unexpected_section_data) parse_invalid)) (\<lambda>_.
     Inr \<lparr>startsec_span = Some section_begin, startsec_start_idx = start_idx\<rparr>))))))"

section \<open>Correctness of the export section\<close>

definition exported_code :: "final_wasm_export_type \<Rightarrow> byte list \<Rightarrow> bool" where
  "exported_code e bs \<longleftrightarrow> (\<exists>n i. bs = n @ exports_type e # i \<and> name_code (export_name e) n \<and> uN 32 i (unat (exports_idx e)))"

definition export_valid :: "wasm_module_storage \<Rightarrow> final_wasm_export_type \<Rightarrow> bool" where
  "export_valid m e \<longleftrightarrow> exports_type e < 4 \<and> unat (exports_idx e) < index_space m (unat (exports_type e))"

lemma final_wasm_export_type_eq:
  "x = \<lparr>export_name = n, exports_type = t, exports_idx = i\<rparr> \<longleftrightarrow> n = export_name x \<and> t = exports_type x \<and> i = exports_idx x"
  by (cases x) auto

lemma reads_export_index:
  assumes "suffix bs bs\<^sub>0" "declarations_ok m" "\<not> t \<ge> 5"
  shows "reads bs\<^sub>0 bs (\<lambda>i b. uN 32 b (unat i) \<and> t < 4 \<and> unat i < index_space m (unat t)) (define_handler_export_index m t bs)"
proof -
  have t: "t = 0 \<or> t = 1 \<or> t = 2 \<or> t = 3 \<or> t = 4" using byte_below_5 [of t] assms(3) by simp
  show ?thesis unfolding define_handler_export_index_def Let_def word_le_nat_alt all_sizes [OF assms(2)]
  proof (rule reads_cong, (rule reads_intros reads_absurd assms(1) | assumption | (use t in \<open>simp; fail\<close>))+, goal_cases)
    case (1 i b rest)
    show ?case using t by (elim disjE) (simp_all add: not_le)
  qed
qed

lemma reads_throw_end:
  assumes "suffix p bs\<^sub>0" "c \<noteq> parse_ok" "bs \<noteq> [] \<Longrightarrow> reads bs\<^sub>0 bs G (f ())" "\<And>x. \<not> G x []"
  shows "reads bs\<^sub>0 bs G (bindE (throw_if (bs = []) (perr p e c)) f)"
  using assms by (cases "bs = []") (simp_all add: reads_def throws_in_perr)

lemma reads_export_entry:
  assumes "suffix bs bs\<^sub>0" "declarations_ok m"
  shows "reads bs\<^sub>0 bs (\<lambda>e b. exported_code e b \<and> export_valid m e \<and> export_name e \<notin> export_name ` set es) (export_section_entry m es bs)"
  unfolding export_section_entry_def
proof (rule reads_cong, (rule reads_throw_end reads_intros reads_export_index assms | assumption | (simp; fail))+, goal_cases)
  case (1 e b rest)
  have "t < 4 \<Longrightarrow> \<not> 5 \<le> t" for t :: byte by (simp add: word_le_nat_alt word_less_nat_alt)
  then show ?case by (auto simp: final_wasm_export_type_eq exported_code_def export_valid_def; blast)
qed

lemma export_entries:
  assumes "declarations_ok m"
  shows "section_entry (\<lambda>_. export_section_entry m) exported_code
    (\<lambda>es e. export_valid m e \<and> export_name e \<notin> export_name ` set es) (2 ^ 32)"
  by unfold_locales (simp add: reads_export_entry assms, auto simp: exported_code_def)

lemma all_after_conj: "all_after (\<lambda>acc x. P x \<and> Q acc x) acc xs \<longleftrightarrow> list_all P xs \<and> all_after Q acc xs"
  by (induction xs arbitrary: acc) auto

lemma export_section_storage_eq:
  "s = \<lparr>exportsec_span = x, exportsec_exports = y, exportsec_exportdesc = z\<rparr> \<longleftrightarrow>
     x = exportsec_span s \<and> y = exportsec_exports s \<and> z = exportsec_exportdesc s"
  by (cases s) auto

definition exportdesc_of :: "final_wasm_export_type list \<Rightarrow> final_wasm_export_type list list" where
  "exportdesc_of es = map (\<lambda>k. filter (\<lambda>e. unat (exports_type e) = k) es) [0..<5]"

lemma handles_export_section:
  assumes "declarations_ok m" "exportsec_span (exportsec m) = None" "exportsec_exports (exportsec m) = []"
    "exportsec_exportdesc (exportsec m) = replicate 5 []" "suffix bs ptr"
  shows "handles ptr (\<lambda>s'. exportsec_span s' = Some bs \<and> vec_code exported_code (exportsec_exports s') bs \<and>
      list_all (export_valid m) (exportsec_exports s') \<and> distinct (map export_name (exportsec_exports s')) \<and>
      length (exportsec_exports s') \<le> max_export_sec_exports limit \<and>
      exportsec_exportdesc s' = exportdesc_of (exportsec_exports s')) (handle_export_section limit m bs ptr)"
proof -
  note loop = section_entry.handles_loop [OF export_entries [OF assms(1)]]
  show ?thesis unfolding handle_export_section_def assms(4) fill_desc_empty exportdesc_of_def [symmetric]
    by (rule handles_cong, (rule handles_intros loop unat_u32_le assms suffix_order.refl | assumption | (simp; fail))+)
      (auto simp: vec_code_count export_section_storage_eq all_after_conj all_after_fresh assms not_less; blast)
qed

section \<open>Correctness of the start section\<close>

text \<open>The type of the function with index \<open>i\<close> of the index space: the imports come first.\<close>

definition func_type :: "wasm_module_storage \<Rightarrow> nat \<Rightarrow> function_type" where
  "func_type m i =
     (let fi = imports_of_kind 0 (mod_imports m) in
      if i < length fi then mod_types m ! (case import_extern (fi ! i) of extern_function t \<Rightarrow> t | _ \<Rightarrow> 0)
      else mod_types m ! (mod_funcs m ! (i - length fi)))"

lemma func_index_cases:
  assumes "declarations_ok m" "i < index_space m 0"
  obtains (imported) t where "i < length (imports_of_kind 0 (mod_imports m))" "t < length (mod_types m)"
      "import_extern (imports_of_kind 0 (mod_imports m) ! i) = extern_function t" "func_type m i = mod_types m ! t"
    | (defined) t where "length (imports_of_kind 0 (mod_imports m)) \<le> i" "t < length (mod_types m)"
      "i - length (imports_of_kind 0 (mod_imports m)) < length (mod_funcs m)"
      "mod_funcs m ! (i - length (imports_of_kind 0 (mod_imports m))) = t" "func_type m i = mod_types m ! t"
proof (cases "i < length (imports_of_kind 0 (mod_imports m))")
  case True
  let ?imp = "imports_of_kind 0 (mod_imports m) ! i"
  have "?imp \<in> set (imports_of_kind 0 (mod_imports m))" using True by simp
  then have "extern_kind (import_extern ?imp) = 0" "extern_valid (mod_types m) (import_extern ?imp)"
    using declarations_okD(2) [OF assms(1)] by (auto simp: imports_of_kind_def list_all_iff)
  then obtain t where "import_extern ?imp = extern_function t" "t < length (mod_types m)"
    by (cases "import_extern ?imp") (simp_all add: extern_kind_def)
  with True show ?thesis using imported [of t] by (simp add: func_type_def)
next
  case False
  let ?k = "i - length (imports_of_kind 0 (mod_imports m))"
  have lt: "?k < length (mod_funcs m)" using assms(2) False by (simp add: index_space_def defined_count_def)
  then have "mod_funcs m ! ?k < length (mod_types m)" using declarations_okD(3) [OF assms(1)] by (simp add: list_all_length)
  with False lt show ?thesis using defined [of "mod_funcs m ! ?k"] by (simp add: func_type_def)
qed

lemma func_type_wf:
  assumes "declarations_ok m" "i < index_space m 0"
  shows "wf_function_type (func_type m i)"
  using declarations_okD(6) [OF assms(1)] by (rule_tac func_index_cases [OF assms]) (simp_all add: list_all_length)

lemma function_type_at_eq:
  assumes "declarations_ok m" "unat idx < index_space m 0"
  shows "function_type_at m idx = Inr (func_type m (unat idx))"
proof -
  have n: "unat (of_nat (length (imports_of_kind 0 (mod_imports m))) :: u32) = length (imports_of_kind 0 (mod_imports m))"
    using declarations_okD(5) [OF assms(1), of 0] by (simp add: unat_of_nat)
  note simps = function_type_at_def imported_eq [OF assms(1)] word_le_nat_alt index_unchecked_def
  from assms show ?thesis
  proof (cases rule: func_index_cases)
    case (imported t)
    with n show ?thesis by (simp add: simps storage_function_def)
  next
    case (defined t)
    then have "unat (idx - of_nat (length (imports_of_kind 0 (mod_imports m)))) = unat idx - length (imports_of_kind 0 (mod_imports m))"
      using n by (simp add: unat_sub word_le_nat_alt)
    moreover have "unat (of_nat t :: u32) = t" using declarations_okD(1) [OF assms(1)] defined by (simp add: unat_of_nat)
    ultimately show ?thesis using defined n by (simp add: simps funcs_access)
  qed
qed

text \<open>A function that may be the start function.\<close>

definition start_valid :: "wasm_module_storage \<Rightarrow> nat \<Rightarrow> bool" where
  "start_valid m i \<longleftrightarrow> i < index_space m 0 \<and> parameter (func_type m i) = [] \<and> result (func_type m i) = []"

lemma start_section_storage_eq:
  "s = \<lparr>startsec_span = x, startsec_start_idx = y\<rparr> \<longleftrightarrow> x = startsec_span s \<and> y = startsec_start_idx s"
  by (cases s) auto

lemma handles_function_type_at:
  assumes "declarations_ok m" "unat idx < index_space m 0" "handles ptr P (f (func_type m (unat idx)))"
  shows "handles ptr P (bindE (function_type_at m idx) f)"
  using assms(3) by (simp add: function_type_at_eq [OF assms(1,2)])

lemma of_nat_length_eq_0: "length xs < 2 ^ 32 \<Longrightarrow> (of_nat (length xs) = (0::u32)) = (xs = [])"
  by (simp add: word_unat_eq_iff unat_of_nat)

lemma handles_start_section:
  assumes "declarations_ok m" "startsec_span (startsec m) = None" "suffix bs ptr"
  shows "handles ptr (\<lambda>s'. startsec_span s' = Some bs \<and> uN 32 bs (unat (startsec_start_idx s')) \<and>
      start_valid m (unat (startsec_start_idx s'))) (handle_start_section m bs ptr)"
  unfolding handle_start_section_def word_le_nat_alt all_sizes [OF assms(1)]
proof (rule handles_cong, (rule handles_intros handles_function_type_at assms | assumption | (simp; fail))+, goal_cases)
  case (1 s')
  have z: "(of_nat (length (parameter (func_type m i))) = (0::u32)) = (parameter (func_type m i) = [])"
    "(of_nat (length (result (func_type m i))) = (0::u32)) = (result (func_type m i) = [])" if "i < index_space m 0" for i
    using func_type_wf [OF assms(1) that] by (auto simp: wf_function_type_def intro!: of_nat_length_eq_0)
  show ?case using assms(2) by (auto simp: z not_le start_valid_def start_section_storage_eq u32_prefix_def)
qed

end
