(* ===== verification/Segment_Sections.thy ===== *)
theory Segment_Sections
  imports Const_Expr
begin

text \<open>
  The element section (\<^verbatim>\<open>element_section.h\<close>, section id 9) and the data section (\<^verbatim>\<open>data_section.h\<close>, section
  id 11): vectors of segments that initialise a table or a memory from a constant offset.
\<close>

section \<open>The element section\<close>

text \<open>The loop over the function indices of a segment.\<close>

fun scan_vec_funcidx :: "u32 \<Rightarrow> nat \<Rightarrow> byte list \<Rightarrow> (u32 list \<times> byte list) pres" where
  "scan_vec_funcidx all_func 0 section_curr = Inr ([], section_curr)"
| "scan_vec_funcidx all_func (Suc n) section_curr =
     bindE (scan_u32 (in_initializer invalid_elem_funcidx) section_curr) (\<lambda>(funcidx, next).
     bindE (throw_if (funcidx \<ge> all_func)
             (perr section_curr (in_initializer (elem_func_index_exceeds_maxvul funcidx all_func)) parse_invalid)) (\<lambda>_.
     bindE (scan_vec_funcidx all_func n next) (\<lambda>(idxs, rest).
     Inr (funcidx # idxs, rest))))"

definition define_handler_element_type ::
  "wasm1_parser_limit_t \<Rightarrow> wasm_module_storage \<Rightarrow> u32 \<Rightarrow> byte list \<Rightarrow> (wasm1_elem_storage_t \<times> byte list) pres" where
  "define_handler_element_type limit m fet_type section_curr =
     bindE (throw_if (fet_type \<ge> all_table_size m)
             (perr section_curr (in_initializer (elem_table_index_exceeds_maxvul fet_type (all_table_size m))) parse_invalid)) (\<lambda>_.
     bindE (parse_and_check_element_expr_valid m section_curr) (\<lambda>(expr, section_curr).
     bindE (scan_u32 (in_initializer invalid_elem_funcidx_count) section_curr) (\<lambda>(funcidx_count, next).
     bindE (throw_if (unat funcidx_count > max_elem_sec_funcidx limit)
             (perr section_curr (in_common (exceed_the_max_parser_limit ''elemsec_funcidx'' (unat funcidx_count) (max_elem_sec_funcidx limit)))
                parse_invalid)) (\<lambda>_.
     bindE (scan_vec_funcidx (all_func_size m) (unat funcidx_count) next) (\<lambda>(idxs, next).
     Inr (\<lparr>elem_table_idx = fet_type, elem_expr = expr, elem_vec_funcidx = idxs\<rparr>, next))))))"

definition element_section_entry ::
  "wasm1_parser_limit_t \<Rightarrow> wasm_module_storage \<Rightarrow> byte list \<Rightarrow> (wasm1_elem_storage_t \<times> byte list) pres" where
  "element_section_entry limit m section_curr =
     bindE (scan_u32 (in_initializer invalid_elem_table_idx) section_curr) (\<lambda>(elem_kind, section_curr).
     define_handler_element_type limit m elem_kind section_curr)"

definition handle_element_section ::
  "wasm1_parser_limit_t \<Rightarrow> wasm_module_storage \<Rightarrow> byte list \<Rightarrow> byte list \<Rightarrow> element_section_storage_t pres" where
  "handle_element_section limit m section_begin sec_id_module_ptr =
     bindE (throw_if (elemsec_span (elemsec m) \<noteq> None) (perr sec_id_module_ptr (in_common (duplicate_section 9)) parse_invalid)) (\<lambda>_.
     bindE (scan_u32 (in_initializer invalid_elem_count) section_begin) (\<lambda>(elem_count, section_curr).
     bindE (throw_if (unat elem_count > max_elem_sec_elems limit)
             (perr section_begin (in_common (exceed_the_max_parser_limit ''elemsec_elems'' (unat elem_count) (max_elem_sec_elems limit)))
                parse_invalid)) (\<lambda>_.
     bindE (section_loop (\<lambda>_ _. element_section_entry limit m)
             (\<lambda>cnt. in_initializer (elem_section_resolved_exceeded_the_actual_number cnt))
             (\<lambda>counter cnt. in_initializer (element_section_resolved_not_match_the_actual_number counter cnt))
             elem_count 0 (elemsec_elems (elemsec m)) section_curr) (\<lambda>es.
     Inr \<lparr>elemsec_span = Some section_begin, elemsec_elems = es\<rparr>))))"

section \<open>The data section\<close>

definition define_handler_data_type :: "wasm_module_storage \<Rightarrow> u32 \<Rightarrow> byte list \<Rightarrow> (wasm1_data_storage_t \<times> byte list) pres" where
  "define_handler_data_type m fdt_type section_curr =
     bindE (throw_if (fdt_type \<ge> all_memory_size m)
             (perr section_curr (in_initializer (data_memory_index_exceeds_maxvul fdt_type (all_memory_size m))) parse_invalid)) (\<lambda>_.
     bindE (parse_and_check_data_expr_valid m section_curr) (\<lambda>(expr, section_curr).
     bindE (scan_u32 (in_initializer invalid_data_byte_size_count) section_curr) (\<lambda>(byte_size_count, section_curr).
     bindE (throw_if (length section_curr < unat byte_size_count)
             (perr section_curr (in_initializer (illegal_data_byte_size_count byte_size_count)) parse_invalid)) (\<lambda>_.
     Inr (\<lparr>data_memory_idx = fdt_type, data_expr = expr, data_byte = take (unat byte_size_count) section_curr\<rparr>,
          drop (unat byte_size_count) section_curr)))))"

definition data_section_entry :: "wasm_module_storage \<Rightarrow> byte list \<Rightarrow> (wasm1_data_storage_t \<times> byte list) pres" where
  "data_section_entry m section_curr =
     bindE (scan_u32 (in_initializer invalid_data_memory_idx) section_curr) (\<lambda>(data_kind, section_curr).
     define_handler_data_type m data_kind section_curr)"

definition handle_data_section ::
  "wasm1_parser_limit_t \<Rightarrow> wasm_module_storage \<Rightarrow> byte list \<Rightarrow> byte list \<Rightarrow> data_section_storage_t pres" where
  "handle_data_section limit m section_begin sec_id_module_ptr =
     bindE (throw_if (datasec_span (datasec m) \<noteq> None) (perr sec_id_module_ptr (in_common (duplicate_section 11)) parse_invalid)) (\<lambda>_.
     bindE (scan_u32 (in_initializer invalid_data_count) section_begin) (\<lambda>(data_count, section_curr).
     bindE (throw_if (unat data_count > max_data_sec_entries limit)
             (perr section_begin (in_common (exceed_the_max_parser_limit ''datasec_entries'' (unat data_count) (max_data_sec_entries limit)))
                parse_invalid)) (\<lambda>_.
     bindE (section_loop (\<lambda>_ _. data_section_entry m)
             (\<lambda>cnt. in_initializer (data_section_resolved_exceeded_the_actual_number cnt))
             (\<lambda>counter cnt. in_initializer (data_section_resolved_not_match_the_actual_number counter cnt))
             data_count 0 (datasec_datas (datasec m)) section_curr) (\<lambda>ds.
     Inr \<lparr>datasec_span = Some section_begin, datasec_datas = ds\<rparr>))))"

section \<open>Correctness\<close>

definition funcidx_code :: "u32 \<Rightarrow> byte list \<Rightarrow> bool" where
  "funcidx_code i bs \<longleftrightarrow> uN 32 bs (unat i)"

definition element_code :: "wasm1_elem_storage_t \<Rightarrow> byte list \<Rightarrow> bool" where
  "element_code s bs \<longleftrightarrow> (\<exists>t e v. bs = t @ e @ v \<and> uN 32 t (unat (elem_table_idx s)) \<and> const_expr_code (elem_expr s) e \<and>
     vec_code funcidx_code (elem_vec_funcidx s) v)"

definition data_code :: "wasm1_data_storage_t \<Rightarrow> byte list \<Rightarrow> bool" where
  "data_code s bs \<longleftrightarrow> (\<exists>t e n. bs = t @ e @ n @ data_byte s \<and> uN 32 t (unat (data_memory_idx s)) \<and> const_expr_code (data_expr s) e \<and>
     uN 32 n (length (data_byte s)))"

text \<open>The table, the memory and the functions exist, and the offset is an \<open>i32\<close>.\<close>

definition element_valid :: "wasm1_parser_limit_t \<Rightarrow> wasm_module_storage \<Rightarrow> wasm1_elem_storage_t \<Rightarrow> bool" where
  "element_valid limit m s \<longleftrightarrow> unat (elem_table_idx s) < index_space m 1 \<and> const_expr_typed m i32 (elem_expr s) \<and>
     list_all (\<lambda>i. unat i < index_space m 0) (elem_vec_funcidx s) \<and> length (elem_vec_funcidx s) \<le> max_elem_sec_funcidx limit"

definition data_valid :: "wasm_module_storage \<Rightarrow> wasm1_data_storage_t \<Rightarrow> bool" where
  "data_valid m s \<longleftrightarrow> unat (data_memory_idx s) < index_space m 2 \<and> const_expr_typed m i32 (data_expr s)"

lemma elem_storage_eq:
  "s = \<lparr>elem_table_idx = x, elem_expr = y, elem_vec_funcidx = z\<rparr> \<longleftrightarrow> x = elem_table_idx s \<and> y = elem_expr s \<and> z = elem_vec_funcidx s"
  by (cases s) auto

lemma data_storage_eq:
  "s = \<lparr>data_memory_idx = x, data_expr = y, data_byte = z\<rparr> \<longleftrightarrow> x = data_memory_idx s \<and> y = data_expr s \<and> z = data_byte s"
  by (cases s) auto

lemma reads_vec_funcidx:
  assumes "suffix bs bs\<^sub>0"
  shows "reads bs\<^sub>0 bs (\<lambda>is b. length is = n \<and> list_code funcidx_code is b \<and> list_all (\<lambda>i. i < k) is) (scan_vec_funcidx k n bs)"
  using assms
proof (induction n arbitrary: bs)
  case 0
  show ?case unfolding scan_vec_funcidx.simps by (rule reads_cong, rule reads_return) auto
next
  case (Suc n)
  show ?case unfolding scan_vec_funcidx.simps
    by (rule reads_cong, (rule reads_intros Suc.IH Suc.prems | assumption | (simp; fail))+)
      (auto simp: length_Suc_conv list_code_Cons_iff funcidx_code_def not_le; blast)
qed

lemma reads_element_entry:
  assumes "suffix bs bs\<^sub>0" "declarations_ok m"
  shows "reads bs\<^sub>0 bs (\<lambda>s b. element_code s b \<and> element_valid limit m s) (element_section_entry limit m bs)"
  unfolding element_section_entry_def define_handler_element_type_def
proof (rule reads_cong, (rule reads_intros reads_vec_funcidx assms | assumption | (simp; fail))+, goal_cases)
  case (1 s b rest)
  note sz = all_sizes [OF assms(2)]
  have f: "list_all (\<lambda>i. i < all_func_size m) is \<longleftrightarrow> list_all (\<lambda>i. unat i < index_space m 0) is" for "is"
    by (simp add: word_less_nat_alt sz)
  show ?case by (auto simp: elem_storage_eq f element_code_def element_valid_def not_le not_less word_less_nat_alt sz vec_code_count u32_prefix_def;
      metis append_assoc)
qed

lemma reads_take:
  assumes "n \<le> length bs"
  shows "reads bs\<^sub>0 bs (\<lambda>x b. \<exists>z. x = f z \<and> b = z \<and> length z = n) (Inr (f (take n bs), drop n bs))"
  using assms by (auto simp: reads_def intro!: exI [of _ "take n bs"])

lemma reads_data_entry:
  assumes "suffix bs bs\<^sub>0" "declarations_ok m"
  shows "reads bs\<^sub>0 bs (\<lambda>s b. data_code s b \<and> data_valid m s) (data_section_entry m bs)"
  unfolding data_section_entry_def define_handler_data_type_def
proof (rule reads_cong, (rule reads_throw_short reads_intros reads_take assms | assumption | (simp; fail) | (auto; fail))+, goal_cases)
  case (1 s b rest)
  show ?case by (auto simp: data_storage_eq data_code_def data_valid_def not_le word_less_nat_alt all_sizes [OF assms(2)];
      metis append_assoc uN_u32)
qed

lemma element_entries:
  assumes "declarations_ok m"
  shows "section_entry (\<lambda>_ _. element_section_entry limit m) element_code (\<lambda>_. element_valid limit m) (2 ^ 32)"
  by unfold_locales (simp add: reads_element_entry assms, auto simp: element_code_def const_expr_nonempty)

lemma data_entries:
  assumes "declarations_ok m"
  shows "section_entry (\<lambda>_ _. data_section_entry m) data_code (\<lambda>_. data_valid m) (2 ^ 32)"
  by unfold_locales (simp add: reads_data_entry assms, auto simp: data_code_def const_expr_nonempty)

lemma element_section_storage_eq:
  "s = \<lparr>elemsec_span = x, elemsec_elems = y\<rparr> \<longleftrightarrow> x = elemsec_span s \<and> y = elemsec_elems s"
  by (cases s) auto

lemma data_section_storage_eq:
  "s = \<lparr>datasec_span = x, datasec_datas = y\<rparr> \<longleftrightarrow> x = datasec_span s \<and> y = datasec_datas s"
  by (cases s) auto

lemma handles_element_section:
  assumes "declarations_ok m" "elemsec_span (elemsec m) = None" "elemsec_elems (elemsec m) = []" "suffix bs ptr"
  shows "handles ptr (\<lambda>s'. elemsec_span s' = Some bs \<and> vec_code element_code (elemsec_elems s') bs \<and>
      list_all (element_valid limit m) (elemsec_elems s') \<and>
      length (elemsec_elems s') \<le> max_elem_sec_elems limit) (handle_element_section limit m bs ptr)"
proof -
  note loop = section_entry.handles_loop [OF element_entries [OF assms(1)]]
  show ?thesis unfolding handle_element_section_def
    by (rule handles_cong, (rule handles_intros loop unat_u32_le assms suffix_order.refl | assumption | (simp; fail))+)
      (auto simp: vec_code_count element_section_storage_eq assms not_less; blast)
qed

lemma handles_data_section:
  assumes "declarations_ok m" "datasec_span (datasec m) = None" "datasec_datas (datasec m) = []" "suffix bs ptr"
  shows "handles ptr (\<lambda>s'. datasec_span s' = Some bs \<and> vec_code data_code (datasec_datas s') bs \<and>
      list_all (data_valid m) (datasec_datas s') \<and>
      length (datasec_datas s') \<le> max_data_sec_entries limit) (handle_data_section limit m bs ptr)"
proof -
  note loop = section_entry.handles_loop [OF data_entries [OF assms(1)]]
  show ?thesis unfolding handle_data_section_def
    by (rule handles_cong, (rule handles_intros loop unat_u32_le assms suffix_order.refl | assumption | (simp; fail))+)
      (auto simp: vec_code_count data_section_storage_eq assms not_less; blast)
qed

end
