(* ===== verification/Code_Section.thy ===== *)
theory Code_Section
  imports Module_Storage
begin

text \<open>
  The code section (\<^verbatim>\<open>code_section.h\<close>, section id 10): one body per function of the function section, with
  its local variables in runs of equal type. The instructions of a body are left to the validator;
  the parser tests that the body ends with \<^verbatim>\<open>end\<close>.
\<close>

section \<open>The parser\<close>

definition define_check_codesec_value_type :: "byte \<Rightarrow> bool" where
  "define_check_codesec_value_type value_type = is_valid_value_type value_type"

text \<open>
  The loop over the runs of locals. \<open>all_clocal_counter\<close> counts the locals so far; the result is the list of
  runs with the final count.
\<close>

fun scan_locals :: "u32 \<Rightarrow> u32 \<Rightarrow> nat \<Rightarrow> u32 \<Rightarrow> byte list \<Rightarrow> ((local_entry list \<times> u32) \<times> byte list) pres" where
  "scan_locals max_local_defined_count parameter_size 0 all_clocal_counter section_curr = Inr (([], all_clocal_counter), section_curr)"
| "scan_locals max_local_defined_count parameter_size (Suc n) all_clocal_counter section_curr =
     bindE (scan_u32 (in_definition invalid_clocal_n) section_curr) (\<lambda>(clocal_n, p).
     bindE (throw_if (clocal_n > max_local_defined_count - all_clocal_counter)
             (perr section_curr (in_definition (final_list_of_locals_exceeds_the_maximum_value_of_u32max_minus_parameter_size parameter_size))
                parse_invalid)) (\<lambda>_.
     bindE (read_byte (in_definition code_missing_local_type) p) (\<lambda>(fvt, next).
     bindE (throw_if (\<not> define_check_codesec_value_type fvt) (perr p (in_declaration (illegal_value_type fvt)) parse_invalid)) (\<lambda>_.
     bindE (scan_locals max_local_defined_count parameter_size n (all_clocal_counter + clocal_n) next) (\<lambda>(r, rest).
     Inr ((\<lparr>count = clocal_n, local_type = to_value_type fvt\<rparr> # fst r, snd r), rest))))))"

text \<open>The code between \<open>code_begin\<close> and \<open>code_end\<close>, for the function that \<open>code_counter\<close> counts.\<close>

definition scan_code_body :: "wasm1_parser_limit_t \<Rightarrow> wasm_module_storage \<Rightarrow> u32 \<Rightarrow> byte list \<Rightarrow> final_wasm_code_t pres" where
  "scan_code_body limit m code_counter code_begin =
     bindE (scan_u32 (in_definition invalid_local_count) code_begin) (\<lambda>(local_count, section_curr).
     bindE (throw_if (unat local_count > max_code_locals limit)
             (perr code_begin (in_common (exceed_the_max_parser_limit ''code_locals'' (unat local_count) (max_code_locals limit)))
                parse_invalid)) (\<lambda>_.
     bindE (funcs_index_unchecked (functionsec_funcs (functionsec m)) (unat (code_counter - 1))) (\<lambda>type_index.
     bindE (index_unchecked (mod_types m) (unat type_index)) (\<lambda>curr_code_match_type.
     let parameter_size = of_nat (length (parameter curr_code_match_type)) in
     bindE (scan_locals (- 1 - parameter_size) parameter_size (unat local_count) 0 section_curr) (\<lambda>(r, section_curr).
     bindE (throw_if (section_curr = []) (perr section_curr (in_definition missing_code_body_end) parse_invalid)) (\<lambda>_.
     bindE (throw_if (last code_begin \<noteq> 0x0B) (perr [last code_begin] (in_definition missing_code_body_end) parse_invalid)) (\<lambda>_.
     Inr \<lparr>code_body = \<lparr>body_bytes = code_begin, body_expr_bytes = section_curr\<rparr>, code_locals = fst r, code_all_local_count = snd r\<rparr>)))))))"

definition code_section_entry ::
  "wasm1_parser_limit_t \<Rightarrow> wasm_module_storage \<Rightarrow> u32 \<Rightarrow> byte list \<Rightarrow> (final_wasm_code_t \<times> byte list) pres" where
  "code_section_entry limit m code_counter section_curr =
     bindE (scan_u32 (in_definition invalid_code_body_size) section_curr) (\<lambda>(body_size, section_curr).
     bindE (throw_if (length section_curr < unat body_size)
             (perr section_curr (in_definition (illegal_code_body_size body_size)) parse_invalid)) (\<lambda>_.
     bindE (shift_err (drop (unat body_size) section_curr) (scan_code_body limit m code_counter (take (unat body_size) section_curr))) (\<lambda>code.
     Inr (code, drop (unat body_size) section_curr))))"

definition handle_code_section ::
  "wasm1_parser_limit_t \<Rightarrow> wasm_module_storage \<Rightarrow> byte list \<Rightarrow> byte list \<Rightarrow> code_section_storage_t pres" where
  "handle_code_section limit m section_begin sec_id_module_ptr =
     (let defined_func_count = of_nat (funcs_size (functionsec_funcs (functionsec m))) :: u32 in
     bindE (throw_if (codesec_span (codesec m) \<noteq> None) (perr sec_id_module_ptr (in_common (duplicate_section 10)) parse_invalid)) (\<lambda>_.
     bindE (scan_u32 (in_definition invalid_code_count) section_begin) (\<lambda>(code_count, section_curr).
     bindE (throw_if (code_count \<noteq> defined_func_count)
             (perr section_begin (in_definition (code_ne_defined_func code_count defined_func_count)) parse_invalid)) (\<lambda>_.
     bindE (throw_if (unat code_count > max_code_sec_codes limit)
             (perr section_begin (in_common (exceed_the_max_parser_limit ''codesec_codes'' (unat code_count) (max_code_sec_codes limit)))
                parse_invalid)) (\<lambda>_.
     bindE (section_loop (\<lambda>counter _. code_section_entry limit m counter)
             (\<lambda>cnt. in_definition (code_section_resolved_exceeded_the_actual_number cnt))
             (\<lambda>counter cnt. in_definition (code_section_resolved_not_match_the_actual_number counter cnt))
             code_count 0 (codesec_codes (codesec m)) section_curr) (\<lambda>cs.
     Inr \<lparr>codesec_span = Some section_begin, codesec_codes = cs\<rparr>))))))"

section \<open>Locals\<close>

definition local_code :: "local_entry \<Rightarrow> byte list \<Rightarrow> bool" where
  "local_code l bs \<longleftrightarrow> (\<exists>n t. bs = n @ t \<and> uN 32 n (unat (count l)) \<and> valtype_code (local_type l) t)"

definition locals_sum :: "local_entry list \<Rightarrow> nat" where
  "locals_sum ls = sum_list (map (\<lambda>l. unat (count l)) ls)"

lemma locals_sum_simps [simp]: "locals_sum [] = 0" "locals_sum (l # ls) = unat (count l) + locals_sum ls"
  by (simp_all add: locals_sum_def)

lemma local_entry_eq: "l = \<lparr>count = n, local_type = t\<rparr> \<longleftrightarrow> n = count l \<and> t = local_type l"
  by (cases l) auto

lemma list_local_Cons: "list_code local_code (l # ls) bs \<longleftrightarrow>
    (\<exists>n b rest. bs = n @ b # rest \<and> uN 32 n (unat (count l)) \<and> is_valid_value_type b \<and> local_type l = to_value_type b \<and>
      list_code local_code ls rest)" (is "?L = ?R")
proof
  assume ?L
  then show ?R by (fastforce simp: list_code_Cons_iff local_code_def valtype_code_iff)
next
  assume ?R
  then obtain n b rest where r: "bs = (n @ [b]) @ rest" "uN 32 n (unat (count l))" "is_valid_value_type b"
    "local_type l = to_value_type b" "list_code local_code ls rest" by auto
  then have "local_code l (n @ [b])" by (auto simp: local_code_def valtype_code_iff)
  then show ?L unfolding r(1) using r(5) by (rule list_code_Cons)
qed

lemma u32_within: "all \<le> mx \<Longrightarrow> (mx - all < (n::u32)) = (\<not> unat all + unat n \<le> unat mx)"
  by (auto simp: word_less_nat_alt unat_sub word_le_nat_alt)

lemma reads_locals:
  assumes "suffix bs bs\<^sub>0" "all \<le> mx"
  shows "reads bs\<^sub>0 bs (\<lambda>r b. length (fst r) = n \<and> list_code local_code (fst r) b \<and> unat all + locals_sum (fst r) \<le> unat mx \<and>
      unat (snd r) = unat all + locals_sum (fst r)) (scan_locals mx ps n all bs)"
  using assms
proof (induction n arbitrary: bs all)
  case 0
  show ?case unfolding scan_locals.simps
    by (rule reads_cong, rule reads_return) (use 0 in \<open>auto simp: word_unat_eq_iff word_le_nat_alt prod_eq_iff\<close>)
next
  case (Suc n)
  have sum: "unat (all + k) = unat all + unat k \<and> all + k \<le> mx" if "\<not> mx - all < k" for k :: u32
  proof -
    have "unat all + unat k \<le> unat mx" using that u32_within [OF Suc.prems(2)] by simp
    then show ?thesis using unsigned_less [of mx, where 'a = nat] by (simp add: unat_word_ariths word_le_nat_alt)
  qed
  show ?case unfolding scan_locals.simps define_check_codesec_value_type_def
  proof (rule reads_cong, (rule reads_intros Suc.IH Suc.prems(1) | assumption | (simp add: sum; fail))+, goal_cases)
    case (1 r b rest)
    show ?case (is "?L = ?R")
    proof
      assume ?L
      then show ?R using sum by (auto simp: list_local_Cons) (metis add.assoc)+
    next
      assume R: ?R
      then obtain l ls where r: "fst r = l # ls" "length ls = n" by (auto simp: length_Suc_conv)
      with R obtain k c bs' where b: "b = k @ c # bs'" "uN 32 k (unat (count l))" "is_valid_value_type c" "local_type l = to_value_type c"
        "list_code local_code ls bs'" by (auto simp: list_local_Cons)
      have "\<not> mx - all < count l" using R r u32_within [OF Suc.prems(2), of "count l"] by simp
      with R r b show ?L using sum [of "count l"]
        by (intro exI [of _ "count l"] exI [of _ k] exI [of _ "c # bs'"]) (auto simp: local_entry_eq prod_eq_iff intro!: exI [of _ "(ls, snd r)"])
    qed
  qed
qed

section \<open>Bodies\<close>

definition func_body :: "final_wasm_code_t \<Rightarrow> byte list \<Rightarrow> bool" where
  "func_body c bs \<longleftrightarrow> body_bytes (code_body c) = bs \<and>
     (\<exists>lb. bs = lb @ body_expr_bytes (code_body c) \<and> vec_code local_code (code_locals c) lb) \<and>
     body_expr_bytes (code_body c) \<noteq> [] \<and> last (body_expr_bytes (code_body c)) = 0x0B \<and>
     unat (code_all_local_count c) = locals_sum (code_locals c)"

definition code_code :: "final_wasm_code_t \<Rightarrow> byte list \<Rightarrow> bool" where
  "code_code c bs \<longleftrightarrow> (\<exists>n b. bs = n @ b \<and> uN 32 n (length b) \<and> func_body c b)"

text \<open>The locals of the \<open>i\<close>-th body, with the parameters of its type, fit \<open>u32\<close>.\<close>

definition code_valid :: "wasm1_parser_limit_t \<Rightarrow> wasm_module_storage \<Rightarrow> nat \<Rightarrow> final_wasm_code_t \<Rightarrow> bool" where
  "code_valid limit m i c \<longleftrightarrow> length (code_locals c) \<le> max_code_locals limit \<and>
     local_total (mod_types m ! (mod_funcs m ! i)) (code_locals c) < 2 ^ 32"

lemma final_wasm_code_eq:
  "c = \<lparr>code_body = \<lparr>body_bytes = b, body_expr_bytes = e\<rparr>, code_locals = ls, code_all_local_count = k\<rparr> \<longleftrightarrow>
     b = body_bytes (code_body c) \<and> e = body_expr_bytes (code_body c) \<and> ls = code_locals c \<and> k = code_all_local_count c"
  by (cases c; cases "code_body c") auto

lemma func_body_locals: "func_body c bs \<Longrightarrow> \<exists>k. bs = k @ body_expr_bytes (code_body c) \<and> vec_code local_code (code_locals c) k"
  by (simp add: func_body_def)

lemma suffix_last: "rest \<noteq> [] \<Longrightarrow> suffix rest bs \<Longrightarrow> suffix [last bs] bs"
  by (auto simp: suffix_def) (metis append_butlast_last_id append_assoc)

lemma handles_code_body:
  assumes "declarations_ok m" "i < length (mod_funcs m)" "unat counter = Suc i"
  shows "handles bs (\<lambda>c. func_body c bs \<and> code_valid limit m i c) (scan_code_body limit m counter bs)"
proof -
  let ?t = "mod_funcs m ! i" and ?ft = "mod_types m ! (mod_funcs m ! i)"
  let ?mx = "- 1 - of_nat (length (parameter ?ft)) :: u32"
  have t: "?t < length (mod_types m)" using declarations_okD(3) [OF assms(1)] assms(2) by (simp add: list_all_length)
  have "unat (counter - 1) = i" using assms(3) by (metis diff_Suc_1 unat_gt_0 unat_minus_one zero_less_Suc word_gt_0)
  then have fi: "(funcs_index_unchecked (functionsec_funcs (functionsec m)) (unat (counter - 1)) :: u32 pres) = Inr (of_nat ?t)"
    using assms(2) by (simp add: funcs_access)
  have ti: "(index_unchecked (mod_types m) (unat (of_nat ?t :: u32)) :: function_type pres) = Inr ?ft"
    using t declarations_okD(1) [OF assms(1)] by (simp add: index_unchecked_def unat_of_nat)
  have p: "length (parameter ?ft) < 2 ^ 32" using declarations_okD(6) [OF assms(1)] t by (simp add: list_all_length wf_function_type_def)
  then have mx: "unat ?mx = 2 ^ 32 - 1 - length (parameter ?ft)"
    by (simp add: unat_sub_if' unat_of_nat unsigned_minus_1_eq_mask mask_eq_exp_minus_1)
  show ?thesis unfolding scan_code_body_def fi ti bindE_simps Let_def
  proof (rule handles_cong, (rule handles_intros suffix_order.refl suffix_last
        handles_reads [OF _ reads_locals [OF suffix_order.refl word_zero_le]] | assumption | (simp; fail))+, goal_cases)
    case (1 c)
    have le: "k \<le> unat ?mx \<longleftrightarrow> length (parameter ?ft) + k < 2 ^ 32" for k unfolding mx using p by auto
    note defs = final_wasm_code_eq func_body_def code_valid_def local_total_def locals_sum_def [symmetric] vec_code_count u32_prefix_def
      not_less
    show ?case (is "?L = ?R")
    proof
      assume ?L
      then show ?R unfolding le by (auto simp: defs) (metis append_assoc, metis append_assoc last_appendR)
    next
      assume R: ?R
      then have "func_body c bs" by (rule conjunct1)
      from func_body_locals [OF this] obtain k where k: "bs = k @ body_expr_bytes (code_body c)" "vec_code local_code (code_locals c) k"
        by (elim exE conjE)
      obtain v :: u32 and lb n where "length (code_locals c) = unat v" "list_code local_code (code_locals c) lb" "k = n @ lb" "uN 32 n (unat v)"
        using k(2) unfolding vec_code_count u32_prefix_def by blast
      with R k(1) show ?L unfolding le
        by (intro exI [of _ v] exI [of _ "lb @ body_expr_bytes (code_body c)"] exI [of _ "(code_locals c, code_all_local_count c)"]
            exI [of _ lb] exI [of _ "body_expr_bytes (code_body c)"] conjI) (auto simp: defs)
    qed
  qed
qed

text \<open>A routine that must use up a range of known length, in the contract of an element parser.\<close>

lemma reads_range:
  assumes "n \<le> length bs" "suffix bs bs\<^sub>0" "\<And>b. handles b (Q b) (r b)"
  shows "reads bs\<^sub>0 bs (\<lambda>x b. length b = n \<and> Q b x) (bindE (shift_err (drop n bs) (r (take n bs))) (\<lambda>x. Inr (x, drop n bs)))"
proof -
  note h = handlesD [OF assms(3) [of "take n bs"]]
  have "throws_in bs\<^sub>0 f" if "shift_err (drop n bs) (r (take n bs)) = Inl f" for f
    using shift_err_throws [OF h(2) that, of bs\<^sub>0] assms(2) by simp
  then show ?thesis using assms(1) h(1)
    by (auto simp: reads_def bindE_eq_Inr bindE_eq_Inl intro!: exI [of _ "take n bs"])
qed

lemma reads_code_entry:
  assumes "declarations_ok m" "i < length (mod_funcs m)" "unat counter = Suc i" "suffix bs bs\<^sub>0"
  shows "reads bs\<^sub>0 bs (\<lambda>c b. code_code c b \<and> code_valid limit m i c) (code_section_entry limit m counter bs)"
  unfolding code_section_entry_def
proof (rule reads_cong, (rule reads_throw_short reads_bind reads_scan_u32 reads_range handles_code_body [OF assms(1-3)] assms(4) | assumption
      | (simp; fail))+, goal_cases)
  case (1 c b rest)
  show ?case by (auto simp: code_code_def) (metis uN_u32)+
qed

lemma code_entries:
  assumes "declarations_ok m"
  shows "section_entry (\<lambda>counter _. code_section_entry limit m counter) code_code (\<lambda>cs. code_valid limit m (length cs)) (length (mod_funcs m))"
  by unfold_locales (simp add: reads_code_entry assms, auto simp: code_code_def)

lemma code_section_storage_eq:
  "s = \<lparr>codesec_span = x, codesec_codes = y\<rparr> \<longleftrightarrow> x = codesec_span s \<and> y = codesec_codes s"
  by (cases s) auto

lemma handles_code_section:
  assumes "declarations_ok m" "codesec_span (codesec m) = None" "codesec_codes (codesec m) = []" "suffix bs ptr"
  shows "handles ptr (\<lambda>s'. codesec_span s' = Some bs \<and> vec_code code_code (codesec_codes s') bs \<and>
      length (codesec_codes s') = length (mod_funcs m) \<and>
      (\<forall>i < length (codesec_codes s'). code_valid limit m i (codesec_codes s' ! i)) \<and>
      length (codesec_codes s') \<le> max_code_sec_codes limit) (handle_code_section limit m bs ptr)"
proof -
  note loop = section_entry.handles_loop [OF code_entries [OF assms(1)]]
  have "length (mod_funcs m) < 2 ^ 32" using declarations_okD(4) [OF assms(1), of 0] by (simp add: index_space_def defined_count_def)
  then have n: "c \<noteq> of_nat (funcs_size (functionsec_funcs (functionsec m))) \<longleftrightarrow> unat c \<noteq> length (mod_funcs m)" for c :: u32
    by (simp add: funcs_access word_unat_eq_iff unat_of_nat)
  show ?thesis unfolding handle_code_section_def Let_def n
    by (rule handles_cong, (rule handles_intros loop assms suffix_order.refl | assumption | (simp; fail))+)
      (auto simp: vec_code_count code_section_storage_eq all_after_index [where acc = "[]", simplified] assms not_less; metis)
qed

end
