(* ===== verification/Custom_Section.thy ===== *)
theory Custom_Section
  imports Module_Storage
begin

text \<open>
  Custom sections (\<^verbatim>\<open>custom_section.h\<close>, section id 0) and the table that places some of them in the order of
  sections (\<^verbatim>\<open>handler_def.h\<close>, \<^verbatim>\<open>sequence.h\<close>). WebAssembly 1.0 places one: the section \<^verbatim>\<open>name\<close> follows the data
  section. The table is searched by a hash of the name; the hash function is a parameter of the model, and no result
  below depends on it.
\<close>

section \<open>The order of sections\<close>

record max_section_id_map_sec_id_t =
  max_section_id :: byte
  max_section_id_map_sec_id :: byte

type_synonym mapping_entry = "byte list \<times> byte"

text \<open>One entry counted into the slots of a table; the state is the slots, \<open>need_expand\<close>, \<open>extra_size\<close> and \<open>real_max_conflict_size\<close>.\<close>

definition count_conflict :: "(byte list \<Rightarrow> nat) \<Rightarrow> nat \<Rightarrow> nat list \<times> bool \<times> nat \<times> nat \<Rightarrow> mapping_entry \<Rightarrow> nat list \<times> bool \<times> nat \<times> nat" where
  "count_conflict xxh3 hash_size st j =
     (case st of (slots, need_expand, extra_size, real_max_conflict_size) \<Rightarrow>
        let val = xxh3 (fst j) mod hash_size; n = slots ! val + 1 in
        (slots[val := n], need_expand \<or> n > 8, if n = 2 then extra_size + 1 else extra_size, max real_max_conflict_size n))"

text \<open>The table size is doubled from 16 on; \<open>digits10\<close> of \<open>size_t\<close> is 19.\<close>

function calculate_hash_table_size :: "(byte list \<Rightarrow> nat) \<Rightarrow> mapping_entry list \<Rightarrow> nat \<Rightarrow> (nat \<times> nat \<times> nat) option" where
  "calculate_hash_table_size xxh3 entries i =
     (if i < 19
      then case foldl (count_conflict xxh3 (2 ^ i)) (replicate (2 ^ i) 0, False, 0, 0) entries of (slots, need_expand, extra_size, conflicts) \<Rightarrow>
        if \<not> need_expand then Some (2 ^ i, extra_size, conflicts) else calculate_hash_table_size xxh3 entries (i + 1)
      else None)"
  by pat_completeness auto
termination
  by (relation "measure (\<lambda>(x, e, i). 19 - i)") auto

declare calculate_hash_table_size.simps [simp del]

text \<open>
  Building and searching a table without conflicts (\<open>conflict_size\<close> is 0): the branch that is compiled for the one
  entry of WebAssembly 1.0.
\<close>

definition generate_custom_section_sequential_mapping_table :: "(byte list \<Rightarrow> nat) \<Rightarrow> nat \<Rightarrow> mapping_entry list \<Rightarrow> mapping_entry list" where
  "generate_custom_section_sequential_mapping_table xxh3 hash_table_size entries =
     foldl (\<lambda>ht j. ht[xxh3 (fst j) mod hash_table_size := j]) (replicate hash_table_size ([], 0)) entries"

definition find_from_custom_section_sequential_mapping_table :: "(byte list \<Rightarrow> nat) \<Rightarrow> mapping_entry list \<Rightarrow> byte list \<Rightarrow> byte" where
  "find_from_custom_section_sequential_mapping_table xxh3 table name =
     (let htval = table ! (xxh3 name mod length table) in if name = fst htval then snd htval else 0)"

definition name_section :: "byte list" where
  "name_section = [0x6E, 0x61, 0x6D, 0x65]"

definition custom_section_sequential_mapping_table_entries :: "mapping_entry list" where
  "custom_section_sequential_mapping_table_entries = [(name_section, 12)]"

definition custom_order :: "(byte list \<Rightarrow> nat) \<Rightarrow> byte list \<Rightarrow> byte" where
  "custom_order xxh3 name =
     (case calculate_hash_table_size xxh3 custom_section_sequential_mapping_table_entries 4 of
        None \<Rightarrow> 0
      | Some (hash_table_size, _, _) \<Rightarrow>
          find_from_custom_section_sequential_mapping_table xxh3
            (generate_custom_section_sequential_mapping_table xxh3 hash_table_size custom_section_sequential_mapping_table_entries) name)"

lemma hash_table_size_wasm1:
  "calculate_hash_table_size xxh3 custom_section_sequential_mapping_table_entries 4 = Some (16, 0, 1)"
  by (simp add: calculate_hash_table_size.simps [of _ _ 4] custom_section_sequential_mapping_table_entries_def count_conflict_def Let_def)

lemma custom_order_eq: "custom_order xxh3 name = (if name = name_section then 12 else 0)"
proof -
  let ?h = "\<lambda>n. xxh3 n mod 16"
  have "generate_custom_section_sequential_mapping_table xxh3 16 custom_section_sequential_mapping_table_entries =
      (replicate 16 ([], 0))[?h name_section := (name_section, 12)]"
    by (simp add: generate_custom_section_sequential_mapping_table_def custom_section_sequential_mapping_table_entries_def)
  moreover have "?h n < 16" for n by simp
  ultimately show ?thesis
    by (cases "?h name = ?h name_section")
      (auto simp: custom_order_def hash_table_size_wasm1 find_from_custom_section_sequential_mapping_table_def Let_def nth_list_update)
qed

section \<open>The parser\<close>

definition handle_custom_section ::
  "(byte list \<Rightarrow> nat) \<Rightarrow> wasm_module_storage \<Rightarrow> max_section_id_map_sec_id_t \<Rightarrow> byte list \<Rightarrow>
   (custom_section_storage_t \<times> max_section_id_map_sec_id_t) pres" where
  "handle_custom_section xxh3 m wasm_order section_begin =
     bindE (scan_u32 (in_common invalid_custom_name_length) section_begin) (\<lambda>(name_len, section_curr).
     bindE (throw_if (length section_curr < unat name_len) (perr section_curr (in_common (illegal_custom_name_length name_len)) parse_invalid)) (\<lambda>_.
     let name = take (unat name_len) section_curr; content = drop (unat name_len) section_curr in
     bindE (case check_legal_utf8_unchecked name of (utf8pos, utf8err) \<Rightarrow>
              throw_if (utf8err \<noteq> success) (perr (utf8pos @ content) (in_common (invalid_char_sequence utf8err)) parse_invalid)) (\<lambda>_.
     let curr_section_order = custom_order xxh3 name in
     bindE (throw_if (curr_section_order \<noteq> 0 \<and> curr_section_order < max_section_id wasm_order)
             (perr section_curr (in_common (illegal_custom_section_order name curr_section_order
                (max_section_id wasm_order) (max_section_id_map_sec_id wasm_order))) parse_invalid)) (\<lambda>_.
     Inr (\<lparr>customsec_customs = customsec_customs (customsec m) @
             [\<lparr>custom_span = section_begin, custom_name = name, custom_content = content\<rparr>]\<rparr>,
          if curr_section_order \<noteq> 0 then \<lparr>max_section_id = curr_section_order, max_section_id_map_sec_id = 0\<rparr> else wasm_order)))))"

section \<open>Correctness\<close>

text \<open>
  What a custom section must look like and what it leaves in the module: a name followed by any bytes; the section
  \<^verbatim>\<open>name\<close> must not precede a section of higher order.
\<close>

definition custom_section_ok ::
  "custom_section_storage_t \<Rightarrow> max_section_id_map_sec_id_t \<Rightarrow> byte list \<Rightarrow> custom_section_storage_t \<Rightarrow> max_section_id_map_sec_id_t \<Rightarrow> bool" where
  "custom_section_ok s wo bs s' wo' \<longleftrightarrow>
     (\<exists>n name content. bs = n @ content \<and> name_code name n \<and> (name = name_section \<longrightarrow> max_section_id wo \<le> 12) \<and>
        s' = \<lparr>customsec_customs = customsec_customs s @ [\<lparr>custom_span = bs, custom_name = name, custom_content = content\<rparr>]\<rparr> \<and>
        wo' = (if name = name_section then \<lparr>max_section_id = 12, max_section_id_map_sec_id = 0\<rparr> else wo))"

lemma handles_text_format:
  assumes "suffix (name @ after) ptr" "utf8_string name \<Longrightarrow> handles ptr P (f ())"
  shows "handles ptr (\<lambda>s. utf8_string name \<and> P s) (bindE (check_import_export_text_format name after) f)"
  using check_text_format_outcome [OF assms(1)] handlesD [OF assms(2)] by (auto simp: handles_def bindE_eq_Inr bindE_eq_Inl)

lemma name_prefix:
  "(\<exists>cnt rest. u32_prefix bs cnt rest \<and> \<not> length rest < unat cnt \<and> utf8_string (take (unat cnt) rest) \<and>
      R (take (unat cnt) rest) (drop (unat cnt) rest)) \<longleftrightarrow> (\<exists>n name content. bs = n @ content \<and> name_code name n \<and> R name content)"
  (is "?L = ?R")
proof
  assume ?L
  then obtain v :: u32 and n rest where r: "bs = (n @ take (unat v) rest) @ drop (unat v) rest" "uN 32 n (unat v)" "unat v \<le> length rest"
    "utf8_string (take (unat v) rest)" "R (take (unat v) rest) (drop (unat v) rest)" by (auto simp: u32_prefix_def not_less)
  then have "name_code (take (unat v) rest) (n @ take (unat v) rest)" by (auto simp: name_code_def)
  with r(1,5) show ?R by blast
next
  assume ?R
  then obtain n name content where r: "bs = n @ name @ content" "uN 32 n (length name)" "utf8_string name" "R name content"
    by (auto simp: name_code_def)
  then obtain v :: u32 where "length name = unat v" using uN_u32 by blast
  with r show ?L by (intro exI [of _ v] exI [of _ "name @ content"]) (auto simp: u32_prefix_def)
qed

lemma handles_custom_section:
  assumes "suffix bs ptr"
  shows "handles ptr (\<lambda>r. custom_section_ok (customsec m) wo bs (fst r) (snd r)) (handle_custom_section xxh3 m wo bs)"
proof -
  have t: "(case check_legal_utf8_unchecked name of (utf8pos, utf8err) \<Rightarrow>
      throw_if (utf8err \<noteq> success) (perr (utf8pos @ after) (in_common (invalid_char_sequence utf8err)) parse_invalid)) =
      check_import_export_text_format name after" for name after
    by (simp add: check_import_export_text_format_def)
  have o: "(custom_order xxh3 name \<noteq> 0 \<and> custom_order xxh3 name < k) = (name = name_section \<and> \<not> k \<le> 12)"
    "(if custom_order xxh3 name \<noteq> 0 then \<lparr>max_section_id = custom_order xxh3 name, max_section_id_map_sec_id = 0\<rparr> else wo) =
      (if name = name_section then \<lparr>max_section_id = 12, max_section_id_map_sec_id = 0\<rparr> else wo)" for name k
    by (simp_all add: custom_order_eq not_le)
  show ?thesis unfolding handle_custom_section_def Let_def t o
  proof (rule handles_cong, (rule handles_intros handles_text_format assms | assumption | (simp; fail))+, goal_cases)
    case (1 r)
    show ?case unfolding custom_section_ok_def
      using name_prefix [of bs "\<lambda>name content. (name = name_section \<longrightarrow> max_section_id wo \<le> 12) \<and>
        r = (\<lparr>customsec_customs = customsec_customs (customsec m) @ [\<lparr>custom_span = bs, custom_name = name, custom_content = content\<rparr>]\<rparr>,
          if name = name_section then \<lparr>max_section_id = 12, max_section_id_map_sec_id = 0\<rparr> else wo)"]
      by (simp add: prod_eq_iff split del: if_split)
  qed
qed

end
