(* ===== verification/Module_Parser.thy ===== *)
theory Module_Parser
  imports Global_Section Export_Section Segment_Sections Code_Section Custom_Section
begin

text \<open>
  The driver of the parser: \<^verbatim>\<open>wasm_binfmt_ver1_handle_func\<close> (\<^verbatim>\<open>binfmt/binfmt_ver1/handler.h\<close>) with the dispatch to the
  section handlers, the order of sections and the final check (\<^verbatim>\<open>final_check.h\<close>).

  The begin pointer of a range never lies behind its end here, so \<^verbatim>\<open>illegal_begin_pointer\<close> does not occur. A handler
  works on the bytes of its section; the driver adds the bytes that follow to the position of an error.
\<close>

section \<open>The parser\<close>

definition is_wasm_file_unchecked :: "byte list \<Rightarrow> bool" where
  "is_wasm_file_unchecked module_curr \<longleftrightarrow> take 4 module_curr = [0x00, 0x61, 0x73, 0x6D]"

definition handle_all_binfmt_ver1_extensible_section ::
  "(byte list \<Rightarrow> nat) \<Rightarrow> wasm1_parser_limit_t \<Rightarrow> wasm_module_storage \<Rightarrow> byte \<Rightarrow> byte list \<Rightarrow> max_section_id_map_sec_id_t \<Rightarrow> byte list \<Rightarrow>
   (wasm_module_storage \<times> max_section_id_map_sec_id_t) pres" where
  "handle_all_binfmt_ver1_extensible_section xxh3 limit m section_id bs wasm_order sec_id_module_ptr =
     (if section_id = 0 then bindE (handle_custom_section xxh3 m wasm_order bs) (\<lambda>(s, wasm_order). Inr (m\<lparr>customsec := s\<rparr>, wasm_order))
      else if section_id = 1 then bindE (handle_type_section limit (typesec m) bs sec_id_module_ptr) (\<lambda>s. Inr (m\<lparr>typesec := s\<rparr>, wasm_order))
      else if section_id = 2 then bindE (handle_import_section limit (mod_types m) (importsec m) bs sec_id_module_ptr) (\<lambda>s. Inr (m\<lparr>importsec := s\<rparr>, wasm_order))
      else if section_id = 3
        then bindE (handle_function_section limit (mod_types m) (length (imported m 0)) (functionsec m) bs sec_id_module_ptr) (\<lambda>s. Inr (m\<lparr>functionsec := s\<rparr>, wasm_order))
      else if section_id = 4
        then bindE (handle_table_section limit (length (imported m 1)) (tablesec m) bs sec_id_module_ptr) (\<lambda>s. Inr (m\<lparr>tablesec := s\<rparr>, wasm_order))
      else if section_id = 5
        then bindE (handle_memory_section limit (length (imported m 2)) (memorysec m) bs sec_id_module_ptr) (\<lambda>s. Inr (m\<lparr>memorysec := s\<rparr>, wasm_order))
      else if section_id = 6 then bindE (handle_global_section limit m bs sec_id_module_ptr) (\<lambda>s. Inr (m\<lparr>globalsec := s\<rparr>, wasm_order))
      else if section_id = 7 then bindE (handle_export_section limit m bs sec_id_module_ptr) (\<lambda>s. Inr (m\<lparr>exportsec := s\<rparr>, wasm_order))
      else if section_id = 8 then bindE (handle_start_section m bs sec_id_module_ptr) (\<lambda>s. Inr (m\<lparr>startsec := s\<rparr>, wasm_order))
      else if section_id = 9 then bindE (handle_element_section limit m bs sec_id_module_ptr) (\<lambda>s. Inr (m\<lparr>elemsec := s\<rparr>, wasm_order))
      else if section_id = 10 then bindE (handle_code_section limit m bs sec_id_module_ptr) (\<lambda>s. Inr (m\<lparr>codesec := s\<rparr>, wasm_order))
      else if section_id = 11 then bindE (handle_data_section limit m bs sec_id_module_ptr) (\<lambda>s. Inr (m\<lparr>datasec := s\<rparr>, wasm_order))
      else Inl (Throw (perr sec_id_module_ptr (in_common (illegal_section_id section_id)) parse_invalid)))"

text \<open>A section id other than 0 becomes the new maximum; custom sections are placed by their handler.\<close>

definition next_order :: "max_section_id_map_sec_id_t \<Rightarrow> byte \<Rightarrow> max_section_id_map_sec_id_t" where
  "next_order max_order sec_id = (if sec_id \<noteq> 0 then \<lparr>max_section_id = sec_id, max_section_id_map_sec_id = sec_id\<rparr> else max_order)"

text \<open>The header of a section: its id, tested against the order, and its length.\<close>

definition section_header :: "max_section_id_map_sec_id_t \<Rightarrow> byte list \<Rightarrow> ((byte \<times> nat) \<times> byte list) pres" where
  "section_header max_order module_curr =
     bindE (next_byte module_curr) (\<lambda>(sec_id, p).
     bindE (throw_if (sec_id \<noteq> 0 \<and> sec_id < max_section_id max_order)
             (perr module_curr (in_common (invalid_section_canonical_order sec_id (max_section_id_map_sec_id max_order))) parse_invalid)) (\<lambda>_.
     bindE (scan_u32 (in_common invalid_section_length) p) (\<lambda>(sec_len, q).
     bindE (throw_if (length q < unat sec_len) (perr q (in_common (illegal_section_length sec_len)) parse_invalid)) (\<lambda>_.
     Inr ((sec_id, unat sec_len), q)))))"

function module_loop ::
  "(byte list \<Rightarrow> nat) \<Rightarrow> wasm1_parser_limit_t \<Rightarrow> wasm_module_storage \<Rightarrow> max_section_id_map_sec_id_t \<Rightarrow> byte list \<Rightarrow> wasm_module_storage pres" where
  "module_loop xxh3 limit m max_order module_curr =
     bindE (section_header max_order module_curr) (\<lambda>(h, p).
     let sec_end = drop (snd h) p; sec_id_module_ptr = take (length module_curr - length sec_end) module_curr in
     bindE (shift_err sec_end (handle_all_binfmt_ver1_extensible_section xxh3 limit m (fst h) (take (snd h) p) (next_order max_order (fst h)) sec_id_module_ptr))
       (\<lambda>r. if sec_end = [] then Inr (fst r) else module_loop xxh3 limit (fst r) (snd r) sec_end))"
  by pat_completeness auto
termination
proof (relation "measure (\<lambda>(x, limit, m, wo, p). length p)", goal_cases)
  case (2 xxh3 limit m wo p r h q sec_end ptr r')
  then have "length q < length p"
    by (auto simp: section_header_def next_byte_def res_simps dest: scan_u32_shorter split: list.splits)
  with 2 show ?case by simp
qed simp

declare module_loop.simps [simp del]

definition define_final_check :: "wasm_module_storage \<Rightarrow> unit pres" where
  "define_final_check m =
     (let defined_code_count = of_nat (length (codesec_codes (codesec m))) :: u32;
          defined_func_count = of_nat (funcs_size (functionsec_funcs (functionsec m))) in
      throw_if (defined_code_count \<noteq> defined_func_count)
        (perr [] (in_definition (code_ne_defined_func defined_code_count defined_func_count)) parse_invalid))"

definition wasm_binfmt_ver1_handle_func :: "(byte list \<Rightarrow> nat) \<Rightarrow> wasm1_parser_limit_t \<Rightarrow> byte list \<Rightarrow> wasm_module_storage pres" where
  "wasm_binfmt_ver1_handle_func xxh3 limit module_begin =
     bindE (throw_if (length module_begin < 8 \<or> \<not> is_wasm_file_unchecked module_begin)
             (perr module_begin (in_common illegal_wasm_file_format) parse_invalid)) (\<lambda>_.
     let module_curr = drop 8 module_begin; ret = empty_module module_begin in
     if module_curr = []
     then bindE (define_final_check ret) (\<lambda>_. Inr ret)
     else bindE (module_loop xxh3 limit ret \<lparr>max_section_id = 0, max_section_id_map_sec_id = 0\<rparr> module_curr) (\<lambda>ret.
          bindE (define_final_check ret) (\<lambda>_. Inr ret)))"

end
