(* ===== verification/Module_Spec.thy ===== *)
theory Module_Spec
  imports Module_Parser
begin

text \<open>
  What a module is: a magic number, a version and a sequence of sections, each of which extends the module by the
  content that its grammar and validity conditions describe. The relation \<open>module_sections\<close> says this without an algorithm;
  the driver of \<open>Module_Parser\<close> is proved to compute it.
\<close>

section \<open>Sections\<close>

definition type_section_ok :: "wasm1_parser_limit_t \<Rightarrow> byte list \<Rightarrow> type_section_storage_t \<Rightarrow> bool" where
  "type_section_ok limit bs s \<longleftrightarrow> typesec_span s = Some bs \<and> vec_code functype_code (typesec_types s) bs \<and>
     list_all (\<lambda>ft. length (result ft) \<le> 1) (typesec_types s) \<and> length (typesec_types s) \<le> max_type_sec_types limit"

definition import_section_ok :: "wasm1_parser_limit_t \<Rightarrow> function_type list \<Rightarrow> byte list \<Rightarrow> import_section_storage_t \<Rightarrow> bool" where
  "import_section_ok limit ts bs s \<longleftrightarrow> importsec_span s = Some bs \<and> vec_code import_code (importsec_imports s) bs \<and>
     list_all (\<lambda>imp. extern_valid ts (import_extern imp)) (importsec_imports s) \<and>
     length (importsec_imports s) \<le> max_import_sec_imports limit \<and>
     importsec_importdesc s = importdesc_of (importsec_imports s) \<and>
     length (imports_of_kind 1 (importsec_imports s)) \<le> 1 \<and> length (imports_of_kind 2 (importsec_imports s)) \<le> 1"

definition function_section_ok :: "wasm1_parser_limit_t \<Rightarrow> nat \<Rightarrow> nat \<Rightarrow> byte list \<Rightarrow> function_section_storage_t \<Rightarrow> bool" where
  "function_section_ok limit ntypes nimports bs s \<longleftrightarrow> functionsec_span s = Some bs \<and> (\<exists>n b idxs. bs = n @ b \<and> uN 32 n (length idxs) \<and>
     list_code typeidx_code idxs b \<and> list_all (\<lambda>i. i < ntypes) idxs \<and> length idxs \<le> max_code_sec_codes limit \<and>
     length idxs + nimports < 2 ^ 32 \<and> functionsec_funcs s = typeidx_storage ntypes idxs b)"

definition table_section_ok :: "wasm1_parser_limit_t \<Rightarrow> nat \<Rightarrow> byte list \<Rightarrow> table_section_storage_t \<Rightarrow> bool" where
  "table_section_ok limit nimports bs s \<longleftrightarrow> tablesec_span s = Some bs \<and> vec_code table_code (tablesec_tables s) bs \<and>
     list_all limits_valid (tablesec_tables s) \<and> length (tablesec_tables s) + nimports \<le> 1 \<and>
     length (tablesec_tables s) \<le> max_table_sec_tables limit"

definition memory_section_ok :: "wasm1_parser_limit_t \<Rightarrow> nat \<Rightarrow> byte list \<Rightarrow> memory_section_storage_t \<Rightarrow> bool" where
  "memory_section_ok limit nimports bs s \<longleftrightarrow> memorysec_span s = Some bs \<and> vec_code limits_code (memorysec_memories s) bs \<and>
     list_all memory_valid (memorysec_memories s) \<and> length (memorysec_memories s) + nimports \<le> 1 \<and>
     length (memorysec_memories s) \<le> max_memory_sec_memories limit"

definition global_section_ok :: "wasm1_parser_limit_t \<Rightarrow> wasm_module_storage \<Rightarrow> byte list \<Rightarrow> global_section_storage_t \<Rightarrow> bool" where
  "global_section_ok limit m bs s \<longleftrightarrow> globalsec_span s = Some bs \<and> vec_code global_code (globalsec_local_globals s) bs \<and>
     list_all (global_typed m) (globalsec_local_globals s) \<and> length (globalsec_local_globals s) \<le> max_global_sec_globals limit \<and>
     length (globalsec_local_globals s) + length (imports_of_kind 3 (mod_imports m)) < 2 ^ 32"

definition export_section_ok :: "wasm1_parser_limit_t \<Rightarrow> wasm_module_storage \<Rightarrow> byte list \<Rightarrow> export_section_storage_t \<Rightarrow> bool" where
  "export_section_ok limit m bs s \<longleftrightarrow> exportsec_span s = Some bs \<and> vec_code exported_code (exportsec_exports s) bs \<and>
     list_all (export_valid m) (exportsec_exports s) \<and> distinct (map export_name (exportsec_exports s)) \<and>
     length (exportsec_exports s) \<le> max_export_sec_exports limit \<and>
     exportsec_exportdesc s = exportdesc_of (exportsec_exports s)"

definition start_section_ok :: "wasm_module_storage \<Rightarrow> byte list \<Rightarrow> start_section_storage_t \<Rightarrow> bool" where
  "start_section_ok m bs s \<longleftrightarrow> startsec_span s = Some bs \<and> uN 32 bs (unat (startsec_start_idx s)) \<and>
     start_valid m (unat (startsec_start_idx s))"

definition element_section_ok :: "wasm1_parser_limit_t \<Rightarrow> wasm_module_storage \<Rightarrow> byte list \<Rightarrow> element_section_storage_t \<Rightarrow> bool" where
  "element_section_ok limit m bs s \<longleftrightarrow> elemsec_span s = Some bs \<and> vec_code element_code (elemsec_elems s) bs \<and>
     list_all (element_valid limit m) (elemsec_elems s) \<and> length (elemsec_elems s) \<le> max_elem_sec_elems limit"

definition code_section_ok :: "wasm1_parser_limit_t \<Rightarrow> wasm_module_storage \<Rightarrow> byte list \<Rightarrow> code_section_storage_t \<Rightarrow> bool" where
  "code_section_ok limit m bs s \<longleftrightarrow> codesec_span s = Some bs \<and> vec_code code_code (codesec_codes s) bs \<and>
     length (codesec_codes s) = length (mod_funcs m) \<and>
     (\<forall>i < length (codesec_codes s). code_valid limit m i (codesec_codes s ! i)) \<and>
     length (codesec_codes s) \<le> max_code_sec_codes limit"

definition data_section_ok :: "wasm1_parser_limit_t \<Rightarrow> wasm_module_storage \<Rightarrow> byte list \<Rightarrow> data_section_storage_t \<Rightarrow> bool" where
  "data_section_ok limit m bs s \<longleftrightarrow> datasec_span s = Some bs \<and> vec_code data_code (datasec_datas s) bs \<and>
     list_all (data_valid m) (datasec_datas s) \<and> length (datasec_datas s) \<le> max_data_sec_entries limit"

lemmas section_ok_defs = type_section_ok_def import_section_ok_def function_section_ok_def table_section_ok_def memory_section_ok_def
  global_section_ok_def export_section_ok_def start_section_ok_def element_section_ok_def code_section_ok_def data_section_ok_def

text \<open>A section with id \<open>sec_id\<close> and content \<open>bs\<close> turns the module \<open>m\<close> into \<open>m'\<close>; every section but a custom one occurs once.\<close>

definition section_ok ::
  "wasm1_parser_limit_t \<Rightarrow> wasm_module_storage \<Rightarrow> max_section_id_map_sec_id_t \<Rightarrow> byte \<Rightarrow> byte list \<Rightarrow> wasm_module_storage \<Rightarrow>
   max_section_id_map_sec_id_t \<Rightarrow> bool" where
  "section_ok limit m wo sec_id bs m' wo' \<longleftrightarrow>
     (if sec_id = 0 then \<exists>s. custom_section_ok (customsec m) wo bs s wo' \<and> m' = m\<lparr>customsec := s\<rparr>
      else wo' = wo \<and>
       (if sec_id = 1 then typesec_span (typesec m) = None \<and> (\<exists>s. type_section_ok limit bs s \<and> m' = m\<lparr>typesec := s\<rparr>)
        else if sec_id = 2 then importsec_span (importsec m) = None \<and> (\<exists>s. import_section_ok limit (mod_types m) bs s \<and> m' = m\<lparr>importsec := s\<rparr>)
        else if sec_id = 3 then functionsec_span (functionsec m) = None \<and>
          (\<exists>s. function_section_ok limit (length (mod_types m)) (length (imports_of_kind 0 (mod_imports m))) bs s \<and> m' = m\<lparr>functionsec := s\<rparr>)
        else if sec_id = 4 then tablesec_span (tablesec m) = None \<and>
          (\<exists>s. table_section_ok limit (length (imports_of_kind 1 (mod_imports m))) bs s \<and> m' = m\<lparr>tablesec := s\<rparr>)
        else if sec_id = 5 then memorysec_span (memorysec m) = None \<and>
          (\<exists>s. memory_section_ok limit (length (imports_of_kind 2 (mod_imports m))) bs s \<and> m' = m\<lparr>memorysec := s\<rparr>)
        else if sec_id = 6 then globalsec_span (globalsec m) = None \<and> (\<exists>s. global_section_ok limit m bs s \<and> m' = m\<lparr>globalsec := s\<rparr>)
        else if sec_id = 7 then exportsec_span (exportsec m) = None \<and> (\<exists>s. export_section_ok limit m bs s \<and> m' = m\<lparr>exportsec := s\<rparr>)
        else if sec_id = 8 then startsec_span (startsec m) = None \<and> (\<exists>s. start_section_ok m bs s \<and> m' = m\<lparr>startsec := s\<rparr>)
        else if sec_id = 9 then elemsec_span (elemsec m) = None \<and> (\<exists>s. element_section_ok limit m bs s \<and> m' = m\<lparr>elemsec := s\<rparr>)
        else if sec_id = 10 then codesec_span (codesec m) = None \<and> (\<exists>s. code_section_ok limit m bs s \<and> m' = m\<lparr>codesec := s\<rparr>)
        else if sec_id = 11 then datasec_span (datasec m) = None \<and> (\<exists>s. data_section_ok limit m bs s \<and> m' = m\<lparr>datasec := s\<rparr>)
        else False))"

text \<open>Sections in a sequence: ids other than 0 do not decrease, and neither do they follow the section \<^verbatim>\<open>name\<close>.\<close>

inductive module_sections ::
  "wasm1_parser_limit_t \<Rightarrow> wasm_module_storage \<Rightarrow> max_section_id_map_sec_id_t \<Rightarrow> byte list \<Rightarrow> wasm_module_storage \<Rightarrow> bool" for limit where
  sections_Nil: "module_sections limit m wo [] m"
| sections_Cons: "module_sections limit m wo (sec_id # n @ bs @ rest) m''"
  if "sec_id \<noteq> 0 \<longrightarrow> max_section_id wo \<le> sec_id" "uN 32 n (length bs)" "section_ok limit m (next_order wo sec_id) sec_id bs m' wo'"
    "module_sections limit m' wo' rest m''"

inductive_simps module_sections_Nil [simp]: "module_sections limit m wo [] m'"

definition module_ok :: "wasm1_parser_limit_t \<Rightarrow> byte list \<Rightarrow> wasm_module_storage \<Rightarrow> bool" where
  "module_ok limit bs m \<longleftrightarrow> (\<exists>version rest. bs = [0x00, 0x61, 0x73, 0x6D] @ version @ rest \<and> length version = 4 \<and>
     module_sections limit (empty_module bs) \<lparr>max_section_id = 0, max_section_id_map_sec_id = 0\<rparr> rest m \<and>
     length (codesec_codes (codesec m)) = length (mod_funcs m))"

section \<open>The invariant of the driver\<close>

text \<open>
  A section is either read, and then its id is not above the maximum, or still as in the empty module.
\<close>

definition placed :: "max_section_id_map_sec_id_t \<Rightarrow> byte \<Rightarrow> byte list option \<Rightarrow> bool \<Rightarrow> bool" where
  "placed wo k span unread \<longleftrightarrow> span \<noteq> None \<and> k \<le> max_section_id wo \<or> unread"

definition order_inv :: "wasm_module_storage \<Rightarrow> max_section_id_map_sec_id_t \<Rightarrow> bool" where
  "order_inv m wo \<longleftrightarrow>
     placed wo 1 (typesec_span (typesec m)) (typesec m = typesec (empty_module [])) \<and>
     placed wo 2 (importsec_span (importsec m)) (importsec m = importsec (empty_module [])) \<and>
     placed wo 3 (functionsec_span (functionsec m)) (functionsec m = functionsec (empty_module [])) \<and>
     placed wo 4 (tablesec_span (tablesec m)) (tablesec m = tablesec (empty_module [])) \<and>
     placed wo 5 (memorysec_span (memorysec m)) (memorysec m = memorysec (empty_module [])) \<and>
     placed wo 6 (globalsec_span (globalsec m)) (globalsec m = globalsec (empty_module [])) \<and>
     placed wo 7 (exportsec_span (exportsec m)) (exportsec m = exportsec (empty_module [])) \<and>
     placed wo 8 (startsec_span (startsec m)) (startsec m = startsec (empty_module [])) \<and>
     placed wo 9 (elemsec_span (elemsec m)) (elemsec m = elemsec (empty_module [])) \<and>
     placed wo 10 (codesec_span (codesec m)) (codesec m = codesec (empty_module [])) \<and>
     placed wo 11 (datasec_span (datasec m)) (datasec m = datasec (empty_module []))"

lemma placed_unread: "placed wo k None u \<Longrightarrow> u"
  by (simp add: placed_def)

lemma placed_later: "placed wo k sp u \<Longrightarrow> max_section_id wo \<le> j \<Longrightarrow> j < k \<Longrightarrow> u"
  by (auto simp: placed_def)

lemma placed_mono: "placed wo k sp u \<Longrightarrow> max_section_id wo \<le> max_section_id wo' \<Longrightarrow> placed wo' k sp u"
  by (auto simp: placed_def)

lemma order_inv_mono: "order_inv m wo \<Longrightarrow> max_section_id wo \<le> max_section_id wo' \<Longrightarrow> order_inv m wo'"
  unfolding order_inv_def by (elim conjE, intro conjI; rule placed_mono; assumption)

section \<open>The dispatch\<close>

lemma handles_branch:
  assumes "sp \<noteq> None \<Longrightarrow> r = Inl (Throw (perr ptr e parse_invalid))" "sp = None \<Longrightarrow> handles ptr P r"
  shows "handles ptr (\<lambda>x. snd x = wo \<and> sp = None \<and> (\<exists>s. P s \<and> fst x = up s)) (bindE r (\<lambda>s. Inr (up s, wo)))"
proof (cases "sp = None")
  case True
  show ?thesis by (rule handles_cong, rule handles_bind [OF assms(2) handles_return]) (auto simp: True prod_eq_iff)
qed (simp add: assms(1) handles_def throws_in_perr)

lemma handles_throw [handles_intros]: "suffix p ptr \<Longrightarrow> c \<noteq> parse_ok \<Longrightarrow> handles ptr (\<lambda>_. False) (Inl (Throw (perr p e c)))"
  by (simp add: handles_def throws_in_perr)

lemma unread_sections:
  assumes "order_inv m wo"
  shows "typesec_span (typesec m) = None \<Longrightarrow> typesec m = typesec (empty_module [])"
    and "importsec_span (importsec m) = None \<Longrightarrow> importsec m = importsec (empty_module [])"
    and "functionsec_span (functionsec m) = None \<Longrightarrow> functionsec m = functionsec (empty_module [])"
    and "tablesec_span (tablesec m) = None \<Longrightarrow> tablesec m = tablesec (empty_module [])"
    and "memorysec_span (memorysec m) = None \<Longrightarrow> memorysec m = memorysec (empty_module [])"
    and "globalsec_span (globalsec m) = None \<Longrightarrow> globalsec m = globalsec (empty_module [])"
    and "exportsec_span (exportsec m) = None \<Longrightarrow> exportsec m = exportsec (empty_module [])"
    and "elemsec_span (elemsec m) = None \<Longrightarrow> elemsec m = elemsec (empty_module [])"
    and "codesec_span (codesec m) = None \<Longrightarrow> codesec m = codesec (empty_module [])"
    and "datasec_span (datasec m) = None \<Longrightarrow> datasec m = datasec (empty_module [])"
  using assms unfolding order_inv_def by (auto simp: placed_def)

lemma handles_unread:
  assumes "declarations_ok m" "order_inv m wo" "suffix bs ptr"
  shows "typesec_span (typesec m) = None \<Longrightarrow> handles ptr (type_section_ok limit bs) (handle_type_section limit (typesec m) bs ptr)"
    and "importsec_span (importsec m) = None \<Longrightarrow>
      handles ptr (import_section_ok limit (mod_types m) bs) (handle_import_section limit (mod_types m) (importsec m) bs ptr)"
    and "functionsec_span (functionsec m) = None \<Longrightarrow>
      handles ptr (function_section_ok limit (length (mod_types m)) (length (imported m 0)) bs)
        (handle_function_section limit (mod_types m) (length (imported m 0)) (functionsec m) bs ptr)"
    and "tablesec_span (tablesec m) = None \<Longrightarrow>
      handles ptr (table_section_ok limit (length (imported m 1)) bs) (handle_table_section limit (length (imported m 1)) (tablesec m) bs ptr)"
    and "memorysec_span (memorysec m) = None \<Longrightarrow>
      handles ptr (memory_section_ok limit (length (imported m 2)) bs) (handle_memory_section limit (length (imported m 2)) (memorysec m) bs ptr)"
    and "globalsec_span (globalsec m) = None \<Longrightarrow> handles ptr (global_section_ok limit m bs) (handle_global_section limit m bs ptr)"
    and "exportsec_span (exportsec m) = None \<Longrightarrow> handles ptr (export_section_ok limit m bs) (handle_export_section limit m bs ptr)"
    and "startsec_span (startsec m) = None \<Longrightarrow> handles ptr (start_section_ok m bs) (handle_start_section m bs ptr)"
    and "elemsec_span (elemsec m) = None \<Longrightarrow> handles ptr (element_section_ok limit m bs) (handle_element_section limit m bs ptr)"
    and "codesec_span (codesec m) = None \<Longrightarrow> handles ptr (code_section_ok limit m bs) (handle_code_section limit m bs ptr)"
    and "datasec_span (datasec m) = None \<Longrightarrow> handles ptr (data_section_ok limit m bs) (handle_data_section limit m bs ptr)"
proof -
  note unread = unread_sections [OF assms(2)] and e = empty_module_def
  have i: "length (imported m 0) < 2 ^ 32" "length (imported m 1) \<le> 1" "length (imported m 2) \<le> 1"
    using declarations_okD(5) [OF assms(1), of 0] assms(1) by (simp_all add: imported_eq [OF assms(1)] declarations_ok_def index_space_def)
  show "typesec_span (typesec m) = None \<Longrightarrow> handles ptr (type_section_ok limit bs) (handle_type_section limit (typesec m) bs ptr)"
    unfolding section_ok_defs by (rule handles_type_section) (use unread assms in \<open>simp_all add: e\<close>)
  show "importsec_span (importsec m) = None \<Longrightarrow>
      handles ptr (import_section_ok limit (mod_types m) bs) (handle_import_section limit (mod_types m) (importsec m) bs ptr)"
    unfolding section_ok_defs by (rule handles_import_section) (use unread assms in \<open>simp_all add: e\<close>)
  show "functionsec_span (functionsec m) = None \<Longrightarrow>
      handles ptr (function_section_ok limit (length (mod_types m)) (length (imported m 0)) bs)
        (handle_function_section limit (mod_types m) (length (imported m 0)) (functionsec m) bs ptr)"
    unfolding section_ok_defs by (rule handles_function_section) (use i declarations_okD(1) [OF assms(1)] assms in simp_all)
  show "tablesec_span (tablesec m) = None \<Longrightarrow>
      handles ptr (table_section_ok limit (length (imported m 1)) bs) (handle_table_section limit (length (imported m 1)) (tablesec m) bs ptr)"
    unfolding section_ok_defs by (rule handles_table_section) (use unread i assms in \<open>simp_all add: e\<close>)
  show "memorysec_span (memorysec m) = None \<Longrightarrow>
      handles ptr (memory_section_ok limit (length (imported m 2)) bs) (handle_memory_section limit (length (imported m 2)) (memorysec m) bs ptr)"
    unfolding section_ok_defs by (rule handles_memory_section) (use unread i assms in \<open>simp_all add: e\<close>)
  show "globalsec_span (globalsec m) = None \<Longrightarrow> handles ptr (global_section_ok limit m bs) (handle_global_section limit m bs ptr)"
    unfolding section_ok_defs by (rule handles_global_section) (use unread assms in \<open>simp_all add: e\<close>)
  show "exportsec_span (exportsec m) = None \<Longrightarrow> handles ptr (export_section_ok limit m bs) (handle_export_section limit m bs ptr)"
    unfolding section_ok_defs by (rule handles_export_section) (use unread assms in \<open>simp_all add: e\<close>)
  show "startsec_span (startsec m) = None \<Longrightarrow> handles ptr (start_section_ok m bs) (handle_start_section m bs ptr)"
    unfolding section_ok_defs by (rule handles_start_section) (use assms in simp_all)
  show "elemsec_span (elemsec m) = None \<Longrightarrow> handles ptr (element_section_ok limit m bs) (handle_element_section limit m bs ptr)"
    unfolding section_ok_defs by (rule handles_element_section) (use unread assms in \<open>simp_all add: e\<close>)
  show "codesec_span (codesec m) = None \<Longrightarrow> handles ptr (code_section_ok limit m bs) (handle_code_section limit m bs ptr)"
    unfolding section_ok_defs by (rule handles_code_section) (use unread assms in \<open>simp_all add: e\<close>)
  show "datasec_span (datasec m) = None \<Longrightarrow> handles ptr (data_section_ok limit m bs) (handle_data_section limit m bs ptr)"
    unfolding section_ok_defs by (rule handles_data_section) (use unread assms in \<open>simp_all add: e\<close>)
qed

text \<open>A section that has been read before.\<close>

lemma duplicate_sections:
  "typesec_span (typesec m) \<noteq> None \<Longrightarrow> handle_type_section limit (typesec m) bs ptr = Inl (Throw (perr ptr (in_common (duplicate_section 1)) parse_invalid))"
  "importsec_span (importsec m) \<noteq> None \<Longrightarrow> handle_import_section limit ts (importsec m) bs ptr = Inl (Throw (perr ptr (in_common (duplicate_section 2)) parse_invalid))"
  "functionsec_span (functionsec m) \<noteq> None \<Longrightarrow> handle_function_section limit ts k (functionsec m) bs ptr = Inl (Throw (perr ptr (in_common (duplicate_section 3)) parse_invalid))"
  "tablesec_span (tablesec m) \<noteq> None \<Longrightarrow> handle_table_section limit k (tablesec m) bs ptr = Inl (Throw (perr ptr (in_common (duplicate_section 4)) parse_invalid))"
  "memorysec_span (memorysec m) \<noteq> None \<Longrightarrow> handle_memory_section limit k (memorysec m) bs ptr = Inl (Throw (perr ptr (in_common (duplicate_section 5)) parse_invalid))"
  "globalsec_span (globalsec m) \<noteq> None \<Longrightarrow> handle_global_section limit m bs ptr = Inl (Throw (perr ptr (in_common (duplicate_section 6)) parse_invalid))"
  "exportsec_span (exportsec m) \<noteq> None \<Longrightarrow> handle_export_section limit m bs ptr = Inl (Throw (perr ptr (in_common (duplicate_section 7)) parse_invalid))"
  "startsec_span (startsec m) \<noteq> None \<Longrightarrow> handle_start_section m bs ptr = Inl (Throw (perr ptr (in_common (duplicate_section 8)) parse_invalid))"
  "elemsec_span (elemsec m) \<noteq> None \<Longrightarrow> handle_element_section limit m bs ptr = Inl (Throw (perr ptr (in_common (duplicate_section 9)) parse_invalid))"
  "codesec_span (codesec m) \<noteq> None \<Longrightarrow> handle_code_section limit m bs ptr = Inl (Throw (perr ptr (in_common (duplicate_section 10)) parse_invalid))"
  "datasec_span (datasec m) \<noteq> None \<Longrightarrow> handle_data_section limit m bs ptr = Inl (Throw (perr ptr (in_common (duplicate_section 11)) parse_invalid))"
  by (simp_all add: handle_type_section_def handle_import_section_def handle_function_section_def handle_table_section_def handle_memory_section_def
      handle_global_section_def handle_export_section_def handle_start_section_def handle_element_section_def handle_code_section_def handle_data_section_def)

lemma handles_custom_branch:
  assumes "suffix bs ptr"
  shows "handles ptr (\<lambda>x. \<exists>s. custom_section_ok (customsec m) wo bs s (snd x) \<and> fst x = m\<lparr>customsec := s\<rparr>)
    (bindE (handle_custom_section xxh3 m wo bs) (\<lambda>(s, wo). Inr (m\<lparr>customsec := s\<rparr>, wo)))"
  using handlesD [OF handles_custom_section [OF assms]] by (auto simp: handles_def bindE_eq_Inr bindE_eq_Inl)

lemma handles_dispatch:
  assumes "declarations_ok m" "order_inv m wo" "suffix bs ptr"
  shows "handles ptr (\<lambda>r. section_ok limit m wo sec_id bs (fst r) (snd r))
    (handle_all_binfmt_ver1_extensible_section xxh3 limit m sec_id bs wo ptr)"
  unfolding handle_all_binfmt_ver1_extensible_section_def
proof (rule handles_cong, (rule handles_if handles_custom_branch handles_throw handles_branch duplicate_sections handles_unread [OF assms] assms(3)
      suffix_order.refl | assumption | (simp; fail))+, goal_cases)
  case (1 x)
  show ?case unfolding section_ok_def by (simp add: imported_eq [OF assms(1)] cong: if_cong)
qed

end
