(* ===== verification/Module_Correct.thy ===== *)
theory Module_Correct
  imports Module_Spec
begin

text \<open>
  The driver computes the relation \<open>module_sections\<close>: the declarations stay consistent from section to section, which every
  handler relies on, so that no step runs into undefined behaviour.
\<close>

section \<open>Declarations stay consistent\<close>

lemma list_code_all: "list_code G xs bs \<Longrightarrow> (\<And>x b. G x b \<Longrightarrow> P x) \<Longrightarrow> list_all P xs"
  by (induction rule: list_code.induct) auto

lemma vec_code_all: "vec_code G xs bs \<Longrightarrow> (\<And>x b. G x b \<Longrightarrow> P x) \<Longrightarrow> list_all P xs"
  unfolding vec_code_def using list_code_all by blast

lemma vec_valtype: "vec_code valtype_code ts bs \<Longrightarrow> vt_none \<notin> set ts"
  using vec_code_all [of valtype_code ts bs "\<lambda>t. t \<noteq> vt_none"] by (auto simp: valtype_code_def list_all_iff)

lemma functype_wf: "functype_code ft bs \<Longrightarrow> length (result ft) \<le> 1 \<Longrightarrow> wf_function_type ft"
  unfolding functype_code_def wf_function_type_def using vec_valtype vec_code_length by blast

lemma types_wf:
  assumes "type_section_ok limit bs s"
  shows "list_all wf_function_type (typesec_types s)" "length (typesec_types s) < 2 ^ 32"
proof -
  have "list_all (\<lambda>ft. length (result ft) \<le> 1 \<longrightarrow> wf_function_type ft) (typesec_types s)"
    by (rule vec_code_all [where bs = bs and G = functype_code]) (use assms functype_wf in \<open>auto simp: type_section_ok_def\<close>)
  then show "list_all wf_function_type (typesec_types s)" using assms by (simp add: type_section_ok_def list_all_iff)
  show "length (typesec_types s) < 2 ^ 32" using assms vec_code_length by (auto simp: type_section_ok_def)
qed

text \<open>The later sections that are still unread when a section is reached in order.\<close>

lemma unread_after:
  assumes "order_inv m wo" "max_section_id wo \<le> j"
  shows "j < 2 \<Longrightarrow> importsec m = importsec (empty_module [])"
    and "j < 3 \<Longrightarrow> functionsec m = functionsec (empty_module [])"
    and "j < 4 \<Longrightarrow> tablesec m = tablesec (empty_module [])"
    and "j < 5 \<Longrightarrow> memorysec m = memorysec (empty_module [])"
    and "j < 6 \<Longrightarrow> globalsec m = globalsec (empty_module [])"
    and "j < 7 \<Longrightarrow> exportsec m = exportsec (empty_module [])"
    and "j < 8 \<Longrightarrow> startsec m = startsec (empty_module [])"
    and "j < 9 \<Longrightarrow> elemsec m = elemsec (empty_module [])"
    and "j < 10 \<Longrightarrow> codesec m = codesec (empty_module [])"
    and "j < 11 \<Longrightarrow> datasec m = datasec (empty_module [])"
  using assms(1) placed_later [OF _ assms(2)] unfolding order_inv_def by blast+

lemma empty_sections [simp]:
  "importsec_imports (importsec (empty_module b)) = []" "importsec_importdesc (importsec (empty_module b)) = replicate 5 []"
  "functionsec_funcs (functionsec (empty_module b)) = typeidx_null" "tablesec_tables (tablesec (empty_module b)) = []"
  "memorysec_memories (memorysec (empty_module b)) = []" "globalsec_local_globals (globalsec (empty_module b)) = []"
  "codesec_codes (codesec (empty_module b)) = []" "exportsec_exports (exportsec (empty_module b)) = []"
  "startsec_span (startsec (empty_module b)) = None" "elemsec_elems (elemsec (empty_module b)) = []"
  "datasec_datas (datasec (empty_module b)) = []" "funcs_of typeidx_null = []" "imports_of_kind k [] = []"
  by (simp_all add: empty_module_def funcs_of_def imports_of_kind_def)

lemma declarations_type:
  assumes "type_section_ok limit bs s" "order_inv m wo" "max_section_id wo \<le> 1"
  shows "declarations_ok (m\<lparr>typesec := s\<rparr>)"
  using types_wf [OF assms(1)] unread_after [OF assms(2,3)]
  by (simp add: declarations_ok_def index_space_def defined_count_def importdesc_of_Nil)

lemma declarations_import:
  assumes "declarations_ok m" "import_section_ok limit (mod_types m) bs s" "order_inv m wo" "max_section_id wo \<le> 2"
  shows "declarations_ok (m\<lparr>importsec := s\<rparr>)"
proof -
  have n: "length (importsec_imports s) < 2 ^ 32" using assms(2) vec_code_length by (auto simp: import_section_ok_def)
  then have "length (imports_of_kind k (importsec_imports s)) < 2 ^ 32" for k
    using length_imports_of_kind [of k "importsec_imports s"] by linarith
  with n show ?thesis using assms(1,2) unread_after [OF assms(3,4)]
    by (simp add: declarations_ok_def index_space_def defined_count_def import_section_ok_def)
qed

lemma function_section_funcs:
  assumes "function_section_ok limit nt k bs s" "nt < 2 ^ 32"
  shows "list_all (\<lambda>i. i < nt) (funcs_of (functionsec_funcs s))" "length (funcs_of (functionsec_funcs s)) + k < 2 ^ 32"
  using assms funcs_of_typeidx_storage unfolding function_section_ok_def by (metis (no_types, lifting))+

lemma index_space_cases: "(\<forall>k < 4. P (k::nat)) \<longleftrightarrow> P 0 \<and> P 1 \<and> P 2 \<and> P 3"
  by (auto simp: less_Suc_eq numeral_eq_Suc)

lemma declarations_function:
  assumes "declarations_ok m" "function_section_ok limit (length (mod_types m)) (length (imports_of_kind 0 (mod_imports m))) bs s"
  shows "declarations_ok (m\<lparr>functionsec := s\<rparr>)"
  using assms(1) function_section_funcs [OF assms(2) declarations_okD(1) [OF assms(1)]]
  by (simp add: declarations_ok_def index_space_def defined_count_def index_space_cases)

lemma declarations_table:
  assumes "declarations_ok m" "table_section_ok limit (length (imports_of_kind 1 (mod_imports m))) bs s"
  shows "declarations_ok (m\<lparr>tablesec := s\<rparr>)"
  using assms by (simp add: declarations_ok_def index_space_def defined_count_def index_space_cases table_section_ok_def)

lemma declarations_memory:
  assumes "declarations_ok m" "memory_section_ok limit (length (imports_of_kind 2 (mod_imports m))) bs s"
  shows "declarations_ok (m\<lparr>memorysec := s\<rparr>)"
  using assms by (simp add: declarations_ok_def index_space_def defined_count_def index_space_cases memory_section_ok_def)

lemma declarations_global:
  assumes "declarations_ok m" "global_section_ok limit m bs s"
  shows "declarations_ok (m\<lparr>globalsec := s\<rparr>)"
  using assms by (simp add: declarations_ok_def index_space_def defined_count_def index_space_cases global_section_ok_def)

lemma declarations_other [simp]:
  "declarations_ok (m\<lparr>customsec := a\<rparr>) = declarations_ok m" "declarations_ok (m\<lparr>exportsec := b\<rparr>) = declarations_ok m"
  "declarations_ok (m\<lparr>startsec := c\<rparr>) = declarations_ok m" "declarations_ok (m\<lparr>elemsec := d\<rparr>) = declarations_ok m"
  "declarations_ok (m\<lparr>codesec := e\<rparr>) = declarations_ok m" "declarations_ok (m\<lparr>datasec := f\<rparr>) = declarations_ok m"
  by (simp_all add: declarations_ok_def index_space_def defined_count_def)

section \<open>The invariant is kept\<close>

lemma section_ok_cases [consumes 1]:
  assumes "section_ok limit m wo sec_id bs m' wo'"
  obtains (custom) s where "sec_id = 0" "custom_section_ok (customsec m) wo bs s wo'" "m' = m\<lparr>customsec := s\<rparr>"
  | (type) s where "sec_id = 1" "wo' = wo" "type_section_ok limit bs s" "m' = m\<lparr>typesec := s\<rparr>"
  | (import) s where "sec_id = 2" "wo' = wo" "import_section_ok limit (mod_types m) bs s" "m' = m\<lparr>importsec := s\<rparr>"
  | (func) s where "sec_id = 3" "wo' = wo" "m' = m\<lparr>functionsec := s\<rparr>"
      "function_section_ok limit (length (mod_types m)) (length (imports_of_kind 0 (mod_imports m))) bs s"
  | (table) s where "sec_id = 4" "wo' = wo" "table_section_ok limit (length (imports_of_kind 1 (mod_imports m))) bs s" "m' = m\<lparr>tablesec := s\<rparr>"
  | (memory) s where "sec_id = 5" "wo' = wo" "memory_section_ok limit (length (imports_of_kind 2 (mod_imports m))) bs s" "m' = m\<lparr>memorysec := s\<rparr>"
  | (global) s where "sec_id = 6" "wo' = wo" "global_section_ok limit m bs s" "m' = m\<lparr>globalsec := s\<rparr>"
  | (export) s where "sec_id = 7" "wo' = wo" "export_section_ok limit m bs s" "m' = m\<lparr>exportsec := s\<rparr>"
  | (start) s where "sec_id = 8" "wo' = wo" "start_section_ok m bs s" "m' = m\<lparr>startsec := s\<rparr>"
  | (element) s where "sec_id = 9" "wo' = wo" "element_section_ok limit m bs s" "m' = m\<lparr>elemsec := s\<rparr>"
  | (code) s where "sec_id = 10" "wo' = wo" "code_section_ok limit m bs s" "m' = m\<lparr>codesec := s\<rparr>"
  | (data) s where "sec_id = 11" "wo' = wo" "data_section_ok limit m bs s" "m' = m\<lparr>datasec := s\<rparr>"
proof -
  consider "sec_id = 0" | "sec_id = 1" | "sec_id = 2" | "sec_id = 3" | "sec_id = 4" | "sec_id = 5" | "sec_id = 6" | "sec_id = 7"
    | "sec_id = 8" | "sec_id = 9" | "sec_id = 10" | "sec_id = 11" using assms unfolding section_ok_def by presburger
  then show ?thesis
  proof cases
    case 1
    then show ?thesis using assms custom by (auto simp: section_ok_def)
  next
    case 2
    then show ?thesis using assms type by (auto simp: section_ok_def)
  next
    case 3
    then show ?thesis using assms import by (auto simp: section_ok_def)
  next
    case 4
    then show ?thesis using assms func by (auto simp: section_ok_def)
  next
    case 5
    then show ?thesis using assms table by (auto simp: section_ok_def)
  next
    case 6
    then show ?thesis using assms memory by (auto simp: section_ok_def)
  next
    case 7
    then show ?thesis using assms global by (auto simp: section_ok_def)
  next
    case 8
    then show ?thesis using assms export by (auto simp: section_ok_def)
  next
    case 9
    then show ?thesis using assms start by (auto simp: section_ok_def)
  next
    case 10
    then show ?thesis using assms element by (auto simp: section_ok_def)
  next
    case 11
    then show ?thesis using assms code by (auto simp: section_ok_def)
  next
    case 12
    then show ?thesis using assms data by (auto simp: section_ok_def)
  qed
qed

lemma order_inv_step:
  assumes "section_ok limit m (next_order wo sec_id) sec_id bs m' wo'" "order_inv m wo" "sec_id \<noteq> 0 \<longrightarrow> max_section_id wo \<le> sec_id"
  shows "order_inv m' wo'"
proof -
  have inv: "order_inv m (next_order wo sec_id)" using assms(2,3) by (auto simp: next_order_def intro: order_inv_mono)
  have mx: "sec_id \<noteq> 0 \<Longrightarrow> max_section_id (next_order wo sec_id) = sec_id" by (simp add: next_order_def)
  from assms(1) show ?thesis
  proof (cases rule: section_ok_cases)
    case (custom s)
    then have "max_section_id (next_order wo sec_id) \<le> max_section_id wo'" by (auto simp: custom_section_ok_def)
    then have "order_inv m wo'" using inv order_inv_mono by blast
    then show ?thesis using custom by (simp add: order_inv_def)
  qed (use inv mx in \<open>simp_all add: order_inv_def placed_def section_ok_defs\<close>)
qed

lemma declarations_step:
  assumes "section_ok limit m (next_order wo sec_id) sec_id bs m' wo'" "declarations_ok m" "order_inv m wo"
    "sec_id \<noteq> 0 \<longrightarrow> max_section_id wo \<le> sec_id"
  shows "declarations_ok m'"
  using assms(1)
proof (cases rule: section_ok_cases)
  case (type s)
  then show ?thesis using declarations_type assms by auto
next
  case (import s)
  then show ?thesis using declarations_import assms by auto
qed (use assms(2) declarations_function declarations_table declarations_memory declarations_global in auto)

section \<open>The loop\<close>

lemma section_header_outcome:
  assumes "p \<noteq> []"
  shows "section_header wo p = Inr ((sec_id, k), q) \<longleftrightarrow>
      (\<exists>n. p = sec_id # n @ q \<and> uN 32 n k \<and> (sec_id \<noteq> 0 \<longrightarrow> max_section_id wo \<le> sec_id) \<and> k \<le> length q)"
    and "section_header wo p = Inl f \<Longrightarrow> throws_in p f"
proof -
  obtain b r where p: "p = b # r" using assms by (cases p) auto
  note S = readsD [OF reads_scan_u32 [OF suffix_order.refl, of r]]
  have ok: "section_header wo p = Inr ((sec_id, k), q) \<longleftrightarrow> b = sec_id \<and> (b \<noteq> 0 \<longrightarrow> max_section_id wo \<le> b) \<and>
      (\<exists>v. scan_u32 (in_common invalid_section_length) r = Inr (v, q) \<and> k = unat v \<and> unat v \<le> length q)"
    by (auto simp: section_header_def p next_byte_def res_simps not_less)
  show "section_header wo p = Inr ((sec_id, k), q) \<longleftrightarrow>
      (\<exists>n. p = sec_id # n @ q \<and> uN 32 n k \<and> (sec_id \<noteq> 0 \<longrightarrow> max_section_id wo \<le> sec_id) \<and> k \<le> length q)"
  proof -
    have "(\<exists>v::u32. (\<exists>n. r = n @ q \<and> uN 32 n (unat v)) \<and> k = unat v \<and> unat v \<le> length q) \<longleftrightarrow>
        (\<exists>n. r = n @ q \<and> uN 32 n k \<and> k \<le> length q)" by (metis uN_u32)
    then show ?thesis unfolding ok S(1) unfolding p by auto
  qed
  have "suffix q p" if "scan_u32 (in_common invalid_section_length) r = Inr (v, q)" for v q
    using that S(1) by (auto simp: p suffix_def)
  then show "throws_in p f" if "section_header wo p = Inl f"
    using that throws_in_trans [OF S(2), of _ f p] p
    by (auto simp: section_header_def next_byte_def bindE_eq_Inl throw_if_def throws_in_perr suffix_ConsI split: if_splits)
qed

lemma module_sections_iff:
  assumes "p \<noteq> []"
  shows "module_sections limit m wo p m'' \<longleftrightarrow>
    (\<exists>sec_id k q m' wo'. section_header wo p = Inr ((sec_id, k), q) \<and> section_ok limit m (next_order wo sec_id) sec_id (take k q) m' wo' \<and>
      module_sections limit m' wo' (drop k q) m'')" (is "?L = ?R")
proof
  assume ?L
  then show ?R
  proof cases
    case (sections_Cons sec_id n bs m' wo' rest)
    then have "section_header wo p = Inr ((sec_id, length bs), bs @ rest)" unfolding section_header_outcome(1) [OF assms] by auto
    with sections_Cons show ?thesis by fastforce
  qed (simp add: assms)
next
  assume ?R
  then obtain sec_id k q m' wo' where h: "section_header wo p = Inr ((sec_id, k), q)"
    and s: "section_ok limit m (next_order wo sec_id) sec_id (take k q) m' wo'" "module_sections limit m' wo' (drop k q) m''" by blast
  then obtain n where n: "p = sec_id # n @ take k q @ drop k q" "uN 32 n (length (take k q))" "sec_id \<noteq> 0 \<longrightarrow> max_section_id wo \<le> sec_id"
    unfolding section_header_outcome(1) [OF assms] by auto
  show ?L unfolding n(1) by (rule sections_Cons [OF n(3,2) s])
qed

lemma handles_bind_Inr:
  assumes "handles ptr P r" "\<And>x. r = Inr x \<Longrightarrow> handles ptr (Q x) (f x)"
  shows "handles ptr (\<lambda>s. \<exists>x. P x \<and> Q x s) (bindE r f)"
  using handlesD [OF assms(1)] handlesD [OF assms(2)] by (auto simp: handles_def bindE_eq_Inr bindE_eq_Inl)

lemma module_loop_handles:
  assumes "p \<noteq> []" "declarations_ok m" "order_inv m wo"
  shows "handles p (module_sections limit m wo p) (module_loop xxh3 limit m wo p)"
  using assms
proof (induction "length p" arbitrary: m wo p rule: less_induct)
  case less
  let ?ptr = "\<lambda>k q. take (length p - length (drop k q)) p"
  let ?d = "\<lambda>i k q. handle_all_binfmt_ver1_extensible_section xxh3 limit m i (take k q) (next_order wo i) (?ptr k q)"
  have step: "handles p (\<lambda>r. section_ok limit m (next_order wo i) i (take k q) (fst r) (snd r)) (shift_err (drop k q) (?d i k q))"
    and next_inv: "section_ok limit m (next_order wo i) i (take k q) m' wo' \<Longrightarrow> declarations_ok m' \<and> order_inv m' wo'"
    and shorter: "length (drop k q) < length p" and sfx: "suffix (drop k q) p"
    if h: "section_header wo p = Inr ((i, k), q)" for i k q m' wo'
  proof -
    obtain n where n: "p = i # n @ q" "i \<noteq> 0 \<longrightarrow> max_section_id wo \<le> i" "k \<le> length q"
      using h unfolding section_header_outcome(1) [OF less.prems(1)] by auto
    have p: "p = (i # n @ take k q) @ drop k q" using n(1) by simp
    have "length p - length (drop k q) = length (i # n @ take k q)" using n(3) by (simp add: n(1))
    then have ptr: "?ptr k q = i # n @ take k q" using p by (metis append_eq_conv_conj)
    have "order_inv m (next_order wo i)" using less.prems(3) n(2) by (auto simp: next_order_def intro: order_inv_mono)
    then have "handles (?ptr k q) (\<lambda>r. section_ok limit m (next_order wo i) i (take k q) (fst r) (snd r)) (?d i k q)"
      by (intro handles_dispatch less.prems(2)) (simp_all only: ptr, auto simp: suffix_def)
    then show "handles p (\<lambda>r. section_ok limit m (next_order wo i) i (take k q) (fst r) (snd r)) (shift_err (drop k q) (?d i k q))"
      by (rule handles_shift_err) (simp only: ptr p [symmetric] suffix_order.refl)
    show "section_ok limit m (next_order wo i) i (take k q) m' wo' \<Longrightarrow> declarations_ok m' \<and> order_inv m' wo'"
      using declarations_step order_inv_step less.prems(2,3) n(2) by blast
    show "length (drop k q) < length p" "suffix (drop k q) p" by (simp_all add: n(1) suffix_def) (metis append_Cons append_assoc append_take_drop_id)
  qed
  have body: "handles p (\<lambda>m''. \<exists>m' wo'. section_ok limit m (next_order wo i) i (take k q) m' wo' \<and> module_sections limit m' wo' (drop k q) m'')
      (bindE (shift_err (drop k q) (?d i k q)) (\<lambda>r. if drop k q = [] then Inr (fst r) else module_loop xxh3 limit (fst r) (snd r) (drop k q)))"
    if h: "section_header wo p = Inr ((i, k), q)" for i k q
  proof -
    have "handles p (module_sections limit (fst r) (snd r) (drop k q)) (if drop k q = [] then Inr (fst r) else module_loop xxh3 limit (fst r) (snd r) (drop k q))"
      if r: "shift_err (drop k q) (?d i k q) = Inr r" for r
    proof (cases "drop k q = []")
      case True
      then show ?thesis by (simp add: handles_def eq_commute)
    next
      case False
      have "section_ok limit m (next_order wo i) i (take k q) (fst r) (snd r)" using handlesD(1) [OF step [OF h]] r by blast
      then have "declarations_ok (fst r) \<and> order_inv (fst r) (snd r)" by (rule next_inv [OF h])
      then have "handles (drop k q) (module_sections limit (fst r) (snd r) (drop k q)) (module_loop xxh3 limit (fst r) (snd r) (drop k q))"
        using less.hyps [OF shorter [OF h] False] by blast
      then show ?thesis using False sfx [OF h] throws_in_trans by (auto simp: handles_def)
    qed
    with step [OF h] show ?thesis by (rule handles_cong [OF handles_bind_Inr]) auto
  qed
  note sections = module_sections_iff [OF less.prems(1)]
  show ?case
  proof (cases "section_header wo p")
    case (Inl f)
    then have "module_loop xxh3 limit m wo p = Inl f" by (simp add: module_loop.simps [of _ _ _ _ p])
    then show ?thesis using section_header_outcome(2) [OF less.prems(1) Inl] Inl by (simp add: handles_def sections)
  next
    case (Inr hq)
    then obtain i k q where h: "section_header wo p = Inr ((i, k), q)" by (metis surj_pair)
    show ?thesis unfolding module_loop.simps [of _ _ _ _ p] h bindE_simps prod.case Let_def fst_conv snd_conv
      by (rule handles_cong [OF body [OF h]]) (simp add: sections h)
  qed
qed

section \<open>The whole module\<close>

text \<open>What holds of the module after any number of sections.\<close>

lemma sections_invariant:
  assumes "module_sections limit m wo p m'" "declarations_ok m" "order_inv m wo"
  shows "declarations_ok m'"
  using assms by (induction rule: module_sections.induct) (auto intro: declarations_step order_inv_step)

lemma order_inv_empty: "order_inv (empty_module b) wo"
  by (simp add: order_inv_def placed_def empty_module_def)

lemma final_check_eq:
  assumes "declarations_ok m" "length (codesec_codes (codesec m)) < 2 ^ 32"
  shows "define_final_check m = throw_if (length (codesec_codes (codesec m)) \<noteq> length (mod_funcs m))
    (perr [] (in_definition (code_ne_defined_func (of_nat (length (codesec_codes (codesec m)))) (of_nat (length (mod_funcs m))))) parse_invalid)"
proof -
  have "length (mod_funcs m) < 2 ^ 32" using declarations_okD(4) [OF assms(1), of 0] by (simp add: index_space_def defined_count_def)
  with assms(2) show ?thesis by (simp add: define_final_check_def funcs_access word_unat_eq_iff unat_of_nat Let_def)
qed

text \<open>
  Validity of the module as a whole: every definition is valid with respect to the final declarations. The last two
  conditions say that no type in the storage is the null value.
\<close>

definition import_typed :: "final_import_type \<Rightarrow> bool" where
  "import_typed imp \<longleftrightarrow> global_value_type (imported_global_type imp) \<noteq> vt_none \<or> extern_kind (import_extern imp) \<noteq> 3"

definition module_valid :: "wasm1_parser_limit_t \<Rightarrow> wasm_module_storage \<Rightarrow> bool" where
  "module_valid limit m \<longleftrightarrow>
     list_all limits_valid (tablesec_tables (tablesec m)) \<and> list_all memory_valid (memorysec_memories (memorysec m)) \<and>
     list_all (global_typed m) (globalsec_local_globals (globalsec m)) \<and>
     list_all (export_valid m) (exportsec_exports (exportsec m)) \<and> distinct (map export_name (exportsec_exports (exportsec m))) \<and>
     (startsec_span (startsec m) \<noteq> None \<longrightarrow> start_valid m (unat (startsec_start_idx (startsec m)))) \<and>
     list_all (element_valid limit m) (elemsec_elems (elemsec m)) \<and>
     (codesec_codes (codesec m) \<noteq> [] \<longrightarrow> length (codesec_codes (codesec m)) = length (mod_funcs m)) \<and>
     (\<forall>i < length (codesec_codes (codesec m)). code_valid limit m i (codesec_codes (codesec m) ! i)) \<and>
     list_all (data_valid m) (datasec_datas (datasec m)) \<and>
     list_all import_typed (mod_imports m) \<and>
     list_all (\<lambda>g. global_value_type (global_decl g) \<noteq> vt_none) (globalsec_local_globals (globalsec m)) \<and>
     list_all (\<lambda>c. list_all (\<lambda>l. local_type l \<noteq> vt_none) (code_locals c)) (codesec_codes (codesec m))"

lemma global_type_not_none: "global_type_code g bs \<Longrightarrow> global_value_type g \<noteq> vt_none"
  by (auto simp: global_type_code_def valtype_code_def)

lemma globals_not_none: "vec_code global_code gs bs \<Longrightarrow> list_all (\<lambda>g. global_value_type (global_decl g) \<noteq> vt_none) gs"
  by (erule vec_code_all) (auto simp: global_code_def dest: global_type_not_none)

lemma imports_not_none: "vec_code import_code imps bs \<Longrightarrow> list_all import_typed imps"
proof (erule vec_code_all)
  fix imp b
  assume "import_code imp b"
  then show "import_typed imp"
    by (cases "import_extern imp")
      (auto simp: import_code_def import_typed_def extern_kind_def imported_global_type_def dest: global_type_not_none)
qed

lemma locals_not_none: "vec_code code_code cs bs \<Longrightarrow> list_all (\<lambda>c. list_all (\<lambda>l. local_type l \<noteq> vt_none) (code_locals c)) cs"
proof (erule vec_code_all)
  fix c b
  assume "code_code c b"
  then obtain lb where "vec_code local_code (code_locals c) lb" by (auto simp: code_code_def func_body_def)
  then show "list_all (\<lambda>l. local_type l \<noteq> vt_none) (code_locals c)"
    by (rule vec_code_all) (auto simp: local_code_def valtype_code_def)
qed

lemmas validity_defs = global_typed_def const_expr_typed_def export_valid_def start_valid_def func_type_def element_valid_def code_valid_def
  data_valid_def index_space_def defined_count_def

text \<open>Validity depends on the declarations only.\<close>

lemma validity_cong:
  assumes "typesec m' = typesec m" "importsec m' = importsec m" "functionsec m' = functionsec m" "tablesec m' = tablesec m"
    "memorysec m' = memorysec m" "globalsec m' = globalsec m"
  shows "export_valid m' = export_valid m" "start_valid m' = start_valid m" "element_valid limit m' = element_valid limit m"
    "code_valid limit m' = code_valid limit m" "data_valid m' = data_valid m"
  by (simp_all add: fun_eq_iff validity_defs Let_def assms)

lemma global_typed_cong: "importsec m' = importsec m \<Longrightarrow> global_typed m' = global_typed m"
  by (simp add: fun_eq_iff global_typed_def const_expr_typed_def)

lemma module_valid_step:
  assumes "section_ok limit m (next_order wo sec_id) sec_id bs m' wo'" "module_valid limit m" "order_inv m wo"
    "sec_id \<noteq> 0 \<longrightarrow> max_section_id wo \<le> sec_id"
  shows "module_valid limit m'"
proof -
  have unread: "sec_id \<noteq> 0 \<Longrightarrow> max_section_id wo \<le> sec_id" using assms(4) by simp
  from assms(1) show ?thesis
  proof (cases rule: section_ok_cases)
    case (type s)
    then show ?thesis using assms(2) unread_after [OF assms(3) unread] by (simp add: module_valid_def)
  next
    case (import s)
    then show ?thesis using assms(2) unread_after [OF assms(3) unread] imports_not_none [of "importsec_imports s" bs]
      by (simp add: module_valid_def import_section_ok_def)
  next
    case (func s)
    then show ?thesis using assms(2) unread_after [OF assms(3) unread] by (simp add: module_valid_def)
  next
    case (table s)
    then show ?thesis using assms(2) unread_after [OF assms(3) unread] by (simp add: module_valid_def table_section_ok_def)
  next
    case (memory s)
    then show ?thesis using assms(2) unread_after [OF assms(3) unread] by (simp add: module_valid_def memory_section_ok_def)
  next
    case (global s)
    then show ?thesis using assms(2) unread_after [OF assms(3) unread] globals_not_none [of "globalsec_local_globals s" bs]
      by (simp add: module_valid_def global_section_ok_def global_typed_cong [of "m\<lparr>globalsec := s\<rparr>" m])
  next
    case (code s)
    then show ?thesis using assms(2) locals_not_none [of "codesec_codes s" bs]
      by (simp add: module_valid_def code_section_ok_def validity_cong [of "m\<lparr>codesec := s\<rparr>" m] global_typed_cong [of "m\<lparr>codesec := s\<rparr>" m])
  next
    case (custom s)
    then show ?thesis using assms(2)
      by (simp add: module_valid_def validity_cong [of "m\<lparr>customsec := s\<rparr>" m] global_typed_cong [of "m\<lparr>customsec := s\<rparr>" m])
  next
    case (export s)
    then show ?thesis using assms(2)
      by (simp add: module_valid_def export_section_ok_def validity_cong [of "m\<lparr>exportsec := s\<rparr>" m] global_typed_cong [of "m\<lparr>exportsec := s\<rparr>" m])
  next
    case (start s)
    then show ?thesis using assms(2)
      by (simp add: module_valid_def start_section_ok_def validity_cong [of "m\<lparr>startsec := s\<rparr>" m] global_typed_cong [of "m\<lparr>startsec := s\<rparr>" m])
  next
    case (element s)
    then show ?thesis using assms(2)
      by (simp add: module_valid_def element_section_ok_def validity_cong [of "m\<lparr>elemsec := s\<rparr>" m] global_typed_cong [of "m\<lparr>elemsec := s\<rparr>" m])
  next
    case (data s)
    then show ?thesis using assms(2)
      by (simp add: module_valid_def data_section_ok_def validity_cong [of "m\<lparr>datasec := s\<rparr>" m] global_typed_cong [of "m\<lparr>datasec := s\<rparr>" m])
  qed
qed

lemma module_valid_empty: "module_valid limit (empty_module b)"
  by (simp add: module_valid_def)

lemma sections_valid:
  assumes "module_sections limit m wo p m'" "module_valid limit m" "order_inv m wo"
  shows "module_valid limit m'"
  using assms by (induction rule: module_sections.induct) (auto intro: module_valid_step order_inv_step)

lemma header_iff:
  "(\<exists>version rest. bs = [0x00, 0x61, 0x73, 0x6D] @ version @ rest \<and> length version = 4 \<and> R rest) \<longleftrightarrow>
     \<not> (length bs < 8 \<or> \<not> is_wasm_file_unchecked bs) \<and> R (drop 8 bs)" (is "?L = ?R")
proof
  assume ?L
  then show ?R by (auto simp: is_wasm_file_unchecked_def)
next
  assume r: ?R
  then have "bs = take 4 bs @ take 4 (drop 4 bs) @ drop 8 bs" by (metis append_take_drop_id drop_drop numeral_Bit0)
  moreover have "length (take 4 (drop 4 bs)) = 4" using r by auto
  ultimately show ?L using r unfolding is_wasm_file_unchecked_def by metis
qed

lemma handles_final_check:
  assumes "declarations_ok m" "module_valid limit m"
  shows "handles ptr (\<lambda>m'. length (codesec_codes (codesec m)) = length (mod_funcs m) \<and> m' = m) (bindE (define_final_check m) (\<lambda>_. Inr m))"
proof -
  have "length (mod_funcs m) < 2 ^ 32" using declarations_okD(4) [OF assms(1), of 0] by (simp add: index_space_def defined_count_def)
  then have "length (codesec_codes (codesec m)) < 2 ^ 32"
    using assms(2) by (cases "codesec_codes (codesec m) = []") (simp_all add: module_valid_def)
  from final_check_eq [OF assms(1) this] show ?thesis
    by (simp only:) (rule handles_cong, rule handles_throw_if [OF suffix_Nil_any _ handles_return], auto)
qed

lemma handles_module: "handles bs (module_ok limit bs) (wasm_binfmt_ver1_handle_func xxh3 limit bs)"
proof -
  let ?m = "empty_module bs" and ?wo = "\<lparr>max_section_id = 0, max_section_id_map_sec_id = 0\<rparr>" and ?rest = "drop 8 bs"
  note ok = declarations_ok_empty [of bs] module_valid_empty [of limit bs] order_inv_empty [of bs ?wo]
  have "handles bs (\<lambda>m. module_sections limit ?m ?wo ?rest m \<and> length (codesec_codes (codesec m)) = length (mod_funcs m))
    (if ?rest = [] then bindE (define_final_check ?m) (\<lambda>_. Inr ?m)
     else bindE (module_loop xxh3 limit ?m ?wo ?rest) (\<lambda>ret. bindE (define_final_check ret) (\<lambda>_. Inr ret)))"
  proof (cases "?rest = []")
    case True
    then show ?thesis by (simp add: True) (rule handles_cong, rule handles_final_check [OF ok(1,2)], auto)
  next
    case False
    have loop: "handles bs (module_sections limit ?m ?wo ?rest) (module_loop xxh3 limit ?m ?wo ?rest)"
      using module_loop_handles [OF False ok(1,3), of limit xxh3] throws_in_trans [OF _ suffix_drop] by (auto simp: handles_def)
    have "handles bs (\<lambda>m'. length (codesec_codes (codesec m)) = length (mod_funcs m) \<and> m' = m) (bindE (define_final_check m) (\<lambda>_. Inr m))"
      if "module_loop xxh3 limit ?m ?wo ?rest = Inr m" for m
    proof -
      have sec: "module_sections limit ?m ?wo ?rest m" using handlesD(1) [OF loop] that by blast
      show ?thesis by (rule handles_final_check [OF sections_invariant [OF sec ok(1,3)] sections_valid [OF sec ok(2,3)]])
    qed
    from handles_bind_Inr [OF loop this] show ?thesis unfolding if_not_P [OF False] by (rule handles_cong) auto
  qed
  note body = this
  have "module_ok limit bs m \<longleftrightarrow> \<not> (length bs < 8 \<or> \<not> is_wasm_file_unchecked bs) \<and>
      module_sections limit ?m ?wo ?rest m \<and> length (codesec_codes (codesec m)) = length (mod_funcs m)" for m
    unfolding module_ok_def by (rule header_iff)
  note ok = this
  show ?thesis unfolding wasm_binfmt_ver1_handle_func_def Let_def
    by (rule handles_cong, rule handles_throw_if, rule suffix_order.refl, simp, rule body) (simp add: ok)
qed

lemma module_ok_valid:
  assumes "module_ok limit bs m"
  shows "declarations_ok m" "module_valid limit m" "length (codesec_codes (codesec m)) = length (mod_funcs m)"
  using assms sections_invariant [OF _ declarations_ok_empty order_inv_empty] sections_valid [OF _ module_valid_empty order_inv_empty]
  by (auto simp: module_ok_def)

section \<open>What the validator is given\<close>

text \<open>The part of a parsed module that \<^verbatim>\<open>validate_code\<close> reads.\<close>

definition storage_of :: "wasm_module_storage \<Rightarrow> module_storage" where
  "storage_of m =
     \<lparr>imported_funcs = map (\<lambda>imp. mod_types m ! (case import_extern imp of extern_function t \<Rightarrow> t | _ \<Rightarrow> 0)) (imported m 0),
      imported_tables = length (imported m 1), imported_memories = length (imported m 2),
      imported_globals = map imported_global_type (imported m 3), types = mod_types m, funcs = mod_funcs m,
      tables = length (tablesec_tables (tablesec m)), memories = length (memorysec_memories (memorysec m)),
      local_globals = map global_decl (globalsec_local_globals (globalsec m)), codes = map code_locals (codesec_codes (codesec m))\<rparr>"

lemma imported_funcs_wf:
  assumes "declarations_ok m"
  shows "list_all wf_function_type (imported_funcs (storage_of m))"
proof -
  have "wf_function_type (mod_types m ! (case import_extern imp of extern_function t \<Rightarrow> t | _ \<Rightarrow> 0))"
    if "imp \<in> set (imports_of_kind 0 (mod_imports m))" for imp
  proof -
    have "extern_kind (import_extern imp) = 0" "extern_valid (mod_types m) (import_extern imp)"
      using that declarations_okD(2) [OF assms] by (auto simp: imports_of_kind_def list_all_iff)
    then show ?thesis using declarations_okD(6) [OF assms] by (cases "import_extern imp") (simp_all add: extern_kind_def list_all_length)
  qed
  then show ?thesis by (simp add: storage_of_def imported_eq [OF assms] list_all_iff)
qed

lemma parsed_wf_module:
  assumes "declarations_ok m" "module_valid limit m" "length (codesec_codes (codesec m)) = length (mod_funcs m)"
  shows "wf_module (storage_of m)"
proof -
  note n = declarations_okD(4) [OF assms(1)]
  have i: "imported m k = imports_of_kind k (mod_imports m)" if "k < 4" for k using imported_eq [OF assms(1)] that by simp
  have "list_all (\<lambda>g. global_value_type g \<noteq> vt_none) (imported_globals (storage_of m) @ local_globals (storage_of m))"
    using assms(2) by (auto simp: module_valid_def storage_of_def i imports_of_kind_def import_typed_def list_all_iff)
  moreover have "list_all2 (\<lambda>i ls. local_total (types (storage_of m) ! i) ls < 2 ^ 32) (funcs (storage_of m)) (codes (storage_of m))"
    using assms(2,3) by (simp add: module_valid_def storage_of_def list_all2_conv_all_nth code_valid_def)
  ultimately show ?thesis
    using imported_funcs_wf [OF assms(1)] n [of 1] n [of 2] n [of 3] declarations_okD(3,6) [OF assms(1)] assms(2,3)
    unfolding wf_module_def
    by (intro conjI) (simp_all add: storage_of_def i index_space_def defined_count_def module_valid_def list_all_iff)
qed

end
