(* ===== verification/Parser_Properties.thy ===== *)
theory Parser_Properties
  imports Module_Correct
begin

text \<open>
  The properties of the parser: those of the driver (C4, C16, C18 and C19), of the section handlers (C31 to C38) and of
  the UTF-8 check (C39), each with an application to a module that has every section.

  \<open>handles p P r\<close> says of a result \<open>r\<close> that it is a success with value \<open>s\<close> exactly when \<open>P s\<close>, and otherwise an error
  recorded at a position inside \<open>p\<close> and thrown with a code other than \<open>ok\<close>; so \<open>P\<close> has at most one solution, and no
  unchecked access is out of range.
\<close>

section \<open>Example data\<close>

definition example_limit :: wasm1_parser_limit_t where
  "example_limit = \<lparr>max_code_sec_codes = 1000, max_code_locals = 1000, max_data_sec_entries = 1000, max_elem_sec_funcidx = 1000,
     max_elem_sec_elems = 1000, max_export_sec_exports = 1000, max_global_sec_globals = 1000, max_import_sec_imports = 1000,
     max_memory_sec_memories = 1000, max_table_sec_tables = 1000, max_type_sec_types = 1000\<rparr>"

text \<open>The contents of the twelve sections of a module, and the module.\<close>

definition example_type_section :: "byte list" where
  "example_type_section = [0x02, 0x60, 0x00, 0x00, 0x60, 0x01, 0x7f, 0x01, 0x7f]"

definition example_import_section :: "byte list" where
  "example_import_section = [0x02, 0x01, 0x6d, 0x01, 0x66, 0x00, 0x01, 0x01, 0x6d, 0x01, 0x67, 0x03, 0x7f, 0x00]"

definition example_function_section :: "byte list" where
  "example_function_section = [0x02, 0x00, 0x01]"

definition example_table_section :: "byte list" where
  "example_table_section = [0x01, 0x70, 0x00, 0x01]"

definition example_memory_section :: "byte list" where
  "example_memory_section = [0x01, 0x01, 0x01, 0x02]"

definition example_global_section :: "byte list" where
  "example_global_section = [0x01, 0x7f, 0x00, 0x23, 0x00, 0x0b]"

definition example_export_section :: "byte list" where
  "example_export_section = [0x01, 0x01, 0x61, 0x00, 0x01]"

definition example_start_section :: "byte list" where
  "example_start_section = [0x01]"

definition example_element_section :: "byte list" where
  "example_element_section = [0x01, 0x00, 0x41, 0x00, 0x0b, 0x01, 0x02]"

definition example_code_section :: "byte list" where
  "example_code_section = [0x02, 0x02, 0x00, 0x0b, 0x06, 0x01, 0x02, 0x7d, 0x20, 0x00, 0x0b]"

definition example_data_section :: "byte list" where
  "example_data_section = [0x01, 0x00, 0x41, 0x00, 0x0b, 0x02, 0xaa, 0xbb]"

definition example_name_section :: "byte list" where
  "example_name_section = [0x04, 0x6e, 0x61, 0x6d, 0x65, 0x00]"

definition example_binary :: "byte list" where
  "example_binary = [0x00, 0x61, 0x73, 0x6d, 0x01, 0x00, 0x00, 0x00] @
     concat (map (\<lambda>(k, b). k # of_nat (length b) # b)
       [(1, example_type_section), (2, example_import_section), (3, example_function_section), (4, example_table_section),
        (5, example_memory_section), (6, example_global_section), (7, example_export_section), (8, example_start_section),
        (9, example_element_section), (10, example_code_section), (11, example_data_section), (0, example_name_section)])"

text \<open>What the first five sections declare.\<close>

definition example_types :: type_section_storage_t where
  "example_types = \<lparr>typesec_span = Some example_type_section,
     typesec_types = [\<lparr>parameter = [], result = []\<rparr>, \<lparr>parameter = [i32], result = [i32]\<rparr>]\<rparr>"

definition example_import_f :: final_import_type where
  "example_import_f = \<lparr>import_module_name = [0x6d], import_extern_name = [0x66], import_extern = extern_function 1\<rparr>"

definition example_import_g :: final_import_type where
  "example_import_g = \<lparr>import_module_name = [0x6d], import_extern_name = [0x67],
     import_extern = extern_global \<lparr>global_value_type = i32, is_mutable = False\<rparr>\<rparr>"

definition example_imports :: import_section_storage_t where
  "example_imports = \<lparr>importsec_span = Some example_import_section, importsec_imports = [example_import_f, example_import_g],
     importsec_importdesc = [[example_import_f], [], [], [example_import_g], []]\<rparr>"

definition example_functions :: function_section_storage_t where
  "example_functions = \<lparr>functionsec_span = Some example_function_section, functionsec_funcs = typeidx_u8_view [0, 1]\<rparr>"

definition example_tables :: table_section_storage_t where
  "example_tables = \<lparr>tablesec_span = Some example_table_section,
     tablesec_tables = [\<lparr>limits_min = 1, limits_max = 0xffffffff, present_max = False\<rparr>]\<rparr>"

definition example_memories :: memory_section_storage_t where
  "example_memories = \<lparr>memorysec_span = Some example_memory_section,
     memorysec_memories = [\<lparr>limits_min = 1, limits_max = 2, present_max = True\<rparr>]\<rparr>"

definition example_declared :: wasm_module_storage where
  "example_declared = (empty_module example_binary)\<lparr>typesec := example_types, importsec := example_imports,
     functionsec := example_functions, tablesec := example_tables, memorysec := example_memories\<rparr>"

text \<open>What the other sections define.\<close>

definition example_const :: "byte \<Rightarrow> base_const_expr_opcode_t \<Rightarrow> wasm1_const_expr_storage_t" where
  "example_const b op = \<lparr>const_expr_bytes = [b, 0x00, 0x0b], const_expr_opcodes = [op]\<rparr>"

definition example_globals :: global_section_storage_t where
  "example_globals = \<lparr>globalsec_span = Some example_global_section,
     globalsec_local_globals = [\<lparr>global_decl = \<lparr>global_value_type = i32, is_mutable = False\<rparr>,
       global_expr = example_const 0x23 (const_global_get 0)\<rparr>]\<rparr>"

definition example_export :: final_wasm_export_type where
  "example_export = \<lparr>export_name = [0x61], exports_type = 0, exports_idx = 1\<rparr>"

definition example_exports :: export_section_storage_t where
  "example_exports = \<lparr>exportsec_span = Some example_export_section, exportsec_exports = [example_export],
     exportsec_exportdesc = [[example_export], [], [], [], []]\<rparr>"

definition example_start :: start_section_storage_t where
  "example_start = \<lparr>startsec_span = Some example_start_section, startsec_start_idx = 1\<rparr>"

definition example_elements :: element_section_storage_t where
  "example_elements = \<lparr>elemsec_span = Some example_element_section,
     elemsec_elems = [\<lparr>elem_table_idx = 0, elem_expr = example_const 0x41 (const_i32 0), elem_vec_funcidx = [2]\<rparr>]\<rparr>"

definition example_codes :: code_section_storage_t where
  "example_codes = \<lparr>codesec_span = Some example_code_section, codesec_codes =
     [\<lparr>code_body = \<lparr>body_bytes = [0x00, 0x0b], body_expr_bytes = [0x0b]\<rparr>, code_locals = [], code_all_local_count = 0\<rparr>,
      \<lparr>code_body = \<lparr>body_bytes = [0x01, 0x02, 0x7d, 0x20, 0x00, 0x0b], body_expr_bytes = [0x20, 0x00, 0x0b]\<rparr>,
       code_locals = [\<lparr>count = 2, local_type = f32\<rparr>], code_all_local_count = 2\<rparr>]\<rparr>"

definition example_datas :: data_section_storage_t where
  "example_datas = \<lparr>datasec_span = Some example_data_section,
     datasec_datas = [\<lparr>data_memory_idx = 0, data_expr = example_const 0x41 (const_i32 0), data_byte = [0xaa, 0xbb]\<rparr>]\<rparr>"

definition example_customs :: custom_section_storage_t where
  "example_customs = \<lparr>customsec_customs = [\<lparr>custom_span = example_name_section, custom_name = name_section, custom_content = [0x00]\<rparr>]\<rparr>"

definition example_parsed :: wasm_module_storage where
  "example_parsed = example_declared\<lparr>globalsec := example_globals, exportsec := example_exports, startsec := example_start,
     elemsec := example_elements, codesec := example_codes, datasec := example_datas, customsec := example_customs\<rparr>"

lemma example_binary_parsed: "wasm_binfmt_ver1_handle_func (\<lambda>_. 7) example_limit example_binary = Inr example_parsed"
  by code_simp

lemma example_declared_ok: "declarations_ok example_declared"
  by (simp add: declarations_ok_def example_declared_def example_types_def example_imports_def example_functions_def example_tables_def
      example_memories_def example_import_f_def example_import_g_def empty_module_def importdesc_of_def imports_of_kind_def funcs_of_def
      index_space_def defined_count_def index_space_cases extern_kind_def wf_function_type_def upt_rec)

section \<open>The driver\<close>

text \<open>
  \<^bold>\<open>C4.\<close> The parser accepts exactly the modules of the specification: it returns \<open>m\<close> if and only if the bytes are a magic
  number, a version and a sequence of sections in order whose contents satisfy the grammar, the validity conditions and
  the limits, and \<open>m\<close> is what these sections declare and define. The hash function has no influence on the result.
\<close>

theorem parser_accepts_modules: "wasm_binfmt_ver1_handle_func xxh3 limit bs = Inr m \<longleftrightarrow> module_ok limit bs m"
  by (rule handlesD(1) [OF handles_module])

text \<open>
  \<^bold>\<open>C16.\<close> The parser always returns: with a module, or by throwing an error that is recorded at a position inside the
  bytes it was given, with a parse code other than \<open>ok\<close>. It never makes an unchecked access out of range.
\<close>

theorem parser_returns:
  "(\<exists>m. wasm_binfmt_ver1_handle_func xxh3 limit bs = Inr m) \<or>
   (\<exists>e. wasm_binfmt_ver1_handle_func xxh3 limit bs = Inl (Throw e) \<and> suffix (perr_curr e) bs \<and> perr_thrown e \<noteq> parse_ok)"
  using handlesD(2) [OF handles_module [of bs limit xxh3]]
  by (cases "wasm_binfmt_ver1_handle_func xxh3 limit bs") (auto simp: throws_in_def)

text \<open>
  \<^bold>\<open>C18.\<close> A parsed module is consistent: types, imports and function declarations fit together, every index in its globals,
  exports, start function, elements and data is in range with the right type, export names are distinct, limits are
  valid, and there is one body for each declared function.
\<close>

theorem parsed_module_valid:
  assumes "wasm_binfmt_ver1_handle_func xxh3 limit bs = Inr m"
  shows "declarations_ok m \<and> module_valid limit m \<and> length (codesec_codes (codesec m)) = length (mod_funcs m)"
  using module_ok_valid handlesD(1) [OF handles_module] assms by blast

theorem parsed_module_valid_witness:
  "declarations_ok example_parsed \<and> module_valid example_limit example_parsed \<and>
   wasm_binfmt_ver1_handle_func (\<lambda>_. 7) example_limit example_binary = Inr example_parsed"
  using parsed_module_valid [OF example_binary_parsed] example_binary_parsed by blast

text \<open>
  \<^bold>\<open>C19.\<close> The parser establishes what the validator relies on: the part of a parsed module that \<open>validate_code\<close> reads
  is well formed. The sizes of the index spaces, which the code computes in \<open>u32\<close>, do not wrap; there is at most one table
  and one memory, and a memory, imported or defined, declares at most 65536 pages.
\<close>

theorem parsed_module_wf:
  assumes "wasm_binfmt_ver1_handle_func xxh3 limit bs = Inr m"
  shows "wf_module (storage_of m) \<and>
     unat (all_func_size m) = length (mod_funcs m) + length (imports_of_kind 0 (mod_imports m)) \<and>
     unat (all_global_size m) = length (globalsec_local_globals (globalsec m)) + length (imports_of_kind 3 (mod_imports m)) \<and>
     all_table_size m \<le> 1 \<and> all_memory_size m \<le> 1 \<and>
     list_all memory_valid (memorysec_memories (memorysec m) @ concat (map (\<lambda>imp. case import_extern imp of extern_memory mt \<Rightarrow> [mt] | _ \<Rightarrow> []) (mod_imports m)))"
proof -
  have ok: "module_ok limit bs m" using handlesD(1) [OF handles_module] assms by blast
  then have d: "declarations_ok m" and v: "module_valid limit m" using module_ok_valid by blast+
  have w: "wf_module (storage_of m)" using parsed_wf_module module_ok_valid ok by blast
  have "memory_valid mt" if "imp \<in> set (mod_imports m)" "import_extern imp = extern_memory mt" for imp mt
    using that declarations_okD(2) [OF d] by (auto simp: list_all_iff)
  then have "list_all memory_valid (concat (map (\<lambda>imp. case import_extern imp of extern_memory mt \<Rightarrow> [mt] | _ \<Rightarrow> []) (mod_imports m)))"
    by (auto simp: list_all_iff split: wasm1_final_extern_type.splits)
  then show ?thesis
    using d v w by (simp add: all_sizes [OF d] word_le_nat_alt index_space_def defined_count_def declarations_ok_def module_valid_def)
qed

theorem parsed_module_wf_witness:
  "wf_module (storage_of example_parsed) \<and> funcs (storage_of example_parsed) = [0, 1] \<and> unat (all_func_size example_parsed) = 3 \<and>
   all_memory_size example_parsed \<le> 1 \<and> memory_valid \<lparr>limits_min = 1, limits_max = 2, present_max = True\<rparr>"
proof -
  note b = parsed_module_wf [OF example_binary_parsed]
  have "length (mod_funcs example_parsed) = 2" "length (imports_of_kind 0 (mod_imports example_parsed)) = 1"
    "memorysec_memories (memorysec example_parsed) = [\<lparr>limits_min = 1, limits_max = 2, present_max = True\<rparr>]"
    "funcs (storage_of example_parsed) = [0, 1]" by code_simp+
  with b show ?thesis by simp
qed

section \<open>The sections\<close>

lemma example_unread:
  "globalsec example_declared = globalsec (empty_module [])" "exportsec example_declared = exportsec (empty_module [])"
  "startsec example_declared = startsec (empty_module [])" "elemsec example_declared = elemsec (empty_module [])"
  "codesec example_declared = codesec (empty_module [])" "datasec example_declared = datasec (empty_module [])"
  "length (typesec_types example_types) = 2"
  by (simp_all add: example_declared_def empty_module_def example_types_def)

lemma handles_result: "r = Inr x \<Longrightarrow> handles ptr P r \<Longrightarrow> P x"
  by (auto simp: handles_def)

lemmas example_module_simps = example_declared_ok example_unread empty_module_def suffix_ConsI

text \<open>
  \<^bold>\<open>C31.\<close> The type and import sections: the type handler succeeds exactly on a vector of function types with at most one result each,
  within the limit; the import handler exactly on a vector of imports whose names are UTF-8, whose types are valid and among which
  there is at most one table and one memory. They store what they read, the import handler also its distribution over the five kinds.
\<close>

theorem type_import_sections_correct:
  assumes "typesec_span t = None" "typesec_types t = []" "importsec_span s = None" "importsec_imports s = []"
    "importsec_importdesc s = replicate 5 []" "suffix bs ptr"
  shows "handles ptr (type_section_ok limit bs) (handle_type_section limit t bs ptr) \<and>
     handles ptr (import_section_ok limit ts bs) (handle_import_section limit ts s bs ptr)"
  unfolding type_section_ok_def import_section_ok_def
  using handles_type_section [OF assms(1,2,6)] handles_import_section [OF assms(3-6)] by (rule conjI)

theorem type_import_sections_correct_witness:
  "type_section_ok example_limit example_type_section example_types \<and>
   import_section_ok example_limit (typesec_types example_types) example_import_section example_imports"
proof -
  have run: "handle_type_section example_limit (typesec (empty_module [])) example_type_section (0 # example_type_section) = Inr example_types"
    "handle_import_section example_limit (typesec_types example_types) (importsec (empty_module [])) example_import_section (0 # example_import_section) = Inr example_imports"
    by code_simp+
  show ?thesis
  proof
    show "type_section_ok example_limit example_type_section example_types"
      by (rule handles_result [OF run(1) conjunct1 [OF type_import_sections_correct [where s = "importsec (empty_module [])"]]]) (simp_all add: example_module_simps)
    show "import_section_ok example_limit (typesec_types example_types) example_import_section example_imports"
      by (rule handles_result [OF run(2) conjunct2 [OF type_import_sections_correct [where t = "typesec (empty_module [])"]]]) (simp_all add: example_module_simps)
  qed
qed

text \<open>
  \<^bold>\<open>C32.\<close> The function section: the handler succeeds exactly on a vector of type indices in range, and stores them in the
  representation that the number of types and the encoding select, for every one of the five decoders.
\<close>

theorem function_section_correct:
  assumes "functionsec_span s = None" "length ts < 2 ^ 32" "nimports < 2 ^ 32" "suffix bs ptr"
  shows "handles ptr (function_section_ok limit (length ts) nimports bs) (handle_function_section limit ts nimports s bs ptr)"
  unfolding function_section_ok_def using assms by (rule handles_function_section)

theorem function_section_correct_witness: "function_section_ok example_limit (length (typesec_types example_types)) 1 example_function_section example_functions"
proof -
  have run: "handle_function_section example_limit (typesec_types example_types) 1 (functionsec (empty_module [])) example_function_section (0 # example_function_section) = Inr example_functions" by code_simp
  show ?thesis by (rule handles_result [OF run function_section_correct]) (simp_all add: example_module_simps)
qed

text \<open>
  \<^bold>\<open>C33.\<close> The table and memory sections: the handlers succeed exactly on a vector of table types with valid limits, or of memory
  types of at most 65536 pages, that leaves the module with at most one table and one memory.
\<close>

theorem table_memory_sections_correct:
  assumes "tablesec_span t = None" "tablesec_tables t = []" "memorysec_span s = None" "memorysec_memories s = []" "nimports \<le> 1" "suffix bs ptr"
  shows "handles ptr (table_section_ok limit nimports bs) (handle_table_section limit nimports t bs ptr) \<and>
     handles ptr (memory_section_ok limit nimports bs) (handle_memory_section limit nimports s bs ptr)"
  unfolding table_section_ok_def memory_section_ok_def
  using handles_table_section [OF assms(1,2,5,6)] handles_memory_section [OF assms(3-6)] by (rule conjI)

theorem table_memory_sections_correct_witness:
  "table_section_ok example_limit 0 example_table_section example_tables \<and> memory_section_ok example_limit 0 example_memory_section example_memories"
proof -
  have run: "handle_table_section example_limit 0 (tablesec (empty_module [])) example_table_section (0 # example_table_section) = Inr example_tables"
    "handle_memory_section example_limit 0 (memorysec (empty_module [])) example_memory_section (0 # example_memory_section) = Inr example_memories"
    by code_simp+
  show ?thesis
  proof
    show "table_section_ok example_limit 0 example_table_section example_tables"
      by (rule handles_result [OF run(1) conjunct1 [OF table_memory_sections_correct [where s = "memorysec (empty_module [])"]]]) (simp_all add: example_module_simps)
    show "memory_section_ok example_limit 0 example_memory_section example_memories"
      by (rule handles_result [OF run(2) conjunct2 [OF table_memory_sections_correct [where t = "tablesec (empty_module [])"]]]) (simp_all add: example_module_simps)
  qed
qed

text \<open>
  \<^bold>\<open>C34.\<close> The global section: the handler succeeds exactly on a vector of globals whose initial value is a constant expression of
  the declared type over the imported immutable globals, and whose number keeps the index space within \<open>u32\<close>.
\<close>

theorem global_section_correct:
  assumes "declarations_ok m" "globalsec_span (globalsec m) = None" "globalsec_local_globals (globalsec m) = []" "suffix bs ptr"
  shows "handles ptr (global_section_ok limit m bs) (handle_global_section limit m bs ptr)"
  unfolding global_section_ok_def using assms by (rule handles_global_section)

theorem global_section_correct_witness: "global_section_ok example_limit example_declared example_global_section example_globals"
proof -
  have run: "handle_global_section example_limit example_declared example_global_section (0 # example_global_section) = Inr example_globals" by code_simp
  show ?thesis by (rule handles_result [OF run global_section_correct]) (simp_all add: example_module_simps)
qed

text \<open>
  \<^bold>\<open>C35.\<close> The export and start sections: the export handler succeeds exactly on a vector of exports with distinct UTF-8 names and
  indices in the index space of their kind, and stores them and their distribution over the kinds; the start handler
  succeeds exactly on the index of a function without parameters and results.
\<close>

theorem export_start_sections_correct:
  assumes "declarations_ok m" "exportsec_span (exportsec m) = None" "exportsec_exports (exportsec m) = []"
    "exportsec_exportdesc (exportsec m) = replicate 5 []" "startsec_span (startsec m) = None" "suffix bs ptr"
  shows "handles ptr (export_section_ok limit m bs) (handle_export_section limit m bs ptr) \<and>
     handles ptr (start_section_ok m bs) (handle_start_section m bs ptr)"
  unfolding export_section_ok_def start_section_ok_def
  using handles_export_section [OF assms(1-4,6)] handles_start_section [OF assms(1,5,6)] by (rule conjI)

theorem export_start_sections_correct_witness:
  "export_section_ok example_limit example_declared example_export_section example_exports \<and>
   start_section_ok example_declared example_start_section example_start"
proof -
  have run: "handle_export_section example_limit example_declared example_export_section (0 # example_export_section) = Inr example_exports"
    "handle_start_section example_declared example_start_section (0 # example_start_section) = Inr example_start" by code_simp+
  show ?thesis
  proof
    show "export_section_ok example_limit example_declared example_export_section example_exports"
      by (rule handles_result [OF run(1) conjunct1 [OF export_start_sections_correct]]) (simp_all add: example_module_simps)
    show "start_section_ok example_declared example_start_section example_start"
      by (rule handles_result [OF run(2) conjunct2 [OF export_start_sections_correct]]) (simp_all add: example_module_simps)
  qed
qed

text \<open>
  \<^bold>\<open>C36.\<close> The element and data sections: the handlers succeed exactly on a vector of segments for the table or the memory that exists,
  with an \<open>i32\<close> constant expression as offset and, for elements, function indices in range.
\<close>

theorem segment_sections_correct:
  assumes "declarations_ok m" "elemsec_span (elemsec m) = None" "elemsec_elems (elemsec m) = []"
    "datasec_span (datasec m) = None" "datasec_datas (datasec m) = []" "suffix bs ptr"
  shows "handles ptr (element_section_ok limit m bs) (handle_element_section limit m bs ptr) \<and>
     handles ptr (data_section_ok limit m bs) (handle_data_section limit m bs ptr)"
  unfolding element_section_ok_def data_section_ok_def
  using handles_element_section [OF assms(1-3,6)] handles_data_section [OF assms(1,4-6)] by (rule conjI)

theorem segment_sections_correct_witness:
  "element_section_ok example_limit example_declared example_element_section example_elements \<and>
   data_section_ok example_limit example_declared example_data_section example_datas"
proof -
  have run: "handle_element_section example_limit example_declared example_element_section (0 # example_element_section) = Inr example_elements"
    "handle_data_section example_limit example_declared example_data_section (0 # example_data_section) = Inr example_datas" by code_simp+
  show ?thesis
  proof
    show "element_section_ok example_limit example_declared example_element_section example_elements"
      by (rule handles_result [OF run(1) conjunct1 [OF segment_sections_correct]]) (simp_all add: example_module_simps)
    show "data_section_ok example_limit example_declared example_data_section example_datas"
      by (rule handles_result [OF run(2) conjunct2 [OF segment_sections_correct]]) (simp_all add: example_module_simps)
  qed
qed

text \<open>
  \<^bold>\<open>C37.\<close> The code section: the handler succeeds exactly on one body per declared function, each with its size, its local
  declarations, of which there are not more than the limit and \<open>u32\<close> allow, and its expression.
\<close>

theorem code_section_correct:
  assumes "declarations_ok m" "codesec_span (codesec m) = None" "codesec_codes (codesec m) = []" "suffix bs ptr"
  shows "handles ptr (code_section_ok limit m bs) (handle_code_section limit m bs ptr)"
  unfolding code_section_ok_def using assms by (rule handles_code_section)

theorem code_section_correct_witness: "code_section_ok example_limit example_declared example_code_section example_codes"
proof -
  have run: "handle_code_section example_limit example_declared example_code_section (0 # example_code_section) = Inr example_codes" by code_simp
  show ?thesis by (rule handles_result [OF run code_section_correct]) (simp_all add: example_module_simps)
qed

text \<open>
  \<^bold>\<open>C38.\<close> Custom sections: the handler succeeds exactly on a UTF-8 name followed by any bytes and appends the section to
  those of the module; the section \<^verbatim>\<open>name\<close> is refused after a section of higher order, and places itself behind the
  data section. The hash of the name, by which the order is looked up, has no influence.
\<close>

theorem custom_section_correct:
  assumes "suffix bs ptr"
  shows "handles ptr (\<lambda>r. custom_section_ok (customsec m) wo bs (fst r) (snd r)) (handle_custom_section xxh3 m wo bs)"
  using assms by (rule handles_custom_section)

theorem custom_section_correct_witness:
  "custom_section_ok (customsec (empty_module [])) \<lparr>max_section_id = 11, max_section_id_map_sec_id = 11\<rparr> example_name_section
     example_customs \<lparr>max_section_id = 12, max_section_id_map_sec_id = 0\<rparr>"
proof -
  let ?wo = "\<lparr>max_section_id = 11, max_section_id_map_sec_id = 11\<rparr>"
  have "handle_custom_section (\<lambda>_. 7) (empty_module []) ?wo example_name_section =
    Inr (example_customs, \<lparr>max_section_id = 12, max_section_id_map_sec_id = 0\<rparr>)" by code_simp
  then show ?thesis
    using handlesD(1) [OF custom_section_correct [OF suffix_order.refl, of example_name_section "empty_module []" ?wo "\<lambda>_. 7"]] by simp
qed

section \<open>Names\<close>

text \<open>
  \<^bold>\<open>C39.\<close> The UTF-8 check of names is exact: it reports success if and only if the bytes are the encodings of a sequence of
  Unicode scalar values; otherwise everything in front of the reported position is well formed and no
  scalar value is encoded at that position.
\<close>

theorem utf8_check_exact:
  "(snd (check_legal_utf8_unchecked bs) = success \<longleftrightarrow> utf8_string bs) \<and>
   (\<exists>pre. bs = pre @ fst (check_legal_utf8_unchecked bs) \<and> utf8_string pre) \<and>
   (snd (check_legal_utf8_unchecked bs) = success \<or> (\<nexists>c rest. unicode_scalar c \<and> fst (check_legal_utf8_unchecked bs) = utf8_encode c @ rest))"
proof (cases "check_legal_utf8_unchecked bs")
  case (Pair pos e)
  then show ?thesis using check_legal_utf8_outcome [OF Pair] check_legal_utf8_accepts [of bs] by (auto split: if_splits)
qed

theorem utf8_check_exact_witness: "utf8_string [0x61, 0xc3, 0xa9] \<and> \<not> utf8_string [0x61, 0xc0, 0x80]"
proof -
  have "snd (check_legal_utf8_unchecked [0x61, 0xc3, 0xa9]) = success" "snd (check_legal_utf8_unchecked [0x61, 0xc0, 0x80]) \<noteq> success"
    by code_simp+
  then show ?thesis using utf8_check_exact by blast
qed

end
