(* ===== verification/Rw_Spin_Lock.thy ===== *)
theory Rw_Spin_Lock
  imports Uwvm_Prelude
begin

text \<open>
  The reader-writer spin locks of \<^verbatim>\<open>utils/mutex/rw_spin_lock.h\<close>: one atomic word and five pairs of guards that
  acquire it in their constructor and release it in their destructor. The fair pair protects the file
  descriptor table of the WASI functions.

  A thread is the position it has reached in a guard, a step of it is one atomic operation on the word. A load may return
  any value, since it is relaxed, and a compare-exchange may fail without reason, since it is weak; the pauses between
  attempts have no counterpart. Guards of different kinds may be used on one lock.
\<close>

unbundle bit_operations_syntax

section \<open>The guards\<close>

definition rwlock_writer_mask :: u32 where "rwlock_writer_mask = 1"

definition rwlock_pending_mask :: u32 where "rwlock_pending_mask = 2"

definition rwlock_writer_waiting_mask :: u32 where "rwlock_writer_waiting_mask = 4"

definition rwlock_reader_mask :: u32 where "rwlock_reader_mask = 8"

definition rwlock_reader_count_mask :: u32 where "rwlock_reader_count_mask = NOT (rwlock_reader_mask - 1)"

datatype guard =
    rw_shared | rw_unique
  | rw_writer_pref_shared | rw_writer_pref_unique
  | rw_writer_pref_no_starvation_shared | rw_writer_pref_no_starvation_unique
  | rw_fair_shared | rw_fair_unique
  | rw_fair_writer_pref_shared | rw_fair_writer_pref_unique

text \<open>What a guard does with the value it has loaded: try again, or exchange it for another one, for one of three purposes.\<close>

datatype purpose = announce | take_ticket | enter

datatype request = retry | exchange_for u32 purpose

definition rw_writer_pref_shared_guard_t :: "u32 \<Rightarrow> request" where
  "rw_writer_pref_shared_guard_t old =
     (if old AND (rwlock_writer_mask OR rwlock_writer_waiting_mask) \<noteq> 0 then retry
      else exchange_for (old + rwlock_reader_mask) enter)"

definition rw_writer_pref_unique_guard_t :: "u32 \<Rightarrow> request" where
  "rw_writer_pref_unique_guard_t old =
     (if old AND rwlock_writer_waiting_mask = 0 then exchange_for (old OR rwlock_writer_waiting_mask) announce
      else if old AND rwlock_writer_mask = 0 \<and> old AND rwlock_reader_count_mask = 0
      then exchange_for (old OR rwlock_writer_mask) enter
      else retry)"

definition rw_writer_pref_no_starvation_shared_guard_t :: "u32 \<Rightarrow> request" where
  "rw_writer_pref_no_starvation_shared_guard_t old =
     (if old AND (rwlock_writer_mask OR rwlock_pending_mask) \<noteq> 0 then retry
      else exchange_for (old + rwlock_reader_mask) enter)"

definition rw_writer_pref_no_starvation_unique_guard_t :: "bool \<Rightarrow> u32 \<Rightarrow> request" where
  "rw_writer_pref_no_starvation_unique_guard_t have_pending_ticket old =
     (if \<not> have_pending_ticket
      then if old AND rwlock_pending_mask \<noteq> 0 then retry else exchange_for (old OR rwlock_pending_mask) take_ticket
      else if old AND rwlock_writer_mask = 0 \<and> old AND rwlock_reader_count_mask = 0
      then exchange_for (old OR rwlock_writer_mask) enter
      else retry)"

definition rw_fair_shared_guard_t :: "u32 \<Rightarrow> request" where
  "rw_fair_shared_guard_t old =
     (if old AND (rwlock_writer_mask OR rwlock_pending_mask) \<noteq> 0 then retry
      else exchange_for (old + rwlock_reader_mask) enter)"

definition rw_fair_unique_guard_t :: "bool \<Rightarrow> u32 \<Rightarrow> request" where
  "rw_fair_unique_guard_t have_pending_ticket old =
     (if \<not> have_pending_ticket
      then if old AND rwlock_pending_mask \<noteq> 0 then retry else exchange_for (old OR rwlock_pending_mask) take_ticket
      else if old AND rwlock_writer_mask = 0 \<and> old AND rwlock_reader_count_mask = 0
      then exchange_for (old OR rwlock_writer_mask) enter
      else retry)"

definition rw_fair_writer_pref_shared_guard_t :: "u32 \<Rightarrow> request" where
  "rw_fair_writer_pref_shared_guard_t old =
     (if old AND (rwlock_writer_mask OR rwlock_pending_mask OR rwlock_writer_waiting_mask) \<noteq> 0 then retry
      else exchange_for (old + rwlock_reader_mask) enter)"

definition rw_fair_writer_pref_unique_guard_t :: "bool \<Rightarrow> u32 \<Rightarrow> request" where
  "rw_fair_writer_pref_unique_guard_t have_pending_ticket old =
     (if old AND rwlock_writer_waiting_mask = 0 then exchange_for (old OR rwlock_writer_waiting_mask) announce
      else if \<not> have_pending_ticket
      then if old AND rwlock_pending_mask \<noteq> 0 then retry else exchange_for (old OR rwlock_pending_mask) take_ticket
      else if old AND rwlock_writer_mask = 0 \<and> old AND rwlock_reader_count_mask = 0
      then exchange_for (old OR rwlock_writer_mask) enter
      else retry)"

text \<open>The two guards without a load do not use this function.\<close>

definition guard_request :: "guard \<Rightarrow> bool \<Rightarrow> u32 \<Rightarrow> request" where
  "guard_request g have_pending_ticket old =
     (case g of rw_writer_pref_shared \<Rightarrow> rw_writer_pref_shared_guard_t old
      | rw_writer_pref_unique \<Rightarrow> rw_writer_pref_unique_guard_t old
      | rw_writer_pref_no_starvation_shared \<Rightarrow> rw_writer_pref_no_starvation_shared_guard_t old
      | rw_writer_pref_no_starvation_unique \<Rightarrow> rw_writer_pref_no_starvation_unique_guard_t have_pending_ticket old
      | rw_fair_shared \<Rightarrow> rw_fair_shared_guard_t old
      | rw_fair_unique \<Rightarrow> rw_fair_unique_guard_t have_pending_ticket old
      | rw_fair_writer_pref_shared \<Rightarrow> rw_fair_writer_pref_shared_guard_t old
      | rw_fair_writer_pref_unique \<Rightarrow> rw_fair_writer_pref_unique_guard_t have_pending_ticket old
      | rw_shared \<Rightarrow> retry | rw_unique \<Rightarrow> retry)"

text \<open>The destructors.\<close>

definition guard_release :: "guard \<Rightarrow> u32 \<Rightarrow> u32" where
  "guard_release g bits =
     (case g of rw_unique \<Rightarrow> bits AND NOT rwlock_writer_mask
      | rw_writer_pref_unique \<Rightarrow> bits AND NOT (rwlock_writer_mask OR rwlock_writer_waiting_mask)
      | rw_writer_pref_no_starvation_unique \<Rightarrow> bits AND NOT (rwlock_writer_mask OR rwlock_pending_mask)
      | rw_fair_unique \<Rightarrow> bits AND NOT (rwlock_writer_mask OR rwlock_pending_mask)
      | rw_fair_writer_pref_unique \<Rightarrow> bits AND NOT (rwlock_writer_mask OR rwlock_pending_mask OR rwlock_writer_waiting_mask)
      | _ \<Rightarrow> bits - rwlock_reader_mask)"

section \<open>Threads\<close>

datatype position =
    outside
  | loop_head guard bool \<comment> \<open>\<open>have_pending_ticket\<close>\<close>
  | exchanging guard bool u32 u32 purpose \<comment> \<open>\<open>old\<close> and \<open>desired\<close>\<close>
  | roll_back
  | inside guard

text \<open>
  One atomic operation of a thread. \<open>fails\<close> says that a weak compare-exchange fails though the values are
  equal, \<open>seen\<close> is the value that a load returns.
\<close>

fun thread_step :: "bool \<Rightarrow> u32 \<Rightarrow> u32 \<Rightarrow> position \<Rightarrow> u32 \<times> position" where
  "thread_step fails seen bits outside = (bits, outside)"
| "thread_step fails seen bits (loop_head g ticket) =
     (if g = rw_shared
      then (bits + rwlock_reader_mask, if bits AND rwlock_writer_mask = 0 then inside rw_shared else roll_back)
      else if g = rw_unique
      then if bits = 0 \<and> \<not> fails then (rwlock_writer_mask, inside rw_unique) else (bits, loop_head rw_unique ticket)
      else case guard_request g ticket seen of
        retry \<Rightarrow> (bits, loop_head g ticket)
      | exchange_for desired p \<Rightarrow> (bits, exchanging g ticket seen desired p))"
| "thread_step fails seen bits (exchanging g ticket old desired p) =
     (if bits = old \<and> \<not> fails
      then (desired, case p of announce \<Rightarrow> loop_head g ticket | take_ticket \<Rightarrow> loop_head g True | enter \<Rightarrow> inside g)
      else (bits, loop_head g ticket))"
| "thread_step fails seen bits roll_back = (bits - rwlock_reader_mask, loop_head rw_shared False)"
| "thread_step fails seen bits (inside g) = (guard_release g bits, outside)"

type_synonym lock_state = "u32 \<times> position list"

text \<open>Threads take steps in any order; a thread outside may construct any guard.\<close>

inductive lock_step :: "lock_state \<Rightarrow> lock_state \<Rightarrow> bool" where
  lock_start: "lock_step (bits, ts) (bits, ts[i := loop_head g False])" if "i < length ts" "ts ! i = outside"
| lock_advance: "lock_step (bits, ts) (bits', ts[i := p])"
  if "i < length ts" "ts ! i \<noteq> outside" "thread_step fails seen bits (ts ! i) = (bits', p)"

inductive lock_reachable :: "nat \<Rightarrow> lock_state \<Rightarrow> bool" for n where
  lock_initial: "lock_reachable n (0, replicate n outside)"
| lock_next: "lock_reachable n s \<Longrightarrow> lock_step s s' \<Longrightarrow> lock_reachable n s'"

section \<open>The word\<close>

text \<open>The word with its three flags and its number of readers.\<close>

definition lock_word :: "bool \<Rightarrow> bool \<Rightarrow> bool \<Rightarrow> nat \<Rightarrow> u32" where
  "lock_word w p a n = push_bit 3 (of_nat n) OR (if w then rwlock_writer_mask else 0) OR (if p then rwlock_pending_mask else 0) OR
     (if a then rwlock_writer_waiting_mask else 0)"

lemma bit_u32_exp: "k < 32 \<Longrightarrow> bit (2 ^ k :: u32) i \<longleftrightarrow> i = k"
  by (auto simp: bit_exp_iff)

lemma bit_lock_masks:
  "bit rwlock_writer_mask i \<longleftrightarrow> i = 0" "bit rwlock_pending_mask i \<longleftrightarrow> i = 1" "bit rwlock_writer_waiting_mask i \<longleftrightarrow> i = 2"
  using bit_u32_exp [of 0 i] bit_u32_exp [of 1 i] bit_u32_exp [of 2 i]
  by (simp_all add: rwlock_writer_mask_def rwlock_pending_mask_def rwlock_writer_waiting_mask_def)

lemma bit_reader_count_mask: "bit rwlock_reader_count_mask i \<longleftrightarrow> 3 \<le> i \<and> i < 32"
proof -
  have "rwlock_reader_count_mask = NOT (mask 3)" by (simp add: rwlock_reader_count_mask_def rwlock_reader_mask_def mask_eq_exp_minus_1)
  then have "bit rwlock_reader_count_mask i = bit (NOT (mask 3) :: u32) i" by (rule arg_cong)
  then show ?thesis by (auto simp: bit_not_iff bit_mask_iff)
qed

lemma bit_lock_word: "bit (lock_word w p a n) i \<longleftrightarrow> i = 0 \<and> w \<or> i = 1 \<and> p \<or> i = 2 \<and> a \<or> 3 \<le> i \<and> i < 32 \<and> bit n (i - 3)"
  by (auto simp: lock_word_def bit_or_iff bit_push_bit_iff bit_lock_masks bit_of_nat_iff)

lemmas lock_bits = bit_eq_iff [where ?'a = "32 word"] bit_and_iff bit_or_iff bit_not_iff bit_lock_word bit_lock_masks bit_reader_count_mask

lemma and_lock_masks:
  "x AND rwlock_writer_mask = 0 \<longleftrightarrow> \<not> bit x 0" "x AND rwlock_pending_mask = 0 \<longleftrightarrow> \<not> bit x 1"
  "x AND rwlock_writer_waiting_mask = 0 \<longleftrightarrow> \<not> bit x 2"
  using and_exp_eq_0_iff_not_bit [of x 0] and_exp_eq_0_iff_not_bit [of x 1] and_exp_eq_0_iff_not_bit [of x 2]
  by (simp_all add: rwlock_writer_mask_def rwlock_pending_mask_def rwlock_writer_waiting_mask_def)

lemma lock_word_flags:
  "lock_word w p a n AND rwlock_writer_mask = 0 \<longleftrightarrow> \<not> w"
  "lock_word w p a n AND rwlock_pending_mask = 0 \<longleftrightarrow> \<not> p"
  "lock_word w p a n AND rwlock_writer_waiting_mask = 0 \<longleftrightarrow> \<not> a"
  "lock_word w p a n AND (rwlock_writer_mask OR rwlock_writer_waiting_mask) = 0 \<longleftrightarrow> \<not> w \<and> \<not> a"
  "lock_word w p a n AND (rwlock_writer_mask OR rwlock_pending_mask) = 0 \<longleftrightarrow> \<not> w \<and> \<not> p"
  "lock_word w p a n AND (rwlock_writer_mask OR rwlock_pending_mask OR rwlock_writer_waiting_mask) = 0 \<longleftrightarrow> \<not> w \<and> \<not> p \<and> \<not> a"
  by (simp_all add: bit.conj_disj_distrib or_eq_0_iff and_lock_masks bit_lock_word)

lemma lock_word_set:
  "lock_word w p a n OR rwlock_writer_mask = lock_word True p a n"
  "lock_word w p a n OR rwlock_pending_mask = lock_word w True a n"
  "lock_word w p a n OR rwlock_writer_waiting_mask = lock_word w p True n"
  "lock_word w p a n AND NOT rwlock_writer_mask = lock_word False p a n"
  "lock_word w p a n AND (NOT rwlock_writer_mask AND NOT rwlock_writer_waiting_mask) = lock_word False p False n"
  "lock_word w p a n AND (NOT rwlock_writer_mask AND NOT rwlock_pending_mask) = lock_word False False a n"
  "lock_word w p a n AND (NOT rwlock_writer_mask AND (NOT rwlock_pending_mask AND NOT rwlock_writer_waiting_mask)) = lock_word False False False n"
  by (auto simp: lock_bits)

lemma lock_word_sum:
  "lock_word w p a n = 8 * of_nat n + ((if w then rwlock_writer_mask else 0) OR (if p then rwlock_pending_mask else 0) OR
     (if a then rwlock_writer_waiting_mask else 0))" (is "_ = _ + ?f")
proof -
  have "push_bit 3 (of_nat n) + ?f = push_bit 3 (of_nat n) OR ?f"
    by (rule disjunctive_add) (auto simp: bit_push_bit_iff bit_or_iff bit_lock_masks)
  then show ?thesis by (simp add: lock_word_def push_bit_eq_mult or.assoc mult.commute)
qed

lemma lock_word_add: "lock_word w p a n + rwlock_reader_mask = lock_word w p a (Suc n)"
  unfolding lock_word_sum by (simp add: rwlock_reader_mask_def algebra_simps)

lemma lock_word_sub: "lock_word w p a (Suc n) - rwlock_reader_mask = lock_word w p a n"
  using lock_word_add [of w p a n] by (metis add_diff_cancel_right')

lemma lock_word_readers_bits: "lock_word w p a n AND rwlock_reader_count_mask = 0 \<longleftrightarrow> (\<forall>i. 3 \<le> i \<and> i < 32 \<longrightarrow> \<not> bit n (i - 3))"
  by (auto simp: lock_bits)

lemma bit_29_bits:
  assumes "(n::nat) < 2 ^ 29"
  shows "(\<forall>i. 3 \<le> i \<and> i < 32 \<longrightarrow> \<not> bit n (i - 3)) \<longleftrightarrow> n = 0"
proof
  assume *: "\<forall>i. 3 \<le> i \<and> i < 32 \<longrightarrow> \<not> bit n (i - 3)"
  have "take_bit 29 n = n" using assms by (simp add: take_bit_nat_eq_self_iff)
  then have "bit n i \<longleftrightarrow> i < 29 \<and> bit n i" for i using bit_take_bit_iff [of 29 n i] by simp
  with * [rule_format, of "i + 3" for i] have "\<not> bit n i" for i by fastforce
  then show "n = 0" by (auto intro: bit_eqI)
qed simp

lemma lock_word_readers: "n < 2 ^ 29 \<Longrightarrow> lock_word w p a n AND rwlock_reader_count_mask = 0 \<longleftrightarrow> n = 0"
  unfolding lock_word_readers_bits using bit_29_bits by blast

lemma lock_word_0: "n < 2 ^ 29 \<Longrightarrow> lock_word w p a n = 0 \<longleftrightarrow> \<not> w \<and> \<not> p \<and> \<not> a \<and> n = 0"
proof
  assume "n < 2 ^ 29" "lock_word w p a n = 0"
  then show "\<not> w \<and> \<not> p \<and> \<not> a \<and> n = 0" using lock_word_readers [of n w p a] lock_word_flags(6) [of w p a n] by simp
qed (simp add: lock_word_def)

section \<open>The invariant\<close>

definition shared_guard :: "guard \<Rightarrow> bool" where
  "shared_guard g \<longleftrightarrow> g \<in> {rw_shared, rw_writer_pref_shared, rw_writer_pref_no_starvation_shared, rw_fair_shared, rw_fair_writer_pref_shared}"

definition ticket_guard :: "guard \<Rightarrow> bool" where
  "ticket_guard g \<longleftrightarrow> g \<in> {rw_writer_pref_no_starvation_unique, rw_fair_unique, rw_fair_writer_pref_unique}"

fun is_writer :: "position \<Rightarrow> bool" where
  "is_writer (inside g) \<longleftrightarrow> \<not> shared_guard g"
| "is_writer _ \<longleftrightarrow> False"

fun is_reader :: "position \<Rightarrow> bool" where
  "is_reader (inside g) \<longleftrightarrow> shared_guard g"
| "is_reader _ \<longleftrightarrow> False"

text \<open>The threads that are counted in the word: the readers, and those that will take their increment back.\<close>

fun is_counted :: "position \<Rightarrow> bool" where
  "is_counted (inside g) \<longleftrightarrow> shared_guard g"
| "is_counted roll_back \<longleftrightarrow> True"
| "is_counted _ \<longleftrightarrow> False"

fun has_ticket :: "position \<Rightarrow> bool" where
  "has_ticket (loop_head g ticket) \<longleftrightarrow> ticket"
| "has_ticket (exchanging g ticket old desired p) \<longleftrightarrow> ticket"
| "has_ticket (inside g) \<longleftrightarrow> ticket_guard g"
| "has_ticket _ \<longleftrightarrow> False"

fun position_ok :: "position \<Rightarrow> bool" where
  "position_ok (loop_head g ticket) \<longleftrightarrow> (ticket \<longrightarrow> ticket_guard g)"
| "position_ok (exchanging g ticket old desired p) \<longleftrightarrow> (ticket \<longrightarrow> ticket_guard g) \<and> guard_request g ticket old = exchange_for desired p"
| "position_ok _ \<longleftrightarrow> True"

definition threads_with :: "(position \<Rightarrow> bool) \<Rightarrow> position list \<Rightarrow> nat" where
  "threads_with P ts = length (filter P ts)"

text \<open>The word against the numbers of writers, tickets, counted threads and readers.\<close>

definition word_ok :: "u32 \<Rightarrow> nat \<Rightarrow> nat \<Rightarrow> nat \<Rightarrow> nat \<Rightarrow> bool" where
  "word_ok bits w t c r \<longleftrightarrow> (\<exists>a. bits = lock_word (w = 1) (t = 1) a c) \<and> w \<le> 1 \<and> t \<le> 1 \<and> (w = 1 \<longrightarrow> r = 0)"

fun lock_inv :: "lock_state \<Rightarrow> bool" where
  "lock_inv (bits, ts) \<longleftrightarrow> list_all position_ok ts \<and>
     word_ok bits (threads_with is_writer ts) (threads_with has_ticket ts) (threads_with is_counted ts) (threads_with is_reader ts)"

lemmas guard_defs = rw_writer_pref_shared_guard_t_def rw_writer_pref_unique_guard_t_def rw_writer_pref_no_starvation_shared_guard_t_def
  rw_writer_pref_no_starvation_unique_guard_t_def rw_fair_shared_guard_t_def rw_fair_unique_guard_t_def
  rw_fair_writer_pref_shared_guard_t_def rw_fair_writer_pref_unique_guard_t_def

lemmas lock_word_simps = lock_word_flags lock_word_set lock_word_add lock_word_sub lock_word_readers lock_word_0

text \<open>The threads other than \<open>i\<close>.\<close>

lemma threads_with_update:
  "i < length ts \<Longrightarrow> threads_with P (ts[i := x]) = threads_with P (take i ts @ drop (Suc i) ts) + of_bool (P x)"
  by (simp add: threads_with_def upd_conv_take_nth_drop)

lemma threads_with_nth:
  "i < length ts \<Longrightarrow> threads_with P ts = threads_with P (take i ts @ drop (Suc i) ts) + of_bool (P (ts ! i))"
  using threads_with_update [of i ts P "ts ! i"] by simp

text \<open>One atomic operation, seen against the other threads.\<close>

definition step_ok :: "nat \<Rightarrow> nat \<Rightarrow> nat \<Rightarrow> nat \<Rightarrow> u32 \<Rightarrow> position \<Rightarrow> bool" where
  "step_ok w t c r bits p \<longleftrightarrow> position_ok p \<and> r \<le> c \<and>
     word_ok bits (w + of_bool (is_writer p)) (t + of_bool (has_ticket p)) (c + of_bool (is_counted p)) (r + of_bool (is_reader p))"

lemma step_ok_load:
  assumes "step_ok w t c r bits (loop_head g ticket)" "guard_request g ticket seen = exchange_for d p"
  shows "step_ok w t c r bits (exchanging g ticket seen d p)"
  using assms by (simp add: step_ok_def)

lemma step_ok_roll_back: "step_ok w t c r bits roll_back \<Longrightarrow> step_ok w t c r (bits - rwlock_reader_mask) (loop_head rw_shared False)"
  by (auto simp: step_ok_def word_ok_def lock_word_simps)

lemma step_ok_fetch_add:
  assumes "step_ok w t c r bits (loop_head rw_shared ticket)"
  shows "step_ok w t c r (bits + rwlock_reader_mask) (if bits AND rwlock_writer_mask = 0 then inside rw_shared else roll_back)"
  using assms by (auto simp: step_ok_def word_ok_def lock_word_simps shared_guard_def ticket_guard_def)

lemma writer_word: "rwlock_writer_mask = lock_word True False False 0"
  by (simp add: lock_word_def)

lemma step_ok_unique:
  assumes "step_ok w t c r 0 (loop_head rw_unique ticket)" "c < 2 ^ 29"
  shows "step_ok w t c r rwlock_writer_mask (inside rw_unique)"
proof -
  obtain a where "0 = lock_word (w = 1) (t + of_bool ticket = 1) a c" "w \<le> 1" "t + of_bool ticket \<le> 1" "r \<le> c"
    using assms(1) by (auto simp: step_ok_def word_ok_def)
  with lock_word_0 [OF assms(2), of "w = 1" "t + of_bool ticket = 1" a] show ?thesis
    by (auto simp: step_ok_def word_ok_def writer_word shared_guard_def ticket_guard_def)
qed

lemma step_ok_release:
  assumes "step_ok w t c r bits (inside g)"
  shows "step_ok w t c r (guard_release g bits) outside"
  using assms by (cases g) (auto simp: step_ok_def word_ok_def guard_release_def lock_word_simps shared_guard_def ticket_guard_def)

lemma step_ok_exchange:
  assumes "step_ok w t c r bits (exchanging g ticket bits d p)" "c < 2 ^ 29"
  shows "step_ok w t c r d (case p of announce \<Rightarrow> loop_head g ticket | take_ticket \<Rightarrow> loop_head g True | enter \<Rightarrow> inside g)"
proof -
  obtain a where b: "bits = lock_word (w = 1) (t + of_bool ticket = 1) a c" "w \<le> 1" "t + of_bool ticket \<le> 1" "w = 1 \<longrightarrow> r = 0" "r \<le> c"
    and g: "ticket \<longrightarrow> ticket_guard g" "guard_request g ticket bits = exchange_for d p"
    using assms(1) by (auto simp: step_ok_def word_ok_def)
  show ?thesis
    using g b(2-) assms(2) unfolding b(1)
    by (cases g; cases "ticket") (auto simp: guard_request_def guard_defs lock_word_simps ticket_guard_def shared_guard_def step_ok_def word_ok_def split: if_splits)
qed

lemma thread_step_ok:
  assumes "step_ok w t c r bits p" "thread_step fails seen bits p = (bits', p')" "c < 2 ^ 29"
  shows "step_ok w t c r bits' p'"
proof (cases p)
  case (loop_head g ticket)
  then show ?thesis
    using assms step_ok_fetch_add [of w t c r bits ticket] step_ok_unique [of w t c r ticket] step_ok_load [of w t c r bits g ticket seen]
    by (auto split: if_splits request.splits)
next
  case (exchanging g ticket old d q)
  then show ?thesis using assms step_ok_exchange [of w t c r bits g ticket d q] by (auto simp: step_ok_def split: if_splits)
qed (use assms in \<open>auto simp: step_ok_roll_back step_ok_release\<close>)

lemma readers_counted: "threads_with is_reader ts \<le> threads_with is_counted ts"
proof -
  have "is_reader p \<Longrightarrow> is_counted p" for p by (cases p) auto
  then show ?thesis unfolding threads_with_def by (induction ts) auto
qed

text \<open>The invariant as a statement on one thread and the others.\<close>

lemma lock_inv_update:
  assumes "i < length ts"
  shows "lock_inv (bits, ts[i := p]) \<longleftrightarrow> list_all position_ok (take i ts @ drop (Suc i) ts) \<and>
    step_ok (threads_with is_writer (take i ts @ drop (Suc i) ts)) (threads_with has_ticket (take i ts @ drop (Suc i) ts))
      (threads_with is_counted (take i ts @ drop (Suc i) ts)) (threads_with is_reader (take i ts @ drop (Suc i) ts)) bits p"
proof -
  have "list_all position_ok (ts[i := p]) \<longleftrightarrow> position_ok p \<and> list_all position_ok (take i ts @ drop (Suc i) ts)"
    using assms by (auto simp: upd_conv_take_nth_drop)
  then show ?thesis
    unfolding lock_inv.simps step_ok_def threads_with_update [OF assms] using readers_counted by blast
qed

lemma lock_inv_step:
  assumes "lock_inv (bits, ts)" "i < length ts" "length ts < 2 ^ 29"
    and "\<And>w t c r. step_ok w t c r bits (ts ! i) \<Longrightarrow> c < 2 ^ 29 \<Longrightarrow> step_ok w t c r bits' p"
  shows "lock_inv (bits', ts[i := p])"
proof -
  have "threads_with is_counted (take i ts @ drop (Suc i) ts) \<le> length (take i ts @ drop (Suc i) ts)"
    unfolding threads_with_def by (rule length_filter_le)
  then have "threads_with is_counted (take i ts @ drop (Suc i) ts) < 2 ^ 29" using assms(2,3) by simp
  moreover have "lock_inv (bits, ts[i := ts ! i])" using assms(1) by simp
  ultimately show ?thesis using assms(4) unfolding lock_inv_update [OF assms(2)] by blast
qed

lemma lock_step_inv:
  assumes "lock_step s s'" "lock_inv s" "length (snd s) < 2 ^ 29"
  shows "lock_inv s'"
  using assms
proof (induction rule: lock_step.induct)
  case (lock_start i ts bits g)
  then show ?case by (intro lock_inv_step [of bits]) (simp_all add: step_ok_def)
next
  case (lock_advance i ts fails seen bits bits' p)
  then show ?case by (intro lock_inv_step [of bits]) (auto intro: thread_step_ok)
qed

lemma lock_step_length: "lock_step s s' \<Longrightarrow> length (snd s') = length (snd s)"
  by (induction rule: lock_step.induct) simp_all

lemma lock_reachable_inv:
  assumes "lock_reachable n s" "n < 2 ^ 29"
  shows "lock_inv s \<and> length (snd s) = n"
  using assms
proof (induction rule: lock_reachable.induct)
  case lock_initial
  have "threads_with P (replicate n outside) = 0" if "\<not> P outside" for P using that by (simp add: threads_with_def)
  then show ?case by (auto simp: word_ok_def lock_word_def list_all_length intro!: exI [of _ False])
qed (auto dest: lock_step_inv lock_step_length)

lemma threads_with_0: "threads_with P ts = 0 \<longleftrightarrow> (\<forall>j < length ts. \<not> P (ts ! j))"
  by (simp add: threads_with_def filter_empty_conv all_set_conv_all_nth)

lemma threads_with_unique:
  assumes "threads_with P ts \<le> 1" "i < length ts" "P (ts ! i)" "j < length ts" "P (ts ! j)"
  shows "i = j"
proof (rule ccontr)
  assume "i \<noteq> j"
  have "card {i, j} \<le> card {k. k < length ts \<and> P (ts ! k)}" by (rule card_mono) (use assms in auto)
  with \<open>i \<noteq> j\<close> assms(1) show False by (simp add: threads_with_def length_filter_conv_card)
qed

section \<open>Progress of the fair writer\<close>

text \<open>
  Runs in which only the fair guards are used. The steps are those of \<open>lock_step\<close>, with stale loads and
  compare-exchanges that fail without reason; the label of a step is the thread that takes it and whether it is
  undisturbed, that is whether its load returns the current value and its compare-exchange fails only if the values
  differ. A run is the list of the labels of its steps, of the threads in any order.
\<close>

type_synonym step_label = "nat \<times> bool"

inductive fair_step :: "step_label \<Rightarrow> lock_state \<Rightarrow> lock_state \<Rightarrow> bool" where
  fair_start: "fair_step (i, True) (bits, ts) (bits, ts[i := loop_head g False])"
  if "i < length ts" "ts ! i = outside" "g \<in> {rw_fair_shared, rw_fair_unique}"
| fair_advance: "fair_step (i, \<not> fails \<and> seen = bits) (bits, ts) (bits', ts[i := p])"
  if "i < length ts" "ts ! i \<noteq> outside" "thread_step fails seen bits (ts ! i) = (bits', p)"

inductive fair_run :: "lock_state \<Rightarrow> step_label list \<Rightarrow> lock_state \<Rightarrow> bool" where
  run_Nil: "fair_run s [] s"
| run_Cons: "fair_step l s s1 \<Longrightarrow> fair_run s1 ls s' \<Longrightarrow> fair_run s (l # ls) s'"

text \<open>The steps that a thread takes in a run: for each one whether it is undisturbed.\<close>

definition own_steps :: "nat \<Rightarrow> step_label list \<Rightarrow> bool list" where
  "own_steps t ls = map snd (filter (\<lambda>l. fst l = t) ls)"

fun fair_position :: "position \<Rightarrow> bool" where
  "fair_position outside \<longleftrightarrow> True"
| "fair_position (loop_head g ticket) \<longleftrightarrow> g \<in> {rw_fair_shared, rw_fair_unique}"
| "fair_position (exchanging g ticket old desired p) \<longleftrightarrow> g \<in> {rw_fair_shared, rw_fair_unique}"
| "fair_position roll_back \<longleftrightarrow> False"
| "fair_position (inside g) \<longleftrightarrow> g \<in> {rw_fair_shared, rw_fair_unique}"

definition fair_inv :: "lock_state \<Rightarrow> bool" where
  "fair_inv s \<longleftrightarrow> lock_inv s \<and> length (snd s) < 2 ^ 29 \<and> list_all fair_position (snd s) \<and> fst s AND rwlock_writer_waiting_mask = 0"

text \<open>A writer that has the ticket and not yet the lock, and the readers.\<close>

fun waits :: "position \<Rightarrow> bool" where
  "waits (loop_head g ticket) \<longleftrightarrow> ticket"
| "waits (exchanging g ticket old desired p) \<longleftrightarrow> ticket"
| "waits _ \<longleftrightarrow> False"

definition readers :: "lock_state \<Rightarrow> nat set" where
  "readers s = {j. j < length (snd s) \<and> is_reader (snd s ! j)}"

text \<open>The number of undisturbed steps in succession that a waiting writer has to take when there are no readers.\<close>

fun steps_left :: "u32 \<Rightarrow> position \<Rightarrow> nat" where
  "steps_left bits (exchanging g ticket old desired p) = (if old = bits then 1 else 3)"
| "steps_left bits p = 2"

lemma fair_word:
  assumes "fair_inv (bits, ts)"
  shows "bits = lock_word (threads_with is_writer ts = 1) (threads_with has_ticket ts = 1) False (threads_with is_reader ts)"
proof -
  have "is_counted p = is_reader p" if "fair_position p" for p using that by (cases p) auto
  then have "threads_with is_counted ts = threads_with is_reader ts"
    using assms by (auto simp: fair_inv_def threads_with_def list_all_iff intro!: arg_cong [of _ _ length] filter_cong)
  then show ?thesis using assms by (auto simp: fair_inv_def word_ok_def lock_word_flags)
qed

lemma waiting_word:
  assumes "fair_inv (bits, ts)" "t < length ts" "waits (ts ! t)"
  shows "bits = lock_word False True False (threads_with is_reader ts)" "\<And>j. j < length ts \<Longrightarrow> j \<noteq> t \<Longrightarrow> \<not> has_ticket (ts ! j)"
proof -
  have t: "has_ticket (ts ! t)" using assms(3) by (cases "ts ! t") auto
  have u: "threads_with has_ticket ts \<le> 1" using assms(1) by (simp add: fair_inv_def word_ok_def)
  show o: "\<And>j. j < length ts \<Longrightarrow> j \<noteq> t \<Longrightarrow> \<not> has_ticket (ts ! j)" using threads_with_unique [OF u assms(2) t] by blast
  have "\<not> is_writer (ts ! j)" if "j < length ts" for j
  proof
    assume w: "is_writer (ts ! j)"
    moreover have "fair_position (ts ! j)" using assms(1) that by (simp add: fair_inv_def list_all_length)
    ultimately have "has_ticket (ts ! j)" by (cases "ts ! j") (auto simp: shared_guard_def ticket_guard_def)
    with o that w assms(3) show False by (cases "j = t"; cases "ts ! t") auto
  qed
  then have "threads_with is_writer ts = 0" by (simp add: threads_with_0)
  moreover have "threads_with has_ticket ts \<noteq> 0" using t assms(2) by (auto simp: threads_with_0)
  with u have "threads_with has_ticket ts = 1" by simp
  ultimately show "bits = lock_word False True False (threads_with is_reader ts)" using fair_word [OF assms(1)] by simp
qed

lemma fair_step_lock_step: "fair_step l s s' \<Longrightarrow> lock_step s s'"
  by (induction rule: fair_step.induct) (auto intro: lock_step.intros)

lemmas fair_step_simps = guard_request_def guard_release_def rw_fair_shared_guard_t_def rw_fair_unique_guard_t_def lock_word_simps
  shared_guard_def ticket_guard_def

lemma fair_thread_step:
  assumes "fair_position p" "position_ok p" "bits = lock_word w k False n" "is_reader p \<longrightarrow> 0 < n" "n < 2 ^ 29"
    "thread_step fails seen bits p = (bits', p')"
  shows "fair_position p' \<and> bits' AND rwlock_writer_waiting_mask = 0"
proof (cases p)
  case (inside g)
  then show ?thesis using assms by (cases n) (auto simp: fair_step_simps)
qed (use assms in \<open>auto simp: fair_step_simps split: if_splits request.splits purpose.splits\<close>)

lemma fair_step_inv:
  assumes "fair_step l s s'" "fair_inv s"
  shows "fair_inv s'"
proof -
  have l: "lock_inv s'" "length (snd s') < 2 ^ 29"
    using fair_step_lock_step [OF assms(1)] lock_step_inv lock_step_length assms(2) by (auto simp: fair_inv_def)
  have "list_all fair_position (snd s') \<and> fst s' AND rwlock_writer_waiting_mask = 0"
    using assms
  proof (induction rule: fair_step.induct)
    case (fair_start i ts g bits)
    then show ?case by (auto simp: fair_inv_def list_all_length nth_list_update)
  next
    case (fair_advance i ts fails seen bits bits' p)
    note w = fair_word [OF fair_advance.prems]
    have q: "fair_position (ts ! i)" "position_ok (ts ! i)" using fair_advance by (auto simp: fair_inv_def list_all_length)
    have "threads_with is_reader ts \<le> length ts" by (simp add: threads_with_def)
    then have n: "threads_with is_reader ts < 2 ^ 29" using fair_advance.prems by (simp add: fair_inv_def)
    have r: "is_reader (ts ! i) \<longrightarrow> 0 < threads_with is_reader ts" using threads_with_0 [of is_reader ts] fair_advance(1) by auto
    show ?case using fair_thread_step [OF q w r n fair_advance(3)] fair_advance by (auto simp: fair_inv_def list_all_length nth_list_update)
  qed
  with l show ?thesis by (simp add: fair_inv_def)
qed

text \<open>While a writer waits, another thread can only give up its attempt or release a shared guard.\<close>

lemma other_step:
  assumes "fair_position q" "position_ok q" "\<not> has_ticket q" "bits = lock_word False True False n" "thread_step fails seen bits q = (bits', p)"
  shows "\<not> is_reader p \<and> (\<not> is_reader q \<longrightarrow> bits' = bits)"
  using assms by (cases q) (auto simp: fair_step_simps split: if_splits request.splits purpose.splits)

lemma writer_step:
  assumes "fair_position q" "position_ok q" "waits q" "bits = lock_word False True False n" "n < 2 ^ 29" "thread_step fails seen bits q = (bits', p)"
  shows "p = inside rw_fair_unique \<or>
    waits p \<and> \<not> is_reader p \<and> bits' = bits \<and> (n = 0 \<and> \<not> fails \<and> seen = bits \<longrightarrow> steps_left bits p < steps_left bits q)"
  using assms by (cases q) (auto simp: fair_step_simps split: if_splits request.splits purpose.splits)

text \<open>What a step leaves of a wait without readers, by the thread that takes it and its label.\<close>

fun steps_after :: "nat \<Rightarrow> step_label \<Rightarrow> nat \<Rightarrow> nat \<Rightarrow> bool" where
  "steps_after t (i, undisturbed) m n \<longleftrightarrow> (if i \<noteq> t then n \<le> m else if undisturbed then n < m else True)"

lemma waiting_step:
  assumes "fair_step l s s'" "fair_inv s" "t < length (snd s)" "waits (snd s ! t)"
  shows "snd s' ! t = inside rw_fair_unique \<or>
    waits (snd s' ! t) \<and> readers s' \<subseteq> readers s \<and>
    (readers s = {} \<longrightarrow> steps_after t l (steps_left (fst s) (snd s ! t)) (steps_left (fst s') (snd s' ! t)))"
  using assms
proof (induction rule: fair_step.induct)
  case (fair_start i ts g bits)
  then show ?case by (auto simp: readers_def nth_list_update)
next
  case (fair_advance i ts fails seen bits bits' p)
  note w = waiting_word [OF fair_advance.prems(1), of t] fair_advance.prems
  have q: "fair_position (ts ! i)" "position_ok (ts ! i)" using fair_advance by (auto simp: fair_inv_def list_all_length)
  have "threads_with is_reader ts \<le> length ts" by (simp add: threads_with_def)
  then have n: "threads_with is_reader ts < 2 ^ 29" using fair_advance.prems by (simp add: fair_inv_def)
  have r: "readers (bits, ts) = {} \<longleftrightarrow> threads_with is_reader ts = 0" by (auto simp: readers_def threads_with_0)
  show ?case
  proof (cases "i = t")
    case True
    then show ?thesis using writer_step [OF q _ _ n fair_advance(3)] w fair_advance(1) r by (auto simp: readers_def nth_list_update)
  next
    case False
    then have "\<not> is_reader p \<and> (\<not> is_reader (ts ! i) \<longrightarrow> bits' = bits)"
      using other_step [OF q _ _ fair_advance(3)] w fair_advance(1) by auto
    with False w fair_advance(1) show ?thesis by (auto simp: readers_def nth_list_update)
  qed
qed

lemma fair_step_length: "fair_step l s s' \<Longrightarrow> length (snd s') = length (snd s)"
  using fair_step_lock_step lock_step_length by blast

lemma fair_initial: "n < 2 ^ 29 \<Longrightarrow> fair_inv (0, replicate n outside)"
  by (auto simp: fair_inv_def word_ok_def threads_with_def list_all_length lock_word_def intro!: exI [of _ False])

lemma fair_run_inv: "fair_run s ls s' \<Longrightarrow> fair_inv s \<Longrightarrow> fair_inv s' \<and> length (snd s') = length (snd s)"
  by (induction rule: fair_run.induct) (auto simp: fair_step_inv fair_step_length)

lemma steps_left_bounds: "1 \<le> steps_left bits p" "steps_left bits p \<le> 3"
  by (cases p; simp)+

text \<open>
  The own steps of a writer that still waits: they do not begin with as many undisturbed ones as it had left, and no
  three undisturbed ones follow each other.
\<close>

definition few_steps :: "nat \<Rightarrow> bool list \<Rightarrow> bool" where
  "few_steps m us \<longleftrightarrow> \<not> prefix (replicate m True) us \<and> \<not> sublist (replicate 3 True) us"

lemma few_steps_Nil: "1 \<le> m \<Longrightarrow> few_steps m []"
  by (simp add: few_steps_def)

lemma few_steps_mono:
  assumes "few_steps n us" "n \<le> m"
  shows "few_steps m us"
proof -
  have "prefix (replicate n True) (replicate m True)"
    using assms(2) by (metis le_add_diff_inverse prefixI replicate_add)
  with assms(1) show ?thesis by (auto simp: few_steps_def dest: prefix_order.trans)
qed

lemma few_steps_Cons:
  assumes "few_steps n us" "undisturbed \<longrightarrow> n < m" "1 \<le> m" "m \<le> 3"
  shows "few_steps m (undisturbed # us)"
proof (cases undisturbed)
  case True
  then have "few_steps (m - 1) us" "few_steps 2 us" using assms by (auto intro: few_steps_mono [OF assms(1)])
  with True assms(3) show ?thesis by (cases m) (auto simp: few_steps_def sublist_Cons_right numeral_3_eq_3 numeral_2_eq_2)
next
  case False
  with assms show ?thesis by (cases m) (auto simp: few_steps_def sublist_Cons_right numeral_3_eq_3)
qed

lemma few_steps_after:
  assumes "few_steps n (own_steps t ls)" "steps_after t l m n" "1 \<le> m" "m \<le> 3"
  shows "few_steps m (own_steps t (l # ls))"
  using few_steps_Cons [OF assms(1) _ assms(3,4)] few_steps_mono [OF assms(1)] assms(2)
  by (cases l) (auto simp: own_steps_def split: if_splits)

lemma waiting_run:
  assumes "fair_run s ls s'" "fair_inv s" "t < length (snd s)" "waits (snd s ! t)"
  shows "(\<exists>ls1 ls2 s1. ls = ls1 @ ls2 \<and> fair_run s ls1 s1 \<and> snd s1 ! t = inside rw_fair_unique) \<or>
    waits (snd s' ! t) \<and> readers s' \<subseteq> readers s \<and>
    (readers s = {} \<longrightarrow> few_steps (steps_left (fst s) (snd s ! t)) (own_steps t ls))"
    (is "?entered s ls \<or> ?waiting s ls s'")
  using assms
proof (induction rule: fair_run.induct)
  case (run_Nil s)
  then show ?case using few_steps_Nil [OF steps_left_bounds(1)] by (simp add: own_steps_def)
next
  case (run_Cons l s s1 ls s')
  have one: "fair_run s [l] s1" using run_Cons(1) by (auto intro: fair_run.intros)
  from waiting_step [OF run_Cons(1,4-6)] show ?case
  proof
    assume "snd s1 ! t = inside rw_fair_unique"
    with one show ?thesis by (metis append_Cons append_Nil)
  next
    assume w: "waits (snd s1 ! t) \<and> readers s1 \<subseteq> readers s \<and>
      (readers s = {} \<longrightarrow> steps_after t l (steps_left (fst s) (snd s ! t)) (steps_left (fst s1) (snd s1 ! t)))"
    then have "?entered s1 ls \<or> ?waiting s1 ls s'"
      using run_Cons.IH fair_step_inv [OF run_Cons(1,4)] run_Cons(5) fair_step_length [OF run_Cons(1)] by simp
    then show ?thesis
    proof
      assume "?entered s1 ls"
      then show ?thesis using run_Cons(1) by (metis append_Cons fair_run.run_Cons)
    next
      assume "?waiting s1 ls s'"
      with w few_steps_after [OF _ _ steps_left_bounds] show ?thesis by blast
    qed
  qed
qed

section \<open>Properties\<close>

lemma reachable_exclusive:
  assumes "lock_reachable n s" "n < 2 ^ 29" "i < n" "j < n" "is_writer (snd s ! i)" "is_writer (snd s ! j) \<or> is_reader (snd s ! j)"
  shows "i = j"
proof -
  obtain bits ts where s: "s = (bits, ts)" "lock_inv (bits, ts)" "length ts = n" using lock_reachable_inv [OF assms(1,2)] by (cases s) auto
  then have w: "threads_with is_writer ts \<le> 1" "threads_with is_writer ts = 1 \<longrightarrow> threads_with is_reader ts = 0" by (auto simp: word_ok_def)
  have "threads_with is_writer ts \<noteq> 0" using s assms(3,5) by (auto simp: threads_with_0)
  with w have "threads_with is_reader ts = 0" by simp
  then have "\<not> is_reader (ts ! j)" using s(3) assms(4) by (simp add: threads_with_0)
  with threads_with_unique [OF w(1)] s assms(3-6) show ?thesis by auto
qed

lemma reachable_word:
  assumes "lock_reachable n s" "n < 2 ^ 29"
  shows "\<exists>a. fst s = lock_word (\<exists>p \<in> set (snd s). is_writer p) (\<exists>p \<in> set (snd s). has_ticket p) a (length (filter is_counted (snd s))) \<and>
     length (filter has_ticket (snd s)) \<le> 1"
proof -
  obtain bits ts where s: "s = (bits, ts)" "lock_inv (bits, ts)" using lock_reachable_inv [OF assms] by (cases s) auto
  have "length (filter P ts) = 1 \<longleftrightarrow> (\<exists>p \<in> set ts. P p)" if "length (filter P ts) \<le> 1" for P
    using that by (metis One_nat_def filter_empty_conv le_Suc_eq le_zero_eq length_0_conv less_numeral_extra(1) less_numeral_extra(3))
  then show ?thesis using s by (auto simp: word_ok_def threads_with_def)
qed

text \<open>
  \<^bold>\<open>C15.\<close> The lock is safe: in every reachable state, whatever guards the threads use and however their steps interleave, a
  thread that holds a unique guard is the only one that holds a guard; and the word of the lock tells who holds it: its writer
  bit is set exactly if a thread holds a unique guard, its pending bit exactly if a thread has the ticket, at most one thread has
  it, and its reader count is the number of threads that hold a shared guard or are about to take back their increment. The number
  of threads is below 2 to the 29th, the capacity of the reader count.
\<close>

theorem rw_lock_safe:
  assumes "lock_reachable n s" "n < 2 ^ 29"
  shows "(\<forall>i j. i < n \<and> j < n \<and> is_writer (snd s ! i) \<and> (is_writer (snd s ! j) \<or> is_reader (snd s ! j)) \<longrightarrow> i = j) \<and>
     (\<exists>a. fst s = lock_word (\<exists>p \<in> set (snd s). is_writer p) (\<exists>p \<in> set (snd s). has_ticket p) a (length (filter is_counted (snd s)))) \<and>
     length (filter has_ticket (snd s)) \<le> 1"
  using reachable_exclusive [OF assms] reachable_word [OF assms] by blast

theorem rw_lock_safe_witness:
  "lock_reachable 2 (rwlock_writer_mask, [inside rw_unique, outside]) \<and> \<not> is_reader ([inside rw_unique, outside] ! 1) \<and>
   (\<exists>a. rwlock_writer_mask = lock_word True False a 0)"
proof -
  have "lock_reachable 2 (0, replicate 2 outside)" by (rule lock_initial)
  moreover have "lock_step (0, replicate 2 outside) (0, (replicate 2 outside)[0 := loop_head rw_unique False])" by (rule lock_start) simp_all
  ultimately have "lock_reachable 2 (0, [loop_head rw_unique False, outside])" by (auto simp: numeral_2_eq_2 intro: lock_next)
  moreover have "lock_step (0, [loop_head rw_unique False, outside]) (rwlock_writer_mask, [loop_head rw_unique False, outside][0 := inside rw_unique])"
    by (rule lock_advance [of _ _ False]) simp_all
  ultimately have r: "lock_reachable 2 (rwlock_writer_mask, [inside rw_unique, outside])" by (auto intro: lock_next)
  note h = rw_lock_safe [OF r]
  have "\<not> is_reader ([inside rw_unique, outside] ! 1)" using h by (auto simp: shared_guard_def)
  moreover have "\<exists>a. rwlock_writer_mask = lock_word True False a 0" using h by (auto simp: shared_guard_def ticket_guard_def)
  ultimately show ?thesis using r by blast
qed

text \<open>
  \<^bold>\<open>C40.\<close> Progress of the fair writer: in every run of fair guards from the free lock, with fewer than 2 to the 29th threads, any stale
  loads and any compare-exchanges that fail without reason, a writer that has the ticket enters, or it still waits and then no reader has entered in
  the meantime; and with no readers left it enters with the third of three undisturbed steps that it takes one after the other at the
  latest, whatever the other threads do between them: while it waits, no three of its own steps in succession all load the current
  value and do not fail without reason. There is no bound on the number of its steps as such, since each of them may be disturbed.
\<close>

theorem fair_writer_progress:
  assumes "n < 2 ^ 29" "fair_run (0, replicate n outside) past s" "t < n" "waits (snd s ! t)" "fair_run s ls s'"
  shows "(\<exists>ls1 ls2 s1. ls = ls1 @ ls2 \<and> fair_run s ls1 s1 \<and> snd s1 ! t = inside rw_fair_unique) \<or>
     waits (snd s' ! t) \<and> readers s' \<subseteq> readers s \<and>
     (readers s = {} \<longrightarrow> \<not> sublist [True, True, True] (own_steps t ls))"
proof -
  have "fair_inv s" "t < length (snd s)" using fair_run_inv [OF assms(2) fair_initial [OF assms(1)]] assms(3) by simp_all
  from waiting_run [OF assms(5) this assms(4)] show ?thesis by (auto simp: few_steps_def numeral_3_eq_3)
qed

text \<open>A writer takes the ticket; its first load afterwards is stale, another thread then tries to read, and the writer enters and leaves.\<close>

theorem fair_writer_progress_witness:
  "\<exists>ls1 ls2 s1. [(0, False), (0, True), (1, True), (0, True), (0, True)] = ls1 @ ls2 \<and>
     fair_run (2, [loop_head rw_fair_unique True, outside]) ls1 s1 \<and> snd s1 ! 0 = inside rw_fair_unique"
proof -
  let ?x = "exchanging rw_fair_unique True 2 3 enter" and ?w = "loop_head rw_fair_unique True" and ?r = "loop_head rw_fair_shared False"
  let ?n = "loop_head rw_fair_unique False" and ?k = "exchanging rw_fair_unique False 0 2 take_ticket"
  let ?s = "(2, [?w, outside])"
  have start: "fair_step (0, True) (0, [outside, outside]) (0, [?n, outside])"
    using fair_start [of 0 "[outside, outside]" rw_fair_unique 0] by simp
  have "thread_step False 0 0 ?n = (0, ?k)" by code_simp
  then have load: "fair_step (0, True) (0, [?n, outside]) (0, [?k, outside])" using fair_advance [of 0 "[?n, outside]" False 0 0 0 ?k] by simp
  have "thread_step False 0 0 ?k = (2, ?w)" by code_simp
  then have ticket: "fair_step (0, True) (0, [?k, outside]) ?s" using fair_advance [of 0 "[?k, outside]" False 0 0 2 ?w] by simp
  have past: "fair_run (0, replicate 2 outside) [(0, True), (0, True), (0, True)] ?s"
    using run_Cons [OF start run_Cons [OF load run_Cons [OF ticket run_Nil]]] by (simp add: numeral_2_eq_2)
  have "thread_step False 10 2 ?w = (2, ?w)" by code_simp
  then have 0: "fair_step (0, False) ?s ?s" using fair_advance [of 0 "[?w, outside]" False 10 2 2 ?w] by simp
  have "thread_step False 2 2 ?w = (2, ?x)" by code_simp
  then have 1: "fair_step (0, True) ?s (2, [?x, outside])" using fair_advance [of 0 "[?w, outside]" False 2 2 2 ?x] by simp
  have 2: "fair_step (1, True) (2, [?x, outside]) (2, [?x, ?r])" using fair_start [of 1 "[?x, outside]" rw_fair_shared 2] by simp
  have "thread_step False 2 2 ?x = (3, inside rw_fair_unique)" by code_simp
  then have 3: "fair_step (0, True) (2, [?x, ?r]) (3, [inside rw_fair_unique, ?r])"
    using fair_advance [of 0 "[?x, ?r]" False 2 2 3 "inside rw_fair_unique"] by simp
  have "thread_step False 3 3 (inside rw_fair_unique) = (0, outside)" by code_simp
  then have 4: "fair_step (0, True) (3, [inside rw_fair_unique, ?r]) (0, [outside, ?r])"
    using fair_advance [of 0 "[inside rw_fair_unique, ?r]" False 3 3 0 outside] by simp
  have "fair_run ?s [(0, False), (0, True), (1, True), (0, True), (0, True)] (0, [outside, ?r])"
    by (rule run_Cons [OF 0 run_Cons [OF 1 run_Cons [OF 2 run_Cons [OF 3 run_Cons [OF 4 run_Nil]]]]])
  from fair_writer_progress [OF _ past _ _ this, of 0] show ?thesis by simp
qed

end
