(* ===== verification/Wasi_Path.thy ===== *)
theory Wasi_Path
  imports Utf8
begin

text \<open>
  The resolution of paths in the WASI functions (\<^verbatim>\<open>imported/wasi/wasip1/func/base.h\<close>): splitting a path and walking
  it component by component below a directory, following symbolic links, on a POSIX host.

  The file system of the host is not under the control of the program and may change at any time. It is a parameter: a
  function that answers each call from the sequence of all calls made before, so that a theorem for every such function
  holds for every behaviour of the file system. The calls made so far are part of the state. A native handle is a value
  of any type; closing one has no counterpart, and neither has the text of an error.
\<close>

unbundle bit_operations_syntax

section \<open>Errors\<close>

text \<open>The enumeration \<open>errno_t\<close> is 16 bits wide; its members that the code below uses.\<close>

type_synonym errno_t = "16 word"

abbreviation esuccess :: errno_t where "esuccess \<equiv> 0"
abbreviation eacces :: errno_t where "eacces \<equiv> 2"
abbreviation eagain :: errno_t where "eagain \<equiv> 6"
abbreviation ebadf :: errno_t where "ebadf \<equiv> 8"
abbreviation ebusy :: errno_t where "ebusy \<equiv> 10"
abbreviation econnaborted :: errno_t where "econnaborted \<equiv> 13"
abbreviation econnreset :: errno_t where "econnreset \<equiv> 15"
abbreviation edquot :: errno_t where "edquot \<equiv> 19"
abbreviation eexist :: errno_t where "eexist \<equiv> 20"
abbreviation efault :: errno_t where "efault \<equiv> 21"
abbreviation efbig :: errno_t where "efbig \<equiv> 22"
abbreviation eilseq :: errno_t where "eilseq \<equiv> 25"
abbreviation eintr :: errno_t where "eintr \<equiv> 27"
abbreviation einval :: errno_t where "einval \<equiv> 28"
abbreviation eio :: errno_t where "eio \<equiv> 29"
abbreviation eisdir :: errno_t where "eisdir \<equiv> 31"
abbreviation eloop :: errno_t where "eloop \<equiv> 32"
abbreviation emfile :: errno_t where "emfile \<equiv> 33"
abbreviation emlink :: errno_t where "emlink \<equiv> 34"
abbreviation enametoolong :: errno_t where "enametoolong \<equiv> 37"
abbreviation enfile :: errno_t where "enfile \<equiv> 41"
abbreviation enobufs :: errno_t where "enobufs \<equiv> 42"
abbreviation enodev :: errno_t where "enodev \<equiv> 43"
abbreviation enoent :: errno_t where "enoent \<equiv> 44"
abbreviation enomem :: errno_t where "enomem \<equiv> 48"
abbreviation enospc :: errno_t where "enospc \<equiv> 51"
abbreviation enotconn :: errno_t where "enotconn \<equiv> 53"
abbreviation enotdir :: errno_t where "enotdir \<equiv> 54"
abbreviation enotempty :: errno_t where "enotempty \<equiv> 55"
abbreviation enotsock :: errno_t where "enotsock \<equiv> 57"
abbreviation enotsup :: errno_t where "enotsup \<equiv> 58"
abbreviation enxio :: errno_t where "enxio \<equiv> 60"
abbreviation eoverflow :: errno_t where "eoverflow \<equiv> 61"
abbreviation eperm :: errno_t where "eperm \<equiv> 63"
abbreviation epipe :: errno_t where "epipe \<equiv> 64"
abbreviation eproto :: errno_t where "eproto \<equiv> 65"
abbreviation erofs :: errno_t where "erofs \<equiv> 69"
abbreviation espipe :: errno_t where "espipe \<equiv> 70"
abbreviation esrch :: errno_t where "esrch \<equiv> 71"
abbreviation etimedout :: errno_t where "etimedout \<equiv> 73"
abbreviation exdev :: errno_t where "exdev \<equiv> 75"
abbreviation enotcapable :: errno_t where "enotcapable \<equiv> 76"

text \<open>The error numbers of the host that the code tells apart.\<close>

datatype (plugins only: code size) posix_error =
    EBADF | ENOSPC | EFBIG | EINVAL | EACCES | EPERM | EISDIR | EROFS | EDQUOT | EINTR | EAGAIN | ESPIPE | EOPNOTSUPP
  | ENOTSUP | EFAULT | ENXIO | ENODEV | ENOENT | ENOTDIR | EIO | ENOMEM | EOVERFLOW | ETIMEDOUT | ECONNRESET
  | ECONNABORTED | ENOBUFS | EPROTO | ENOTSOCK | ENOTCONN | EPIPE | EEXIST | EMFILE | ENAMETOOLONG | ELOOP | EMLINK
  | EXDEV | EBUSY | ENFILE | ENOTEMPTY | ESRCH | E_other nat

definition path_errno_from_fast_io_error :: "posix_error \<Rightarrow> errno_t" where
  "path_errno_from_fast_io_error e =
     (case e of
        EBADF \<Rightarrow> eio | ENOSPC \<Rightarrow> enospc | EFBIG \<Rightarrow> efbig | EINVAL \<Rightarrow> einval
      | EACCES \<Rightarrow> eacces | EPERM \<Rightarrow> eperm | EISDIR \<Rightarrow> eisdir | EROFS \<Rightarrow> erofs
      | EDQUOT \<Rightarrow> edquot | EINTR \<Rightarrow> eintr | EAGAIN \<Rightarrow> eagain | ESPIPE \<Rightarrow> espipe
      | EOPNOTSUPP \<Rightarrow> enotsup | ENOTSUP \<Rightarrow> enotsup | EFAULT \<Rightarrow> efault | ENXIO \<Rightarrow> enxio
      | ENODEV \<Rightarrow> enodev | ENOENT \<Rightarrow> enoent | ENOTDIR \<Rightarrow> enotdir | EIO \<Rightarrow> eio
      | ENOMEM \<Rightarrow> enomem | EOVERFLOW \<Rightarrow> eoverflow | ETIMEDOUT \<Rightarrow> etimedout | ECONNRESET \<Rightarrow> econnreset
      | ECONNABORTED \<Rightarrow> econnaborted | ENOBUFS \<Rightarrow> enobufs | EPROTO \<Rightarrow> eproto | ENOTSOCK \<Rightarrow> enotsock
      | ENOTCONN \<Rightarrow> enotconn | EPIPE \<Rightarrow> epipe | EEXIST \<Rightarrow> eexist | EMFILE \<Rightarrow> emfile
      | ENAMETOOLONG \<Rightarrow> enametoolong | ELOOP \<Rightarrow> eloop | EMLINK \<Rightarrow> emlink | EXDEV \<Rightarrow> exdev
      | EBUSY \<Rightarrow> ebusy | ENFILE \<Rightarrow> enfile | ENOTEMPTY \<Rightarrow> enotempty | ESRCH \<Rightarrow> esrch
      | E_other _ \<Rightarrow> eio)"

lemma path_errno_not_success [simp]: "path_errno_from_fast_io_error e \<noteq> esuccess"
  by (simp add: path_errno_from_fast_io_error_def split: posix_error.split)

section \<open>Splitting a path\<close>

datatype dir_type_e = dir_curr | dir_prev | dir_next

record split_path_t =
  next_name :: "byte list"
  dir_type :: dir_type_e

record split_path_res_t =
  res_components :: "split_path_t list"
  is_absolute :: bool

abbreviation slash :: byte where "slash \<equiv> 0x2F"

abbreviation dot :: byte where "dot \<equiv> 0x2E"

definition split_token :: "byte list \<Rightarrow> split_path_t" where
  "split_token token =
     (if token = [dot] then \<lparr>next_name = [], dir_type = dir_curr\<rparr>
      else if token = [dot, dot] then \<lparr>next_name = [], dir_type = dir_prev\<rparr>
      else \<lparr>next_name = token, dir_type = dir_next\<rparr>)"

function split_tokens :: "byte list \<Rightarrow> split_path_t list" where
  "split_tokens path =
     (let i = dropWhile (\<lambda>c. c = slash) path in
      if i = [] then []
      else let token = takeWhile (\<lambda>c. c \<noteq> slash) i in split_token token # split_tokens (drop (length token + 1) i))"
  by pat_completeness auto
termination
proof (relation "measure length", goal_cases)
  case (2 path i token)
  have "length i \<le> length path" unfolding 2(1) by (rule length_dropWhile_le)
  then show ?case using 2(2) by (cases i) auto
qed simp

declare split_tokens.simps [simp del]

text \<open>A path of \<^verbatim>\<open>SIZE_MAX\<close> bytes, which the code tests for, does not fit into memory.\<close>

definition split_posix_path :: "byte list \<Rightarrow> split_path_res_t" where
  "split_posix_path path =
     \<lparr>res_components = split_tokens path, is_absolute = (path \<noteq> [] \<and> hd path = slash)\<rparr>"

section \<open>The host\<close>

datatype open_flag =
    mode_explicit_disposition | mode_creat | mode_directory | mode_excl | mode_trunc | mode_app | mode_no_block | mode_sync
  | mode_dsync | mode_rsync | mode_in | mode_out

text \<open>A call, with the handle it returned if it opened something. No call follows a symbolic link.\<close>

datatype 'h host_call =
    readlink_call 'h "byte list"
  | open_dir_call 'h "byte list" "open_flag set" "'h option"
  | open_file_call 'h "byte list" "open_flag set" "'h option"

record 'h host =
  native_readlinkat :: "'h host_call list \<Rightarrow> 'h \<Rightarrow> byte list \<Rightarrow> byte list option"
  dir_file_at :: "'h host_call list \<Rightarrow> 'h \<Rightarrow> byte list \<Rightarrow> open_flag set \<Rightarrow> posix_error + 'h"
  native_file_at :: "'h host_call list \<Rightarrow> 'h \<Rightarrow> byte list \<Rightarrow> open_flag set \<Rightarrow> posix_error + 'h"

definition opened :: "posix_error + 'h \<Rightarrow> 'h option" where
  "opened r = (case r of Inl _ \<Rightarrow> None | Inr h \<Rightarrow> Some h)"

section \<open>Walking a path\<close>

text \<open>
  The functions come twice, for stacks of handles and for stacks of names and handles; an entry of the stack is
  built by \<open>stack_entry\<close> and its handle read by \<open>entry_file\<close>.
\<close>

record ('h, 'e) path_env =
  disable_utf8_check :: bool
  curr_fd_native_dir_file :: 'h
  stack_entry :: "byte list \<Rightarrow> 'h \<Rightarrow> 'e"
  entry_file :: "'e \<Rightarrow> 'h"
  the_host :: "'h host"

record ('h, 'e) walk =
  symlink_depth :: nat
  curr_path_stack :: "'e list"
  host_calls :: "'h host_call list"

definition max_symlink_depth :: nat where
  "max_symlink_depth = 40"

definition check_has_zero_illegal_unchecked :: "byte list \<Rightarrow> utf_error_code" where
  "check_has_zero_illegal_unchecked str = (if 0 \<in> set str then contains_empty_characters else success)"

definition check_path_text :: "bool \<Rightarrow> byte list \<Rightarrow> utf_error_code" where
  "check_path_text disable_check path =
     (if \<not> disable_check then snd (check_legal_utf8_rfc3629_unchecked True path) else check_has_zero_illegal_unchecked path)"

text \<open>The directory in which a component is looked up: the last one on the stack, or the directory that the walk began in.\<close>

definition current_dir :: "('h, 'e) path_env \<Rightarrow> 'e list \<Rightarrow> 'h" where
  "current_dir env stack = (case stack of [] \<Rightarrow> curr_fd_native_dir_file env | e # _ \<Rightarrow> entry_file env e)"

definition readlink_step :: "('h, 'e) path_env \<Rightarrow> byte list \<Rightarrow> ('h, 'e) walk \<Rightarrow> byte list option \<times> ('h, 'e) walk" where
  "readlink_step env n st =
     (let d = current_dir env (curr_path_stack st) in
      (native_readlinkat (the_host env) (host_calls st) d n, st\<lparr>host_calls := readlink_call d n # host_calls st\<rparr>))"

definition open_dir_step ::
    "('h, 'e) path_env \<Rightarrow> open_flag set \<Rightarrow> byte list \<Rightarrow> ('h, 'e) walk \<Rightarrow> (posix_error + 'h) \<times> ('h, 'e) walk" where
  "open_dir_step env mode n st =
     (let d = current_dir env (curr_path_stack st); r = dir_file_at (the_host env) (host_calls st) d n mode in
      (r, st\<lparr>host_calls := open_dir_call d n mode (opened r) # host_calls st\<rparr>))"

text \<open>The beginning of \<open>path_symlink_iterative_impl\<close> and \<open>file_symlink_iterative_impl\<close>, up to the loop over the components.\<close>

definition enter_path :: "('h, 'e) path_env \<Rightarrow> byte list \<Rightarrow> ('h, 'e) walk \<Rightarrow> (errno_t + split_path_t list) \<times> ('h, 'e) walk" where
  "enter_path env symlink_symbol st =
     (let st = st\<lparr>symlink_depth := symlink_depth st + 1\<rparr> in
      if symlink_depth st > max_symlink_depth then (Inl eloop, st)
      else if symlink_symbol = [] then (Inl einval, st)
      else if check_path_text (disable_utf8_check env) symlink_symbol \<noteq> success then (Inl eilseq, st)
      else
        let split_path_res = split_posix_path symlink_symbol in
        if is_absolute split_path_res then (Inl enotcapable, st) else (Inr (res_components split_path_res), st))"

text \<open>The loop of \<open>path_symlink_iterative_impl\<close>; the recursive call of that function is unfolded to \<open>enter_path\<close> and this loop.\<close>

function (domintros) path_components ::
    "('h, 'e) path_env \<Rightarrow> split_path_t list \<Rightarrow> ('h, 'e) walk \<Rightarrow> errno_t \<times> ('h, 'e) walk" where
  "path_components env [] st = (esuccess, st)"
| "path_components env (split_curr # rest) st =
     (case dir_type split_curr of
        dir_curr \<Rightarrow> path_components env rest st
      | dir_prev \<Rightarrow>
          if curr_path_stack st = [] then (enotcapable, st)
          else path_components env rest (st\<lparr>curr_path_stack := tl (curr_path_stack st)\<rparr>)
      | dir_next \<Rightarrow>
          (case readlink_step env (next_name split_curr) st of
             (Some symlink_symbol, st1) \<Rightarrow>
               if symlink_symbol = [] then (eio, st1)
               else (case enter_path env symlink_symbol st1 of
                       (Inl e, st2) \<Rightarrow> (e, st2)
                     | (Inr inner, st2) \<Rightarrow>
                         (case path_components env inner st2 of
                            (err, st3) \<Rightarrow> if err \<noteq> esuccess then (err, st3) else path_components env rest st3))
           | (None, st1) \<Rightarrow>
               (case open_dir_step env {} (next_name split_curr) st1 of
                  (Inl e, st2) \<Rightarrow> (path_errno_from_fast_io_error e, st2)
                | (Inr next, st2) \<Rightarrow>
                    path_components env rest
                      (st2\<lparr>curr_path_stack := stack_entry env (next_name split_curr) next # curr_path_stack st2\<rparr>))))"
  by pat_completeness auto

lemma readlink_step_state:
  "readlink_step env n st = (r, st') \<Longrightarrow> symlink_depth st' = symlink_depth st \<and> curr_path_stack st' = curr_path_stack st"
  by (auto simp: readlink_step_def Let_def)

lemma open_dir_step_state:
  "open_dir_step env mode n st = (r, st') \<Longrightarrow> symlink_depth st' = symlink_depth st \<and> curr_path_stack st' = curr_path_stack st"
  by (auto simp: open_dir_step_def Let_def)

lemma enter_path_state:
  "enter_path env p st = (r, st') \<Longrightarrow> st' = st\<lparr>symlink_depth := symlink_depth st + 1\<rparr>"
  by (auto simp: enter_path_def Let_def split: if_splits)

lemma enter_path_depth:
  "enter_path env p st = (Inr comps, st') \<Longrightarrow> symlink_depth st' \<le> 40"
  by (auto simp: enter_path_def Let_def max_symlink_depth_def split: if_splits)

lemma path_components_depth:
  "path_components_dom (env, comps, st) \<Longrightarrow> symlink_depth st \<le> symlink_depth (snd (path_components env comps st))"
proof (induction env comps st rule: path_components.pinduct)
  case (2 env split_curr rest st)
  note step = 2(2-)
  show ?case
  proof (cases "dir_type split_curr")
    case dir_next
    obtain link st1 where r: "readlink_step env (next_name split_curr) st = (link, st1)" by fastforce
    obtain entered st2 where e: "enter_path env (the link) st1 = (entered, st2)" by fastforce
    obtain dir st3 where d: "open_dir_step env {} (next_name split_curr) st1 = (dir, st3)" by fastforce
    note eqs = path_components.psimps(2) [OF 2(1)] dir_next r readlink_step_state [OF r]
    show ?thesis
    proof (cases link)
      case None
      then show ?thesis
        using step(3) [OF dir_next r [symmetric] None d [symmetric]] eqs d open_dir_step_state [OF d] by (cases dir) simp_all
    next
      case (Some symbol)
      note e = e [unfolded Some option.sel] and s = enter_path_state [OF e [unfolded Some option.sel]]
      show ?thesis
      proof (cases "symbol = [] \<or> (\<exists>err. entered = Inl err)")
        case False
        then obtain inner where i: "symbol \<noteq> []" "entered = Inr inner" by (cases entered) auto
        obtain err st4 where p: "path_components env inner st2 = (err, st4)" by fastforce
        have "symlink_depth st2 \<le> symlink_depth st4" using step(4) [OF dir_next r [symmetric] Some i(1) e [symmetric] i(2)] p by simp
        moreover have "symlink_depth st4 \<le> symlink_depth (snd (path_components env rest st4))" if "err = esuccess"
          using step(5) [OF dir_next r [symmetric] Some i(1) e [symmetric] i(2) p [symmetric]] that by simp
        ultimately show ?thesis using eqs Some e i s p by auto
      qed (use eqs Some e s in auto)
    qed
  qed (use step in \<open>auto simp: path_components.psimps(2) [OF 2(1)]\<close>)
qed (simp add: path_components.psimps(1))

termination path_components
proof (relation "measures [\<lambda>(env, comps, st). 41 - symlink_depth st, \<lambda>(env, comps, st). length comps]", goal_cases)
  case (4 env split_curr rest st link st1 dir st2 h)
  then show ?case using readlink_step_state [OF 4(2) [symmetric]] open_dir_step_state [OF 4(4) [symmetric]] by simp
next
  case (5 env split_curr rest st link st1 symbol entered st2 inner)
  then show ?case
    using readlink_step_state [OF 5(2) [symmetric]] enter_path_state [OF 5(5) [symmetric]] enter_path_depth [of env symbol st1 inner st2]
    by simp linarith
next
  case (6 env split_curr rest st link st1 symbol entered st2 inner err st3)
  have "symlink_depth st3 = symlink_depth (snd (path_components env inner st2))" using 6(7) by (metis snd_conv)
  then have "symlink_depth st < symlink_depth st3" "symlink_depth st < 41"
    using readlink_step_state [OF 6(2) [symmetric]] enter_path_state [OF 6(5) [symmetric]] enter_path_depth [of env symbol st1 inner st2]
      path_components_depth [OF 6(9)] 6(5,6) by auto
  then show ?case by simp linarith
qed auto

lemma path_components_dom: "path_components_dom (env, comps, st)"
  by (induction env comps st rule: path_components.induct) (rule path_components.domintros; simp)+

lemmas path_components_depth_total = path_components_depth [OF path_components_dom]

declare path_components.simps(2) [simp del]

definition path_symlink_iterative_impl :: "('h, 'e) path_env \<Rightarrow> byte list \<Rightarrow> ('h, 'e) walk \<Rightarrow> errno_t \<times> ('h, 'e) walk" where
  "path_symlink_iterative_impl env symlink_symbol st =
     (case enter_path env symlink_symbol st of (Inl e, st) \<Rightarrow> (e, st) | (Inr comps, st) \<Rightarrow> path_components env comps st)"

text \<open>
  The loop of \<open>file_symlink_iterative_impl\<close>. A component that is not the last one is treated as in the loop above; the last one
  is the name of the file, unless it is a symbolic link.
\<close>

function file_components ::
    "('h, 'e) path_env \<Rightarrow> split_path_t list \<Rightarrow> ('h, 'e) walk \<Rightarrow> (errno_t \<times> byte list) \<times> ('h, 'e) walk" where
  "file_components env [] st = ((esuccess, []), st)"
| "file_components env [split_curr] st =
     (case dir_type split_curr of
        dir_curr \<Rightarrow> ((eisdir, []), st)
      | dir_prev \<Rightarrow> ((if curr_path_stack st = [] then enotcapable else eisdir, []), st)
      | dir_next \<Rightarrow>
          (case readlink_step env (next_name split_curr) st of
             (Some symlink_symbol, st1) \<Rightarrow>
               if symlink_symbol = [] then ((eio, []), st1)
               else (case enter_path env symlink_symbol st1 of
                       (Inl e, st2) \<Rightarrow> ((e, []), st2)
                     | (Inr comps, st2) \<Rightarrow> file_components env comps st2)
           | (None, st1) \<Rightarrow> ((esuccess, next_name split_curr), st1)))"
| "file_components env (split_curr # split_next # rest) st =
     (case path_components env [split_curr] st of
        (err, st1) \<Rightarrow> if err \<noteq> esuccess then ((err, []), st1) else file_components env (split_next # rest) st1)"
  by pat_completeness auto
termination file_components
proof (relation "measures [\<lambda>(env, comps, st). 41 - symlink_depth st, \<lambda>(env, comps, st). length comps]", goal_cases)
  case (2 env split_curr st link st1 symbol entered st2 comps)
  then have "symlink_depth st2 = symlink_depth st + 1" "symlink_depth st2 \<le> 40"
    using readlink_step_state [OF 2(2) [symmetric]] enter_path_state [OF 2(5) [symmetric]] enter_path_depth [of env symbol st1 comps st2]
    by auto
  then show ?case by simp linarith
next
  case (3 env split_curr split_next rest st err st1)
  then have "symlink_depth st \<le> symlink_depth st1"
    using path_components_depth_total [of st env "[split_curr]"] by (simp flip: 3(1))
  then show ?case by simp linarith
qed simp

definition file_symlink_iterative_impl ::
    "('h, 'e) path_env \<Rightarrow> byte list \<Rightarrow> ('h, 'e) walk \<Rightarrow> (errno_t \<times> byte list) \<times> ('h, 'e) walk" where
  "file_symlink_iterative_impl env symlink_symbol st =
     (case enter_path env symlink_symbol st of (Inl e, st) \<Rightarrow> ((e, []), st) | (Inr comps, st) \<Rightarrow> file_components env comps st)"

section \<open>The four functions\<close>

record 'h dir_with_name_t =
  dir_name :: "byte list"
  dir_file :: 'h

definition plain_env :: "bool \<Rightarrow> 'h host \<Rightarrow> 'h \<Rightarrow> ('h, 'h) path_env" where
  "plain_env disable_check host base =
     \<lparr>disable_utf8_check = disable_check, curr_fd_native_dir_file = base, stack_entry = (\<lambda>n h. h), entry_file = (\<lambda>h. h), the_host = host\<rparr>"

definition named_env :: "bool \<Rightarrow> 'h host \<Rightarrow> 'h \<Rightarrow> ('h, 'h dir_with_name_t) path_env" where
  "named_env disable_check host base =
     \<lparr>disable_utf8_check = disable_check, curr_fd_native_dir_file = base, stack_entry = (\<lambda>n h. \<lparr>dir_name = n, dir_file = h\<rparr>),
      entry_file = dir_file, the_host = host\<rparr>"

definition path_symlink_iterative ::
    "bool \<Rightarrow> 'h host \<Rightarrow> 'h \<Rightarrow> byte list \<Rightarrow> 'h list \<Rightarrow> 'h host_call list \<Rightarrow> errno_t \<times> 'h list \<times> 'h host_call list" where
  "path_symlink_iterative disable_check host base symlink_symbol stack calls =
     (case path_symlink_iterative_impl (plain_env disable_check host base) symlink_symbol
             \<lparr>symlink_depth = 0, curr_path_stack = stack, host_calls = calls\<rparr> of
        (err, st) \<Rightarrow> (err, curr_path_stack st, host_calls st))"

definition file_symlink_iterative ::
    "bool \<Rightarrow> 'h host \<Rightarrow> 'h \<Rightarrow> byte list \<Rightarrow> 'h list \<Rightarrow> 'h host_call list \<Rightarrow> (errno_t \<times> byte list) \<times> 'h list \<times> 'h host_call list" where
  "file_symlink_iterative disable_check host base symlink_symbol stack calls =
     (case file_symlink_iterative_impl (plain_env disable_check host base) symlink_symbol
             \<lparr>symlink_depth = 0, curr_path_stack = stack, host_calls = calls\<rparr> of
        (r, st) \<Rightarrow> (r, curr_path_stack st, host_calls st))"

definition path_symlink_iterative_with_name ::
    "bool \<Rightarrow> 'h host \<Rightarrow> 'h \<Rightarrow> byte list \<Rightarrow> 'h dir_with_name_t list \<Rightarrow> 'h host_call list \<Rightarrow>
       errno_t \<times> 'h dir_with_name_t list \<times> 'h host_call list" where
  "path_symlink_iterative_with_name disable_check host base symlink_symbol stack calls =
     (case path_symlink_iterative_impl (named_env disable_check host base) symlink_symbol
             \<lparr>symlink_depth = 0, curr_path_stack = stack, host_calls = calls\<rparr> of
        (err, st) \<Rightarrow> (err, curr_path_stack st, host_calls st))"

definition file_symlink_iterative_with_name ::
    "bool \<Rightarrow> 'h host \<Rightarrow> 'h \<Rightarrow> byte list \<Rightarrow> 'h dir_with_name_t list \<Rightarrow> 'h host_call list \<Rightarrow>
       (errno_t \<times> byte list) \<times> 'h dir_with_name_t list \<times> 'h host_call list" where
  "file_symlink_iterative_with_name disable_check host base symlink_symbol stack calls =
     (case file_symlink_iterative_impl (named_env disable_check host base) symlink_symbol
             \<lparr>symlink_depth = 0, curr_path_stack = stack, host_calls = calls\<rparr> of
        (r, st) \<Rightarrow> (r, curr_path_stack st, host_calls st))"

section \<open>The components of a path\<close>

text \<open>A name of one component: not empty, without separators and zero bytes, and not one of the two names with a meaning.\<close>

definition component_name :: "byte list \<Rightarrow> bool" where
  "component_name n \<longleftrightarrow> n \<noteq> [] \<and> slash \<notin> set n \<and> 0 \<notin> set n \<and> n \<noteq> [dot] \<and> n \<noteq> [dot, dot]"

definition proper_component :: "split_path_t \<Rightarrow> bool" where
  "proper_component c \<longleftrightarrow> (dir_type c = dir_next \<longrightarrow> component_name (next_name c))"

lemma split_tokens_proper: "0 \<notin> set path \<Longrightarrow> list_all proper_component (split_tokens path)"
proof (induction path rule: split_tokens.induct)
  case (1 path)
  let ?i = "dropWhile (\<lambda>c. c = slash) path"
  let ?token = "takeWhile (\<lambda>c. c \<noteq> slash) ?i"
  have z: "0 \<notin> set ?i" using 1(2) by (meson set_dropWhileD)
  then have tok: "0 \<notin> set ?token" "slash \<notin> set ?token" by (auto dest: set_takeWhileD)
  show ?case
  proof (cases "?i = []")
    case False
    then have "?token \<noteq> []" using hd_dropWhile [of "\<lambda>c. c = slash" path] by (cases ?i) auto
    with tok have "proper_component (split_token ?token)" by (simp add: proper_component_def split_token_def component_name_def)
    moreover have "list_all proper_component (split_tokens (drop (length ?token + 1) ?i))"
      using 1(1) [OF refl False refl] z by (meson in_set_dropD)
    ultimately show ?thesis using False by (simp add: split_tokens.simps [of path] Let_def)
  qed (simp add: split_tokens.simps [of path])
qed

lemma utf8_encode_no_zero: "c \<noteq> 0 \<Longrightarrow> unicode_scalar c \<Longrightarrow> 0 \<notin> set (utf8_encode c)"
proof -
  have nz: "of_nat n \<noteq> (0 :: byte)" if "0 < n" "n < 256" for n
    using that unat_of_nat_byte [of n] by (metis gr_implies_not0 unsigned_0)
  assume "c \<noteq> 0" "unicode_scalar c"
  then show ?thesis using nz by (auto simp: utf8_encode_def unicode_scalar_def simp del: of_nat_add)
qed

lemma utf8_no_zero: "check_legal_utf8_rfc3629_unchecked True path = (rest, success) \<Longrightarrow> 0 \<notin> set path"
proof (induction True path rule: check_legal_utf8_rfc3629_unchecked.induct)
  case (1 path)
  note step = check_legal_utf8_rfc3629_unchecked.simps [of True path]
  show ?case
  proof (cases "path = []")
    case False
    with 1(2) step utf8_character_not_success obtain more where
      more: "utf8_character True path = Inr more" "check_legal_utf8_rfc3629_unchecked True more = (rest, success)"
      by (auto split: sum.splits)
    from more(1) obtain c where c: "unicode_scalar c" "c \<noteq> 0" "path = utf8_encode c @ more" using utf8_character_iff [OF False] by auto
    have "0 \<notin> set more" using 1(1) [OF False more] .
    with c show ?thesis using utf8_encode_no_zero by simp
  qed simp
qed

lemma path_text_proper:
  assumes "check_path_text dc path = success"
  shows "list_all proper_component (split_tokens path)"
proof -
  have "0 \<notin> set path"
    using assms utf8_no_zero [of path "fst (check_legal_utf8_rfc3629_unchecked True path)"]
    by (auto simp: check_path_text_def check_has_zero_illegal_unchecked_def prod_eq_iff split: if_splits)
  then show ?thesis by (rule split_tokens_proper)
qed

lemma entered_components:
  assumes "enter_path env path st = (Inr comps, st')"
  shows "list_all proper_component comps"
proof -
  have "check_path_text (disable_utf8_check env) path = success" "comps = split_tokens path"
    using assms by (auto simp: enter_path_def split_posix_path_def Let_def split: if_splits)
  then show ?thesis using path_text_proper by auto
qed

lemma split_tokens_nonempty: "path \<noteq> [] \<Longrightarrow> hd path \<noteq> slash \<Longrightarrow> split_tokens path \<noteq> []"
  by (subst split_tokens.simps) (cases path; simp add: Let_def)

section \<open>Confinement\<close>

fun call_dir :: "'h host_call \<Rightarrow> 'h" where
  "call_dir (readlink_call d n) = d"
| "call_dir (open_dir_call d n m r) = d"
| "call_dir (open_file_call d n m r) = d"

fun call_name :: "'h host_call \<Rightarrow> byte list" where
  "call_name (readlink_call d n) = n"
| "call_name (open_dir_call d n m r) = n"
| "call_name (open_file_call d n m r) = n"

definition opened_dirs :: "'h host_call list \<Rightarrow> 'h set" where
  "opened_dirs calls = {h. \<exists>d n m. open_dir_call d n m (Some h) \<in> set calls}"

text \<open>
  Calls, the last one first, that stay below a directory: each one names an entry, or the directory itself, of that directory or of
  one that was opened before. Since no call follows links, this is the part of the file system below the directory.
\<close>

primrec confined :: "'h \<Rightarrow> 'h host_call list \<Rightarrow> bool" where
  "confined base [] \<longleftrightarrow> True"
| "confined base (c # calls) \<longleftrightarrow>
     confined base calls \<and> call_dir c \<in> insert base (opened_dirs calls) \<and> (component_name (call_name c) \<or> call_name c = [dot])"

text \<open>Each entry of the stack was opened in the one below it.\<close>

fun stack_chain :: "('h, 'e) path_env \<Rightarrow> 'h host_call list \<Rightarrow> 'e list \<Rightarrow> bool" where
  "stack_chain env calls [] \<longleftrightarrow> True"
| "stack_chain env calls (e # es) \<longleftrightarrow>
     stack_chain env calls es \<and>
     (\<exists>n m. component_name n \<and> open_dir_call (current_dir env es) n m (Some (entry_file env e)) \<in> set calls)"

definition walk_ok :: "('h, 'e) path_env \<Rightarrow> ('h, 'e) walk \<Rightarrow> bool" where
  "walk_ok env st \<longleftrightarrow> confined (curr_fd_native_dir_file env) (host_calls st) \<and> stack_chain env (host_calls st) (curr_path_stack st)"

definition env_ok :: "('h, 'e) path_env \<Rightarrow> bool" where
  "env_ok env \<longleftrightarrow> (\<forall>n h. entry_file env (stack_entry env n h) = h)"

lemma opened_dirs_Cons: "opened_dirs calls \<subseteq> opened_dirs (c # calls)"
  by (auto simp: opened_dirs_def)

lemma stack_chain_Cons: "stack_chain env calls stack \<Longrightarrow> stack_chain env (c # calls) stack"
  by (induction stack) auto

lemma current_dir_opened: "stack_chain env calls stack \<Longrightarrow> current_dir env stack \<in> insert (curr_fd_native_dir_file env) (opened_dirs calls)"
  by (cases stack) (auto simp: current_dir_def opened_dirs_def)

lemma walk_ok_call:
  assumes "walk_ok env st" "component_name (call_name c) \<or> call_name c = [dot]" "call_dir c = current_dir env (curr_path_stack st)"
  shows "walk_ok env (st\<lparr>host_calls := c # host_calls st\<rparr>)"
  using assms stack_chain_Cons [of env "host_calls st" "curr_path_stack st" c] current_dir_opened [of env "host_calls st" "curr_path_stack st"]
  by (simp add: walk_ok_def)

lemma readlink_step_ok:
  assumes "readlink_step env n st = (r, st')" "walk_ok env st" "component_name n"
  shows "walk_ok env st'"
proof -
  have "st' = st\<lparr>host_calls := readlink_call (current_dir env (curr_path_stack st)) n # host_calls st\<rparr>"
    using assms(1) by (auto simp: readlink_step_def Let_def)
  then show ?thesis using walk_ok_call [OF assms(2)] assms(3) by simp
qed

lemma open_dir_step_calls:
  "open_dir_step env m n st = (r, st') \<Longrightarrow>
     st' = st\<lparr>host_calls := open_dir_call (current_dir env (curr_path_stack st)) n m (opened r) # host_calls st\<rparr>"
  by (auto simp: open_dir_step_def Let_def)

lemma open_dir_step_ok:
  assumes "open_dir_step env m n st = (r, st')" "walk_ok env st" "component_name n"
  shows "walk_ok env st'"
  using walk_ok_call [OF assms(2)] assms(3) open_dir_step_calls [OF assms(1)] by simp

lemma push_dir_ok:
  assumes "open_dir_step env m n st = (Inr h, st')" "walk_ok env st" "component_name n" "env_ok env"
  shows "walk_ok env (st'\<lparr>curr_path_stack := stack_entry env n h # curr_path_stack st'\<rparr>)"
proof -
  have "open_dir_call (current_dir env (curr_path_stack st')) n m (Some h) \<in> set (host_calls st')"
    using open_dir_step_calls [OF assms(1)] by (simp add: opened_def)
  then show ?thesis using open_dir_step_ok [OF assms(1-3)] assms(3,4) by (auto simp: walk_ok_def env_ok_def)
qed

lemma walk_ok_updates [simp]:
  "walk_ok env (st\<lparr>symlink_depth := k\<rparr>) = walk_ok env st"
  "walk_ok env st \<Longrightarrow> walk_ok env (st\<lparr>curr_path_stack := tl (curr_path_stack st)\<rparr>)"
  by (auto simp: walk_ok_def) (cases "curr_path_stack st"; simp)

lemma enter_path_ok: "enter_path env p st = (r, st') \<Longrightarrow> walk_ok env st' = walk_ok env st"
  by (drule enter_path_state) simp

lemma path_components_ok:
  assumes "env_ok env" "walk_ok env st" "list_all proper_component comps"
  shows "walk_ok env (snd (path_components env comps st))"
  using assms
proof (induction env comps st rule: path_components.induct)
  case (2 env split_curr rest st)
  note prems = 2(6,7) and rest = 2(8) [simplified, THEN conjunct2]
  show ?case
  proof (cases "dir_type split_curr")
    case dir_next
    then have n: "component_name (next_name split_curr)" using 2(8) by (simp add: proper_component_def)
    obtain link st1 where r: "readlink_step env (next_name split_curr) st = (link, st1)" by fastforce
    note ok1 = readlink_step_ok [OF r prems(2) n]
    show ?thesis
    proof (cases link)
      case None
      obtain dir st2 where d: "open_dir_step env {} (next_name split_curr) st1 = (dir, st2)" by fastforce
      show ?thesis
        using 2(3) [OF dir_next r [symmetric] None d [symmetric] _ prems(1) push_dir_ok rest] d ok1 n prems(1) open_dir_step_ok [OF d ok1 n]
        by (cases dir) (simp_all add: path_components.simps(2) dir_next r None)
    next
      case (Some symbol)
      obtain entered st2 where e: "enter_path env symbol st1 = (entered, st2)" by fastforce
      have ok2: "walk_ok env st2" using enter_path_ok [OF e] ok1 by simp
      show ?thesis
      proof (cases "symbol = [] \<or> (\<exists>err. entered = Inl err)")
        case False
        then obtain inner where i: "symbol \<noteq> []" "entered = Inr inner" by (cases entered) auto
        obtain err st3 where p: "path_components env inner st2 = (err, st3)" by fastforce
        have ok3: "walk_ok env st3"
          using 2(4) [OF dir_next r [symmetric] Some i(1) e [symmetric] i(2) prems(1) ok2] entered_components e i(2) p by fastforce
        have "walk_ok env (snd (path_components env rest st3))" if "err = esuccess"
          using 2(5) [OF dir_next r [symmetric] Some i(1) e [symmetric] i(2) p [symmetric] _ prems(1) ok3 rest] that by simp
        then show ?thesis using ok3 by (simp add: path_components.simps(2) dir_next r Some i e p)
      qed (use ok1 ok2 e in \<open>auto simp: path_components.simps(2) dir_next r Some\<close>)
    qed
  qed (use 2 in \<open>simp_all add: path_components.simps(2)\<close>)
qed simp

lemma path_symlink_iterative_impl_ok:
  assumes "env_ok env" "walk_ok env st"
  shows "walk_ok env (snd (path_symlink_iterative_impl env path st))"
  using assms enter_path_ok [of env path st] entered_components [of env path st]
  by (auto simp: path_symlink_iterative_impl_def intro: path_components_ok split: prod.splits sum.splits)

lemma entered_nonempty: "enter_path env path st = (Inr comps, st') \<Longrightarrow> comps \<noteq> []"
  using split_tokens_nonempty [of path] by (auto simp: enter_path_def split_posix_path_def Let_def split: if_splits)

text \<open>A file that was found is an entry of the directory on top of the stack.\<close>

lemma file_components_ok:
  assumes "env_ok env" "walk_ok env st" "list_all proper_component comps" "comps \<noteq> []" "file_components env comps st = ((err, n), st')"
  shows "walk_ok env st' \<and> (err = esuccess \<longrightarrow> component_name n)"
  using assms
proof (induction env comps st rule: file_components.induct)
  case (2 env split_curr st)
  show ?case
  proof (cases "dir_type split_curr")
    case dir_next
    then have n: "component_name (next_name split_curr)" using 2(4) by (simp add: proper_component_def)
    obtain link st1 where r: "readlink_step env (next_name split_curr) st = (link, st1)" by fastforce
    note ok1 = readlink_step_ok [OF r 2(3) n]
    show ?thesis
    proof (cases link)
      case None
      then show ?thesis using 2(6) ok1 n by (simp add: dir_next r)
    next
      case (Some symbol)
      obtain entered st2 where e: "enter_path env symbol st1 = (entered, st2)" by fastforce
      have ok2: "walk_ok env st2" using enter_path_ok [OF e] ok1 by simp
      show ?thesis
      proof (cases "symbol = [] \<or> (\<exists>err. entered = Inl err)")
        case True
        then show ?thesis using 2(6) ok1 ok2 e
          by (auto simp: dir_next r Some enter_path_def Let_def split: if_splits)
      next
        case False
        then obtain inner where i: "symbol \<noteq> []" "entered = Inr inner" by (cases entered) auto
        have "file_components env inner st2 = ((err, n), st')" using 2(6) e i by (simp add: dir_next r Some)
        with 2(1) [OF dir_next r [symmetric] Some i(1) e [symmetric] i(2) 2(2) ok2] e i(2) show ?thesis
          using entered_components entered_nonempty by metis
      qed
    qed
  qed (use 2 in \<open>auto split: if_splits\<close>)
next
  case (3 env split_curr split_next rest st)
  obtain e st1 where p: "path_components env [split_curr] st = (e, st1)" by fastforce
  then have ok1: "walk_ok env st1" using path_components_ok [OF 3(2,3), of "[split_curr]"] 3(4) by simp
  then show ?case using 3(1) [OF p [symmetric]] 3(2-) p by (auto split: if_splits)
qed simp

lemma file_symlink_iterative_impl_ok:
  assumes "env_ok env" "walk_ok env st" "file_symlink_iterative_impl env path st = ((err, n), st')"
  shows "walk_ok env st' \<and> (err = esuccess \<longrightarrow> component_name n)"
proof -
  obtain entered st1 where e: "enter_path env path st = (entered, st1)" by fastforce
  note ok = enter_path_ok [OF e]
  show ?thesis
  proof (cases entered)
    case (Inl er)
    then have "er \<noteq> esuccess" using e by (auto simp: enter_path_def Let_def split: if_splits)
    then show ?thesis using Inl assms ok e by (auto simp: file_symlink_iterative_impl_def)
  next
    case (Inr comps)
    then have "file_components env comps st1 = ((err, n), st')" using assms(3) e by (simp add: file_symlink_iterative_impl_def)
    with file_components_ok [OF assms(1)] ok assms(2) entered_components entered_nonempty e Inr show ?thesis by metis
  qed
qed

lemma envs_ok [simp]: "env_ok (plain_env c h b)" "env_ok (named_env c h b)"
  by (simp_all add: env_ok_def plain_env_def named_env_def)

section \<open>The walk of the specification\<close>

text \<open>
  Path resolution as a rewriting of what is still to be walked, in a file system that does not change: a link is replaced by the components of its
  target. The number counts the links.
\<close>

fun pieces :: "byte list \<Rightarrow> byte list list" where
  "pieces [] = [[]]"
| "pieces (c # cs) = (if c = slash then [] # pieces cs else (c # hd (pieces cs)) # tl (pieces cs))"

definition spec_components :: "byte list \<Rightarrow> split_path_t list" where
  "spec_components p = map split_token (filter (\<lambda>t. t \<noteq> []) (pieces p))"

lemma pieces_one: "slash \<notin> set t \<Longrightarrow> pieces t = [t]"
  by (induction t) auto

lemma pieces_first: "slash \<notin> set t \<Longrightarrow> pieces (t @ slash # p) = t # pieces p"
  by (induction t) auto

lemma pieces_leading: "filter (\<lambda>t. t \<noteq> []) (pieces (dropWhile (\<lambda>c. c = slash) p)) = filter (\<lambda>t. t \<noteq> []) (pieces p)"
  by (induction p) auto

lemma split_tokens_spec: "split_tokens p = spec_components p"
proof (induction p rule: split_tokens.induct)
  case (1 p)
  let ?i = "dropWhile (\<lambda>c. c = slash) p"
  let ?t = "takeWhile (\<lambda>c. c \<noteq> slash) ?i"
  have s: "spec_components p = spec_components ?i" by (simp add: spec_components_def pieces_leading)
  show ?case
  proof (cases "?i = []")
    case True
    have "spec_components p = []" unfolding s True by (simp add: spec_components_def)
    with True show ?thesis by (simp add: split_tokens.simps [of p])
  next
    case False
    then have t: "?t \<noteq> []" using hd_dropWhile [of "\<lambda>c. c = slash" p] by (cases ?i) auto
    have nt: "slash \<notin> set ?t" by (auto dest: set_takeWhileD)
    have split: "split_tokens p = split_token ?t # spec_components (drop (length ?t + 1) ?i)"
      using 1 [OF refl False refl] False by (simp add: split_tokens.simps [of p] Let_def)
    show ?thesis
    proof (cases "dropWhile (\<lambda>c. c \<noteq> slash) ?i")
      case Nil
      then have "?i = ?t" by (metis append_Nil2 takeWhile_dropWhile_id)
      then show ?thesis using split s t pieces_one [OF nt] by (simp add: spec_components_def)
    next
      case (Cons x q)
      then have x: "x = slash" using hd_dropWhile [of "\<lambda>c. c \<noteq> slash" ?i] by simp
      have i: "?i = ?t @ slash # q" using Cons x by (metis takeWhile_dropWhile_id)
      have "drop (length ?t + 1) ?i = drop (length ?t + 1) (?t @ slash # q)" using i by (rule arg_cong)
      also have "\<dots> = q" by (simp only: drop_append) simp
      finally have d: "drop (length ?t + 1) ?i = q" .
      have "spec_components ?i = spec_components (?t @ slash # q)" using i by (rule arg_cong)
      also have "\<dots> = split_token ?t # spec_components q" unfolding spec_components_def pieces_first [OF nt] using t by simp
      finally show ?thesis using split s d by simp
    qed
  qed
qed

definition admissible_path :: "bool \<Rightarrow> byte list \<Rightarrow> bool" where
  "admissible_path disable_check p \<longleftrightarrow> p \<noteq> [] \<and> check_path_text disable_check p = success \<and> hd p \<noteq> slash"

definition top_dir :: "'h \<Rightarrow> 'h list \<Rightarrow> 'h" where
  "top_dir base stack = (case stack of [] \<Rightarrow> base | h # _ \<Rightarrow> h)"

inductive resolves ::
    "bool \<Rightarrow> ('h \<Rightarrow> byte list \<Rightarrow> byte list option) \<Rightarrow> ('h \<Rightarrow> byte list \<Rightarrow> posix_error + 'h) \<Rightarrow> 'h \<Rightarrow>
      split_path_t list \<Rightarrow> 'h list \<Rightarrow> nat \<Rightarrow> 'h list \<Rightarrow> bool"
  for disable_check links dirs base where
  resolves_done: "resolves disable_check links dirs base [] s 0 s"
| resolves_curr: "dir_type c = dir_curr \<Longrightarrow> resolves disable_check links dirs base cs s k s' \<Longrightarrow>
     resolves disable_check links dirs base (c # cs) s k s'"
| resolves_prev: "dir_type c = dir_prev \<Longrightarrow> resolves disable_check links dirs base cs s k s' \<Longrightarrow>
     resolves disable_check links dirs base (c # cs) (h # s) k s'"
| resolves_dir: "dir_type c = dir_next \<Longrightarrow> links (top_dir base s) (next_name c) = None \<Longrightarrow>
     dirs (top_dir base s) (next_name c) = Inr h \<Longrightarrow> resolves disable_check links dirs base cs (h # s) k s' \<Longrightarrow>
     resolves disable_check links dirs base (c # cs) s k s'"
| resolves_link: "dir_type c = dir_next \<Longrightarrow> links (top_dir base s) (next_name c) = Some t \<Longrightarrow> admissible_path disable_check t \<Longrightarrow>
     resolves disable_check links dirs base (spec_components t @ cs) s k s' \<Longrightarrow>
     resolves disable_check links dirs base (c # cs) s (Suc k) s'"

inductive_cases resolves_NilE: "resolves dc links dirs base [] s k s'"
inductive_cases resolves_ConsE: "resolves dc links dirs base (c # cs) s k s'"

lemma resolves_appendI:
  assumes "resolves dc links dirs base as s k s1" "resolves dc links dirs base bs s1 j s'"
  shows "resolves dc links dirs base (as @ bs) s (k + j) s'"
  using assms by (induction rule: resolves.induct) (auto intro: resolves.intros)

lemma resolves_split_Nil:
  assumes "resolves dc links dirs base bs s k s'"
  shows "\<exists>k1 k2 s1. k = k1 + k2 \<and> resolves dc links dirs base [] s k1 s1 \<and> resolves dc links dirs base bs s1 k2 s'"
  using assms resolves_done by (intro exI [of _ 0] exI [of _ k] exI [of _ s]) simp

lemma resolves_appendE:
  assumes "resolves dc links dirs base (as @ bs) s k s'"
  shows "\<exists>k1 k2 s1. k = k1 + k2 \<and> resolves dc links dirs base as s k1 s1 \<and> resolves dc links dirs base bs s1 k2 s'"
  using assms
proof (induction "as @ bs" s k s' arbitrary: as rule: resolves.induct)
  case (resolves_done s)
  then show ?case using resolves.resolves_done by fastforce
next
  case (resolves_curr c cs s k s')
  show ?case
  proof (cases as)
    case Nil
    with resolves_curr(1-2,4) have "resolves dc links dirs base bs s k s'" by (auto intro: resolves.resolves_curr)
    from resolves_split_Nil [OF this] show ?thesis unfolding Nil .
  next
    case (Cons a as')
    with resolves_curr show ?thesis using resolves.resolves_curr by fastforce
  qed
next
  case (resolves_prev c cs s k s' h)
  show ?case
  proof (cases as)
    case Nil
    with resolves_prev(1-2,4) have "resolves dc links dirs base bs (h # s) k s'" by (auto intro: resolves.resolves_prev)
    from resolves_split_Nil [OF this] show ?thesis unfolding Nil .
  next
    case (Cons a as')
    with resolves_prev show ?thesis using resolves.resolves_prev by fastforce
  qed
next
  case (resolves_dir c s h cs k s')
  show ?case
  proof (cases as)
    case Nil
    with resolves_dir(1-4,6) have "resolves dc links dirs base bs s k s'" by (auto intro: resolves.resolves_dir)
    from resolves_split_Nil [OF this] show ?thesis unfolding Nil .
  next
    case (Cons a as')
    with resolves_dir(5) [of as'] resolves_dir(6) obtain k1 k2 s1 where
      r: "k = k1 + k2" "resolves dc links dirs base as' (h # s) k1 s1" "resolves dc links dirs base bs s1 k2 s'" by auto
    with Cons resolves_dir(1-3,6) have "resolves dc links dirs base as s k1 s1" by (auto intro: resolves.resolves_dir)
    with r show ?thesis by blast
  qed
next
  case (resolves_link c s t cs k s')
  show ?case
  proof (cases as)
    case Nil
    with resolves_link(1-4,6) have "resolves dc links dirs base bs s (Suc k) s'" by (auto intro: resolves.resolves_link)
    from resolves_split_Nil [OF this] show ?thesis unfolding Nil .
  next
    case (Cons a as')
    with resolves_link(5) [of "spec_components t @ as'"] resolves_link(6) obtain k1 k2 s1 where
      "k = k1 + k2" "resolves dc links dirs base (spec_components t @ as') s k1 s1" "resolves dc links dirs base bs s1 k2 s'" by auto
    with Cons resolves_link(1-3,6) have "resolves dc links dirs base as s (Suc k1) s1" "Suc k = Suc k1 + k2"
      by (auto intro: resolves.resolves_link)
    with \<open>resolves dc links dirs base bs s1 k2 s'\<close> show ?thesis by blast
  qed
qed

lemma resolves_append:
  "resolves dc links dirs base (as @ bs) s k s' \<longleftrightarrow>
     (\<exists>k1 k2 s1. k = k1 + k2 \<and> resolves dc links dirs base as s k1 s1 \<and> resolves dc links dirs base bs s1 k2 s')"
  using resolves_appendI resolves_appendE by fast

definition static_host :: "('h \<Rightarrow> byte list \<Rightarrow> byte list option) \<Rightarrow> ('h \<Rightarrow> byte list \<Rightarrow> posix_error + 'h) \<Rightarrow> 'h host" where
  "static_host links dirs =
     \<lparr>native_readlinkat = (\<lambda>_. links), dir_file_at = (\<lambda>_ d n _. dirs d n), native_file_at = (\<lambda>_ d n _. Inl ENOENT)\<rparr>"

lemma current_dir_plain: "current_dir (plain_env dc h base) = top_dir base"
  by (rule ext) (simp add: current_dir_def top_dir_def plain_env_def split: list.split)

lemma enter_path_iff:
  "enter_path env p st = (Inr comps, st') \<longleftrightarrow>
     st' = st\<lparr>symlink_depth := symlink_depth st + 1\<rparr> \<and> symlink_depth st < 40 \<and> admissible_path (disable_utf8_check env) p \<and> comps = spec_components p"
  by (auto simp: enter_path_def admissible_path_def split_posix_path_def split_tokens_spec max_symlink_depth_def Let_def)

text \<open>A walk that succeeds, with the links it has counted and the stack it leaves.\<close>

definition walked :: "errno_t \<times> ('h, 'e) walk \<Rightarrow> nat \<Rightarrow> 'e list \<Rightarrow> bool" where
  "walked r d s \<longleftrightarrow> fst r = esuccess \<and> symlink_depth (snd r) = d \<and> curr_path_stack (snd r) = s"

lemma path_components_exact:
  assumes "env = plain_env dc (static_host links dirs) base" "symlink_depth st \<le> 40"
  shows "walked (path_components env comps st) d s \<longleftrightarrow>
     (\<exists>k. resolves dc links dirs base comps (curr_path_stack st) k s \<and> d = symlink_depth st + k \<and> d \<le> 40)"
  using assms
proof (induction env comps st arbitrary: d s rule: path_components.induct)
  case (1 env st)
  then show ?case by (auto simp: walked_def intro: resolves.intros elim: resolves_NilE)
next
  case (2 env c rest st)
  let ?R = "resolves dc links dirs base"
  note simps = path_components.simps(2) [of env c rest st]
  show ?case
  proof (cases "dir_type c")
    case dir_curr
    have "?R (c # rest) (curr_path_stack st) k s \<longleftrightarrow> ?R rest (curr_path_stack st) k s" for k
      using dir_curr by (auto intro: resolves_curr elim: resolves_ConsE)
    then show ?thesis using 2(1) [OF dir_curr] 2(6,7) dir_curr simps by simp
  next
    case dir_prev
    show ?thesis
    proof (cases "curr_path_stack st")
      case Nil
      then show ?thesis using dir_prev simps by (auto simp: walked_def elim: resolves_ConsE)
    next
      case (Cons h t)
      have "?R (c # rest) (h # t) k s \<longleftrightarrow> ?R rest t k s" for k using dir_prev by (auto intro: resolves_prev elim: resolves_ConsE)
      then show ?thesis using 2(2) [OF dir_prev] 2(6,7) dir_prev simps Cons by simp
    qed
  next
    case dir_next
    let ?d = "top_dir base (curr_path_stack st)" and ?n = "next_name c"
    obtain link st1 where r: "readlink_step env ?n st = (link, st1)" by fastforce
    have l: "link = links ?d ?n" using r 2(6) by (auto simp: readlink_step_def plain_env_def static_host_def Let_def current_dir_plain [unfolded plain_env_def])
    note st1 = readlink_step_state [OF r]
    show ?thesis
    proof (cases link)
      case None
      obtain dir st2 where o: "open_dir_step env {} ?n st1 = (dir, st2)" by fastforce
      have dd: "dir = dirs ?d ?n"
        using o 2(6) st1 by (auto simp: open_dir_step_def plain_env_def static_host_def Let_def current_dir_plain [unfolded plain_env_def])
      show ?thesis
      proof (cases dir)
        case (Inl e)
        then show ?thesis using dir_next simps r None o l dd by (auto simp: walked_def elim: resolves_ConsE)
      next
        case (Inr h)
        have "?R (c # rest) (curr_path_stack st) k s \<longleftrightarrow> ?R rest (h # curr_path_stack st) k s" for k
          using dir_next None Inr l dd by (auto intro: resolves_dir elim: resolves_ConsE)
        moreover have "stack_entry env ?n h = h" using 2(6) by (simp add: plain_env_def)
        ultimately show ?thesis
          using 2(3) [OF dir_next r [symmetric] None o [symmetric] Inr 2(6)] 2(7) st1 open_dir_step_state [OF o] simps dir_next r None o Inr by simp
      qed
    next
      case (Some t)
      have R: "?R (c # rest) (curr_path_stack st) k s \<longleftrightarrow>
          (\<exists>j. k = Suc j \<and> admissible_path dc t \<and> ?R (spec_components t @ rest) (curr_path_stack st) j s)" for k
        using dir_next Some l by (auto intro: resolves_link elim: resolves_ConsE)
      obtain entered st2 where e: "enter_path env t st1 = (entered, st2)" by fastforce
      have du: "disable_utf8_check env = dc" using 2(6) by (simp add: plain_env_def)
      show ?thesis
      proof (cases "admissible_path dc t \<and> symlink_depth st < 40")
        case False
        then obtain err where "entered = Inl err" using e enter_path_iff [of env t st1 _ st2] du st1 by (cases entered) auto
        moreover have "err \<noteq> esuccess" using e calculation by (auto simp: enter_path_def Let_def split: if_splits)
        ultimately show ?thesis using False R simps dir_next r Some e by (auto simp: walked_def)
      next
        case True
        have en: "entered = Inr (spec_components t)" "st2 = st1\<lparr>symlink_depth := symlink_depth st + 1\<rparr>"
          using enter_path_iff [of env t st1 "spec_components t" "st1\<lparr>symlink_depth := symlink_depth st1 + 1\<rparr>"] True du st1 e by auto
        have ne: "t \<noteq> []" using True by (simp add: admissible_path_def)
        obtain err st3 where p: "path_components env (spec_components t) st2 = (err, st3)" by fastforce
        have inner: "walked (err, st3) d' s' \<longleftrightarrow>
            (\<exists>k. ?R (spec_components t) (curr_path_stack st) k s' \<and> d' = symlink_depth st + 1 + k \<and> d' \<le> 40)" for d' s'
          using 2(4) [OF dir_next r [symmetric] Some ne e [symmetric] en(1) 2(6)] en(2) True st1 p by simp
        have outer: "walked (path_components env rest st3) d s \<longleftrightarrow>
            (\<exists>k. ?R rest (curr_path_stack st3) k s \<and> d = symlink_depth st3 + k \<and> d \<le> 40)" if "err = esuccess"
          using 2(5) [OF dir_next r [symmetric] Some ne e [symmetric] en(1) p [symmetric] _ 2(6)] that
            inner [of "symlink_depth st3" "curr_path_stack st3"] by (auto simp: walked_def)
        have "path_components env (c # rest) st = (if err \<noteq> esuccess then (err, st3) else path_components env rest st3)"
          using simps dir_next r Some ne e en(1) p by simp
        then have "walked (path_components env (c # rest) st) d s \<longleftrightarrow>
            (\<exists>d' s'. walked (err, st3) d' s' \<and> (\<exists>k. ?R rest s' k s \<and> d = d' + k \<and> d \<le> 40))"
          using outer by (auto simp: walked_def)
        also have "\<dots> \<longleftrightarrow> (\<exists>k. ?R (c # rest) (curr_path_stack st) k s \<and> d = symlink_depth st + k \<and> d \<le> 40)"
          unfolding inner R resolves_append using True by fastforce
        finally show ?thesis .
      qed
    qed
  qed
qed

section \<open>Properties\<close>

text \<open>
  Paths are confined: whatever the path, whatever the file system answers, and however it changes during the walk, every call
  of the host that the resolution of a path makes names a single entry of the directory the walk began in or of a directory that
  the walk has opened below it; the directories on the stack form a chain below that directory, and a file that is found is
  a single entry of the last one.
\<close>

theorem path_resolution_confined:
  "(case path_symlink_iterative dc host base p [] [] of
      (err, stack, calls) \<Rightarrow> confined base calls \<and> stack_chain (plain_env dc host base) calls stack) \<and>
   (case file_symlink_iterative dc host base p [] [] of
      ((err, n), stack, calls) \<Rightarrow>
        confined base calls \<and> stack_chain (plain_env dc host base) calls stack \<and> (err = esuccess \<longrightarrow> component_name n))"
proof -
  let ?env = "plain_env dc host base" and ?st = "\<lparr>symlink_depth = 0, curr_path_stack = [], host_calls = []\<rparr>"
  have ok: "walk_ok ?env ?st" by (simp add: walk_ok_def)
  have b: "curr_fd_native_dir_file ?env = base" by (simp add: plain_env_def)
  show ?thesis
    using path_symlink_iterative_impl_ok [OF envs_ok(1) ok, of p] file_symlink_iterative_impl_ok [OF envs_ok(1) ok, of p] b
    by (auto simp: path_symlink_iterative_def file_symlink_iterative_def walk_ok_def split: prod.split)
qed

text \<open>A directory with a subdirectory, a link to it, and a link out of the directory.\<close>

definition example_host :: "nat host" where
  "example_host = static_host
     (\<lambda>d n. if (d, n) = (0, [0x6C]) then Some [0x61, slash, dot] else if (d, n) = (1, [0x78]) then Some [dot, dot, slash, dot, dot] else None)
     (\<lambda>d n. if (d, n) = (0, [0x61]) then Inr 1 else Inl ENOENT)"

theorem path_resolution_confined_witness:
  "file_symlink_iterative False example_host 0 [0x6C, slash, 0x62] [] [] =
     ((esuccess, [0x62]), [1], [readlink_call 1 [0x62], open_dir_call 0 [0x61] {} (Some 1), readlink_call 0 [0x61], readlink_call 0 [0x6C]]) \<and>
   fst (path_symlink_iterative False example_host 0 [0x6C, slash, 0x78] [] []) = enotcapable \<and> component_name [0x62]"
proof -
  have "file_symlink_iterative False example_host 0 [0x6C, slash, 0x62] [] [] =
     ((esuccess, [0x62]), [1], [readlink_call 1 [0x62], open_dir_call 0 [0x61] {} (Some 1), readlink_call 0 [0x61], readlink_call 0 [0x6C]])"
    by code_simp
  moreover have "fst (path_symlink_iterative False example_host 0 [0x6C, slash, 0x78] [] []) = enotcapable" by code_simp
  ultimately show ?thesis using path_resolution_confined [where dc = False and host = example_host and base = 0 and p = "[0x6C, slash, 0x62]"] by simp
qed

text \<open>
  \<^bold>\<open>C8.\<close> Path resolution is exact: in a file system that does not change, the walk succeeds exactly if the path is
  relative, well-formed text and can be resolved without leaving the directory, replacing each link by the components of its
  target, and with fewer than 40 links; it then ends in the directory that the resolution gives. The walk always returns.
\<close>

theorem path_resolution_exact:
  "(\<exists>calls. path_symlink_iterative dc (static_host links dirs) base p [] [] = (esuccess, s, calls)) \<longleftrightarrow>
   admissible_path dc p \<and> (\<exists>k < 40. resolves dc links dirs base (spec_components p) [] k s)"
proof -
  let ?env = "plain_env dc (static_host links dirs) base" and ?st = "\<lparr>symlink_depth = 0, curr_path_stack = [], host_calls = []\<rparr>"
  obtain entered st1 where e: "enter_path ?env p ?st = (entered, st1)" by fastforce
  have du: "disable_utf8_check ?env = dc" by (simp add: plain_env_def)
  show ?thesis
  proof (cases "admissible_path dc p")
    case True
    then have i: "entered = Inr (spec_components p)" "st1 = ?st\<lparr>symlink_depth := 1\<rparr>"
      using enter_path_iff [of ?env p ?st "spec_components p" "?st\<lparr>symlink_depth := 1\<rparr>"] du e by auto
    have "(\<exists>calls. path_symlink_iterative dc (static_host links dirs) base p [] [] = (esuccess, s, calls)) \<longleftrightarrow>
        (\<exists>d. walked (path_components ?env (spec_components p) st1) d s)"
      using e i(1) by (auto simp: path_symlink_iterative_def path_symlink_iterative_impl_def walked_def split: prod.splits)
    also have "\<dots> \<longleftrightarrow> (\<exists>d k. resolves dc links dirs base (spec_components p) [] k s \<and> d = Suc k \<and> d \<le> 40)"
      using i(2) path_components_exact [OF refl, of st1 dc links dirs base "spec_components p" _ s] by simp
    also have "\<dots> \<longleftrightarrow> (\<exists>k < 40. resolves dc links dirs base (spec_components p) [] k s)" by (auto simp: Suc_le_eq)
    finally show ?thesis using True by simp
  next
    case False
    then obtain err where "entered = Inl err" using e enter_path_iff [of ?env p ?st _ st1] du by (cases entered) auto
    moreover have "err \<noteq> esuccess" using e calculation by (auto simp: enter_path_def Let_def split: if_splits)
    ultimately show ?thesis using False e by (auto simp: path_symlink_iterative_def path_symlink_iterative_impl_def)
  qed
qed

end
