(* ===== verification/Int_Numeric.thy ===== *)
theory Int_Numeric
  imports Uwvm_Prelude "HOL-Library.Signed_Division"
begin

text \<open>
  The integer instructions of the interpreter: the kernels \<open>eval_int_unop\<close>, \<open>eval_int_binop\<close> (\<^verbatim>\<open>optable/numeric.h\<close>) and
  \<open>eval_int_cmp\<close> (\<^verbatim>\<open>optable/compare.h\<close>), with which the integer operation functions compute their results, against the
  definitions of the WebAssembly specification on natural numbers. The tail-calling functions for division and remainder do not call the
  kernel but repeat its tests and its quotient or remainder; they are not modelled. The kernels are templates over a signed type and the unsigned
  type of the same width; here both are words, read with \<open>sint\<close> or \<open>unat\<close>. A trap is a value.
\<close>

unbundle bit_operations_syntax

section \<open>The kernels\<close>

datatype int_unop = unop_clz | unop_ctz | unop_popcnt

datatype int_binop =
    binop_add | binop_sub | binop_mul | binop_div_s | binop_div_u | binop_rem_s | binop_rem_u
  | binop_and | binop_or | binop_xor | binop_shl | binop_shr_s | binop_shr_u | binop_rotl | binop_rotr

datatype int_cmp = cmp_eq | cmp_ne | cmp_lt_s | cmp_lt_u | cmp_gt_s | cmp_gt_u | cmp_le_s | cmp_le_u | cmp_ge_s | cmp_ge_u

datatype trap = integer_divide_by_zero | integer_overflow

text \<open>The functions of \<^verbatim>\<open><bit>\<close>.\<close>

definition countl_zero :: "'a::len word \<Rightarrow> nat" where
  "countl_zero u = length (takeWhile (\<lambda>i. \<not> bit u i) (rev [0..<LENGTH('a)]))"

definition countr_zero :: "'a::len word \<Rightarrow> nat" where
  "countr_zero u = length (takeWhile (\<lambda>i. \<not> bit u i) [0..<LENGTH('a)])"

definition popcount :: "'a::len word \<Rightarrow> nat" where
  "popcount u = length (filter (bit u) [0..<LENGTH('a)])"

definition eval_int_unop :: "int_unop \<Rightarrow> 'a::len word \<Rightarrow> 'a word" where
  "eval_int_unop uop v =
     (case uop of unop_clz \<Rightarrow> of_nat (countl_zero v) | unop_ctz \<Rightarrow> of_nat (countr_zero v) | unop_popcnt \<Rightarrow> of_nat (popcount v))"

text \<open>\<^verbatim>\<open>static_cast<unsigned>(rhs) & mask\<close>\<close>

definition shift_count :: "'a::len word \<Rightarrow> nat" where
  "shift_count rhs = unat ((ucast rhs :: u32) AND of_nat (LENGTH('a) - 1))"

text \<open>\<^verbatim>\<open>(bits - sh) & mask\<close>\<close>

definition other_count :: "nat \<Rightarrow> nat \<Rightarrow> nat" where
  "other_count bits sh = unat ((of_nat bits - of_nat sh :: u32) AND of_nat (bits - 1))"

definition signed_min :: "'a::len word" where
  "signed_min = push_bit (LENGTH('a) - 1) 1"

definition eval_int_binop :: "int_binop \<Rightarrow> 'a::len word \<Rightarrow> 'a word \<Rightarrow> trap + 'a word" where
  "eval_int_binop bop lhs rhs =
     (case bop of
        binop_add \<Rightarrow> Inr (lhs + rhs)
      | binop_sub \<Rightarrow> Inr (lhs - rhs)
      | binop_mul \<Rightarrow> Inr (lhs * rhs)
      | binop_and \<Rightarrow> Inr (lhs AND rhs)
      | binop_or \<Rightarrow> Inr (lhs OR rhs)
      | binop_xor \<Rightarrow> Inr (lhs XOR rhs)
      | binop_shl \<Rightarrow> Inr (push_bit (shift_count rhs) lhs)
      | binop_shr_u \<Rightarrow> Inr (drop_bit (shift_count rhs) lhs)
      | binop_shr_s \<Rightarrow> Inr (signed_drop_bit (shift_count rhs) lhs)
      | binop_rotl \<Rightarrow> Inr (push_bit (shift_count rhs) lhs OR drop_bit (other_count LENGTH('a) (shift_count rhs)) lhs)
      | binop_rotr \<Rightarrow> Inr (drop_bit (shift_count rhs) lhs OR push_bit (other_count LENGTH('a) (shift_count rhs)) lhs)
      | binop_div_s \<Rightarrow>
          if rhs = 0 then Inl integer_divide_by_zero
          else if lhs = signed_min \<and> rhs = - 1 then Inl integer_overflow
          else Inr (word_of_int (sint lhs sdiv sint rhs))
      | binop_div_u \<Rightarrow> if rhs = 0 then Inl integer_divide_by_zero else Inr (lhs div rhs)
      | binop_rem_s \<Rightarrow>
          if rhs = 0 then Inl integer_divide_by_zero
          else if lhs = signed_min \<and> rhs = - 1 then Inr 0
          else Inr (word_of_int (sint lhs smod sint rhs))
      | binop_rem_u \<Rightarrow> if rhs = 0 then Inl integer_divide_by_zero else Inr (lhs mod rhs))"

definition eval_int_cmp :: "int_cmp \<Rightarrow> 'a::len word \<Rightarrow> 'a word \<Rightarrow> bool" where
  "eval_int_cmp c lhs rhs =
     (case c of cmp_eq \<Rightarrow> lhs = rhs | cmp_ne \<Rightarrow> lhs \<noteq> rhs
      | cmp_lt_s \<Rightarrow> sint lhs < sint rhs | cmp_lt_u \<Rightarrow> lhs < rhs
      | cmp_gt_s \<Rightarrow> sint lhs > sint rhs | cmp_gt_u \<Rightarrow> lhs > rhs
      | cmp_le_s \<Rightarrow> sint lhs \<le> sint rhs | cmp_le_u \<Rightarrow> lhs \<le> rhs
      | cmp_ge_s \<Rightarrow> sint lhs \<ge> sint rhs | cmp_ge_u \<Rightarrow> lhs \<ge> rhs)"

section \<open>The specification\<close>

text \<open>
  The operators of the WebAssembly specification for integers of \<open>N\<close> bits, which are the numbers below \<open>2 ^ N\<close>;
  \<open>signed_int\<close> is the signed interpretation and \<open>to_int\<close> its inverse.
\<close>

definition signed_int :: "nat \<Rightarrow> nat \<Rightarrow> int" where
  "signed_int N i = (if i < 2 ^ (N - 1) then int i else int i - 2 ^ N)"

definition to_int :: "nat \<Rightarrow> int \<Rightarrow> nat" where
  "to_int N k = nat (k mod 2 ^ N)"

definition wasm_binop :: "nat \<Rightarrow> int_binop \<Rightarrow> nat \<Rightarrow> nat \<Rightarrow> trap + nat" where
  "wasm_binop N bop i j =
     (let k = j mod N; s = signed_int N i; t = signed_int N j in case bop of
        binop_add \<Rightarrow> Inr ((i + j) mod 2 ^ N)
      | binop_sub \<Rightarrow> Inr ((i + 2 ^ N - j) mod 2 ^ N)
      | binop_mul \<Rightarrow> Inr ((i * j) mod 2 ^ N)
      | binop_and \<Rightarrow> Inr (i AND j)
      | binop_or \<Rightarrow> Inr (i OR j)
      | binop_xor \<Rightarrow> Inr (i XOR j)
      | binop_shl \<Rightarrow> Inr ((i * 2 ^ k) mod 2 ^ N)
      | binop_shr_u \<Rightarrow> Inr (i div 2 ^ k)
      | binop_shr_s \<Rightarrow> Inr (to_int N (s div 2 ^ k))
      | binop_rotl \<Rightarrow> Inr ((i * 2 ^ k) mod 2 ^ N + i div 2 ^ (N - k))
      | binop_rotr \<Rightarrow> Inr (i div 2 ^ k + (i * 2 ^ (N - k)) mod 2 ^ N)
      | binop_div_u \<Rightarrow> if j = 0 then Inl integer_divide_by_zero else Inr (i div j)
      | binop_rem_u \<Rightarrow> if j = 0 then Inl integer_divide_by_zero else Inr (i mod j)
      | binop_div_s \<Rightarrow>
          if t = 0 then Inl integer_divide_by_zero
          else if s sdiv t = 2 ^ (N - 1) then Inl integer_overflow
          else Inr (to_int N (s sdiv t))
      | binop_rem_s \<Rightarrow> if t = 0 then Inl integer_divide_by_zero else Inr (to_int N (s - t * (s sdiv t))))"

fun wasm_relop :: "nat \<Rightarrow> int_cmp \<Rightarrow> nat \<Rightarrow> nat \<Rightarrow> bool" where
  "wasm_relop N cmp_eq i j \<longleftrightarrow> i = j"
| "wasm_relop N cmp_ne i j \<longleftrightarrow> i \<noteq> j"
| "wasm_relop N cmp_lt_u i j \<longleftrightarrow> i < j"
| "wasm_relop N cmp_gt_u i j \<longleftrightarrow> i > j"
| "wasm_relop N cmp_le_u i j \<longleftrightarrow> i \<le> j"
| "wasm_relop N cmp_ge_u i j \<longleftrightarrow> i \<ge> j"
| "wasm_relop N cmp_lt_s i j \<longleftrightarrow> signed_int N i < signed_int N j"
| "wasm_relop N cmp_gt_s i j \<longleftrightarrow> signed_int N i > signed_int N j"
| "wasm_relop N cmp_le_s i j \<longleftrightarrow> signed_int N i \<le> signed_int N j"
| "wasm_relop N cmp_ge_s i j \<longleftrightarrow> signed_int N i \<ge> signed_int N j"

text \<open>The number of leading and trailing zero bits and of one bits.\<close>

fun wasm_unop :: "nat \<Rightarrow> int_unop \<Rightarrow> nat \<Rightarrow> nat \<Rightarrow> bool" where
  "wasm_unop N unop_clz i k \<longleftrightarrow> k \<le> N \<and> i < 2 ^ (N - k) \<and> (k < N \<longrightarrow> 2 ^ (N - k - 1) \<le> i)"
| "wasm_unop N unop_ctz i k \<longleftrightarrow> k \<le> N \<and> 2 ^ k dvd i \<and> (k < N \<longrightarrow> \<not> 2 ^ (k + 1) dvd i)"
| "wasm_unop N unop_popcnt i k \<longleftrightarrow> k = card {j. j < N \<and> bit i j}"

section \<open>Correctness\<close>

lemma top_bit: "bit (w :: 'a::len word) (LENGTH('a) - 1) \<longleftrightarrow> 2 ^ (LENGTH('a) - 1) \<le> unat w"
proof -
  have "unat w < 2 ^ (LENGTH('a) - 1) * 2"
    by (metis unsigned_less mult.commute power_Suc Suc_diff_1 len_gt_0)
  then have "unat w div 2 ^ (LENGTH('a) - 1) < 2" by (simp add: less_mult_imp_div_less mult.commute)
  then have "odd (unat w div 2 ^ (LENGTH('a) - 1)) \<longleftrightarrow> unat w div 2 ^ (LENGTH('a) - 1) \<noteq> 0"
    by (metis One_nat_def dvd_0_right less_2_cases odd_one)
  moreover have "bit w (LENGTH('a) - 1) \<longleftrightarrow> bit (unat w) (LENGTH('a) - 1)" by (simp add: bit_unsigned_iff)
  ultimately show ?thesis by (simp add: bit_iff_odd [where ?'a = nat] div_eq_0_iff not_less)
qed

lemma sint_signed_int: "sint (w :: 'a::len word) = signed_int LENGTH('a) (unat w)"
proof -
  have "sint w = take_bit LENGTH('a) (uint w) - 2 ^ LENGTH('a) * of_bool (bit (uint w) (LENGTH('a) - 1))"
    unfolding sint_uint signed_take_bit_eq_take_bit_minus by simp
  then show ?thesis
    using top_bit [of w] by (simp add: signed_int_def bit_unsigned_iff not_less of_nat_unat take_bit_int_eq_self_iff)
qed

lemma to_int_word: "to_int LENGTH('a) k = unat (word_of_int k :: 'a::len word)"
  by (simp add: to_int_def unsigned_of_int take_bit_eq_mod)

lemma and_mask_mod: "unat (w AND of_nat (2 ^ n - 1) :: u32) = unat w mod 2 ^ n" if "n < 32"
proof -
  have "(of_nat (2 ^ n - 1) :: u32) = mask n" by (simp add: mask_eq_exp_minus_1 of_nat_diff)
  then show ?thesis by (simp add: take_bit_eq_mask [symmetric] unsigned_take_bit_eq take_bit_eq_mod [where ?'a = nat])
qed

lemma shift_count_mod:
  assumes "LENGTH('a::len) = 32 \<or> LENGTH('a) = 64"
  shows "shift_count (j :: 'a word) = unat j mod LENGTH('a)"
  using assms
proof
  assume "LENGTH('a) = 32"
  then show ?thesis using and_mask_mod [of 5 "ucast j"] by (simp add: shift_count_def unsigned_ucast_eq take_bit_eq_mod [where ?'a = nat] mod_mod_cancel)
next
  assume "LENGTH('a) = 64"
  then show ?thesis using and_mask_mod [of 6 "ucast j"] by (simp add: shift_count_def unsigned_ucast_eq take_bit_eq_mod [where ?'a = nat] mod_mod_cancel)
qed

lemma other_count_eq:
  assumes "bits = 32 \<or> bits = 64" "k < bits"
  shows "other_count bits k = (if k = 0 then 0 else bits - k)"
proof -
  have "(of_nat bits - of_nat k :: u32) = of_nat (bits - k)" using assms(2) by (simp add: of_nat_diff)
  moreover have "bits - 1 = 2 ^ 5 - 1 \<and> bits = 2 ^ 5 \<or> bits - 1 = 2 ^ 6 - 1 \<and> bits = 2 ^ 6" using assms(1) by auto
  ultimately have "other_count bits k = (bits - k) mod bits"
    using and_mask_mod [of 5 "of_nat (bits - k)"] and_mask_mod [of 6 "of_nat (bits - k)"]
    by (auto simp: other_count_def unsigned_of_nat take_bit_eq_mod [where ?'a = nat] mod_mod_cancel)
  then show ?thesis using assms(2) by auto
qed

text \<open>A rotation joins two parts of the word that do not overlap.\<close>

lemma unat_push_bit: "unat (push_bit k (w :: 'a::len word)) = unat w * 2 ^ k mod 2 ^ LENGTH('a)"
  by (simp add: unsigned_push_bit_eq take_bit_eq_mod [where ?'a = nat] push_bit_eq_mult [where ?'a = nat])

lemma unat_drop_bit: "unat (drop_bit k (w :: 'a::len word)) = unat w div 2 ^ k"
  by (simp add: unat_drop_bit_eq drop_bit_eq_div [where ?'a = nat])

lemma unat_or_push_drop:
  assumes "0 < k" "k < LENGTH('a)"
  shows "unat (push_bit k (w :: 'a::len word) OR drop_bit (LENGTH('a) - k) w) = unat w * 2 ^ k mod 2 ^ LENGTH('a) + unat w div 2 ^ (LENGTH('a) - k)"
proof -
  have "unat (push_bit k w OR drop_bit (LENGTH('a) - k) w) = unat (push_bit k w) OR unat (drop_bit (LENGTH('a) - k) w)"
    by (simp add: unsigned_or_eq)
  also have "\<dots> = unat (push_bit k w) + unat (drop_bit (LENGTH('a) - k) w)"
    using assms by (intro disjunctive_add [symmetric]) (auto simp: bit_unsigned_iff bit_push_bit_iff bit_drop_bit_eq dest: bit_imp_le_length)
  finally show ?thesis by (simp add: unat_push_bit unat_drop_bit)
qed

lemma sint_signed_min: "sint (signed_min :: 'a::len word) = - (2 ^ (LENGTH('a) - 1))"
proof -
  have "(2::nat) ^ LENGTH('a) = 2 * 2 ^ (LENGTH('a) - 1)" by (metis power_Suc Suc_diff_1 len_gt_0)
  then have "unat (signed_min :: 'a word) = 2 ^ (LENGTH('a) - 1)" unfolding signed_min_def unat_push_bit by simp
  moreover have "(2::int) ^ LENGTH('a) = 2 * 2 ^ (LENGTH('a) - 1)" by (metis power_Suc Suc_diff_1 len_gt_0)
  ultimately show ?thesis by (simp add: sint_signed_int signed_int_def)
qed

lemma sint_inject: "sint a = sint b \<longleftrightarrow> a = (b :: 'a::len word)"
  by (auto intro: signed_word_eqI)

lemma sint_0_iff: "sint (b :: 'a::len word) = 0 \<longleftrightarrow> b = 0"
  by (metis sint_0 sint_inject)

lemma sint_bounds: "- (2 ^ (LENGTH('a) - 1)) \<le> sint (a :: 'a::len word)" "sint a < 2 ^ (LENGTH('a) - 1)"
  using sint_ge [of a] sint_lt [of a] by auto

lemma sdiv_max:
  fixes s t M :: int
  assumes "- M \<le> s" "s < M" "t \<noteq> 0" "0 < M"
  shows "s sdiv t = M \<longleftrightarrow> s = - M \<and> t = - 1"
proof
  assume d: "s sdiv t = M"
  have "\<bar>s\<bar> \<le> M" using assms(1,2) by simp
  moreover have "\<bar>s\<bar> div \<bar>t\<bar> \<le> \<bar>s\<bar>" using assms(3) zdiv_mono2 [of "\<bar>s\<bar>" 1 "\<bar>t\<bar>"] by simp
  moreover have "\<bar>s sdiv t\<bar> \<le> \<bar>s\<bar> div \<bar>t\<bar>"
    by (simp add: signed_divide_int_def abs_mult abs_sgn_eq pos_imp_zdiv_nonneg_iff assms(3))
  ultimately have e: "\<bar>s\<bar> = M" "\<bar>s\<bar> div \<bar>t\<bar> = M" using d assms(4) by auto
  then have "s = - M" using assms(2) by auto
  moreover have "\<bar>t\<bar> = 1"
  proof (rule ccontr)
    assume "\<bar>t\<bar> \<noteq> 1"
    then have "\<bar>s\<bar> div \<bar>t\<bar> < \<bar>s\<bar>" using assms(3,4) e(1) by (intro int_div_less_self) auto
    with e show False by simp
  qed
  moreover have "t \<noteq> 1" using d \<open>s = - M\<close> assms(4) by (auto simp: signed_divide_int_def)
  ultimately show "s = - M \<and> t = - 1" by auto
qed (use assms in \<open>auto simp: signed_divide_int_def\<close>)

lemma signed_overflow:
  fixes a b :: "'a::len word"
  assumes "b \<noteq> 0"
  shows "sint a sdiv sint b = 2 ^ (LENGTH('a) - 1) \<longleftrightarrow> a = signed_min \<and> b = - 1"
proof -
  have "sint b \<noteq> 0" using assms by (simp add: sint_0_iff)
  moreover have "sint a = - (2 ^ (LENGTH('a) - 1)) \<longleftrightarrow> a = signed_min" by (metis sint_signed_min sint_inject)
  moreover have "sint b = - 1 \<longleftrightarrow> b = - 1" by (metis sint_n1 sint_inject)
  ultimately show ?thesis using sdiv_max [OF sint_bounds [of a]] by simp
qed

lemma unat_minus: "unat (a - b :: 'a::len word) = (unat a + 2 ^ LENGTH('a) - unat b) mod 2 ^ LENGTH('a)"
proof (cases "unat b \<le> unat a")
  case True
  then have "unat a + 2 ^ LENGTH('a) - unat b = unat a - unat b + 2 ^ LENGTH('a)" by simp
  moreover have "unat a - unat b < 2 ^ LENGTH('a)" using unsigned_less [of a, where ?'a = nat] by linarith
  ultimately show ?thesis using True by (simp only: unat_sub_if' mod_add_self2 mod_less if_True)
next
  case False
  then have "unat a + 2 ^ LENGTH('a) - unat b < 2 ^ LENGTH('a)" using unsigned_less [of b, where ?'a = nat] by linarith
  with False show ?thesis by (simp add: unat_sub_if')
qed

lemma signed_min_twice: "signed_min + 2 ^ (LENGTH('a) - Suc 0) = (0 :: 'a::len word)"
proof -
  have "(2 :: 'a word) ^ (LENGTH('a) - 1) + 2 ^ (LENGTH('a) - 1) = 2 ^ LENGTH('a)" by (metis mult_2 power_Suc Suc_diff_1 len_gt_0)
  then show ?thesis by (simp add: signed_min_def push_bit_eq_mult)
qed

lemma eval_int_binop_spec:
  fixes a b :: "'a::len word"
  assumes "LENGTH('a) = 32 \<or> LENGTH('a) = 64"
  shows "map_sum id unat (eval_int_binop bop a b) = wasm_binop LENGTH('a) bop (unat a) (unat b)"
proof -
  let ?k = "unat b mod LENGTH('a)"
  have k: "?k < LENGTH('a)" by simp
  note sc = shift_count_mod [OF assms, of b] and oc = other_count_eq [OF assms k]
  have zero: "sint b = 0 \<longleftrightarrow> b = 0" "unat b = 0 \<longleftrightarrow> b = 0" by (auto simp: unat_eq_0 sint_0_iff)
  show ?thesis
  proof (cases bop)
    case binop_sub
    then show ?thesis by (simp add: eval_int_binop_def wasm_binop_def unat_minus)
  next
    case binop_shr_s
    have "signed_drop_bit ?k a = word_of_int (sint (signed_drop_bit ?k a))" by simp
    also have "\<dots> = word_of_int (sint a div 2 ^ ?k)" by (simp only: sint_signed_drop_bit_eq drop_bit_eq_div)
    finally have "signed_drop_bit ?k a = word_of_int (sint a div 2 ^ ?k)" .
    with binop_shr_s show ?thesis by (simp add: eval_int_binop_def wasm_binop_def Let_def sc to_int_word sint_signed_int)
  next
    case binop_rotl
    then show ?thesis using unat_or_push_drop [of ?k a] k by (simp add: eval_int_binop_def wasm_binop_def Let_def sc oc)
  next
    case binop_rotr
    then show ?thesis using unat_or_push_drop [of "LENGTH('a) - ?k" a] k
      by (simp add: eval_int_binop_def wasm_binop_def Let_def sc oc add.commute or.commute)
  next
    case binop_div_s
    then show ?thesis using signed_overflow [of b a]
      by (auto simp: eval_int_binop_def wasm_binop_def Let_def to_int_word sint_signed_int [symmetric] zero)
  next
    case binop_rem_s
    then show ?thesis using signed_overflow [of b a] sint_signed_min [where ?'a = 'a]
      by (auto simp: eval_int_binop_def wasm_binop_def Let_def to_int_word sint_signed_int [symmetric] zero minus_sdiv_mult_eq_smod [symmetric] mult.commute signed_min_twice)
  qed (simp_all add: eval_int_binop_def wasm_binop_def Let_def sc unat_word_ariths(1,2) unsigned_and_eq unsigned_or_eq unsigned_xor_eq
      unat_push_bit unat_drop_bit unat_div unat_mod zero)
qed

lemma eval_int_cmp_spec: "eval_int_cmp c (a :: 'a::len word) b = wasm_relop LENGTH('a) c (unat a) (unat b)"
  by (cases c) (auto simp: eval_int_cmp_def sint_signed_int word_less_nat_alt word_le_nat_alt word_unat_eq_iff)

lemma takeWhile_bits:
  assumes "k = length (takeWhile (\<lambda>i. \<not> bit a i) xs)"
  shows "j < k \<Longrightarrow> \<not> bit a (xs ! j)" "k < length xs \<Longrightarrow> bit a (xs ! k)" "k \<le> length xs"
proof -
  show "\<not> bit a (xs ! j)" if "j < k"
    using that assms takeWhile_nth [of j "\<lambda>i. \<not> bit a i" xs] nth_mem [of j "takeWhile (\<lambda>i. \<not> bit a i) xs"] by (auto dest: set_takeWhileD)
  show "k < length xs \<Longrightarrow> bit a (xs ! k)" using assms nth_length_takeWhile [of "\<lambda>i. \<not> bit a i" xs] by auto
  show "k \<le> length xs" using assms by (simp add: length_takeWhile_le)
qed

lemma bit_le: "bit (n::nat) m \<Longrightarrow> 2 ^ m \<le> n"
  by (rule ccontr) (simp add: bit_iff_odd not_le)

lemma countl_zero_spec: "wasm_unop LENGTH('a) unop_clz (unat (a :: 'a::len word)) (countl_zero a)"
proof -
  let ?k = "countl_zero a"
  note t = takeWhile_bits [OF countl_zero_def [of a]]
  have r: "rev [0..<LENGTH('a)] ! j = LENGTH('a) - 1 - j" if "j < LENGTH('a)" for j using that by (simp add: rev_nth)
  have k: "?k \<le> LENGTH('a)" using t(3) by simp
  have "\<not> bit (unat a) i" if "LENGTH('a) - ?k \<le> i" for i
  proof (cases "i < LENGTH('a)")
    case True
    then have "\<not> bit a (rev [0..<LENGTH('a)] ! (LENGTH('a) - 1 - i))" using t(1) [of "LENGTH('a) - 1 - i"] that by simp
    then show ?thesis using True r [of "LENGTH('a) - 1 - i"] by (simp add: bit_unsigned_iff)
  qed (auto simp: bit_unsigned_iff dest: bit_imp_le_length)
  then have "take_bit (LENGTH('a) - ?k) (unat a) = unat a" by (intro bit_eqI) (metis bit_take_bit_iff not_less)
  then have "unat a < 2 ^ (LENGTH('a) - ?k)" by (simp add: take_bit_nat_eq_self_iff)
  moreover have "2 ^ (LENGTH('a) - ?k - 1) \<le> unat a" if "?k < LENGTH('a)"
  proof (rule bit_le)
    have "LENGTH('a) - ?k - 1 = LENGTH('a) - 1 - ?k" by simp
    then show "bit (unat a) (LENGTH('a) - ?k - 1)" using t(2) that r [OF that] by (simp add: bit_unsigned_iff)
  qed
  ultimately show ?thesis using k by simp
qed

lemma countr_zero_spec: "wasm_unop LENGTH('a) unop_ctz (unat (a :: 'a::len word)) (countr_zero a)"
proof -
  let ?k = "countr_zero a"
  note t = takeWhile_bits [OF countr_zero_def [of a]]
  have k: "?k \<le> LENGTH('a)" using t(3) by simp
  have "\<not> bit (unat a) i" if "i < ?k" for i using t(1) [OF that] that k by (simp add: bit_unsigned_iff)
  then have "take_bit ?k (unat a) = 0" by (intro bit_eqI) (auto simp: bit_take_bit_iff)
  moreover have "take_bit (?k + 1) (unat a) \<noteq> 0" if "?k < LENGTH('a)"
  proof
    assume "take_bit (?k + 1) (unat a) = 0"
    then have "\<not> bit (unat a) ?k" by (metis bit_0_eq bit_take_bit_iff bot_apply bot_bool_def less_add_one)
    with t(2) that show False by (simp add: bit_unsigned_iff)
  qed
  ultimately show ?thesis using k by (simp add: take_bit_eq_0_iff)
qed

lemma popcount_spec: "wasm_unop LENGTH('a) unop_popcnt (unat (a :: 'a::len word)) (popcount a)"
  by (simp add: popcount_def length_filter_conv_card bit_unsigned_iff cong: conj_cong)

lemma eval_int_unop_spec:
  assumes "LENGTH('a::len) = 32 \<or> LENGTH('a) = 64"
  shows "wasm_unop LENGTH('a) uop (unat (a :: 'a word)) (unat (eval_int_unop uop a))"
proof -
  have "k < 2 ^ LENGTH('a)" if "k \<le> LENGTH('a)" for k using that less_exp [of "LENGTH('a)"] by linarith
  moreover have "popcount a \<le> LENGTH('a)" unfolding popcount_def using length_filter_le [of "bit a" "[0..<LENGTH('a)]"] by simp
  moreover note countl_zero_spec [of a] countr_zero_spec [of a] popcount_spec [of a]
  ultimately show ?thesis by (cases uop) (simp_all add: eval_int_unop_def unsigned_of_nat take_bit_nat_eq_self)
qed

section \<open>Properties\<close>

text \<open>
  \<^bold>\<open>C14.\<close> The integer instructions of the interpreter: for both widths the kernels of all binary operations return the number that the
  specification defines and trap exactly where it is undefined (division by zero, and the one signed quotient that does not
  fit); those of the unary operations count leading zeros, trailing zeros and ones, with the width for zero; and the
  comparisons order signed and unsigned values.
\<close>

theorem int_instructions_match_spec:
  "map_sum id unat (eval_int_binop bop (a :: u32) b) = wasm_binop 32 bop (unat a) (unat b) \<and>
   map_sum id unat (eval_int_binop bop (c :: u64) d) = wasm_binop 64 bop (unat c) (unat d) \<and>
   wasm_unop 32 uop (unat a) (unat (eval_int_unop uop a)) \<and> wasm_unop 64 uop (unat c) (unat (eval_int_unop uop c)) \<and>
   eval_int_cmp cmp a b = wasm_relop 32 cmp (unat a) (unat b) \<and> eval_int_cmp cmp c d = wasm_relop 64 cmp (unat c) (unat d)"
  using eval_int_binop_spec [of bop a b] eval_int_binop_spec [of bop c d] eval_int_unop_spec [of uop a] eval_int_unop_spec [of uop c]
    eval_int_cmp_spec [of cmp a b] eval_int_cmp_spec [of cmp c d] by simp

end
