(* ===== verification/Wasi_Fd.thy ===== *)
theory Wasi_Fd
  imports Wasi_Path Int_Numeric "HOL-Library.AList"
begin

text \<open>
  The file descriptors of the WASI functions (\<^verbatim>\<open>imported/wasi/wasip1/fd_manager\<close>): a vector of descriptors, a vector
  of the positions in it that are closed, and a map for the descriptors that were moved far beyond the end of the vector. The
  operations of this theory that change the table are \<open>fd_close\<close>, \<open>fd_renumber\<close>, \<open>fd_fdstat_set_rights\<close> and the allocation at the end of \<open>path_open\<close>.
  \<open>sock_accept\<close> allocates a descriptor in the same way; this function, the copies of these functions for 64-bit memories, and the
  code that sets up and restores environments in \<^verbatim>\<open>runtime/lib\<close> are not modelled. Each operation runs while it holds the lock of the table, so that it is one step here; the mutexes of single descriptors, reference
  counts and the closing of native files have no counterpart.

  The table implements a partial map from descriptors to open files.
\<close>

unbundle bit_operations_syntax

section \<open>Descriptors\<close>

record 'h dir_stack_entry_t =
  storage_handle :: 'h
  is_observer :: bool
  entry_name :: "byte list"

datatype 'h wasi_fd_storage_t =
    fd_null
  | fd_file 'h
  | fd_dir "'h dir_stack_entry_t list" \<comment> \<open>the root first\<close>
  | fd_file_observer 'h

text \<open>\<open>None\<close> is the null pointer in \<open>wasi_fd\<close>.\<close>

record 'h wasi_fd_t =
  wasi_fd :: "'h wasi_fd_storage_t option"
  rights_base :: u64
  rights_inherit :: u64
  close_pos :: nat

definition SIZE_MAX :: nat where "SIZE_MAX = 2 ^ 64 - 1"

abbreviation fd_max :: nat where "fd_max \<equiv> 2 ^ 31 - 1"

definition default_wasi_fd_t :: "'h wasi_fd_t" where
  "default_wasi_fd_t = \<lparr>wasi_fd = Some fd_null, rights_base = 0, rights_inherit = 0, close_pos = SIZE_MAX\<rparr>"

text \<open>A descriptor is a signed 32-bit number. The map has its keys in no particular order here.\<close>

record 'h wasm_fd_storage_t =
  opens :: "'h wasi_fd_t list"
  renumber_map :: "(u32 \<times> 'h wasi_fd_t) list"
  closes :: "nat list"
  fd_limit :: nat

datatype fd_exit = fd_terminate

section \<open>Looking up\<close>

text \<open>The beginning of every function with a descriptor: its place in the table, and the descriptor unless it is closed.\<close>

datatype fd_slot = in_opens nat | in_renumber_map u32

definition fd_slot_of :: "u32 \<Rightarrow> 'h wasm_fd_storage_t \<Rightarrow> fd_slot option" where
  "fd_slot_of fd st =
     (if sint fd < 0 then None
      else if length (opens st) \<le> unat fd
      then (case map_of (renumber_map st) fd of Some _ \<Rightarrow> Some (in_renumber_map fd) | None \<Rightarrow> None)
      else Some (in_opens (unat fd)))"

fun slot_fd :: "fd_slot \<Rightarrow> 'h wasm_fd_storage_t \<Rightarrow> 'h wasi_fd_t" where
  "slot_fd (in_opens i) st = opens st ! i"
| "slot_fd (in_renumber_map k) st = the (map_of (renumber_map st) k)"

fun set_slot_fd :: "fd_slot \<Rightarrow> 'h wasi_fd_t \<Rightarrow> 'h wasm_fd_storage_t \<Rightarrow> 'h wasm_fd_storage_t" where
  "set_slot_fd (in_opens i) f st = st\<lparr>opens := (opens st)[i := f]\<rparr>"
| "set_slot_fd (in_renumber_map k) f st = st\<lparr>renumber_map := AList.update k f (renumber_map st)\<rparr>"

definition acquire_fd :: "u32 \<Rightarrow> 'h wasm_fd_storage_t \<Rightarrow> errno_t + fd_slot \<times> 'h wasi_fd_t" where
  "acquire_fd fd st =
     (case fd_slot_of fd st of
        None \<Rightarrow> Inl ebadf
      | Some slot \<Rightarrow> if close_pos (slot_fd slot st) \<noteq> SIZE_MAX then Inl ebadf else Inr (slot, slot_fd slot st))"

section \<open>Operations\<close>

definition fd_close_base :: "u32 \<Rightarrow> 'h wasm_fd_storage_t \<Rightarrow> errno_t \<times> 'h wasm_fd_storage_t" where
  "fd_close_base fd st =
     (if sint fd < 0 then (ebadf, st)
      else if length (opens st) \<le> unat fd
      then (case map_of (renumber_map st) fd of
              Some _ \<Rightarrow> (esuccess, st\<lparr>renumber_map := AList.delete fd (renumber_map st)\<rparr>)
            | None \<Rightarrow> (ebadf, st))
      else
        let pos = unat fd; curr_fd = opens st ! pos in
        if close_pos curr_fd \<noteq> SIZE_MAX then (ebadf, st)
        else
          let closed_fd = curr_fd\<lparr>close_pos := length (closes st), rights_base := 0, rights_inherit := 0\<rparr> in
          if wasi_fd curr_fd = None
          then (eio, st\<lparr>closes := closes st @ [pos], opens := (opens st)[pos := closed_fd]\<rparr>)
          else (esuccess, st\<lparr>closes := closes st @ [pos], opens := (opens st)[pos := closed_fd\<lparr>wasi_fd := None\<rparr>]\<rparr>))"

text \<open>Descriptors of the map that continue the vector are moved into it.\<close>

function normalize_renumber_map :: "'h wasi_fd_t list \<Rightarrow> (u32 \<times> 'h wasi_fd_t) list \<Rightarrow> 'h wasi_fd_t list \<times> (u32 \<times> 'h wasi_fd_t) list" where
  "normalize_renumber_map opens_vec renumber =
     (case map_of renumber (of_nat (length opens_vec)) of
        None \<Rightarrow> (opens_vec, renumber)
      | Some f \<Rightarrow> normalize_renumber_map (opens_vec @ [f]) (AList.delete (of_nat (length opens_vec)) renumber))"
  by pat_completeness auto
termination
  by (relation "measure (\<lambda>(opens_vec, renumber). length renumber)")
    (auto dest!: map_of_SomeD intro!: length_filter_less simp: AList.delete_eq)

declare normalize_renumber_map.simps [simp del]

text \<open>After an element of \<open>closes\<close> was erased, the positions of those behind it are written anew.\<close>

fun fix_close_pos :: "nat list \<Rightarrow> nat \<Rightarrow> 'h wasi_fd_t list \<Rightarrow> (fd_exit, 'h wasi_fd_t list) res" where
  "fix_close_pos [] i opens_vec = Inr opens_vec"
| "fix_close_pos (closed_open_idx # rest) i opens_vec =
     bindE (index_unchecked opens_vec closed_open_idx) (\<lambda>closed_fd.
     fix_close_pos rest (i + 1) (opens_vec[closed_open_idx := closed_fd\<lparr>close_pos := i\<rparr>]))"

definition take_from :: "u32 \<Rightarrow> 'h wasm_fd_storage_t \<Rightarrow> errno_t + 'h wasi_fd_t \<times> 'h wasm_fd_storage_t" where
  "take_from fd_from st =
     (if length (opens st) \<le> unat fd_from
      then (case map_of (renumber_map st) fd_from of
              Some f \<Rightarrow> Inr (f, st\<lparr>renumber_map := AList.delete fd_from (renumber_map st)\<rparr>)
            | None \<Rightarrow> Inl ebadf)
      else
        let pos = unat fd_from; f = opens st ! pos in
        if close_pos f \<noteq> SIZE_MAX then Inl ebadf
        else Inr (f, st\<lparr>opens := (opens st)[pos := default_wasi_fd_t\<lparr>close_pos := length (closes st)\<rparr>], closes := closes st @ [pos]\<rparr>))"

definition put_to :: "u32 \<Rightarrow> 'h wasi_fd_t \<Rightarrow> 'h wasm_fd_storage_t \<Rightarrow> (fd_exit, 'h wasm_fd_storage_t) res" where
  "put_to fd_to f st =
     (if length (opens st) \<le> unat fd_to
      then (case map_of (renumber_map st) fd_to of
              Some _ \<Rightarrow> Inr (st\<lparr>renumber_map := AList.update fd_to f (renumber_map st)\<rparr>)
            | None \<Rightarrow>
                let (opens_vec, renumber) = normalize_renumber_map (opens st) (AList.update fd_to f (renumber_map st)) in
                Inr (st\<lparr>opens := opens_vec, renumber_map := renumber\<rparr>))
      else
        let pos = unat fd_to; erased_pos = close_pos (opens st ! pos) in
        if erased_pos \<noteq> SIZE_MAX
        then
          bindE (index_unchecked (closes st) erased_pos) (\<lambda>_.
          let closes_vec = take erased_pos (closes st) @ drop (erased_pos + 1) (closes st) in
          bindE (fix_close_pos (drop erased_pos closes_vec) erased_pos (opens st)) (\<lambda>opens_vec.
          Inr (st\<lparr>closes := closes_vec, opens := opens_vec[pos := f]\<rparr>)))
        else Inr (st\<lparr>opens := (opens st)[pos := f]\<rparr>))"

definition fd_renumber_base :: "u32 \<Rightarrow> u32 \<Rightarrow> 'h wasm_fd_storage_t \<Rightarrow> (fd_exit, errno_t \<times> 'h wasm_fd_storage_t) res" where
  "fd_renumber_base fd_from fd_to st =
     (if sint fd_from < 0 \<or> sint fd_to < 0 then Inr (ebadf, st)
      else if unat fd_from = unat fd_to
      then
        let valid =
          (if length (opens st) > unat fd_from then close_pos (opens st ! unat fd_from) = SIZE_MAX
           else map_of (renumber_map st) fd_from \<noteq> None) in
        Inr (if valid then esuccess else ebadf, st)
      else
        case take_from fd_from st of
          Inl e \<Rightarrow> Inr (e, st)
        | Inr (f, st1) \<Rightarrow> bindE (put_to fd_to f st1) (\<lambda>st2. Inr (esuccess, st2)))"

definition fd_fdstat_set_rights_base :: "u32 \<Rightarrow> u64 \<Rightarrow> u64 \<Rightarrow> 'h wasm_fd_storage_t \<Rightarrow> errno_t \<times> 'h wasm_fd_storage_t" where
  "fd_fdstat_set_rights_base fd fs_rights_base fs_rights_inheriting st =
     (case acquire_fd fd st of
        Inl e \<Rightarrow> (e, st)
      | Inr (slot, curr_fd) \<Rightarrow>
          if fs_rights_base AND NOT (rights_base curr_fd) \<noteq> 0 then (enotcapable, st)
          else if fs_rights_inheriting AND NOT (rights_inherit curr_fd) \<noteq> 0 then (enotcapable, st)
          else (esuccess, set_slot_fd slot (curr_fd\<lparr>rights_base := fs_rights_base, rights_inherit := fs_rights_inheriting\<rparr>) st))"

text \<open>The end of \<open>path_open\<close>: a closed position is used again, or the vector grows. The checked index terminates the process out of range.\<close>

definition allocate_fd :: "'h wasi_fd_t \<Rightarrow> 'h wasm_fd_storage_t \<Rightarrow> (fd_exit, errno_t \<times> u32 \<times> 'h wasm_fd_storage_t) res" where
  "allocate_fd new_wasi_fd st =
     (if fd_limit st > fd_max then Inr (eio, 0, st)
      else if length (opens st) - length (closes st) + length (renumber_map st) \<ge> fd_limit st then Inr (emfile, 0, st)
      else if closes st \<noteq> []
      then
        let new_fd_pos = last (closes st) in
        bindE (throw_if (length (opens st) \<le> new_fd_pos) fd_terminate) (\<lambda>_.
        Inr (esuccess, of_nat new_fd_pos, st\<lparr>closes := butlast (closes st), opens := (opens st)[new_fd_pos := new_wasi_fd]\<rparr>))
      else if length (opens st) \<ge> fd_max then Inr (emfile, 0, st)
      else
        let (opens_vec, renumber) = normalize_renumber_map (opens st @ [new_wasi_fd]) (renumber_map st) in
        Inr (esuccess, of_nat (length (opens st)), st\<lparr>opens := opens_vec, renumber_map := renumber\<rparr>))"

text \<open>Two tests of the size of a table, against a limit on the cells that are scanned and on the descriptors in use.\<close>

definition fits_allocation_scan_limit :: "nat \<Rightarrow> 'h wasm_fd_storage_t \<Rightarrow> bool" where
  "fits_allocation_scan_limit limit st \<longleftrightarrow>
     (if length (closes st) > length (opens st) \<or> length (opens st) > limit then False
      else
        let remaining = limit - length (opens st) in
        if length (renumber_map st) > remaining then False
        else closes st \<noteq> [] \<or> length (renumber_map st) < remaining)"

definition fits_occupied_slot_limit :: "nat \<Rightarrow> 'h wasm_fd_storage_t \<Rightarrow> bool" where
  "fits_occupied_slot_limit limit st \<longleftrightarrow>
     \<not> length (closes st) > length (opens st) \<and>
     (let dense_occupied = length (opens st) - length (closes st) in
      dense_occupied \<le> limit \<and> length (renumber_map st) \<le> limit - dense_occupied)"

section \<open>The map that the table implements\<close>

definition table_map :: "'h wasi_fd_t list \<Rightarrow> (u32 \<times> 'h wasi_fd_t) list \<Rightarrow> u32 \<rightharpoonup> 'h wasi_fd_t" where
  "table_map opens_vec renumber fd =
     (if sint fd < 0 then None
      else if unat fd < length opens_vec then (if close_pos (opens_vec ! unat fd) = SIZE_MAX then Some (opens_vec ! unat fd) else None)
      else map_of renumber fd)"

definition fd_map :: "'h wasm_fd_storage_t \<Rightarrow> u32 \<rightharpoonup> 'h wasi_fd_t" where
  "fd_map st = table_map (opens st) (renumber_map st)"

definition live_fd :: "'h wasi_fd_t \<Rightarrow> bool" where
  "live_fd f \<longleftrightarrow> close_pos f = SIZE_MAX \<and> wasi_fd f \<noteq> None"

text \<open>The list \<open>closes\<close> and the positions in the closed descriptors point at each other.\<close>

definition closes_ok :: "'h wasi_fd_t list \<Rightarrow> nat list \<Rightarrow> bool" where
  "closes_ok opens_vec closes_vec \<longleftrightarrow>
     (\<forall>i < length closes_vec. closes_vec ! i < length opens_vec \<and> close_pos (opens_vec ! (closes_vec ! i)) = i) \<and>
     (\<forall>j < length opens_vec. live_fd (opens_vec ! j) \<or>
        close_pos (opens_vec ! j) < length closes_vec \<and> closes_vec ! close_pos (opens_vec ! j) = j)"

definition renumber_ok :: "nat \<Rightarrow> (u32 \<times> 'h wasi_fd_t) list \<Rightarrow> bool" where
  "renumber_ok n renumber \<longleftrightarrow> distinct (map fst renumber) \<and> (\<forall>k f. map_of renumber k = Some f \<longrightarrow> 0 \<le> sint k \<and> n \<le> unat k \<and> live_fd f)"

definition fd_inv :: "'h wasm_fd_storage_t \<Rightarrow> bool" where
  "fd_inv st \<longleftrightarrow>
     closes_ok (opens st) (closes st) \<and> renumber_ok (length (opens st)) (renumber_map st) \<and> length (opens st) \<le> 2 ^ 31 \<and>
     map_of (renumber_map st) (of_nat (length (opens st))) = None"

section \<open>Positions of closed descriptors\<close>

lemma sint_nonneg_iff: "0 \<le> sint (k :: u32) \<longleftrightarrow> unat k < 2 ^ 31"
  using unsigned_less [of k, where 'a = nat] unsigned_less [of k, where 'a = int] by (simp add: sint_signed_int signed_int_def)

lemma closes_okD:
  assumes "closes_ok ov cv" "length ov \<le> 2 ^ 31"
  shows "distinct cv" "length cv \<le> length ov" "\<And>i. i < length cv \<Longrightarrow> cv ! i < length ov \<and> close_pos (ov ! (cv ! i)) = i \<and> i \<noteq> SIZE_MAX"
    "\<And>j. j < length ov \<Longrightarrow> close_pos (ov ! j) \<noteq> SIZE_MAX \<Longrightarrow> close_pos (ov ! j) < length cv \<and> cv ! close_pos (ov ! j) = j"
    "\<And>j. j < length ov \<Longrightarrow> close_pos (ov ! j) = SIZE_MAX \<Longrightarrow> live_fd (ov ! j)"
proof -
  have 1: "cv ! i < length ov \<and> close_pos (ov ! (cv ! i)) = i" if "i < length cv" for i using assms(1) that by (auto simp: closes_ok_def)
  show d: "distinct cv" unfolding distinct_conv_nth using 1 by metis
  have "set cv \<subseteq> {..<length ov}" using 1 by (auto simp: in_set_conv_nth)
  then have "card (set cv) \<le> length ov" using card_mono [of "{..<length ov}" "set cv"] by simp
  then show l: "length cv \<le> length ov" using d by (simp add: distinct_card)
  show 3: "cv ! i < length ov \<and> close_pos (ov ! (cv ! i)) = i \<and> i \<noteq> SIZE_MAX" if "i < length cv" for i using 1 that l assms(2) by (auto simp: SIZE_MAX_def)
  show "close_pos (ov ! j) < length cv \<and> cv ! close_pos (ov ! j) = j" if "j < length ov" "close_pos (ov ! j) \<noteq> SIZE_MAX" for j
    using assms(1) that by (auto simp: closes_ok_def live_fd_def)
  show "live_fd (ov ! j)" if "j < length ov" "close_pos (ov ! j) = SIZE_MAX" for j
    using assms(1) that 3 by (auto simp: closes_ok_def)
qed

lemma closes_ok_append: "closes_ok ov cv \<Longrightarrow> live_fd f \<Longrightarrow> closes_ok (ov @ [f]) cv"
  by (auto simp: closes_ok_def nth_append less_Suc_eq)

lemma closes_ok_replace:
  assumes "closes_ok ov cv" "length ov \<le> 2 ^ 31" "pos < length ov" "close_pos (ov ! pos) = SIZE_MAX" "live_fd f"
  shows "closes_ok (ov[pos := f]) cv"
  using assms closes_okD(3) [OF assms(1,2)] by (auto simp: closes_ok_def nth_list_update)

lemma closes_ok_push:
  assumes "closes_ok ov cv" "length ov \<le> 2 ^ 31" "pos < length ov" "close_pos (ov ! pos) = SIZE_MAX" "close_pos f = length cv"
  shows "closes_ok (ov[pos := f]) (cv @ [pos])"
  using assms closes_okD(3) [OF assms(1,2)] by (auto simp: closes_ok_def nth_list_update nth_append less_Suc_eq)

lemma closes_ok_pop:
  assumes "closes_ok ov cv" "length ov \<le> 2 ^ 31" "cv \<noteq> []" "live_fd f"
  shows "last cv < length ov" "close_pos (ov ! last cv) \<noteq> SIZE_MAX" "closes_ok (ov[last cv := f]) (butlast cv)"
proof -
  note c = closes_okD [OF assms(1,2)]
  have l: "last cv = cv ! (length cv - 1)" using assms(3) by (rule last_conv_nth)
  have k: "length cv - 1 < length cv" using assms(3) by simp
  show "last cv < length ov" "close_pos (ov ! last cv) \<noteq> SIZE_MAX" using c(3) [OF k] l by auto
  have ne: "cv ! i \<noteq> last cv" if "i < length cv - 1" for i using c(1) that l by (simp add: nth_eq_iff_index_eq)
  have "close_pos (ov ! j) < length cv - 1" if "j < length ov" "j \<noteq> last cv" "close_pos (ov ! j) \<noteq> SIZE_MAX" for j
    using c(4) [OF that(1,3)] that(2) l by (metis Suc_pred' k less_Suc_eq not_less_zero gr0I)
  note m = this
  show "closes_ok (ov[last cv := f]) (butlast cv)" unfolding closes_ok_def
  proof (intro conjI allI impI)
    fix i assume i: "i < length (butlast cv)"
    then have "cv ! i < length ov" "close_pos (ov ! (cv ! i)) = i" "cv ! i \<noteq> last cv" using c(3) [of i] ne [of i] by auto
    then show "butlast cv ! i < length (ov[last cv := f])" "close_pos (ov[last cv := f] ! (butlast cv ! i)) = i"
      using i by (simp_all add: nth_butlast)
  next
    fix j assume j: "j < length (ov[last cv := f])"
    show "live_fd (ov[last cv := f] ! j) \<or>
        close_pos (ov[last cv := f] ! j) < length (butlast cv) \<and> butlast cv ! close_pos (ov[last cv := f] ! j) = j"
    proof (cases "j = last cv \<or> close_pos (ov ! j) = SIZE_MAX")
      case True
      then show ?thesis using j assms(4) c(5) [of j] by (cases "j = last cv") auto
    next
      case False
      then show ?thesis using j m [of j] c(4) [of j] by (auto simp: nth_butlast)
    qed
  qed
qed

lemma fix_close_pos_eq:
  assumes "distinct cs" "set cs \<subseteq> {..<length ov}"
  shows "\<exists>ov'. fix_close_pos cs i ov = Inr ov' \<and> length ov' = length ov \<and>
     (\<forall>k < length cs. ov' ! (cs ! k) = (ov ! (cs ! k))\<lparr>close_pos := i + k\<rparr>) \<and> (\<forall>j. j \<notin> set cs \<longrightarrow> ov' ! j = ov ! j)"
  using assms
proof (induction cs arbitrary: i ov)
  case (Cons c cs)
  let ?ov = "ov[c := (ov ! c)\<lparr>close_pos := i\<rparr>]"
  from Cons(1) [of ?ov "i + 1"] Cons(2,3) obtain ov' where ov': "fix_close_pos cs (i + 1) ?ov = Inr ov'" "length ov' = length ov"
    "\<forall>k < length cs. ov' ! (cs ! k) = (?ov ! (cs ! k))\<lparr>close_pos := i + 1 + k\<rparr>" "\<forall>j. j \<notin> set cs \<longrightarrow> ov' ! j = ?ov ! j" by auto
  have "ov' ! ((c # cs) ! k) = (ov ! ((c # cs) ! k))\<lparr>close_pos := i + k\<rparr>" if "k < length (c # cs)" for k
  proof (cases k)
    case 0
    then show ?thesis using ov'(4) Cons(2,3) by simp
  next
    case (Suc m)
    then have "cs ! m \<noteq> c" "m < length cs" using Cons(2) that by (auto simp: in_set_conv_nth)
    then show ?thesis using ov'(3) Suc by simp
  qed
  moreover have "ov' ! j = ov ! j" if "j \<notin> set (c # cs)" for j using ov'(4) that by simp
  ultimately show ?case using ov'(1,2) Cons(3) by (auto simp: index_unchecked_def)
qed simp

lemma closes_ok_erase:
  assumes "closes_ok ov cv" "length ov \<le> 2 ^ 31" "pos < length ov" "close_pos (ov ! pos) = e" "e \<noteq> SIZE_MAX" "live_fd f"
    and cv': "cv' = take e cv @ drop (e + 1) cv"
  shows "\<exists>ov'. fix_close_pos (drop e cv') e ov = Inr ov' \<and> length ov' = length ov \<and> closes_ok (ov'[pos := f]) cv' \<and>
     (\<forall>j < length ov. j \<noteq> pos \<longrightarrow> (if close_pos (ov ! j) = SIZE_MAX then ov' ! j = ov ! j else close_pos (ov' ! j) \<noteq> SIZE_MAX))"
proof -
  note c = closes_okD [OF assms(1,2)]
  have e: "e < length cv" "cv ! e = pos" using c(4) [OF assms(3)] assms(4,5) by auto
  have nth: "cv' ! i = (if i < e then cv ! i else cv ! (i + 1))" if "i < length cv - 1" for i
    using that e(1) by (simp add: cv' nth_append)
  have len: "length cv' = length cv - 1" using e(1) by (simp add: cv')
  let ?cs = "drop (e + 1) cv"
  have d: "drop e cv' = ?cs" using e(1) by (simp add: cv')
  have "set ?cs \<subseteq> {..<length ov}" using c(3) by (auto simp: in_set_conv_nth)
  with fix_close_pos_eq [of ?cs ov e] c(1) obtain ov' where ov': "fix_close_pos ?cs e ov = Inr ov'" "length ov' = length ov"
    "\<And>k. k < length cv - (e + 1) \<Longrightarrow> ov' ! (cv ! (e + 1 + k)) = (ov ! (cv ! (e + 1 + k)))\<lparr>close_pos := e + k\<rparr>"
    "\<And>j. j \<notin> set ?cs \<Longrightarrow> ov' ! j = ov ! j" by auto
  have moved: "close_pos (ov' ! (cv ! k)) = k - 1" if "e < k" "k < length cv" for k
    using ov'(3) [of "k - (e + 1)"] that by simp
  have kept: "ov' ! (cv ! k) = ov ! (cv ! k)" if "k < e" for k
  proof -
    have "cv ! k \<notin> set ?cs" using that e(1) c(1) by (auto simp: in_set_conv_nth nth_eq_iff_index_eq)
    then show ?thesis by (rule ov'(4))
  qed
  have open_kept: "ov' ! j = ov ! j" if "j < length ov" "close_pos (ov ! j) = SIZE_MAX" for j
  proof -
    have "j \<notin> set ?cs" using that c(3) by (auto simp: in_set_conv_nth)
    then show ?thesis by (rule ov'(4))
  qed
  have ne: "cv ! k \<noteq> pos" if "k < length cv" "k \<noteq> e" for k using that e c(1) by (metis nth_eq_iff_index_eq)
  have "closes_ok (ov'[pos := f]) cv'" unfolding closes_ok_def
  proof (intro conjI allI impI)
    fix i assume i: "i < length cv'"
    have "cv' ! i < length ov \<and> close_pos (ov' ! (cv' ! i)) = i \<and> cv' ! i \<noteq> pos"
    proof (cases "i < e")
      case True
      then show ?thesis using nth [of i] i len c(3) [of i] kept [of i] ne [of i] by simp
    next
      case False
      then show ?thesis using nth [of i] i len c(3) [of "i + 1"] moved [of "i + 1"] ne [of "i + 1"] by simp
    qed
    then show "cv' ! i < length (ov'[pos := f])" "close_pos (ov'[pos := f] ! (cv' ! i)) = i" using ov'(2) by simp_all
  next
    fix j assume j: "j < length (ov'[pos := f])"
    then have jo: "j < length ov" using ov'(2) by simp
    let ?k = "close_pos (ov ! j)"
    consider (pos) "j = pos" | (live) "j \<noteq> pos" "?k = SIZE_MAX" | (below) "j \<noteq> pos" "?k < e" "cv ! ?k = j"
      | (above) "j \<noteq> pos" "e < ?k" "?k < length cv" "cv ! ?k = j"
      using c(4) [OF jo] e by (metis linorder_less_linear)
    then show "live_fd (ov'[pos := f] ! j) \<or> close_pos (ov'[pos := f] ! j) < length cv' \<and> cv' ! close_pos (ov'[pos := f] ! j) = j"
    proof cases
      case pos
      then show ?thesis using j assms(6) by simp
    next
      case live
      then show ?thesis using c(5) [OF jo] open_kept [OF jo] by simp
    next
      case below
      then have "close_pos (ov' ! j) = ?k" using kept [of ?k] by simp
      moreover have "?k < length cv - 1" using below(2) e(1) by linarith
      ultimately show ?thesis using below nth [of ?k] len by simp
    next
      case above
      then have "close_pos (ov' ! j) = ?k - 1" using moved [of ?k] by simp
      moreover have "?k - 1 < length cv - 1" "\<not> ?k - 1 < e" "?k - 1 + 1 = ?k" using above(2,3) by linarith+
      ultimately show ?thesis using above(1,4) nth [of "?k - 1"] len by simp
    qed
  qed
  moreover have "close_pos (ov' ! j) \<noteq> SIZE_MAX" if "j < length ov" "j \<noteq> pos" "close_pos (ov ! j) \<noteq> SIZE_MAX" for j
  proof -
    from c(4) [OF that(1,3)] obtain k where k: "k < length cv" "cv ! k = j" "close_pos (ov ! j) = k" by blast
    moreover have "k \<noteq> e" using k e that(2) by auto
    ultimately show ?thesis using kept [of k] moved [of k] that(3) c(2) assms(2) by (cases "k < e") (auto simp: SIZE_MAX_def)
  qed
  ultimately show ?thesis using ov'(1,2) open_kept unfolding d by auto
qed

section \<open>The descriptors that were moved\<close>

lemma unat_of_nat_fd: "n \<le> 2 ^ 31 \<Longrightarrow> unat (of_nat n :: u32) = n"
  by (simp add: unsigned_of_nat take_bit_nat_eq_self)

lemma renumber_okD:
  assumes "renumber_ok n rn" "map_of rn k = Some f"
  shows "0 \<le> sint k" "n \<le> unat k" "live_fd f" "unat k < 2 ^ 31"
proof -
  show *: "0 \<le> sint k" "n \<le> unat k" "live_fd f" using assms by (auto simp: renumber_ok_def)
  show "unat k < 2 ^ 31" using *(1) by (simp only: sint_nonneg_iff)
qed

lemma renumber_ok_keys: "renumber_ok n rn \<Longrightarrow> k \<in> fst ` set rn \<Longrightarrow> n \<le> unat k"
  using map_of_eq_None_iff [of rn k] renumber_okD(2) [of n rn k] by auto

lemma renumber_ok_delete: "renumber_ok n rn \<Longrightarrow> renumber_ok n (AList.delete k rn)"
  by (auto simp: renumber_ok_def distinct_delete delete_conv' split: if_splits)

lemma renumber_ok_update: "renumber_ok n rn \<Longrightarrow> 0 \<le> sint k \<Longrightarrow> n \<le> unat k \<Longrightarrow> live_fd f \<Longrightarrow> renumber_ok n (AList.update k f rn)"
  by (auto simp: renumber_ok_def distinct_update update_conv' split: if_splits)

lemma length_delete: "distinct (map fst rn) \<Longrightarrow> length (AList.delete k rn) = (if map_of rn k = None then length rn else length rn - 1)"
proof (induction rn)
  case (Cons p rn)
  have "map_of rn (fst p) = None" using Cons(2) by (simp add: map_of_eq_None_iff)
  moreover have "map_of rn k \<noteq> None \<Longrightarrow> length rn \<noteq> 0" by (cases rn) auto
  ultimately show ?case using Cons by (cases p) auto
qed simp

lemma length_update: "length (AList.update k f rn) = (if map_of rn k = None then length rn + 1 else length rn)"
  by (induction rn) auto

text \<open>The vector grows and the map shrinks, and together they describe the same descriptors.\<close>

lemma normalize_renumber_map_ok:
  assumes "normalize_renumber_map ov rn = (ov', rn')" "closes_ok ov cv" "renumber_ok (length ov) rn" "length ov \<le> 2 ^ 31"
  shows "closes_ok ov' cv \<and> renumber_ok (length ov') rn' \<and> length ov' \<le> 2 ^ 31 \<and> map_of rn' (of_nat (length ov')) = None \<and>
     table_map ov' rn' = table_map ov rn \<and> length ov' + length rn' = length ov + length rn"
  using assms
proof (induction ov rn rule: normalize_renumber_map.induct)
  case (1 ov rn)
  let ?k = "of_nat (length ov) :: u32"
  show ?case
  proof (cases "map_of rn ?k")
    case None
    then show ?thesis using 1(2-) by (auto simp: normalize_renumber_map.simps [of ov rn])
  next
    case (Some f)
    have k: "unat ?k = length ov" using 1(5) by (rule unat_of_nat_fd)
    note f = renumber_okD [OF 1(4) Some]
    let ?ov = "ov @ [f]" and ?rn = "AList.delete ?k rn"
    have "length ov \<noteq> unat q" if "q \<noteq> ?k" for q :: u32 using that k by (metis unsigned_word_eqI)
    then have "renumber_ok (length ?ov) ?rn"
      using 1(4) by (auto simp: renumber_ok_def distinct_delete delete_conv' Suc_le_eq le_neq_implies_less split: if_splits)
    moreover have "table_map ?ov ?rn q = table_map ov rn q" for q
    proof (cases "q = ?k")
      case True
      then show ?thesis using Some f k by (simp add: table_map_def live_fd_def)
    next
      case False
      then have "unat q \<noteq> length ov" using k by (metis unsigned_word_eqI)
      then show ?thesis using False by (auto simp: table_map_def delete_conv' nth_append)
    qed
    then have "table_map ?ov ?rn = table_map ov rn" ..
    moreover have "length ?rn + 1 = length rn"
      using 1(4) Some length_delete [of rn ?k] by (cases rn) (auto simp: renumber_ok_def)
    moreover have "normalize_renumber_map ?ov ?rn = (ov', rn')" using 1(2) Some by (simp add: normalize_renumber_map.simps [of ov rn])
    ultimately show ?thesis using 1(1) [OF Some] closes_ok_append [OF 1(3) f(3)] f(4) k by simp
  qed
qed

section \<open>The operations on the map\<close>

lemma fd_invD:
  assumes "fd_inv st"
  shows "closes_ok (opens st) (closes st)" "length (opens st) \<le> 2 ^ 31" "renumber_ok (length (opens st)) (renumber_map st)"
    "\<And>k f. map_of (renumber_map st) k = Some f \<Longrightarrow> unat k \<noteq> length (opens st)"
proof -
  show *: "closes_ok (opens st) (closes st)" "length (opens st) \<le> 2 ^ 31" "renumber_ok (length (opens st)) (renumber_map st)"
    using assms by (auto simp: fd_inv_def)
  show "unat k \<noteq> length (opens st)" if "map_of (renumber_map st) k = Some f" for k f
  proof
    assume "unat k = length (opens st)"
    then have "k = of_nat (length (opens st))" using *(2) by (metis unsigned_word_eqI unat_of_nat_fd)
    then show False using that assms by (simp add: fd_inv_def)
  qed
qed

lemma fd_inv_delete: "fd_inv st \<Longrightarrow> fd_inv (st\<lparr>renumber_map := AList.delete k (renumber_map st)\<rparr>)"
  by (auto simp: fd_inv_def renumber_ok_delete delete_conv')

lemma live_fd_map: "fd_inv st \<Longrightarrow> fd_map st fd = Some f \<Longrightarrow> live_fd f"
  using closes_okD(5) [of "opens st" "closes st" "unat fd"] renumber_okD(3) [of _ "renumber_map st" fd]
  by (auto simp: fd_map_def table_map_def fd_inv_def split: if_splits)

lemma fd_map_outside:
  "length (opens st) \<le> unat fd \<Longrightarrow> 0 \<le> sint fd \<Longrightarrow> fd_map st fd = map_of (renumber_map st) fd"
  by (simp add: fd_map_def table_map_def)

lemma table_map_update:
  assumes "pos < length ov" "unat fd = pos" "0 \<le> sint fd"
  shows "table_map (ov[pos := f]) rn = (table_map ov rn)(fd := if close_pos f = SIZE_MAX then Some f else None)"
proof
  fix q
  show "table_map (ov[pos := f]) rn q = ((table_map ov rn)(fd := if close_pos f = SIZE_MAX then Some f else None)) q"
  proof (cases "q = fd")
    case False
    then have "unat q \<noteq> pos" using assms(2) by (metis unsigned_word_eqI)
    then show ?thesis using False by (simp add: table_map_def)
  qed (use assms in \<open>simp add: table_map_def\<close>)
qed

lemma table_map_renumber:
  assumes "length ov \<le> unat fd" "0 \<le> sint fd"
  shows "table_map ov (AList.delete fd rn) = (table_map ov rn)(fd := None)"
    "table_map ov (AList.update fd f rn) = (table_map ov rn)(fd \<mapsto> f)"
  using assms by (auto simp: table_map_def delete_conv' update_conv' fun_eq_iff)

lemma fd_close_base_ok:
  assumes "fd_inv st"
  shows "\<exists>st'. fd_close_base fd st = (if fd_map st fd = None then ebadf else esuccess, st') \<and> fd_inv st' \<and>
     fd_map st' = (fd_map st)(fd := None) \<and> fd_limit st' = fd_limit st"
proof -
  note inv = fd_invD [OF assms]
  consider (negative) "sint fd < 0" | (far) "0 \<le> sint fd" "length (opens st) \<le> unat fd"
    | (closed) "0 \<le> sint fd" "unat fd < length (opens st)" "close_pos (opens st ! unat fd) \<noteq> SIZE_MAX"
    | (live) "0 \<le> sint fd" "unat fd < length (opens st)" "close_pos (opens st ! unat fd) = SIZE_MAX" by linarith
  then show ?thesis
  proof cases
    case negative
    then show ?thesis using assms by (auto simp: fd_close_base_def fd_map_def table_map_def fun_eq_iff)
  next
    case far
    show ?thesis
    proof (cases "map_of (renumber_map st) fd")
      case None
      then show ?thesis using far assms by (auto simp: fd_close_base_def fd_map_def table_map_def fun_eq_iff)
    next
      case (Some f)
      then show ?thesis using far fd_inv_delete [OF assms, of fd] table_map_renumber(1) [OF far(2,1)]
        by (simp add: fd_close_base_def fd_map_outside) (simp add: fd_map_def)
    qed
  next
    case closed
    then show ?thesis using assms by (auto simp: fd_close_base_def fd_map_def table_map_def Let_def fun_eq_iff)
  next
    case live
    let ?pos = "unat fd" and ?n = "length (closes st)"
    define f where "f = (opens st ! ?pos)\<lparr>close_pos := ?n, rights_base := 0, rights_inherit := 0, wasi_fd := None\<rparr>"
    have n: "?n \<noteq> SIZE_MAX" using closes_okD(2) [OF inv(1,2)] inv(2) by (auto simp: SIZE_MAX_def)
    have "wasi_fd (opens st ! ?pos) \<noteq> None" using closes_okD(5) [OF inv(1,2) live(2,3)] by (simp add: live_fd_def)
    then have "fd_close_base fd st = (esuccess, st\<lparr>closes := closes st @ [?pos], opens := (opens st)[?pos := f]\<rparr>)"
      using live by (simp add: fd_close_base_def f_def Let_def)
    moreover have "closes_ok ((opens st)[?pos := f]) (closes st @ [?pos])"
      using closes_ok_push [OF inv(1,2) live(2,3)] by (simp add: f_def)
    moreover have "table_map ((opens st)[?pos := f]) (renumber_map st) = (fd_map st)(fd := None)"
      using table_map_update [OF live(2) refl live(1), of f] n by (simp add: f_def fd_map_def)
    ultimately show ?thesis using assms live by (auto simp: fd_inv_def fd_map_def table_map_def)
  qed
qed

lemma take_from_ok:
  assumes "fd_inv st" "0 \<le> sint fd"
  shows "case fd_map st fd of
     None \<Rightarrow> take_from fd st = Inl ebadf
   | Some f \<Rightarrow> \<exists>st'. take_from fd st = Inr (f, st') \<and> fd_inv st' \<and> fd_map st' = (fd_map st)(fd := None) \<and> fd_limit st' = fd_limit st"
proof (cases "length (opens st) \<le> unat fd")
  case True
  show ?thesis
  proof (cases "map_of (renumber_map st) fd")
    case None
    then show ?thesis using True fd_map_outside [OF True assms(2)] by (simp add: take_from_def)
  next
    case (Some f)
    have "fd_map (st\<lparr>renumber_map := AList.delete fd (renumber_map st)\<rparr>) = (fd_map st)(fd := None)"
      using table_map_renumber(1) [OF True assms(2)] by (simp add: fd_map_def)
    then show ?thesis using Some True fd_map_outside [OF True assms(2)] fd_inv_delete [OF assms(1), of fd] by (simp add: take_from_def)
  qed
next
  case False
  note inv = fd_invD [OF assms(1)]
  let ?pos = "unat fd" and ?n = "length (closes st)"
  have pos: "?pos < length (opens st)" using False by simp
  show ?thesis
  proof (cases "close_pos (opens st ! ?pos) = SIZE_MAX")
    case True
    let ?f = "(default_wasi_fd_t :: 'a wasi_fd_t)\<lparr>close_pos := ?n\<rparr>"
    have n: "?n \<noteq> SIZE_MAX" using closes_okD(2) [OF inv(1,2)] inv(2) by (auto simp: SIZE_MAX_def)
    have "closes_ok ((opens st)[?pos := ?f]) (closes st @ [?pos])" using closes_ok_push [OF inv(1,2) pos True] by simp
    moreover have "table_map ((opens st)[?pos := ?f]) (renumber_map st) = (fd_map st)(fd := None)"
      using table_map_update [OF pos refl assms(2), of ?f] n by (simp add: fd_map_def)
    ultimately show ?thesis using assms True pos False by (auto simp: take_from_def fd_inv_def fd_map_def table_map_def Let_def)
  next
    case closed: False
    then show ?thesis using assms pos by (auto simp: take_from_def fd_map_def table_map_def Let_def)
  qed
qed

lemma put_to_far:
  assumes "fd_inv st" "0 \<le> sint fd" "length (opens st) \<le> unat fd" "live_fd f"
  shows "\<exists>st'. put_to fd f st = Inr st' \<and> fd_inv st' \<and> fd_map st' = (fd_map st)(fd \<mapsto> f) \<and> fd_limit st' = fd_limit st"
proof -
  note inv = fd_invD [OF assms(1)]
  let ?rn = "AList.update fd f (renumber_map st)"
  have rn: "renumber_ok (length (opens st)) ?rn" using renumber_ok_update [OF inv(3) assms(2,3,4)] .
  have tm: "table_map (opens st) ?rn = (fd_map st)(fd \<mapsto> f)" using table_map_renumber(2) [OF assms(3,2)] by (simp add: fd_map_def)
  show ?thesis
  proof (cases "map_of (renumber_map st) fd")
    case None
    obtain ov rn' where n: "normalize_renumber_map (opens st) ?rn = (ov, rn')" by fastforce
    from normalize_renumber_map_ok [OF n inv(1) rn inv(2)] None n assms(3) tm show ?thesis
      by (simp add: put_to_def fd_inv_def fd_map_def)
  next
    case (Some g)
    then have "fd \<noteq> of_nat (length (opens st))" using assms(1) by (auto simp: fd_inv_def)
    then show ?thesis using Some assms(1,3) rn tm by (simp add: put_to_def fd_inv_def fd_map_def update_conv')
  qed
qed

lemma put_to_near:
  assumes "fd_inv st" "0 \<le> sint fd" "unat fd < length (opens st)" "live_fd f"
  shows "\<exists>st'. put_to fd f st = Inr st' \<and> fd_inv st' \<and> fd_map st' = (fd_map st)(fd \<mapsto> f) \<and> fd_limit st' = fd_limit st"
proof -
  note inv = fd_invD [OF assms(1)]
  let ?pos = "unat fd" and ?e = "close_pos (opens st ! unat fd)"
  have live: "close_pos f = SIZE_MAX" using assms(4) by (simp add: live_fd_def)
  show ?thesis
  proof (cases "?e = SIZE_MAX")
    case True
    have "closes_ok ((opens st)[?pos := f]) (closes st)" using closes_ok_replace [OF inv(1,2) assms(3) True assms(4)] .
    moreover have "table_map ((opens st)[?pos := f]) (renumber_map st) = (fd_map st)(fd \<mapsto> f)"
      using table_map_update [OF assms(3) refl assms(2), of f] live by (simp add: fd_map_def)
    ultimately show ?thesis using assms(1,3) True by (auto simp: put_to_def fd_inv_def fd_map_def Let_def)
  next
    case False
    let ?cv = "take ?e (closes st) @ drop (?e + 1) (closes st)"
    from closes_ok_erase [OF inv(1,2) assms(3) refl False assms(4) refl] obtain ov where
      ov: "fix_close_pos (drop ?e ?cv) ?e (opens st) = Inr ov" "length ov = length (opens st)" "closes_ok (ov[?pos := f]) ?cv"
        "\<And>j. j < length (opens st) \<Longrightarrow> j \<noteq> ?pos \<Longrightarrow>
           (if close_pos (opens st ! j) = SIZE_MAX then ov ! j = opens st ! j else close_pos (ov ! j) \<noteq> SIZE_MAX)" by blast
    have e: "?e < length (closes st)" using closes_okD(4) [OF inv(1,2) assms(3) False] by simp
    have "table_map (ov[?pos := f]) (renumber_map st) q = ((fd_map st)(fd \<mapsto> f)) q" for q
    proof (cases "q = fd")
      case True
      then show ?thesis using assms(2,3) ov(2) live by (simp add: table_map_def)
    next
      case False
      then have "unat q \<noteq> ?pos" by (metis unsigned_word_eqI)
      then show ?thesis using False ov(2) ov(4) [of "unat q"] by (simp add: table_map_def fd_map_def split: if_splits)
    qed
    then have "table_map (ov[?pos := f]) (renumber_map st) = (fd_map st)(fd \<mapsto> f)" ..
    then show ?thesis using assms(1,3) False e ov(1-3) by (auto simp: put_to_def fd_inv_def fd_map_def index_unchecked_def Let_def)
  qed
qed

lemmas put_to_ok = put_to_far put_to_near

lemma fd_renumber_base_ok:
  assumes "fd_inv st"
  shows "\<exists>st'. fd_renumber_base fd_from fd_to st = Inr (if fd_map st fd_from = None \<or> sint fd_to < 0 then ebadf else esuccess, st') \<and>
     fd_inv st' \<and> fd_limit st' = fd_limit st \<and>
     fd_map st' = (if fd_map st fd_from = None \<or> sint fd_to < 0 \<or> fd_from = fd_to then fd_map st
                   else (fd_map st)(fd_from := None, fd_to := fd_map st fd_from))"
proof -
  consider (negative) "sint fd_from < 0 \<or> sint fd_to < 0" | (same) "0 \<le> sint fd_from" "0 \<le> sint fd_to" "fd_from = fd_to"
    | (move) "0 \<le> sint fd_from" "0 \<le> sint fd_to" "fd_from \<noteq> fd_to" by linarith
  then show ?thesis
  proof cases
    case negative
    then show ?thesis using assms by (auto simp: fd_renumber_base_def fd_map_def table_map_def)
  next
    case same
    then show ?thesis using assms by (auto simp: fd_renumber_base_def fd_map_def table_map_def Let_def)
  next
    case move
    then have ne: "unat fd_from \<noteq> unat fd_to" by (metis unsigned_word_eqI)
    show ?thesis
    proof (cases "fd_map st fd_from")
      case None
      then show ?thesis using take_from_ok [OF assms move(1)] move ne assms by (simp add: fd_renumber_base_def)
    next
      case (Some f)
      with take_from_ok [OF assms move(1)] obtain st1 where
        st1: "take_from fd_from st = Inr (f, st1)" "fd_inv st1" "fd_map st1 = (fd_map st)(fd_from := None)" "fd_limit st1 = fd_limit st" by auto
      obtain st2 where "put_to fd_to f st1 = Inr st2" "fd_inv st2" "fd_map st2 = (fd_map st1)(fd_to \<mapsto> f)" "fd_limit st2 = fd_limit st1"
        using put_to_ok [OF st1(2) move(2) _ live_fd_map [OF assms Some]] by (meson linorder_not_less)
      then show ?thesis using st1 move ne Some by (simp add: fd_renumber_base_def res_simps)
    qed
  qed
qed

lemma acquire_fd_eq:
  assumes "fd_inv st"
  shows "acquire_fd fd st =
     (case fd_map st fd of None \<Rightarrow> Inl ebadf
      | Some f \<Rightarrow> Inr (if unat fd < length (opens st) then in_opens (unat fd) else in_renumber_map fd, f))"
proof -
  have "close_pos f = SIZE_MAX" if "map_of (renumber_map st) fd = Some f" for f
    using renumber_okD(3) [OF fd_invD(3) [OF assms] that] by (simp add: live_fd_def)
  then show ?thesis by (auto simp: acquire_fd_def fd_slot_of_def fd_map_def table_map_def split: option.split)
qed

lemma set_slot_fd_ok:
  assumes "fd_inv st" "acquire_fd fd st = Inr (slot, f)" "live_fd g"
  shows "fd_inv (set_slot_fd slot g st) \<and> fd_map (set_slot_fd slot g st) = (fd_map st)(fd \<mapsto> g) \<and> fd_limit (set_slot_fd slot g st) = fd_limit st"
proof -
  note inv = fd_invD [OF assms(1)]
  have live: "close_pos g = SIZE_MAX" using assms(3) by (simp add: live_fd_def)
  have m: "fd_map st fd = Some f" and slot: "slot = (if unat fd < length (opens st) then in_opens (unat fd) else in_renumber_map fd)"
    using assms(2) acquire_fd_eq [OF assms(1), of fd] by (auto split: option.splits)
  have nn: "0 \<le> sint fd" using m by (auto simp: fd_map_def table_map_def split: if_splits)
  show ?thesis
  proof (cases "unat fd < length (opens st)")
    case True
    then have "close_pos (opens st ! unat fd) = SIZE_MAX" using m nn by (auto simp: fd_map_def table_map_def split: if_splits)
    from closes_ok_replace [OF inv(1,2) True this assms(3)] table_map_update [OF True refl nn, of g "renumber_map st"] live show ?thesis
      using slot True assms(1) by (simp add: fd_inv_def fd_map_def)
  next
    case False
    then have far: "length (opens st) \<le> unat fd" by simp
    have "map_of (renumber_map st) fd = Some f" using m far nn by (simp add: fd_map_outside)
    then have "fd \<noteq> of_nat (length (opens st))" using assms(1) by (auto simp: fd_inv_def)
    then show ?thesis
      using slot False assms(1) renumber_ok_update [OF inv(3) nn far assms(3)] table_map_renumber(2) [OF far nn]
      by (simp add: fd_inv_def fd_map_def update_conv')
  qed
qed

text \<open>The number of occupied places is the number of open descriptors.\<close>

lemma dom_fd_map:
  assumes "fd_inv st"
  shows "dom (fd_map st) = of_nat ` ({..<length (opens st)} - set (closes st)) \<union> fst ` set (renumber_map st)"
proof -
  note inv = fd_invD [OF assms]
  note c = closes_okD [OF inv(1,2)]
  have near: "fd_map st (of_nat j) \<noteq> None \<longleftrightarrow> j \<notin> set (closes st)" if "j < length (opens st)" for j
  proof -
    have u: "unat (of_nat j :: u32) = j" using that inv(2) by (simp add: unat_of_nat_fd)
    then have "0 \<le> sint (of_nat j :: u32)" using that inv(2) by (simp add: sint_nonneg_iff)
    then have "fd_map st (of_nat j) \<noteq> None \<longleftrightarrow> close_pos (opens st ! j) = SIZE_MAX" using u that by (simp add: fd_map_def table_map_def)
    also have "\<dots> \<longleftrightarrow> j \<notin> set (closes st)" using c(3,4) that by (metis in_set_conv_nth)
    finally show ?thesis .
  qed
  have "fd \<in> dom (fd_map st) \<longleftrightarrow> fd \<in> of_nat ` ({..<length (opens st)} - set (closes st)) \<union> fst ` set (renumber_map st)" for fd
  proof (cases "unat fd < length (opens st)")
    case True
    have "of_nat (unat fd) = fd" by simp
    moreover have "fd \<notin> fst ` set (renumber_map st)" using renumber_ok_keys [OF inv(3), of fd] True by auto
    moreover have "fd \<in> of_nat ` ({..<length (opens st)} - set (closes st)) \<longleftrightarrow> unat fd \<notin> set (closes st)"
      using True inv(2) by (force simp: image_iff unat_of_nat_fd)
    ultimately show ?thesis using near [OF True] by (metis Un_iff domIff)
  next
    case False
    have "fd \<notin> of_nat ` ({..<length (opens st)} - set (closes st))" using False inv(2) by (auto simp: unat_of_nat_fd)
    moreover have "fd_map st fd = map_of (renumber_map st) fd"
      using False renumber_okD(1) [OF inv(3), of fd] by (cases "map_of (renumber_map st) fd") (auto simp: fd_map_def table_map_def)
    ultimately show ?thesis by (simp add: domIff map_of_eq_None_iff)
  qed
  then show ?thesis by blast
qed

lemma card_fd_map:
  assumes "fd_inv st"
  shows "card (dom (fd_map st)) = length (opens st) - length (closes st) + length (renumber_map st)"
proof -
  note inv = fd_invD [OF assms]
  note c = closes_okD [OF inv(1,2)]
  let ?A = "{..<length (opens st)} - set (closes st)"
  have "inj_on (of_nat :: nat \<Rightarrow> u32) ?A" using inv(2) by (auto intro!: inj_onI dest!: arg_cong [where f = unat] simp: unat_of_nat_fd)
  moreover have "set (closes st) \<subseteq> {..<length (opens st)}" using c(3) by (auto simp: in_set_conv_nth)
  ultimately have "card (of_nat ` ?A :: u32 set) = length (opens st) - length (closes st)"
    using c(1) by (simp add: card_image card_Diff_subset distinct_card)
  moreover have "card (fst ` set (renumber_map st)) = length (renumber_map st)"
    using inv(3) distinct_card [of "map fst (renumber_map st)"] by (simp add: renumber_ok_def)
  moreover have "of_nat ` ?A \<inter> fst ` set (renumber_map st) = {}"
    using inv(2) renumber_ok_keys [OF inv(3)] by (force simp: unat_of_nat_fd)
  ultimately show ?thesis unfolding dom_fd_map [OF assms] by (simp add: card_Un_disjoint)
qed

lemma fits_occupied_slot_limit_iff: "fd_inv st \<Longrightarrow> fits_occupied_slot_limit limit st \<longleftrightarrow> card (dom (fd_map st)) \<le> limit"
  using closes_okD(2) [of "opens st" "closes st"] fd_invD(1,2) [of st] card_fd_map [of st] by (auto simp: fits_occupied_slot_limit_def Let_def)

lemma renumber_ok_append: "fd_inv st \<Longrightarrow> renumber_ok (length (opens st @ [f])) (renumber_map st)"
  using fd_invD(3,4) [of st] by (fastforce simp: renumber_ok_def Suc_le_eq le_neq_implies_less)

text \<open>The first test is the one for an allocation: the cells of the table, closed or not, stay within the limit.\<close>

lemma allocate_fd_scan_limit:
  assumes "fd_inv st" "live_fd f" "fits_allocation_scan_limit limit st" "allocate_fd f st = Inr (e, fd, st')"
  shows "length (opens st') + length (renumber_map st') \<le> limit"
proof -
  have l: "length (opens st) + length (renumber_map st) + of_bool (closes st = []) \<le> limit"
    using assms(3) by (auto simp: fits_allocation_scan_limit_def Let_def split: if_splits)
  obtain ov rn where norm: "normalize_renumber_map (opens st @ [f]) (renumber_map st) = (ov, rn)" by fastforce
  have "length ov + length rn = Suc (length (opens st) + length (renumber_map st))" if "length (opens st) < fd_max"
    using normalize_renumber_map_ok [OF norm closes_ok_append [OF fd_invD(1) [OF assms(1)] assms(2)] renumber_ok_append [OF assms(1)]] that
    by simp
  then show ?thesis
    using l assms(4) norm by (auto simp: allocate_fd_def bindE_eq_Inr Let_def split: if_splits)
qed

lemma allocate_fd_ok:
  assumes "fd_inv st" "live_fd f"
  shows "if fd_limit st > fd_max then allocate_fd f st = Inr (eio, 0, st)
     else if card (dom (fd_map st)) \<ge> fd_limit st then allocate_fd f st = Inr (emfile, 0, st)
     else \<exists>fd st'. allocate_fd f st = Inr (esuccess, fd, st') \<and> 0 \<le> sint fd \<and> fd_map st fd = None \<and>
       fd_inv st' \<and> fd_map st' = (fd_map st)(fd \<mapsto> f) \<and> fd_limit st' = fd_limit st"
proof -
  note inv = fd_invD [OF assms(1)] and card = card_fd_map [OF assms(1)]
  have live: "close_pos f = SIZE_MAX" using assms(2) by (simp add: live_fd_def)
  let ?ok = "\<lambda>fd st'. 0 \<le> sint fd \<and> fd_map st fd = None \<and> fd_inv st' \<and> fd_map st' = (fd_map st)(fd \<mapsto> f) \<and> fd_limit st' = fd_limit st"
  have "\<exists>fd st'. allocate_fd f st = Inr (esuccess, fd, st') \<and> ?ok fd st'" if room: "\<not> fd_limit st > fd_max" "card (dom (fd_map st)) < fd_limit st"
  proof (cases "closes st = []")
    case False
    let ?pos = "last (closes st)" and ?fd = "of_nat (last (closes st)) :: u32"
    let ?st = "st\<lparr>closes := butlast (closes st), opens := (opens st)[?pos := f]\<rparr>"
    note pop = closes_ok_pop [OF inv(1,2) False assms(2)]
    have u: "unat ?fd = ?pos" using pop(1) inv(2) by (simp add: unat_of_nat_fd)
    then have nn: "0 \<le> sint ?fd" using pop(1) inv(2) by (simp add: sint_nonneg_iff)
    have "allocate_fd f st = Inr (esuccess, ?fd, ?st)" using room card False pop(1) by (simp add: allocate_fd_def throw_if_def Let_def)
    moreover have "table_map ((opens st)[?pos := f]) (renumber_map st) = (fd_map st)(?fd \<mapsto> f)"
      using table_map_update [OF pop(1) u nn, of f] live by (simp add: fd_map_def)
    then have "?ok ?fd ?st" using nn u pop assms(1) by (simp add: fd_inv_def fd_map_def table_map_def)
    ultimately show ?thesis by blast
  next
    case True
    let ?n = "length (opens st)"
    let ?fd = "of_nat ?n :: u32"
    have n: "?n < fd_max" using room card True by simp
    have u: "unat ?fd = ?n" using inv(2) by (rule unat_of_nat_fd)
    have nn: "0 \<le> sint ?fd" using n by (simp add: sint_nonneg_iff u)
    obtain ov rn where norm: "normalize_renumber_map (opens st @ [f]) (renumber_map st) = (ov, rn)" by fastforce
    let ?st = "st\<lparr>opens := ov, renumber_map := rn\<rparr>"
    have "allocate_fd f st = Inr (esuccess, ?fd, ?st)" using room card True n norm by (simp add: allocate_fd_def Let_def)
    moreover from normalize_renumber_map_ok [OF norm closes_ok_append [OF inv(1) assms(2)] renumber_ok_append [OF assms(1)]] n have "fd_inv ?st"
      "fd_map ?st = table_map (opens st @ [f]) (renumber_map st)" by (simp_all add: fd_inv_def fd_map_def)
    moreover have "table_map (opens st @ [f]) (renumber_map st) q = ((fd_map st)(?fd \<mapsto> f)) q" for q
    proof (cases "q = ?fd")
      case False
      then have "unat q \<noteq> ?n" using u by (metis unsigned_word_eqI)
      then show ?thesis using False by (auto simp: table_map_def fd_map_def nth_append)
    qed (use u nn live in \<open>simp add: table_map_def\<close>)
    then have "table_map (opens st @ [f]) (renumber_map st) = (fd_map st)(?fd \<mapsto> f)" ..
    moreover have "fd_map st ?fd = None" using assms(1) u nn by (simp add: fd_map_def table_map_def fd_inv_def)
    ultimately show ?thesis using nn by auto
  qed
  then show ?thesis using card by (auto simp: allocate_fd_def)
qed

lemma fd_fdstat_set_rights_base_ok:
  assumes "fd_inv st"
  shows "case fd_map st fd of
     None \<Rightarrow> fd_fdstat_set_rights_base fd b i st = (ebadf, st)
   | Some f \<Rightarrow>
       if b AND NOT (rights_base f) \<noteq> 0 \<or> i AND NOT (rights_inherit f) \<noteq> 0 then fd_fdstat_set_rights_base fd b i st = (enotcapable, st)
       else \<exists>st'. fd_fdstat_set_rights_base fd b i st = (esuccess, st') \<and> fd_inv st' \<and>
         fd_map st' = (fd_map st)(fd \<mapsto> f\<lparr>rights_base := b, rights_inherit := i\<rparr>) \<and> fd_limit st' = fd_limit st"
proof (cases "fd_map st fd")
  case None
  then show ?thesis by (simp add: fd_fdstat_set_rights_base_def acquire_fd_eq [OF assms])
next
  case (Some f)
  then obtain slot where a: "acquire_fd fd st = Inr (slot, f)" by (simp add: acquire_fd_eq [OF assms])
  have "live_fd (f\<lparr>rights_base := b, rights_inherit := i\<rparr>)" using live_fd_map [OF assms Some] by (simp add: live_fd_def)
  from set_slot_fd_ok [OF assms a this] show ?thesis using Some by (auto simp: fd_fdstat_set_rights_base_def a)
qed

section \<open>The table as a map\<close>

text \<open>The operations, as a program may call them in any order; opening a file is the allocation of its descriptor.\<close>

datatype 'h fd_op = op_close u32 | op_renumber u32 u32 | op_set_rights u32 u64 u64 | op_open "'h wasi_fd_t"

fun fd_step :: "'h fd_op \<Rightarrow> 'h wasm_fd_storage_t \<Rightarrow> (fd_exit, (errno_t \<times> u32) \<times> 'h wasm_fd_storage_t) res" where
  "fd_step (op_close fd) st = (case fd_close_base fd st of (e, st') \<Rightarrow> Inr ((e, 0), st'))"
| "fd_step (op_renumber fd_from fd_to) st = bindE (fd_renumber_base fd_from fd_to st) (\<lambda>(e, st'). Inr ((e, 0), st'))"
| "fd_step (op_set_rights fd b i) st = (case fd_fdstat_set_rights_base fd b i st of (e, st') \<Rightarrow> Inr ((e, 0), st'))"
| "fd_step (op_open f) st = bindE (allocate_fd f st) (\<lambda>(e, fd, st'). Inr ((e, fd), st'))"

text \<open>What they mean for a partial map with at most \<open>limit\<close> entries.\<close>

inductive map_op :: "nat \<Rightarrow> 'h fd_op \<Rightarrow> (u32 \<rightharpoonup> 'h wasi_fd_t) \<Rightarrow> errno_t \<times> u32 \<Rightarrow> (u32 \<rightharpoonup> 'h wasi_fd_t) \<Rightarrow> bool" for limit where
  map_close: "m fd \<noteq> None \<Longrightarrow> map_op limit (op_close fd) m (esuccess, 0) (m(fd := None))"
| map_close_bad: "m fd = None \<Longrightarrow> map_op limit (op_close fd) m (ebadf, 0) m"
| map_renumber: "m a = Some f \<Longrightarrow> 0 \<le> sint b \<Longrightarrow> map_op limit (op_renumber a b) m (esuccess, 0) (m(a := None, b \<mapsto> f))"
| map_renumber_bad: "m a = None \<or> sint b < 0 \<Longrightarrow> map_op limit (op_renumber a b) m (ebadf, 0) m"
| map_rights: "m fd = Some f \<Longrightarrow> b AND NOT (rights_base f) = 0 \<Longrightarrow> i AND NOT (rights_inherit f) = 0 \<Longrightarrow>
     map_op limit (op_set_rights fd b i) m (esuccess, 0) (m(fd \<mapsto> f\<lparr>rights_base := b, rights_inherit := i\<rparr>))"
| map_rights_excess: "m fd = Some f \<Longrightarrow> b AND NOT (rights_base f) \<noteq> 0 \<or> i AND NOT (rights_inherit f) \<noteq> 0 \<Longrightarrow>
     map_op limit (op_set_rights fd b i) m (enotcapable, 0) m"
| map_rights_bad: "m fd = None \<Longrightarrow> map_op limit (op_set_rights fd b i) m (ebadf, 0) m"
| map_open: "limit \<le> fd_max \<Longrightarrow> card (dom m) < limit \<Longrightarrow> 0 \<le> sint fd \<Longrightarrow> m fd = None \<Longrightarrow>
     map_op limit (op_open f) m (esuccess, fd) (m(fd \<mapsto> f))"
| map_open_full: "limit \<le> fd_max \<Longrightarrow> limit \<le> card (dom m) \<Longrightarrow> map_op limit (op_open f) m (emfile, 0) m"
| map_open_limit: "fd_max < limit \<Longrightarrow> map_op limit (op_open f) m (eio, 0) m"

inductive_cases map_opE: "map_op limit op m r m'"

text \<open>A sequence of operations, on a table and as a specification.\<close>

primrec run_all :: "('op \<Rightarrow> 's \<Rightarrow> ('e, 'r \<times> 's) res) \<Rightarrow> 'op list \<Rightarrow> 's \<Rightarrow> ('e, 'r list \<times> 's) res" where
  "run_all step [] s = Inr ([], s)"
| "run_all step (op # ops) s = bindE (step op s) (\<lambda>(r, s1). bindE (run_all step ops s1) (\<lambda>(rs, s2). Inr (r # rs, s2)))"

inductive spec_run :: "('op \<Rightarrow> 'm \<Rightarrow> 'r \<Rightarrow> 'm \<Rightarrow> bool) \<Rightarrow> 'op list \<Rightarrow> 'm \<Rightarrow> 'r list \<Rightarrow> 'm \<Rightarrow> bool" for spec where
  spec_run_done: "spec_run spec [] m [] m"
| spec_run_step: "spec op m r m1 \<Longrightarrow> spec_run spec ops m1 rs m2 \<Longrightarrow> spec_run spec (op # ops) m (r # rs) m2"

text \<open>An implementation with an invariant whose every step does, on the abstract value, what the specification allows.\<close>

locale implements_spec =
  fixes step :: "'op \<Rightarrow> 's \<Rightarrow> ('e, 'r \<times> 's) res" and inv :: "'s \<Rightarrow> bool" and abs :: "'s \<Rightarrow> 'm"
    and spec :: "'op \<Rightarrow> 'm \<Rightarrow> 'r \<Rightarrow> 'm \<Rightarrow> bool" and admissible :: "'op \<Rightarrow> bool"
  assumes step_refines: "inv s \<Longrightarrow> admissible op \<Longrightarrow> \<exists>r s'. step op s = Inr (r, s') \<and> inv s' \<and> spec op (abs s) r (abs s')"
begin

lemma run_refines:
  "inv s \<Longrightarrow> list_all admissible ops \<Longrightarrow> \<exists>rs s'. run_all step ops s = Inr (rs, s') \<and> inv s' \<and> spec_run spec ops (abs s) rs (abs s')"
proof (induction ops arbitrary: s)
  case Nil
  then show ?case by (auto intro: spec_run_done)
next
  case (Cons op ops)
  then obtain r s1 where 1: "step op s = Inr (r, s1)" "inv s1" "spec op (abs s) r (abs s1)" using step_refines [of s op] by auto
  with Cons obtain rs s2 where "run_all step ops s1 = Inr (rs, s2)" "inv s2" "spec_run spec ops (abs s1) rs (abs s2)" by (metis list.pred_inject(2))
  with 1 show ?case by (auto simp: res_simps intro: spec_run_step)
qed

end

definition fd_inv_limit :: "nat \<Rightarrow> 'h wasm_fd_storage_t \<Rightarrow> bool" where
  "fd_inv_limit limit st \<longleftrightarrow> fd_inv st \<and> fd_limit st = limit"

fun opens_live :: "'h fd_op \<Rightarrow> bool" where
  "opens_live (op_open f) \<longleftrightarrow> live_fd f"
| "opens_live _ \<longleftrightarrow> True"

lemma fd_step_refines:
  assumes "fd_inv st" "opens_live op"
  shows "\<exists>r st'. fd_step op st = Inr (r, st') \<and> fd_inv st' \<and> fd_limit st' = fd_limit st \<and> map_op (fd_limit st) op (fd_map st) r (fd_map st')"
proof (cases op)
  case (op_close fd)
  obtain st' where "fd_close_base fd st = (if fd_map st fd = None then ebadf else esuccess, st')" "fd_inv st'"
    "fd_map st' = (fd_map st)(fd := None)" "fd_limit st' = fd_limit st" using fd_close_base_ok [OF assms(1)] by blast
  then show ?thesis using op_close map_close [of "fd_map st" fd] map_close_bad [of "fd_map st" fd]
    by (cases "fd_map st fd") (simp_all add: fun_upd_idem)
next
  case (op_renumber a b)
  from fd_renumber_base_ok [OF assms(1), of a b] show ?thesis
    using op_renumber map_renumber [of "fd_map st" a _ b] map_renumber_bad [of "fd_map st" a b]
    by (cases "fd_map st a") (auto simp: res_simps fun_upd_idem split: if_splits)
next
  case (op_set_rights fd b i)
  from fd_fdstat_set_rights_base_ok [OF assms(1), of fd b i] show ?thesis
    using op_set_rights assms(1) by (cases "fd_map st fd") (auto split: if_splits intro: map_op.intros)
next
  case (op_open f)
  then have "live_fd f" using assms(2) by simp
  from allocate_fd_ok [OF assms(1) this] show ?thesis
    using op_open assms(1) map_open [of "fd_limit st" "fd_map st" _ f] map_open_full [of "fd_limit st" "fd_map st" f]
      map_open_limit [of "fd_limit st" f "fd_map st"]
    by (auto simp: res_simps not_less not_le split: if_splits)
qed

interpretation descriptors: implements_spec fd_step "fd_inv_limit limit" fd_map "map_op limit" opens_live
  for limit :: nat
  by unfold_locales (use fd_step_refines in \<open>fastforce simp: fd_inv_limit_def\<close>)

section \<open>Properties\<close>

text \<open>
  \<^bold>\<open>C9.\<close> The descriptor table implements a partial map: under its invariant, every sequence of closing, renumbering, restricting rights and opening
  runs to its end without an access out of range, keeps the invariant, and gives the results and the map that the
  specification \<open>map_op\<close> gives, whichever places of the vector are reused, and whether a descriptor is in the vector or in the map
  behind it: a closed descriptor is refused, renumbering moves a file and closes the one it replaces, rights only shrink, a new
  descriptor is one that was free, and there are never more open ones than the limit allows.
\<close>

theorem fd_table_refines_map:
  assumes "fd_inv st" and "list_all opens_live ops"
  shows "\<exists>rs st'. run_all fd_step ops st = Inr (rs, st') \<and> fd_inv st' \<and> spec_run (map_op (fd_limit st)) ops (fd_map st) rs (fd_map st')"
  using descriptors.run_refines [of "fd_limit st" st ops] assms by (auto simp: fd_inv_limit_def)

lemma not_SIZE_MAX: "n < 2 ^ 31 \<Longrightarrow> n \<noteq> SIZE_MAX"
  by (simp add: SIZE_MAX_def)

text \<open>Two open descriptors: the second is moved far behind the vector, its place is reused, and the file is moved back.\<close>

definition example_fd :: "nat \<Rightarrow> u64 \<Rightarrow> nat wasi_fd_t" where
  "example_fd h rights = \<lparr>wasi_fd = Some (fd_file h), rights_base = rights, rights_inherit = rights, close_pos = SIZE_MAX\<rparr>"

definition example_fds :: "nat wasm_fd_storage_t" where
  "example_fds = \<lparr>opens = [example_fd 10 3, example_fd 11 7], renumber_map = [], closes = [], fd_limit = 3\<rparr>"

definition example_ops :: "nat fd_op list" where
  "example_ops =
     [op_renumber 1 5, op_close 1, op_open (example_fd 12 1), op_set_rights 5 15 0, op_set_rights 5 5 4, op_open (example_fd 13 0),
      op_open (example_fd 14 0), op_renumber 5 0, op_close 5]"

theorem fd_table_refines_map_witness:
  "run_all fd_step example_ops example_fds =
     Inr ([(esuccess, 0), (ebadf, 0), (esuccess, 1), (enotcapable, 0), (esuccess, 0), (emfile, 0), (emfile, 0), (esuccess, 0), (ebadf, 0)],
       \<lparr>opens = [example_fd 11 7\<lparr>rights_base := 5, rights_inherit := 4\<rparr>, example_fd 12 1], renumber_map = [], closes = [], fd_limit = 3\<rparr>) \<and>
   (\<exists>rs st'. run_all fd_step example_ops example_fds = Inr (rs, st') \<and> fd_inv st' \<and>
      spec_run (map_op 3) example_ops (fd_map example_fds) rs (fd_map st'))"
proof
  show "run_all fd_step example_ops example_fds =
     Inr ([(esuccess, 0), (ebadf, 0), (esuccess, 1), (enotcapable, 0), (esuccess, 0), (emfile, 0), (emfile, 0), (esuccess, 0), (ebadf, 0)],
       \<lparr>opens = [example_fd 11 7\<lparr>rights_base := 5, rights_inherit := 4\<rparr>, example_fd 12 1], renumber_map = [], closes = [], fd_limit = 3\<rparr>)"
    by (simp add: example_ops_def example_fds_def example_fd_def fd_close_base_def fd_renumber_base_def take_from_def put_to_def
        fd_fdstat_set_rights_base_def acquire_fd_def fd_slot_of_def allocate_fd_def default_wasi_fd_t_def normalize_renumber_map.simps
        index_unchecked_def throw_if_def not_SIZE_MAX Let_def)
  have "fd_inv example_fds"
    by (auto simp: fd_inv_def closes_ok_def renumber_ok_def example_fds_def example_fd_def live_fd_def less_Suc_eq)
  moreover have "list_all opens_live example_ops" by (simp add: example_ops_def example_fd_def live_fd_def)
  ultimately show "\<exists>rs st'. run_all fd_step example_ops example_fds = Inr (rs, st') \<and> fd_inv st' \<and>
      spec_run (map_op 3) example_ops (fd_map example_fds) rs (fd_map st')"
    using fd_table_refines_map [of example_fds example_ops] by (simp add: example_fds_def)
qed

end
