(* ===== verification/Linear_Memory.thy ===== *)
theory Linear_Memory
  imports Int_Numeric
begin

text \<open>
  Linear memories on a heap block: \<open>basic_single_thread_allocator_memory_t\<close> of
  \<^verbatim>\<open>object/memory/linear/single_thread_allocator.h\<close>. The allocator is a template parameter of the class and a
  record of functions here; what the class relies on is \<open>allocator_ok\<close>. A pointer to a block is the bytes of the block, and the null
  pointer is \<open>None\<close>. The lengths are 64-bit words, as \<open>size_t\<close> is, and may wrap.
\<close>

section \<open>Allocators\<close>

text \<open>The result \<open>None\<close> says that the host has no memory left.\<close>

record allocator =
  has_reallocate_aligned_zero :: bool
  has_reallocate_aligned :: bool
  allocate_aligned_zero :: "u64 \<Rightarrow> byte list option"
  reallocate_aligned :: "byte list \<Rightarrow> u64 \<Rightarrow> byte list option"
  reallocate_aligned_zero :: "byte list \<Rightarrow> u64 \<Rightarrow> byte list option"

text \<open>
  The documented behaviour: a new block is zero, a block that is enlarged keeps its bytes, and the bytes behind
  them are unspecified or, with \<open>reallocate_aligned_zero\<close>, zero.
\<close>

definition allocator_ok :: "allocator \<Rightarrow> bool" where
  "allocator_ok a \<longleftrightarrow>
     (\<forall>n t. allocate_aligned_zero a n = Some t \<longrightarrow> t = replicate (unat n) 0) \<and>
     (\<forall>p n t. length p \<le> unat n \<longrightarrow> reallocate_aligned a p n = Some t \<longrightarrow> length t = unat n \<and> take (length p) t = p) \<and>
     (\<forall>p n t. length p \<le> unat n \<longrightarrow> reallocate_aligned_zero a p n = Some t \<longrightarrow> t = p @ replicate (unat n - length p) 0)"

section \<open>The class\<close>

datatype memory_exit = fast_terminate | trap_and_inform_bug_pos

abbreviation size_max :: u64 where
  "size_max \<equiv> - 1"

record single_thread_allocator_memory_t =
  memory_begin :: "byte list option"
  memory_length :: u64
  custom_page_size_log2 :: nat
  diagnostic_owner_memory_index :: u64

definition default_memory :: single_thread_allocator_memory_t where
  "default_memory = \<lparr>memory_begin = None, memory_length = 0, custom_page_size_log2 = 16, diagnostic_owner_memory_index = 0\<rparr>"

definition custom_page_memory :: "u64 \<Rightarrow> (memory_exit, single_thread_allocator_memory_t) res" where
  "custom_page_memory custom_page_size =
     bindE (throw_if (popcount custom_page_size \<noteq> 1) fast_terminate) (\<lambda>_.
     Inr \<lparr>memory_begin = None, memory_length = 0, custom_page_size_log2 = countr_zero custom_page_size,
          diagnostic_owner_memory_index = 0\<rparr>)"

definition get_page_size :: "single_thread_allocator_memory_t \<Rightarrow> u64" where
  "get_page_size m = drop_bit (custom_page_size_log2 m) (memory_length m)"

definition init_by_page_count ::
    "allocator \<Rightarrow> u64 \<Rightarrow> u64 \<Rightarrow> single_thread_allocator_memory_t \<Rightarrow> (memory_exit, single_thread_allocator_memory_t) res" where
  "init_by_page_count a init_page_count memory_index m =
     bindE (throw_if (init_page_count > drop_bit (custom_page_size_log2 m) size_max) fast_terminate) (\<lambda>_.
     if memory_begin m = None then
       let len = push_bit (custom_page_size_log2 m) init_page_count in
       case allocate_aligned_zero a len of
         None \<Rightarrow> Inl (Throw fast_terminate)
       | Some temp_memory_begin \<Rightarrow>
           Inr (m\<lparr>memory_begin := Some temp_memory_begin, memory_length := len, diagnostic_owner_memory_index := memory_index\<rparr>)
     else Inr m)"

text \<open>The three ways of enlarging a block, chosen by what the allocator offers.\<close>

definition enlarged_block :: "allocator \<Rightarrow> byte list \<Rightarrow> u64 \<Rightarrow> u64 \<Rightarrow> u64 \<Rightarrow> byte list option" where
  "enlarged_block a block curr_memory_length memory_grow_size new_memory_length =
     (if has_reallocate_aligned_zero a then reallocate_aligned_zero a block new_memory_length
      else if has_reallocate_aligned a then
        map_option (\<lambda>t. take (unat curr_memory_length) t @ replicate (unat memory_grow_size) 0 @
            drop (unat curr_memory_length + unat memory_grow_size) t)
          (reallocate_aligned a block new_memory_length)
      else
        map_option (\<lambda>t. take (unat curr_memory_length) block @ drop (unat curr_memory_length) t)
          (allocate_aligned_zero a new_memory_length))"

text \<open>
  Growing returns whether it succeeded, the value of \<^verbatim>\<open>*old_page_size_out\<close> if it was written, and the memory. The
  allocator terminates the process when \<open>try_grow_silently\<close> finds no memory, and returns null to
  \<open>grow_strictly\<close>.
\<close>

definition try_grow_silently ::
    "allocator \<Rightarrow> u64 \<Rightarrow> u64 \<Rightarrow> single_thread_allocator_memory_t \<Rightarrow>
      (memory_exit, bool \<times> u64 option \<times> single_thread_allocator_memory_t) res" where
  "try_grow_silently a page_grow_size max_limit_memory_length m =
     (if page_grow_size = 0 then Inr (True, Some (get_page_size m), m)
      else case memory_begin m of
        None \<Rightarrow> Inl (Throw trap_and_inform_bug_pos)
      | Some block \<Rightarrow>
          if page_grow_size > drop_bit (custom_page_size_log2 m) size_max then Inr (False, None, m)
          else
            let memory_grow_size = push_bit (custom_page_size_log2 m) page_grow_size;
                curr_memory_length = memory_length m;
                old = drop_bit (custom_page_size_log2 m) curr_memory_length in
            if max_limit_memory_length < curr_memory_length then Inr (False, Some old, m)
            else if memory_grow_size > max_limit_memory_length - curr_memory_length then Inr (False, Some old, m)
            else
              let new_memory_length = curr_memory_length + memory_grow_size in
              case enlarged_block a block curr_memory_length memory_grow_size new_memory_length of
                None \<Rightarrow> Inl (Throw fast_terminate)
              | Some temp_memory_begin \<Rightarrow>
                  Inr (True, Some old, m\<lparr>memory_begin := Some temp_memory_begin, memory_length := new_memory_length\<rparr>))"

definition grow_silently ::
    "allocator \<Rightarrow> u64 \<Rightarrow> u64 \<Rightarrow> single_thread_allocator_memory_t \<Rightarrow> (memory_exit, single_thread_allocator_memory_t) res" where
  "grow_silently a page_grow_size max_limit_memory_length m =
     bindE (try_grow_silently a page_grow_size max_limit_memory_length m) (\<lambda>(ok, _, m').
     bindE (throw_if (\<not> ok) fast_terminate) (\<lambda>_. Inr m'))"

definition grow_strictly ::
    "allocator \<Rightarrow> u64 \<Rightarrow> u64 \<Rightarrow> single_thread_allocator_memory_t \<Rightarrow>
      (memory_exit, bool \<times> u64 option \<times> single_thread_allocator_memory_t) res" where
  "grow_strictly a page_grow_size max_limit_memory_length m =
     (if page_grow_size = 0 then Inr (True, Some (get_page_size m), m)
      else case memory_begin m of
        None \<Rightarrow> Inl (Throw trap_and_inform_bug_pos)
      | Some block \<Rightarrow>
          if page_grow_size > drop_bit (custom_page_size_log2 m) size_max then Inr (False, None, m)
          else
            let memory_grow_size = push_bit (custom_page_size_log2 m) page_grow_size;
                curr_memory_length = memory_length m;
                old = drop_bit (custom_page_size_log2 m) curr_memory_length in
            if max_limit_memory_length < curr_memory_length then Inr (False, Some old, m)
            else if memory_grow_size > max_limit_memory_length - curr_memory_length then Inr (False, Some old, m)
            else
              let new_memory_length = curr_memory_length + memory_grow_size in
              case enlarged_block a block curr_memory_length memory_grow_size new_memory_length of
                None \<Rightarrow> Inr (False, Some old, m)
              | Some temp_memory_begin \<Rightarrow>
                  Inr (True, Some old, m\<lparr>memory_begin := Some temp_memory_begin, memory_length := new_memory_length\<rparr>))"

definition clear :: "single_thread_allocator_memory_t \<Rightarrow> single_thread_allocator_memory_t" where
  "clear m = m\<lparr>memory_begin := None, memory_length := 0, diagnostic_owner_memory_index := 0\<rparr>"

definition clear_destroy :: "single_thread_allocator_memory_t \<Rightarrow> single_thread_allocator_memory_t" where
  "clear_destroy m = m\<lparr>memory_begin := None, memory_length := 0, custom_page_size_log2 := 0, diagnostic_owner_memory_index := 0\<rparr>"

text \<open>The new object and what is left of the one it was moved from.\<close>

definition move_construct ::
    "single_thread_allocator_memory_t \<Rightarrow> single_thread_allocator_memory_t \<times> single_thread_allocator_memory_t" where
  "move_construct other =
     (other, other\<lparr>memory_begin := None, memory_length := 0, custom_page_size_log2 := 0, diagnostic_owner_memory_index := 0\<rparr>)"

text \<open>\<^verbatim>\<open>operator=\<close> of the class; \<open>same_object\<close> says whether both operands are one object.\<close>

definition move_assign ::
    "bool \<Rightarrow> single_thread_allocator_memory_t \<Rightarrow> single_thread_allocator_memory_t \<Rightarrow>
      single_thread_allocator_memory_t \<times> single_thread_allocator_memory_t" where
  "move_assign same_object this other =
     (if same_object then (this, other)
      else
        ((clear_destroy this)\<lparr>memory_begin := memory_begin other, memory_length := memory_length other,
           custom_page_size_log2 := custom_page_size_log2 other,
           diagnostic_owner_memory_index := diagnostic_owner_memory_index other\<rparr>,
         other\<lparr>memory_begin := None, memory_length := 0, custom_page_size_log2 := 0, diagnostic_owner_memory_index := 0\<rparr>))"

section \<open>The invariant\<close>

text \<open>A memory that holds the bytes \<open>b\<close>: whole pages, and a length field that tells the truth.\<close>

definition memory_holds :: "single_thread_allocator_memory_t \<Rightarrow> byte list \<Rightarrow> bool" where
  "memory_holds m b \<longleftrightarrow>
     memory_begin m = Some b \<and> length b = unat (memory_length m) \<and> custom_page_size_log2 m < 64 \<and>
     2 ^ custom_page_size_log2 m dvd length b"

definition page_bytes :: "single_thread_allocator_memory_t \<Rightarrow> nat" where
  "page_bytes m = 2 ^ custom_page_size_log2 m"

definition grown :: "single_thread_allocator_memory_t \<Rightarrow> nat \<Rightarrow> single_thread_allocator_memory_t" where
  "grown m n = m\<lparr>memory_begin := map_option (\<lambda>b. b @ replicate n 0) (memory_begin m), memory_length := memory_length m + of_nat n\<rparr>"

definition host_can_grow :: "allocator \<Rightarrow> single_thread_allocator_memory_t \<Rightarrow> u64 \<Rightarrow> bool" where
  "host_can_grow a m pages \<longleftrightarrow>
     (let g = push_bit (custom_page_size_log2 m) pages in
      enlarged_block a (the (memory_begin m)) (memory_length m) g (memory_length m + g) \<noteq> None)"

lemma unat_shift_fits:
  assumes "k < 64" "unat (d :: u64) * 2 ^ k < 2 ^ 64"
  shows "unat (push_bit k d) = unat d * 2 ^ k"
  using assms by (simp add: unsigned_push_bit_eq push_bit_eq_mult [where ?'a = nat] take_bit_nat_eq_self)

lemma unat_page: "k < 64 \<Longrightarrow> unat (push_bit k 1 :: u64) = 2 ^ k" "k < 64 \<Longrightarrow> unat (2 ^ k :: u64) = 2 ^ k"
  using unat_shift_fits [of k 1] power_strict_increasing [of k 64 "2 :: nat"] by simp_all

lemma shift_fits_iff:
  assumes "k < 64"
  shows "drop_bit k size_max < d \<longleftrightarrow> 2 ^ 64 \<le> unat (d :: u64) * 2 ^ k"
proof -
  have "drop_bit k size_max < d \<longleftrightarrow> (2 ^ 64 - 1) div 2 ^ k < unat d"
    unfolding word_less_nat_alt unat_drop_bit_eq drop_bit_eq_div [where ?'a = nat]
    by (simp add: unsigned_minus_1_eq_mask mask_eq_exp_minus_1)
  also have "\<dots> \<longleftrightarrow> (2 ^ 64 - 1) < unat d * 2 ^ k"
    by (metis div_less_iff_less_mult zero_less_numeral zero_less_power)
  also have "\<dots> \<longleftrightarrow> 2 ^ 64 \<le> unat d * 2 ^ k" by auto
  finally show ?thesis .
qed

lemma enlarged_block_Some:
  assumes "allocator_ok a" "length b = unat c" "unat c + unat g < 2 ^ 64" "enlarged_block a b c g (c + g) = Some t"
  shows "t = b @ replicate (unat g) 0"
proof -
  have n: "unat (c + g) = unat c + unat g" using assms(3) by (simp add: unat_word_ariths(1))
  consider (zero) "has_reallocate_aligned_zero a" | (plain) "\<not> has_reallocate_aligned_zero a" "has_reallocate_aligned a"
    | (copy) "\<not> has_reallocate_aligned_zero a" "\<not> has_reallocate_aligned a" by blast
  then show ?thesis
  proof cases
    case zero
    then have "reallocate_aligned_zero a b (c + g) = Some t" using assms(4) by (simp add: enlarged_block_def)
    with assms(1,2) n show ?thesis unfolding allocator_ok_def by (metis add_diff_cancel_left' le_add1)
  next
    case plain
    then obtain u where u: "reallocate_aligned a b (c + g) = Some u" "t = take (unat c) u @ replicate (unat g) 0 @ drop (unat c + unat g) u"
      using assms(4) by (auto simp: enlarged_block_def)
    with assms(1,2) n have "length u = unat c + unat g" "take (length b) u = b" unfolding allocator_ok_def by (metis le_add1)+
    with u(2) assms(2) show ?thesis by simp
  next
    case copy
    then obtain u where u: "allocate_aligned_zero a (c + g) = Some u" "t = take (unat c) b @ drop (unat c) u"
      using assms(4) by (auto simp: enlarged_block_def)
    with assms(1) n have "u = replicate (unat c + unat g) 0" unfolding allocator_ok_def by metis
    with u(2) assms(2) show ?thesis by simp
  qed
qed

lemma memory_holds_pages:
  assumes "memory_holds m b"
  shows "length b = unat (get_page_size m) * page_bytes m"
  using assms by (auto simp: memory_holds_def get_page_size_def page_bytes_def unat_drop_bit_eq drop_bit_eq_div [where ?'a = nat])

lemma grown_holds:
  assumes "memory_holds m b" "length b + n < 2 ^ 64" "page_bytes m dvd n"
  shows "memory_holds (grown m n) (b @ replicate n 0)"
proof -
  have "unat (of_nat n :: u64) = n" using assms(2) by (simp add: unsigned_of_nat take_bit_nat_eq_self)
  then have "unat (memory_length m + of_nat n) = length b + n" using assms by (simp add: unat_word_ariths(1) memory_holds_def)
  then show ?thesis using assms by (auto simp: memory_holds_def grown_def page_bytes_def intro!: dvd_add)
qed

lemma grow_arithmetic:
  assumes "memory_holds m b" "unat d * page_bytes m < 2 ^ 64"
  shows "L < memory_length m \<or> push_bit (custom_page_size_log2 m) d > L - memory_length m \<longleftrightarrow> unat L < length b + unat d * page_bytes m"
proof (cases "L < memory_length m")
  case False
  then have "unat (L - memory_length m) = unat L - unat (memory_length m)" by (simp add: unat_sub not_less)
  moreover have "unat (push_bit (custom_page_size_log2 m) d) = unat d * page_bytes m"
    using assms unat_shift_fits by (simp add: memory_holds_def page_bytes_def)
  ultimately show ?thesis using False assms by (auto simp: word_less_nat_alt memory_holds_def)
qed (use assms in \<open>simp add: word_less_nat_alt memory_holds_def\<close>)

lemma enlarged_memory:
  assumes "allocator_ok a" "memory_holds m b" "length b + unat d * page_bytes m < 2 ^ 64"
    and "g = push_bit (custom_page_size_log2 m) d" "enlarged_block a b (memory_length m) g (memory_length m + g) = Some t"
  shows "m\<lparr>memory_begin := Some t, memory_length := memory_length m + g\<rparr> = grown m (unat d * page_bytes m)"
proof -
  have g: "unat g = unat d * page_bytes m"
    using assms(2-4) unat_shift_fits [of "custom_page_size_log2 m" d] by (simp add: memory_holds_def page_bytes_def)
  moreover from g have "g = of_nat (unat d * page_bytes m)" by (metis of_nat_unat ucast_id)
  moreover have "t = b @ replicate (unat g) 0"
    using enlarged_block_Some [OF assms(1) _ _ assms(5)] assms(2,3) g by (simp add: memory_holds_def)
  ultimately show ?thesis using assms(2) by (simp add: grown_def memory_holds_def)
qed

section \<open>Growing\<close>

lemma try_grow_silently_eq:
  assumes "allocator_ok a" "memory_holds m b"
  shows "try_grow_silently a d L m =
     (if d = 0 then Inr (True, Some (get_page_size m), m)
      else if unat L < length b + unat d * page_bytes m then
        Inr (False, if 2 ^ 64 \<le> unat d * page_bytes m then None else Some (get_page_size m), m)
      else if host_can_grow a m d then Inr (True, Some (get_page_size m), grown m (unat d * page_bytes m))
      else Inl (Throw fast_terminate))"
proof -
  let ?g = "push_bit (custom_page_size_log2 m) d"
  have k: "custom_page_size_log2 m < 64" and b: "memory_begin m = Some b" using assms(2) by (simp_all add: memory_holds_def)
  have "unat L < 2 ^ LENGTH(64)" by (rule unsigned_less)
  then have L: "unat L < 2 ^ 64" by simp
  show ?thesis
  proof (cases "2 ^ 64 \<le> unat d * page_bytes m")
    case True
    moreover from True have "d \<noteq> 0" by auto
    ultimately show ?thesis using shift_fits_iff [OF k, of d] L b by (simp add: try_grow_silently_def page_bytes_def)
  next
    case False
    then have "\<not> drop_bit (custom_page_size_log2 m) size_max < d" using shift_fits_iff [OF k, of d] by (simp add: page_bytes_def)
    moreover note arith = grow_arithmetic [OF assms(2), of d L]
    moreover have "m\<lparr>memory_begin := Some t, memory_length := memory_length m + ?g\<rparr> = grown m (unat d * page_bytes m)"
      if "enlarged_block a b (memory_length m) ?g (memory_length m + ?g) = Some t" "\<not> unat L < length b + unat d * page_bytes m" for t
      using enlarged_memory [OF assms _ refl that(1)] that(2) L by simp
    ultimately show ?thesis using False b
      by (auto simp: try_grow_silently_def Let_def get_page_size_def host_can_grow_def split: option.split)
  qed
qed

lemma grow_strictly_eq:
  assumes "allocator_ok a" "memory_holds m b"
  shows "grow_strictly a d L m =
     (if d = 0 then Inr (True, Some (get_page_size m), m)
      else if unat L < length b + unat d * page_bytes m then
        Inr (False, if 2 ^ 64 \<le> unat d * page_bytes m then None else Some (get_page_size m), m)
      else if host_can_grow a m d then Inr (True, Some (get_page_size m), grown m (unat d * page_bytes m))
      else Inr (False, Some (get_page_size m), m))"
proof -
  have b: "memory_begin m = Some b" using assms(2) by (simp add: memory_holds_def)
  have "grow_strictly a d L m =
    (case try_grow_silently a d L m of Inl _ \<Rightarrow> Inr (False, Some (get_page_size m), m) | Inr x \<Rightarrow> Inr x)"
    using b by (simp add: grow_strictly_def try_grow_silently_def get_page_size_def Let_def split: option.split)
  then show ?thesis by (simp add: try_grow_silently_eq [OF assms])
qed

lemma grow_silently_eq:
  assumes "allocator_ok a" "memory_holds m b"
  shows "grow_silently a d L m =
     (if d = 0 then Inr m
      else if unat L < length b + unat d * page_bytes m then Inl (Throw fast_terminate)
      else if host_can_grow a m d then Inr (grown m (unat d * page_bytes m))
      else Inl (Throw fast_terminate))"
  by (simp add: grow_silently_def try_grow_silently_eq [OF assms])

lemma init_by_page_count_holds:
  assumes "allocator_ok a" "memory_begin m = None" "custom_page_size_log2 m < 64" "init_by_page_count a n i m = Inr m'"
  shows "memory_holds m' (replicate (unat n * page_bytes m) 0) \<and> get_page_size m' = n"
proof -
  let ?k = "custom_page_size_log2 m"
  have fits: "unat n * 2 ^ ?k < 2 ^ 64" using assms(4) shift_fits_iff [OF assms(3), of n]
    by (auto simp: init_by_page_count_def res_simps)
  note len = unat_shift_fits [OF assms(3) fits]
  obtain t where t: "allocate_aligned_zero a (push_bit ?k n) = Some t"
      "m' = m\<lparr>memory_begin := Some t, memory_length := push_bit ?k n, diagnostic_owner_memory_index := i\<rparr>"
    using assms(2,4) by (auto simp: init_by_page_count_def res_simps Let_def split: option.splits)
  then have "t = replicate (unat n * 2 ^ ?k) 0" using assms(1) len unfolding allocator_ok_def by metis
  then have h: "memory_holds m' (replicate (unat n * page_bytes m) 0)" using t(2) len assms(3) by (simp add: memory_holds_def page_bytes_def)
  have "get_page_size m' = n"
    using memory_holds_pages [OF h] t(2) by (intro unsigned_word_eqI [where ?'a = nat]) (simp add: page_bytes_def)
  with h show ?thesis by simp
qed

section \<open>Ownership\<close>

text \<open>A block has one owner: moving hands the block over and leaves nothing behind, and clearing gives it up.\<close>

lemma moved_memory:
  assumes "memory_holds other b"
  shows "memory_holds (fst (move_construct other)) b" "memory_begin (snd (move_construct other)) = None"
    "memory_holds (fst (move_assign False this other)) b" "memory_begin (snd (move_assign False this other)) = None"
  using assms by (auto simp: move_construct_def move_assign_def memory_holds_def)

lemma cleared_memory_init:
  assumes "allocator_ok a" "custom_page_size_log2 m < 64" "init_by_page_count a n i (clear m) = Inr m'"
  shows "memory_holds m' (replicate (unat n * page_bytes m) 0)"
  using init_by_page_count_holds [OF assms(1) _ _ assms(3)] assms(2) by (simp add: clear_def page_bytes_def)

end
