(* ===== verification/Memory_Ops.thy ===== *)
theory Memory_Ops
  imports Linear_Memory
begin

text \<open>
  The memory instructions of the interpreter (\<^verbatim>\<open>optable/memory.h\<close>): effective addresses, the check of the bounds, loads, stores,
  \<open>memory.size\<close> and \<open>memory.grow\<close>. The instructions are modelled as the operation functions that keep all operands in memory (\<open>is_tail_call\<close> is
  false), on a memory with a single-thread allocator. The operand stack is the list of the bytes below the stack pointer,
  and values lie in it as on a little-endian host. The immediates behind the operation pointer are arguments.
\<close>

unbundle bit_operations_syntax

section \<open>Bytes and values\<close>

fun from_le :: "byte list \<Rightarrow> 'a::len word" where
  "from_le [] = 0"
| "from_le (x # xs) = ucast x + push_bit 8 (from_le xs)"

fun to_le :: "nat \<Rightarrow> 'a::len word \<Rightarrow> byte list" where
  "to_le 0 w = []"
| "to_le (Suc n) w = ucast w # to_le n (drop_bit 8 w)"

section \<open>Effective addresses and bounds\<close>

record memory_offset_t =
  offset :: u64
  offset_65_bit :: bool

record memory_error_t =
  memory_idx :: u64
  memory_offset :: memory_offset_t
  memory_static_offset :: u64
  error_memory_length :: u64
  memory_type_size :: u64

datatype interpreter_exit = memory_out_of_bounds memory_error_t | exit_process memory_exit

definition wasm32_effective_offset :: "u32 \<Rightarrow> u32 \<Rightarrow> memory_offset_t" where
  "wasm32_effective_offset addr static_offset =
     (let sum_u64 = (ucast addr :: u64) + ucast static_offset in
      \<lparr>offset = sum_u64, offset_65_bit = sum_u64 > 0xffffffff\<rparr>)"

definition add_overflow :: "'a::len word \<Rightarrow> 'a word \<Rightarrow> bool \<times> 'a word" where
  "add_overflow a b = (a + b < a, a + b)"

definition wasm64_effective_offset :: "u64 \<Rightarrow> u64 \<Rightarrow> memory_offset_t" where
  "wasm64_effective_offset addr static_offset =
     (let (out_of_range, low) = add_overflow addr static_offset in \<lparr>offset = low, offset_65_bit = out_of_range\<rparr>)"

definition get_dynamic_offset :: "memory_offset_t \<Rightarrow> u64 \<Rightarrow> u64" where
  "get_dynamic_offset eff static_offset = offset eff - static_offset"

definition memory_oob_terminate :: "u64 \<Rightarrow> u64 \<Rightarrow> memory_offset_t \<Rightarrow> u64 \<Rightarrow> u64 \<Rightarrow> interpreter_exit" where
  "memory_oob_terminate idx static_offset eff len wasm_bytes =
     memory_out_of_bounds \<lparr>memory_idx = idx, memory_offset = eff, memory_static_offset = static_offset,
       error_memory_length = len, memory_type_size = wasm_bytes\<rparr>"

text \<open>The test that every checked access makes.\<close>

definition access_out_of_bounds :: "u64 \<Rightarrow> memory_offset_t \<Rightarrow> u64 \<Rightarrow> bool" where
  "access_out_of_bounds len eff wasm_bytes \<longleftrightarrow> offset_65_bit eff \<or> wasm_bytes > len \<or> offset eff > len - wasm_bytes"

definition check_memory_bounds_unlocked ::
    "single_thread_allocator_memory_t \<Rightarrow> u64 \<Rightarrow> memory_offset_t \<Rightarrow> u64 \<Rightarrow> (interpreter_exit, unit) res" where
  "check_memory_bounds_unlocked m static_offset eff wasm_bytes =
     throw_if (access_out_of_bounds (memory_length m) eff wasm_bytes)
       (memory_oob_terminate (diagnostic_owner_memory_index m) static_offset eff (memory_length m) wasm_bytes)"

text \<open>The bytes that a copy from or to an address in the block touches: outside the block the behaviour is undefined.\<close>

definition read_block :: "single_thread_allocator_memory_t \<Rightarrow> u64 \<Rightarrow> nat \<Rightarrow> (interpreter_exit, byte list) res" where
  "read_block m eff n =
     (case memory_begin m of
        None \<Rightarrow> Inl UB
      | Some block \<Rightarrow> if unat eff + n \<le> length block then Inr (take n (drop (unat eff) block)) else Inl UB)"

definition write_block ::
    "single_thread_allocator_memory_t \<Rightarrow> u64 \<Rightarrow> byte list \<Rightarrow> (interpreter_exit, single_thread_allocator_memory_t) res" where
  "write_block m eff bs =
     (case memory_begin m of
        None \<Rightarrow> Inl UB
      | Some block \<Rightarrow>
          if unat eff + length bs \<le> length block
          then Inr (m\<lparr>memory_begin := Some (take (unat eff) block @ bs @ drop (unat eff + length bs) block)\<rparr>)
          else Inl UB)"

section \<open>The state of the interpreter\<close>

record interp =
  operand_bytes :: "byte list"
  native_memory :: single_thread_allocator_memory_t

definition get_curr_val_from_operand_stack_cache :: "nat \<Rightarrow> interp \<Rightarrow> (interpreter_exit, 'a::len word \<times> interp) res" where
  "get_curr_val_from_operand_stack_cache n st =
     (let bs = operand_bytes st in
      if length bs < n then Inl UB
      else Inr (from_le (drop (length bs - n) bs), st\<lparr>operand_bytes := take (length bs - n) bs\<rparr>))"

definition push_val :: "nat \<Rightarrow> 'a::len word \<Rightarrow> interp \<Rightarrow> interp" where
  "push_val n v st = st\<lparr>operand_bytes := operand_bytes st @ to_le n v\<rparr>"

section \<open>Loads\<close>

text \<open>What the loads have in common: the operand, the check, the copy of the bytes.\<close>

definition load_bytes :: "nat \<Rightarrow> u32 \<Rightarrow> interp \<Rightarrow> (interpreter_exit, byte list \<times> interp) res" where
  "load_bytes wasm_bytes offs st =
     bindE (get_curr_val_from_operand_stack_cache 4 st) (\<lambda>(addr :: u32, st).
     let eff65 = wasm32_effective_offset addr offs in
     bindE (check_memory_bounds_unlocked (native_memory st) (ucast offs) eff65 (of_nat wasm_bytes)) (\<lambda>_.
     bindE (read_block (native_memory st) (offset eff65) wasm_bytes) (\<lambda>bs. Inr (bs, st))))"

definition uwvmint_i32_load :: "u32 \<Rightarrow> interp \<Rightarrow> (interpreter_exit, interp) res" where
  "uwvmint_i32_load offs st = bindE (load_bytes 4 offs st) (\<lambda>(bs, st). Inr (push_val 4 (from_le bs :: u32) st))"

definition uwvmint_i64_load :: "u32 \<Rightarrow> interp \<Rightarrow> (interpreter_exit, interp) res" where
  "uwvmint_i64_load offs st = bindE (load_bytes 8 offs st) (\<lambda>(bs, st). Inr (push_val 8 (from_le bs :: u64) st))"

text \<open>A float is its bits.\<close>

definition uwvmint_f32_load :: "u32 \<Rightarrow> interp \<Rightarrow> (interpreter_exit, interp) res" where
  "uwvmint_f32_load offs st = bindE (load_bytes 4 offs st) (\<lambda>(bs, st). Inr (push_val 4 (from_le bs :: u32) st))"

definition uwvmint_f64_load :: "u32 \<Rightarrow> interp \<Rightarrow> (interpreter_exit, interp) res" where
  "uwvmint_f64_load offs st = bindE (load_bytes 8 offs st) (\<lambda>(bs, st). Inr (push_val 8 (from_le bs :: u64) st))"

definition uwvmint_i32_load8 :: "bool \<Rightarrow> u32 \<Rightarrow> interp \<Rightarrow> (interpreter_exit, interp) res" where
  "uwvmint_i32_load8 signed_load offs st = bindE (load_bytes 1 offs st) (\<lambda>(bs, st).
     let b = (from_le bs :: 8 word) in Inr (push_val 4 (if signed_load then scast b else ucast b :: u32) st))"

definition uwvmint_i32_load16 :: "bool \<Rightarrow> u32 \<Rightarrow> interp \<Rightarrow> (interpreter_exit, interp) res" where
  "uwvmint_i32_load16 signed_load offs st = bindE (load_bytes 2 offs st) (\<lambda>(bs, st).
     let tmp = (from_le bs :: 16 word) in Inr (push_val 4 (if signed_load then scast tmp else ucast tmp :: u32) st))"

definition uwvmint_i64_load8 :: "bool \<Rightarrow> u32 \<Rightarrow> interp \<Rightarrow> (interpreter_exit, interp) res" where
  "uwvmint_i64_load8 signed_load offs st = bindE (load_bytes 1 offs st) (\<lambda>(bs, st).
     let b = (from_le bs :: 8 word) in Inr (push_val 8 (if signed_load then scast b else ucast b :: u64) st))"

definition uwvmint_i64_load16 :: "bool \<Rightarrow> u32 \<Rightarrow> interp \<Rightarrow> (interpreter_exit, interp) res" where
  "uwvmint_i64_load16 signed_load offs st = bindE (load_bytes 2 offs st) (\<lambda>(bs, st).
     let tmp = (from_le bs :: 16 word) in Inr (push_val 8 (if signed_load then scast tmp else ucast tmp :: u64) st))"

definition uwvmint_i64_load32 :: "bool \<Rightarrow> u32 \<Rightarrow> interp \<Rightarrow> (interpreter_exit, interp) res" where
  "uwvmint_i64_load32 signed_load offs st = bindE (load_bytes 4 offs st) (\<lambda>(bs, st).
     let tmp = (from_le bs :: 32 word) in Inr (push_val 8 (if signed_load then scast tmp else ucast tmp :: u64) st))"

section \<open>Stores\<close>

text \<open>The common part: the address operand, which lies below the value, the check, and the copy to the memory.\<close>

definition store_bytes :: "u32 \<Rightarrow> byte list \<Rightarrow> interp \<Rightarrow> (interpreter_exit, interp) res" where
  "store_bytes offs bs st =
     bindE (get_curr_val_from_operand_stack_cache 4 st) (\<lambda>(addr :: u32, st).
     let eff65 = wasm32_effective_offset addr offs in
     bindE (check_memory_bounds_unlocked (native_memory st) (ucast offs) eff65 (of_nat (length bs))) (\<lambda>_.
     bindE (write_block (native_memory st) (offset eff65) bs) (\<lambda>m. Inr (st\<lparr>native_memory := m\<rparr>))))"

definition uwvmint_i32_store :: "u32 \<Rightarrow> interp \<Rightarrow> (interpreter_exit, interp) res" where
  "uwvmint_i32_store offs st =
     bindE (get_curr_val_from_operand_stack_cache 4 st) (\<lambda>(v :: u32, st). store_bytes offs (to_le 4 v) st)"

definition uwvmint_i64_store :: "u32 \<Rightarrow> interp \<Rightarrow> (interpreter_exit, interp) res" where
  "uwvmint_i64_store offs st =
     bindE (get_curr_val_from_operand_stack_cache 8 st) (\<lambda>(v :: u64, st). store_bytes offs (to_le 8 v) st)"

definition uwvmint_f32_store :: "u32 \<Rightarrow> interp \<Rightarrow> (interpreter_exit, interp) res" where
  "uwvmint_f32_store offs st =
     bindE (get_curr_val_from_operand_stack_cache 4 st) (\<lambda>(v :: u32, st). store_bytes offs (to_le 4 v) st)"

definition uwvmint_f64_store :: "u32 \<Rightarrow> interp \<Rightarrow> (interpreter_exit, interp) res" where
  "uwvmint_f64_store offs st =
     bindE (get_curr_val_from_operand_stack_cache 8 st) (\<lambda>(v :: u64, st). store_bytes offs (to_le 8 v) st)"

definition uwvmint_i32_storeN :: "nat \<Rightarrow> u32 \<Rightarrow> interp \<Rightarrow> (interpreter_exit, interp) res" where
  "uwvmint_i32_storeN StoreBytes offs st =
     bindE (get_curr_val_from_operand_stack_cache 4 st) (\<lambda>(v :: u32, st).
     if StoreBytes = 1 then store_bytes offs (to_le 1 (ucast v :: 8 word)) st
     else store_bytes offs (to_le 2 (ucast v :: 16 word)) st)"

definition uwvmint_i64_storeN :: "nat \<Rightarrow> u32 \<Rightarrow> interp \<Rightarrow> (interpreter_exit, interp) res" where
  "uwvmint_i64_storeN StoreBytes offs st =
     bindE (get_curr_val_from_operand_stack_cache 8 st) (\<lambda>(bits :: u64, st).
     if StoreBytes = 1 then store_bytes offs (to_le 1 (ucast bits :: 8 word)) st
     else if StoreBytes = 2 then store_bytes offs (to_le 2 (ucast bits :: 16 word)) st
     else store_bytes offs (to_le 4 (ucast bits :: 32 word)) st)"

section \<open>Size and growth\<close>

definition uwvmint_memory_size :: "interp \<Rightarrow> interp" where
  "uwvmint_memory_size st = push_val 4 (ucast (get_page_size (native_memory st)) :: u32) st"

text \<open>Returns the value of \<open>old_pages_out\<close> as well.\<close>

definition memory_grow_definitely_fails :: "single_thread_allocator_memory_t \<Rightarrow> u64 \<Rightarrow> u64 \<Rightarrow> bool \<times> u64" where
  "memory_grow_definitely_fails m max_limit_memory_length delta_pages =
     (let old_pages_out = get_page_size m in
      if max_limit_memory_length = size_max then (False, old_pages_out)
      else
        let limit_pages = drop_bit (custom_page_size_log2 m) max_limit_memory_length in
        (old_pages_out > limit_pages \<or> delta_pages > limit_pages - old_pages_out, old_pages_out))"

definition lift_exit :: "(memory_exit, 'a) res \<Rightarrow> (interpreter_exit, 'a) res" where
  "lift_exit r = (case r of Inl (Throw e) \<Rightarrow> Inl (Throw (exit_process e)) | Inl UB \<Rightarrow> Inl UB | Inr x \<Rightarrow> Inr x)"

text \<open>\<open>grow_strict\<close> is the flag of \<^verbatim>\<open>object/memory/flags\<close>.\<close>

definition uwvmint_memory_grow ::
    "bool \<Rightarrow> allocator \<Rightarrow> allocator \<Rightarrow> u64 \<Rightarrow> interp \<Rightarrow> (interpreter_exit, interp) res" where
  "uwvmint_memory_grow grow_strict allocator_t strict_allocator_t max_limit_memory_length st =
     bindE (get_curr_val_from_operand_stack_cache 4 st) (\<lambda>(delta_i32 :: u32, st).
     let delta_pages = ucast delta_i32 :: u64; m = native_memory st;
         (fails, old_pages) = memory_grow_definitely_fails m max_limit_memory_length delta_pages in
     if fails then Inr (push_val 4 (- 1 :: u32) st)
     else if grow_strict then
       bindE (lift_exit (grow_strictly strict_allocator_t delta_pages max_limit_memory_length m)) (\<lambda>(ok, out, m').
       let old_pages = (case out of None \<Rightarrow> old_pages | Some p \<Rightarrow> p) in
       Inr (push_val 4 (if ok then ucast old_pages else - 1 :: u32) (st\<lparr>native_memory := m'\<rparr>)))
     else
       bindE (lift_exit (grow_silently allocator_t delta_pages max_limit_memory_length m)) (\<lambda>m'.
       Inr (push_val 4 (ucast old_pages :: u32) (st\<lparr>native_memory := m'\<rparr>))))"

section \<open>The specification\<close>

text \<open>
  The memory instructions of the WebAssembly specification on the bytes of a memory: little-endian numbers, an access that traps
  unless it lies inside the memory, and sign extension.
\<close>

fun le_nat :: "byte list \<Rightarrow> nat" where
  "le_nat [] = 0"
| "le_nat (x # xs) = unat x + 256 * le_nat xs"

fun le_bytes :: "nat \<Rightarrow> nat \<Rightarrow> byte list" where
  "le_bytes 0 v = []"
| "le_bytes (Suc n) v = of_nat v # le_bytes n (v div 256)"

definition wasm_load :: "byte list \<Rightarrow> nat \<Rightarrow> nat \<Rightarrow> nat option" where
  "wasm_load mem ea n = (if ea + n \<le> length mem then Some (le_nat (take n (drop ea mem))) else None)"

definition wasm_store :: "byte list \<Rightarrow> nat \<Rightarrow> nat \<Rightarrow> nat \<Rightarrow> byte list option" where
  "wasm_store mem ea n v =
     (if ea + n \<le> length mem then Some (take ea mem @ le_bytes n (v mod 256 ^ n) @ drop (ea + n) mem) else None)"

text \<open>
  The same with 32-bit addressing: no access starts at or beyond 4 GiB. On a memory of at most 4 GiB, the largest that the specification
  admits, there is no difference; the memory classes of the host do not enforce this size.
\<close>

definition wasm32_load :: "byte list \<Rightarrow> nat \<Rightarrow> nat \<Rightarrow> nat option" where
  "wasm32_load mem ea n = (if ea < 2 ^ 32 then wasm_load mem ea n else None)"

definition wasm32_store :: "byte list \<Rightarrow> nat \<Rightarrow> nat \<Rightarrow> nat \<Rightarrow> byte list option" where
  "wasm32_store mem ea n v = (if ea < 2 ^ 32 then wasm_store mem ea n v else None)"

definition extend :: "bool \<Rightarrow> nat \<Rightarrow> nat \<Rightarrow> nat \<Rightarrow> nat" where
  "extend sx N M v = (if sx then to_int M (signed_int N v) else v)"

text \<open>The loads with the bytes they read, the bytes they push and whether they extend the sign; the stores with the bytes of the operand and those they write.\<close>

definition loads :: "((u32 \<Rightarrow> interp \<Rightarrow> (interpreter_exit, interp) res) \<times> nat \<times> nat \<times> bool) list" where
  "loads =
     [(uwvmint_i32_load, 4, 4, False), (uwvmint_i64_load, 8, 8, False), (uwvmint_f32_load, 4, 4, False), (uwvmint_f64_load, 8, 8, False),
      (uwvmint_i32_load8 True, 1, 4, True), (uwvmint_i32_load8 False, 1, 4, False),
      (uwvmint_i32_load16 True, 2, 4, True), (uwvmint_i32_load16 False, 2, 4, False),
      (uwvmint_i64_load8 True, 1, 8, True), (uwvmint_i64_load8 False, 1, 8, False),
      (uwvmint_i64_load16 True, 2, 8, True), (uwvmint_i64_load16 False, 2, 8, False),
      (uwvmint_i64_load32 True, 4, 8, True), (uwvmint_i64_load32 False, 4, 8, False)]"

definition stores :: "((u32 \<Rightarrow> interp \<Rightarrow> (interpreter_exit, interp) res) \<times> nat \<times> nat) list" where
  "stores =
     [(uwvmint_i32_store, 4, 4), (uwvmint_i64_store, 8, 8), (uwvmint_f32_store, 4, 4), (uwvmint_f64_store, 8, 8),
      (uwvmint_i32_storeN 1, 4, 1), (uwvmint_i32_storeN 2, 4, 2),
      (uwvmint_i64_storeN 1, 8, 1), (uwvmint_i64_storeN 2, 8, 2), (uwvmint_i64_storeN 4, 8, 4)]"

section \<open>Lemmas on bytes\<close>

lemma length_to_le [simp]: "length (to_le n w) = n"
  by (induction n arbitrary: w) simp_all

lemma to_le_eq: "to_le n (w :: 'a::len word) = le_bytes n (unat w)"
proof (induction n arbitrary: w)
  case (Suc n)
  have "unat (drop_bit 8 w) = unat w div 256" by (simp add: unat_drop_bit_eq drop_bit_eq_div [where ?'a = nat])
  with Suc [of "drop_bit 8 w"] show ?case by (simp add: of_nat_unat)
qed simp

lemma le_nat_bound: "le_nat bs < 256 ^ length bs"
proof (induction bs)
  case (Cons x xs)
  have "unat x < 2 ^ LENGTH(8)" by (rule unsigned_less)
  with Cons show ?case by simp
qed simp

lemma from_le_unat: "8 * length bs \<le> LENGTH('a::len) \<Longrightarrow> unat (from_le bs :: 'a word) = le_nat bs"
proof (induction bs)
  case (Cons x xs)
  have b: "le_nat (x # xs) < 2 ^ LENGTH('a)"
  proof -
    have "256 ^ length (x # xs) = (2 :: nat) ^ (8 * length (x # xs))" unfolding power_mult by simp
    also have "\<dots> \<le> 2 ^ LENGTH('a)" using Cons.prems by (intro power_increasing) auto
    finally show ?thesis using le_nat_bound [of "x # xs"] by linarith
  qed
  have "unat (push_bit 8 (from_le xs) :: 'a word) = 256 * le_nat xs"
    using Cons b by (simp add: unsigned_push_bit_eq push_bit_eq_mult [where ?'a = nat] take_bit_nat_eq_self)
  moreover have "unat (ucast x :: 'a word) = unat x"
    using Cons.prems b by (simp add: unsigned_ucast_eq take_bit_nat_eq_self)
  ultimately show ?case using b by (simp add: unat_word_ariths(1))
qed simp

lemma le_bytes_nat: "le_bytes (length bs) (le_nat bs) = bs"
proof (induction bs)
  case (Cons x xs)
  have "unat x < 2 ^ LENGTH(8)" by (rule unsigned_less)
  then have "(unat x + 256 * le_nat xs) div 256 = le_nat xs" by simp
  moreover have z: "(256 :: byte) = 0" by simp
  have "of_nat (unat x + 256 * le_nat xs) = x + 256 * of_nat (le_nat xs)" by (simp add: of_nat_unat)
  then have "of_nat (unat x + 256 * le_nat xs) = x" unfolding z by simp
  ultimately show ?case using Cons by simp
qed simp

lemma le_nat_bytes: "le_nat (le_bytes n v) = v mod 256 ^ n"
proof (induction n arbitrary: v)
  case (Suc n)
  have "unat (of_nat v :: byte) = v mod 256" by (simp add: unsigned_of_nat take_bit_eq_mod [where ?'a = nat])
  with Suc [of "v div 256"] show ?case by (simp add: mod_mult2_eq)
qed simp

lemma length_le_bytes [simp]: "length (le_bytes n v) = n"
  by (induction n arbitrary: v) simp_all

lemma le_bytes_numeral: "le_bytes (numeral k) v = of_nat v # le_bytes (pred_numeral k) (v div 256)"
  by (subst numeral_eq_Suc) simp

lemma le_bytes_mod: "le_bytes n (v mod 256 ^ n) = le_bytes n v"
  using le_bytes_nat [of "le_bytes n v"] by (simp add: le_nat_bytes)

lemma unat_scast: "unat (scast (x :: 'a::len word) :: 'b::len word) = to_int LENGTH('b) (signed_int LENGTH('a) (unat x))"
  by (simp add: to_int_word sint_signed_int [symmetric])

section \<open>Lemmas on accesses\<close>

lemma pop_pushed:
  "operand_bytes st = vs @ to_le n (w :: 'a::len word) \<Longrightarrow> LENGTH('a) = 8 * n \<Longrightarrow>
     get_curr_val_from_operand_stack_cache n st = Inr (w, st\<lparr>operand_bytes := vs\<rparr>)"
proof -
  assume h: "operand_bytes st = vs @ to_le n w" "LENGTH('a) = 8 * n"
  have "unat w < 256 ^ n" using unsigned_less [of w] h(2) by (simp add: power_mult)
  then have "unat (from_le (to_le n w) :: 'a word) = unat w" using h(2) by (simp add: from_le_unat to_le_eq le_nat_bytes)
  then have "from_le (to_le n w) = w" by (rule unsigned_word_eqI)
  then show "get_curr_val_from_operand_stack_cache n st = Inr (w, st\<lparr>operand_bytes := vs\<rparr>)"
    using h(1) by (simp add: get_curr_val_from_operand_stack_cache_def)
qed

lemma effective_offset_unat:
  "unat (offset (wasm32_effective_offset addr offs)) = unat addr + unat offs"
  "offset_65_bit (wasm32_effective_offset addr offs) \<longleftrightarrow> 2 ^ 32 \<le> unat addr + unat offs"
proof -
  have "unat w < 2 ^ LENGTH(32)" for w :: u32 by (rule unsigned_less)
  then have b: "unat w < 2 ^ 32" for w :: u32 by simp
  have u: "unat (ucast w :: u64) = unat w" for w :: u32 using b [of w] by (simp add: unsigned_ucast_eq take_bit_nat_eq_self)
  have e: "unat ((ucast addr :: u64) + ucast offs) = unat addr + unat offs" using b [of addr] b [of offs] by (simp add: unat_word_ariths(1) u)
  then show "unat (offset (wasm32_effective_offset addr offs)) = unat addr + unat offs"
    by (simp add: wasm32_effective_offset_def Let_def)
  show "offset_65_bit (wasm32_effective_offset addr offs) \<longleftrightarrow> 2 ^ 32 \<le> unat addr + unat offs"
    using e by (auto simp: wasm32_effective_offset_def Let_def word_less_nat_alt)
qed

text \<open>
  The test on 65-bit offsets: the bytes leave the memory, or the address has more than 32 bits. On a memory of at most 4 GiB
  the second implies the first.
\<close>

lemma access_out_of_bounds_iff:
  assumes "n \<le> 64"
  shows "access_out_of_bounds len (wasm32_effective_offset addr offs) (of_nat n) \<longleftrightarrow>
     2 ^ 32 \<le> unat addr + unat offs \<or> unat len < unat addr + unat offs + n"
proof -
  have n: "unat (of_nat n :: u64) = n" using assms by (simp add: unsigned_of_nat take_bit_nat_eq_self)
  show ?thesis
  proof (cases "of_nat n \<le> len")
    case True
    then have "unat (len - of_nat n) = unat len - n" "n \<le> unat len" using n by (simp_all add: unat_sub word_le_nat_alt)
    then show ?thesis using True by (auto simp: access_out_of_bounds_def effective_offset_unat word_less_nat_alt n)
  next
    case False
    then show ?thesis using n by (auto simp: access_out_of_bounds_def word_le_nat_alt not_le word_less_nat_alt)
  qed
qed

definition bounds_error :: "u32 \<Rightarrow> u32 \<Rightarrow> nat \<Rightarrow> interp \<Rightarrow> interpreter_exit" where
  "bounds_error addr offs n st =
     memory_oob_terminate (diagnostic_owner_memory_index (native_memory st)) (ucast offs) (wasm32_effective_offset addr offs)
       (memory_length (native_memory st)) (of_nat n)"

lemma load_bytes_eq:
  assumes "memory_holds (native_memory st) mem" "n \<le> 64" "operand_bytes st = vs @ to_le 4 addr"
  shows "load_bytes n offs st =
     (if unat addr + unat offs < 2 ^ 32 \<and> unat addr + unat offs + n \<le> length mem then Inr (take n (drop (unat addr + unat offs) mem), st\<lparr>operand_bytes := vs\<rparr>)
      else Inl (Throw (bounds_error addr offs n st)))"
  using assms access_out_of_bounds_iff [of n "memory_length (native_memory st)" addr offs]
  by (simp add: load_bytes_def pop_pushed [OF assms(3)] check_memory_bounds_unlocked_def read_block_def memory_holds_def
      effective_offset_unat bounds_error_def Let_def throw_if_def not_less)

lemma store_bytes_eq:
  assumes "memory_holds (native_memory st) mem" "length bs \<le> 64" "operand_bytes st = vs @ to_le 4 addr"
  shows "store_bytes offs bs st =
     (let ea = unat addr + unat offs in
      if ea < 2 ^ 32 \<and> ea + length bs \<le> length mem
      then Inr (st\<lparr>operand_bytes := vs, native_memory := (native_memory st)\<lparr>memory_begin := Some (take ea mem @ bs @ drop (ea + length bs) mem)\<rparr>\<rparr>)
      else Inl (Throw (bounds_error addr offs (length bs) st)))"
  using assms access_out_of_bounds_iff [of "length bs" "memory_length (native_memory st)" addr offs]
  by (simp add: store_bytes_def pop_pushed [OF assms(3)] check_memory_bounds_unlocked_def write_block_def memory_holds_def
      effective_offset_unat bounds_error_def Let_def throw_if_def not_less)

text \<open>
  A load that pushes the value that the specification computes: it is the common part followed by a push of the bytes,
  extended to the width of the result.
\<close>

definition loads_as :: "(u32 \<Rightarrow> interp \<Rightarrow> (interpreter_exit, interp) res) \<Rightarrow> nat \<Rightarrow> nat \<Rightarrow> bool \<Rightarrow> bool" where
  "loads_as load n k sx \<longleftrightarrow> 1 \<le> n \<and> n \<le> 64 \<and>
     (\<forall>offs st. load offs st = bindE (load_bytes n offs st) (\<lambda>(bs, st).
        Inr (st\<lparr>operand_bytes := operand_bytes st @ le_bytes k (extend sx (8 * n) (8 * k) (le_nat bs))\<rparr>)))"

lemma length_load_bytes: "load_bytes n offs st = Inr (bs, st') \<Longrightarrow> length bs = n"
  by (auto simp: load_bytes_def read_block_def res_simps Let_def split: option.splits if_splits prod.splits)

lemma loads_asI:
  assumes "\<And>offs st. load offs st = bindE (load_bytes n offs st) (\<lambda>(bs, st). Inr (push_val k (g bs) st))"
    and "\<And>bs. length bs = n \<Longrightarrow> unat (g bs :: 'a::len word) = extend sx (8 * n) (8 * k) (le_nat bs)" "1 \<le> n" "n \<le> 64"
  shows "loads_as load n k sx"
  unfolding loads_as_def using assms(3,4)
  by (auto simp: assms(1,2) push_val_def to_le_eq dest!: length_load_bytes intro!: bindE_cong)

lemma loads_signed:
  assumes "\<And>offs st. load offs st = bindE (load_bytes n offs st) (\<lambda>(bs, st). Inr (push_val k (scast (from_le bs :: 'a::len word) :: 'b::len word) st))"
    and "LENGTH('a) = 8 * n" "LENGTH('b) = 8 * k" "1 \<le> n" "n \<le> 64"
  shows "loads_as load n k True"
  by (rule loads_asI [OF assms(1)]) (use assms(2-) in \<open>simp_all add: unat_scast from_le_unat extend_def\<close>)

lemma loads_unsigned:
  assumes "\<And>offs st. load offs st = bindE (load_bytes n offs st) (\<lambda>(bs, st). Inr (push_val k (ucast (from_le bs :: 'a::len word) :: 'b::len word) st))"
    and "LENGTH('a) = 8 * n" "LENGTH('b) = 8 * k" "1 \<le> n" "n \<le> k" "n \<le> 64"
  shows "loads_as load n k False"
proof (rule loads_asI [OF assms(1) _ assms(4,6)])
  fix bs :: "byte list"
  assume "length bs = n"
  moreover have "(256 :: nat) ^ n \<le> 2 ^ LENGTH('b)"
    using assms(3,5) by (simp add: power_mult power_increasing)
  ultimately have "take_bit LENGTH('b) (le_nat bs) = le_nat bs"
    using le_nat_bound [of bs] by (intro take_bit_nat_eq_self) simp
  then show "unat (ucast (from_le bs :: 'a word) :: 'b word) = extend False (8 * n) (8 * k) (le_nat bs)"
    using \<open>length bs = n\<close> assms(2) by (simp add: unsigned_ucast_eq from_le_unat extend_def)
qed

lemmas load_defs = uwvmint_i32_load_def uwvmint_i64_load_def uwvmint_f32_load_def uwvmint_f64_load_def uwvmint_i32_load8_def
  uwvmint_i32_load16_def uwvmint_i64_load8_def uwvmint_i64_load16_def uwvmint_i64_load32_def

lemma loads_table: "(load, n, k, sx) \<in> set loads \<Longrightarrow> loads_as load n k sx"
proof -
  have "loads_as uwvmint_i32_load 4 4 False" by (rule loads_unsigned [where ?'a = 32 and ?'b = 32]) (simp_all add: load_defs)
  moreover have "loads_as uwvmint_i64_load 8 8 False" by (rule loads_unsigned [where ?'a = 64 and ?'b = 64]) (simp_all add: load_defs)
  moreover have "loads_as uwvmint_f32_load 4 4 False" by (rule loads_unsigned [where ?'a = 32 and ?'b = 32]) (simp_all add: load_defs)
  moreover have "loads_as uwvmint_f64_load 8 8 False" by (rule loads_unsigned [where ?'a = 64 and ?'b = 64]) (simp_all add: load_defs)
  moreover have "loads_as (uwvmint_i32_load8 True) 1 4 True" by (rule loads_signed [where ?'a = 8 and ?'b = 32]) (simp_all add: load_defs)
  moreover have "loads_as (uwvmint_i32_load8 False) 1 4 False" by (rule loads_unsigned [where ?'a = 8 and ?'b = 32]) (simp_all add: load_defs)
  moreover have "loads_as (uwvmint_i32_load16 True) 2 4 True" by (rule loads_signed [where ?'a = 16 and ?'b = 32]) (simp_all add: load_defs)
  moreover have "loads_as (uwvmint_i32_load16 False) 2 4 False" by (rule loads_unsigned [where ?'a = 16 and ?'b = 32]) (simp_all add: load_defs)
  moreover have "loads_as (uwvmint_i64_load8 True) 1 8 True" by (rule loads_signed [where ?'a = 8 and ?'b = 64]) (simp_all add: load_defs)
  moreover have "loads_as (uwvmint_i64_load8 False) 1 8 False" by (rule loads_unsigned [where ?'a = 8 and ?'b = 64]) (simp_all add: load_defs)
  moreover have "loads_as (uwvmint_i64_load16 True) 2 8 True" by (rule loads_signed [where ?'a = 16 and ?'b = 64]) (simp_all add: load_defs)
  moreover have "loads_as (uwvmint_i64_load16 False) 2 8 False" by (rule loads_unsigned [where ?'a = 16 and ?'b = 64]) (simp_all add: load_defs)
  moreover have "loads_as (uwvmint_i64_load32 True) 4 8 True" by (rule loads_signed [where ?'a = 32 and ?'b = 64]) (simp_all add: load_defs)
  moreover have "loads_as (uwvmint_i64_load32 False) 4 8 False" by (rule loads_unsigned [where ?'a = 32 and ?'b = 64]) (simp_all add: load_defs)
  ultimately show "(load, n, k, sx) \<in> set loads \<Longrightarrow> loads_as load n k sx" unfolding loads_def by auto
qed

lemma load_outcome:
  assumes "memory_holds (native_memory st) mem" "(load, n, k, sx) \<in> set loads" "operand_bytes st = vs @ to_le 4 addr"
  shows "load offs st = (case wasm32_load mem (unat addr + unat offs) n of
     None \<Rightarrow> Inl (Throw (bounds_error addr offs n st))
   | Some v \<Rightarrow> Inr (st\<lparr>operand_bytes := vs @ le_bytes k (extend sx (8 * n) (8 * k) v)\<rparr>))"
  using load_bytes_eq [OF assms(1) _ assms(3), of n offs] loads_table [OF assms(2)] by (simp add: loads_as_def wasm32_load_def wasm_load_def)

text \<open>A store that writes the low bytes of its operand.\<close>

definition stores_as :: "(u32 \<Rightarrow> interp \<Rightarrow> (interpreter_exit, interp) res) \<Rightarrow> nat \<Rightarrow> nat \<Rightarrow> bool" where
  "stores_as store w n \<longleftrightarrow> 1 \<le> n \<and> n \<le> 64 \<and>
     (\<forall>offs st vs v. operand_bytes st = vs @ le_bytes w v \<longrightarrow> store offs st = store_bytes offs (le_bytes n v) (st\<lparr>operand_bytes := vs\<rparr>))"

lemma stores_asI:
  assumes "\<And>offs st. store offs st = bindE (get_curr_val_from_operand_stack_cache w st)
        (\<lambda>(v :: 'a::len word, st). store_bytes offs (to_le n (ucast v :: 'b::len word)) st)"
    and "LENGTH('a) = 8 * w" "LENGTH('b) = 8 * n" "1 \<le> n" "n \<le> w" "n \<le> 64"
  shows "stores_as store w n"
  unfolding stores_as_def
proof (intro conjI allI impI)
  fix offs st vs v
  assume st: "operand_bytes (st :: interp) = vs @ le_bytes w v"
  let ?x = "of_nat v :: 'a word"
  have x: "unat ?x = v mod 256 ^ w" using assms(2) by (simp add: unsigned_of_nat take_bit_eq_mod [where ?'a = nat] power_mult)
  have "operand_bytes st = vs @ to_le w ?x" by (simp add: st to_le_eq x le_bytes_mod)
  then have pop: "get_curr_val_from_operand_stack_cache w st = Inr (?x, st\<lparr>operand_bytes := vs\<rparr>)" using assms(2) by (rule pop_pushed)
  have "(256 :: nat) ^ n dvd 256 ^ w" using assms(5) by (rule le_imp_power_dvd)
  then have "unat (ucast ?x :: 'b word) = v mod 256 ^ n"
    using assms(3) by (simp add: unsigned_ucast_eq take_bit_eq_mod [where ?'a = nat] power_mult x mod_mod_cancel)
  then have "to_le n (ucast ?x :: 'b word) = le_bytes n v" by (simp only: to_le_eq le_bytes_mod)
  with pop show "store offs st = store_bytes offs (le_bytes n v) (st\<lparr>operand_bytes := vs\<rparr>)" by (simp only: assms(1) bindE_simps prod.case)
qed (use assms in auto)

lemmas store_defs = uwvmint_i32_store_def uwvmint_i64_store_def uwvmint_f32_store_def uwvmint_f64_store_def
  uwvmint_i32_storeN_def uwvmint_i64_storeN_def

lemma stores_table: "(store, w, n) \<in> set stores \<Longrightarrow> stores_as store w n"
proof -
  have "stores_as uwvmint_i32_store 4 4" by (rule stores_asI [where ?'a = 32 and ?'b = 32]) (simp_all add: store_defs)
  moreover have "stores_as uwvmint_i64_store 8 8" by (rule stores_asI [where ?'a = 64 and ?'b = 64]) (simp_all add: store_defs)
  moreover have "stores_as uwvmint_f32_store 4 4" by (rule stores_asI [where ?'a = 32 and ?'b = 32]) (simp_all add: store_defs)
  moreover have "stores_as uwvmint_f64_store 8 8" by (rule stores_asI [where ?'a = 64 and ?'b = 64]) (simp_all add: store_defs)
  moreover have "stores_as (uwvmint_i32_storeN 1) 4 1" by (rule stores_asI [where ?'a = 32 and ?'b = 8]) (simp_all add: store_defs)
  moreover have "stores_as (uwvmint_i32_storeN 2) 4 2" by (rule stores_asI [where ?'a = 32 and ?'b = 16]) (simp_all add: store_defs)
  moreover have "stores_as (uwvmint_i64_storeN 1) 8 1" by (rule stores_asI [where ?'a = 64 and ?'b = 8]) (simp_all add: store_defs)
  moreover have "stores_as (uwvmint_i64_storeN 2) 8 2" by (rule stores_asI [where ?'a = 64 and ?'b = 16]) (simp_all add: store_defs)
  moreover have "stores_as (uwvmint_i64_storeN 4) 8 4" by (rule stores_asI [where ?'a = 64 and ?'b = 32]) (simp_all add: store_defs)
  ultimately show "(store, w, n) \<in> set stores \<Longrightarrow> stores_as store w n" unfolding stores_def by auto
qed

lemma store_outcome:
  assumes "memory_holds (native_memory st) mem" "(store, w, n) \<in> set stores"
    "operand_bytes st = vs @ to_le 4 addr @ le_bytes w v"
  shows "store offs st = (case wasm32_store mem (unat addr + unat offs) n v of
     None \<Rightarrow> Inl (Throw (bounds_error addr offs n st))
   | Some mem' \<Rightarrow> Inr (st\<lparr>operand_bytes := vs, native_memory := (native_memory st)\<lparr>memory_begin := Some mem'\<rparr>\<rparr>))"
proof -
  have t: "1 \<le> n" "n \<le> 64" "store offs st = store_bytes offs (le_bytes n v) (st\<lparr>operand_bytes := vs @ to_le 4 addr\<rparr>)"
    using stores_table [OF assms(2)] assms(3) unfolding stores_as_def by auto
  have "memory_holds (native_memory (st\<lparr>operand_bytes := vs @ to_le 4 addr\<rparr>)) mem" using assms(1) by simp
  from store_bytes_eq [OF this, of "le_bytes n v" vs addr offs] t show ?thesis
    by (simp add: wasm32_store_def wasm_store_def Let_def le_bytes_mod bounds_error_def)
qed

lemma wasm_store_holds:
  assumes "memory_holds m mem" "wasm32_store mem ea n v = Some mem'"
  shows "memory_holds (m\<lparr>memory_begin := Some mem'\<rparr>) mem'" "wasm32_load mem' ea n = Some (v mod 256 ^ n)"
proof -
  have m: "mem' = take ea mem @ le_bytes n (v mod 256 ^ n) @ drop (ea + n) mem" "ea + n \<le> length mem" "ea < 2 ^ 32"
    using assms(2) by (auto simp: wasm32_store_def wasm_store_def split: if_splits)
  then have l: "length mem' = length mem" by simp
  from assms(1) show "memory_holds (m\<lparr>memory_begin := Some mem'\<rparr>) mem'" by (auto simp: memory_holds_def l)
  have "take n (drop ea mem') = le_bytes n (v mod 256 ^ n)" using m by simp
  with m l show "wasm32_load mem' ea n = Some (v mod 256 ^ n)" by (simp add: wasm32_load_def wasm_load_def le_nat_bytes)
qed

text \<open>On a memory of at most 4 GiB the bound on addresses makes no difference.\<close>

lemma wasm32_access_eq:
  assumes "length mem \<le> 2 ^ 32" "1 \<le> n"
  shows "wasm32_load mem ea n = wasm_load mem ea n" "wasm32_store mem ea n v = wasm_store mem ea n v"
  using assms by (auto simp: wasm32_load_def wasm32_store_def wasm_load_def wasm_store_def)

section \<open>Growth\<close>

text \<open>The test before the growth agrees with the test in it.\<close>

lemma definitely_fails_iff:
  assumes "memory_holds m mem"
  shows "memory_grow_definitely_fails m L d = (L \<noteq> size_max \<and> unat L < length mem + unat d * page_bytes m, get_page_size m)"
proof -
  let ?l = "drop_bit (custom_page_size_log2 m) L" and ?p = "get_page_size m"
  have l: "unat ?l = unat L div page_bytes m" by (simp add: unat_drop_bit_eq drop_bit_eq_div [where ?'a = nat] page_bytes_def)
  have pos: "0 < page_bytes m" by (simp add: page_bytes_def)
  have "?p > ?l \<or> d > ?l - ?p \<longleftrightarrow> unat ?l < unat ?p + unat d"
  proof (cases "?p > ?l")
    case False
    then have "unat (?l - ?p) = unat ?l - unat ?p" "unat ?p \<le> unat ?l" by (simp_all add: unat_sub not_less word_le_nat_alt)
    with False show ?thesis by (auto simp: word_less_nat_alt)
  qed (simp add: word_less_nat_alt)
  also have "\<dots> \<longleftrightarrow> unat L < (unat ?p + unat d) * page_bytes m" unfolding l using pos by (rule div_less_iff_less_mult)
  also have "(unat ?p + unat d) * page_bytes m = length mem + unat d * page_bytes m"
    by (simp add: memory_holds_pages [OF assms] add_mult_distrib)
  finally show ?thesis by (simp add: memory_grow_definitely_fails_def Let_def)
qed

lemma memory_grow_eq:
  assumes "memory_holds (native_memory st) mem" "allocator_ok al" "allocator_ok sa" "operand_bytes st = vs @ to_le 4 (delta :: u32)"
  shows "uwvmint_memory_grow strict al sa L st =
     (let m = native_memory st; grow_size = unat delta * page_bytes m;
          done_with = (\<lambda>r m. Inr (st\<lparr>operand_bytes := vs @ to_le 4 (r :: u32), native_memory := m\<rparr>)) in
      if unat L < length mem + grow_size then
        (if strict \<or> L \<noteq> size_max then done_with (- 1) m else Inl (Throw (exit_process fast_terminate)))
      else if delta = 0 \<or> host_can_grow (if strict then sa else al) m (ucast delta)
      then done_with (ucast (get_page_size m)) (grown m grow_size)
      else if strict then done_with (- 1) m else Inl (Throw (exit_process fast_terminate)))"
proof -
  have "unat delta < 2 ^ LENGTH(32)" by (rule unsigned_less)
  then have u: "unat (ucast delta :: u64) = unat delta" by (simp add: unsigned_ucast_eq take_bit_nat_eq_self)
  have z: "(ucast delta :: u64) = 0 \<longleftrightarrow> delta = 0" by (metis u unat_eq_zero)
  have g0: "grown (native_memory st) 0 = native_memory st" using assms(1) by (simp add: grown_def memory_holds_def)
  have "length mem \<le> unat L" if "L = size_max"
  proof -
    have "unat (memory_length (native_memory st)) < 2 ^ LENGTH(64)" by (rule unsigned_less)
    then show ?thesis using assms(1) that by (simp add: memory_holds_def unsigned_minus_1_eq_mask mask_eq_exp_minus_1)
  qed
  then show ?thesis
    by (auto simp: uwvmint_memory_grow_def pop_pushed [OF assms(4)] definitely_fails_iff [OF assms(1)] grow_strictly_eq [OF assms(3,1)]
        grow_silently_eq [OF assms(2,1)] lift_exit_def push_val_def u z g0 Let_def)
qed

text \<open>\<open>memory.size\<close> pushes the number of pages, and a report of an access gives back its dynamic address.\<close>

lemma memory_size_eq:
  assumes "memory_holds (native_memory st) mem" "length mem < 2 ^ 32 * page_bytes (native_memory st)"
  shows "uwvmint_memory_size st = st\<lparr>operand_bytes := operand_bytes st @ le_bytes 4 (length mem div page_bytes (native_memory st))\<rparr>"
proof -
  let ?p = "get_page_size (native_memory st)"
  have "0 < page_bytes (native_memory st)" by (simp add: page_bytes_def)
  moreover note memory_holds_pages [OF assms(1)]
  ultimately have "unat ?p = length mem div page_bytes (native_memory st)" "unat ?p < 2 ^ 32" using assms(2) by simp_all
  then show ?thesis by (simp add: uwvmint_memory_size_def push_val_def to_le_eq unsigned_ucast_eq take_bit_nat_eq_self)
qed

lemma get_dynamic_offset_effective:
  "get_dynamic_offset (wasm32_effective_offset a o1) (ucast o1) = ucast a" "get_dynamic_offset (wasm64_effective_offset b o2) o2 = b"
  by (simp_all add: get_dynamic_offset_def wasm32_effective_offset_def wasm64_effective_offset_def add_overflow_def Let_def)

section \<open>Limits\<close>

text \<open>
  The limit that the translator passes to \<open>memory.grow\<close>: the declared maximum in bytes, or none; a memory with an allocator sets no limit of its own.
\<close>

definition max_limit_from_limits :: "bool \<Rightarrow> u64 \<Rightarrow> u64" where
  "max_limit_from_limits present_maximum maximum =
     (if \<not> present_maximum then size_max
      else if maximum > size_max div 65536 then size_max
      else maximum * 65536)"

definition refine_max_limit_for_memory :: "u64 \<Rightarrow> u64" where
  "refine_max_limit_for_memory max_limit_memory_length =
     (let backend_max_limit_length = size_max in
      if backend_max_limit_length < max_limit_memory_length then backend_max_limit_length else max_limit_memory_length)"

section \<open>Properties\<close>

text \<open>
  \<^bold>\<open>C11.\<close> Loads: every load of the interpreter traps exactly if the address, computed without wrapping, and the bytes read leave the
  memory or the address is 4 GiB or more, reporting the access; otherwise it replaces the address on the operand stack by the little-endian
  number in the memory, extended to the width of the result. On a memory of at most 4 GiB this is the load of the specification; on a
  larger one, which the memory class does not exclude, a load inside the memory that starts at or beyond 4 GiB traps.
\<close>

theorem memory_loads_match_spec:
  assumes "memory_holds (native_memory st) mem" "(load, n, k, sx) \<in> set loads" "operand_bytes st = vs @ to_le 4 addr"
  shows "load offs st = (case wasm32_load mem (unat addr + unat offs) n of
     None \<Rightarrow> Inl (Throw (bounds_error addr offs n st))
   | Some v \<Rightarrow> Inr (st\<lparr>operand_bytes := vs @ le_bytes k (extend sx (8 * n) (8 * k) v)\<rparr>)) \<and>
   (length mem \<le> 2 ^ 32 \<longrightarrow> wasm32_load mem (unat addr + unat offs) n = wasm_load mem (unat addr + unat offs) n)"
  using load_outcome [OF assms] wasm32_access_eq(1) loads_table [OF assms(2)] by (simp add: loads_as_def)

text \<open>A memory with two pages of four bytes.\<close>

definition example_memory :: single_thread_allocator_memory_t where
  "example_memory = \<lparr>memory_begin = Some [1, 2, 3, 4, 5, 6, 7, 0x88], memory_length = 8, custom_page_size_log2 = 2, diagnostic_owner_memory_index = 0\<rparr>"

definition example_interp :: "byte list \<Rightarrow> interp" where
  "example_interp bs = \<lparr>operand_bytes = bs, native_memory = example_memory\<rparr>"

lemma example_memory_holds: "memory_holds (native_memory (example_interp bs)) [1, 2, 3, 4, 5, 6, 7, 0x88]"
proof -
  have "memory_holds example_memory [1, 2, 3, 4, 5, 6, 7, 0x88]" by code_simp
  then show ?thesis by (simp add: example_interp_def)
qed

theorem memory_loads_match_spec_witness:
  "uwvmint_i32_load16 True 2 (example_interp ([9] @ to_le 4 (4 :: u32))) = Inr (example_interp ([9] @ [7, 0x88, 0xff, 0xff])) \<and>
   uwvmint_i32_load 2 (example_interp ([9] @ to_le 4 (4 :: u32))) = Inl (Throw (bounds_error 4 2 4 (example_interp ([9] @ to_le 4 (4 :: u32)))))"
proof -
  note h = memory_loads_match_spec [OF example_memory_holds, where vs = "[9]" and addr = "4 :: u32"]
  have "uwvmint_i32_load16 True 2 (example_interp ([9] @ to_le 4 (4 :: u32))) =
      Inr ((example_interp ([9] @ to_le 4 (4 :: u32)))\<lparr>operand_bytes := [9] @ le_bytes 4 (extend True 16 32 (le_nat [7, 0x88]))\<rparr>)"
    using h [where load = "uwvmint_i32_load16 True" and n = 2 and k = 4 and sx = True and offs = 2] by (simp add: loads_def example_interp_def wasm_load_def)
  moreover have "le_bytes 4 (extend True 16 32 (le_nat [7, 0x88])) = [7, 0x88, 0xff, 0xff]"
    by (simp add: le_bytes_numeral extend_def to_int_def signed_int_def)
  ultimately show ?thesis using h [where load = uwvmint_i32_load and n = 4 and k = 4 and sx = False and offs = 2] by (simp add: loads_def example_interp_def wasm_load_def)
qed

text \<open>
  \<^bold>\<open>C12.\<close> Stores: every store traps exactly if the bytes written leave the memory or the address, computed without wrapping, is 4 GiB or
  more, and then writes nothing; otherwise it replaces exactly these bytes by the low bytes of its operand and pops both operands, and the length
  and pages of the memory stay as they are. On a memory of at most 4 GiB this is the store of the specification; on a larger one, which the
  memory class does not exclude, a store inside the memory that starts at or beyond 4 GiB traps.
\<close>

theorem memory_stores_match_spec:
  assumes "memory_holds (native_memory st) mem" "(store, w, n) \<in> set stores"
    "operand_bytes st = vs @ to_le 4 addr @ le_bytes w v"
  shows "(case wasm32_store mem (unat addr + unat offs) n v of
     None \<Rightarrow> store offs st = Inl (Throw (bounds_error addr offs n st))
   | Some mem' \<Rightarrow> \<exists>st'. store offs st = Inr st' \<and> operand_bytes st' = vs \<and> memory_holds (native_memory st') mem' \<and>
       get_page_size (native_memory st') = get_page_size (native_memory st)) \<and>
   (length mem \<le> 2 ^ 32 \<longrightarrow> wasm32_store mem (unat addr + unat offs) n v = wasm_store mem (unat addr + unat offs) n v)"
proof -
  have "1 \<le> n" using stores_table [OF assms(2)] by (simp add: stores_as_def)
  then show ?thesis
    using store_outcome [OF assms, of offs] wasm_store_holds(1) [OF assms(1)] wasm32_access_eq(2)
    by (simp add: get_page_size_def split: option.split)
qed

theorem memory_stores_match_spec_witness:
  "\<exists>st'. uwvmint_i32_storeN 2 1 (example_interp (to_le 4 (4 :: u32) @ [0xaa, 0xbb, 0xcc, 0xdd])) = Inr st' \<and>
     memory_holds (native_memory st') [1, 2, 3, 4, 5, 0xaa, 0xbb, 0x88]"
proof -
  have "le_bytes 4 0xddccbbaa = [0xaa, 0xbb, 0xcc, 0xdd]" by (simp add: le_bytes_numeral)
  moreover have "wasm_store [1, 2, 3, 4, 5, 6, 7, 0x88] 5 2 0xddccbbaa = Some [1, 2, 3, 4, 5, 0xaa, 0xbb, 0x88]"
    by (simp add: wasm_store_def le_bytes_numeral)
  ultimately show ?thesis
    using memory_stores_match_spec [OF example_memory_holds [of "to_le 4 (4 :: u32) @ [0xaa, 0xbb, 0xcc, 0xdd]"],
        where vs = "[]" and addr = "4 :: u32" and v = "0xddccbbaa" and offs = 1 and store = "uwvmint_i32_storeN 2" and w = 4 and n = 2]
    by (auto simp: stores_def example_interp_def)
qed

text \<open>
  What is stored is read back: after a store that did not trap, a load of the same width from the same address pushes the low bytes of the
  operand, extended to the width of its result.
\<close>

theorem memory_store_load:
  assumes "memory_holds (native_memory st) mem" "(store, w, n) \<in> set stores" "(load, n, k, sx) \<in> set loads"
    and "operand_bytes st = vs @ to_le 4 (addr :: u32) @ le_bytes w v" "store offs st = Inr st'"
  shows "load offs (st'\<lparr>operand_bytes := vs @ to_le 4 addr\<rparr>) =
     Inr (st'\<lparr>operand_bytes := vs @ le_bytes k (extend sx (8 * n) (8 * k) (v mod 256 ^ n))\<rparr>)"
proof -
  obtain mem' where m: "wasm32_store mem (unat addr + unat offs) n v = Some mem'"
      "st' = st\<lparr>operand_bytes := vs, native_memory := (native_memory st)\<lparr>memory_begin := Some mem'\<rparr>\<rparr>"
    using store_outcome [OF assms(1,2,4), of offs] assms(5) by (auto split: option.splits)
  note h = wasm_store_holds [OF assms(1) m(1)]
  have "memory_holds (native_memory (st'\<lparr>operand_bytes := vs @ to_le 4 addr\<rparr>)) mem'" using h(1) m(2) by simp
  from load_outcome [OF this assms(3), of vs addr offs] h(2) show ?thesis by simp
qed

theorem memory_store_load_witness:
  "\<exists>st'. uwvmint_i64_storeN 2 0 (example_interp (to_le 4 (4 :: u32) @ [0xaa, 0xbb, 0xcc, 0xdd, 0, 0, 0, 0])) = Inr st' \<and>
     uwvmint_i32_load16 False 0 (st'\<lparr>operand_bytes := to_le 4 (4 :: u32)\<rparr>) = Inr (st'\<lparr>operand_bytes := [0xaa, 0xbb, 0, 0]\<rparr>)"
proof -
  let ?st = "example_interp ([] @ to_le 4 (4 :: u32) @ le_bytes 8 0xddccbbaa)"
  have b: "le_bytes 8 0xddccbbaa = [0xaa, 0xbb, 0xcc, 0xdd, 0, 0, 0, 0]" by (simp add: le_bytes_numeral)
  have "uwvmint_i64_storeN 2 0 (example_interp (to_le 4 (4 :: u32) @ [0xaa, 0xbb, 0xcc, 0xdd, 0, 0, 0, 0])) =
      Inr \<lparr>operand_bytes = [], native_memory = example_memory\<lparr>memory_begin := Some [1, 2, 3, 4, 0xaa, 0xbb, 7, 0x88]\<rparr>\<rparr>" by code_simp
  then have s: "uwvmint_i64_storeN 2 0 ?st =
      Inr \<lparr>operand_bytes = [], native_memory = example_memory\<lparr>memory_begin := Some [1, 2, 3, 4, 0xaa, 0xbb, 7, 0x88]\<rparr>\<rparr>" by (simp add: b)
  have e: "le_bytes 4 (extend False (8 * 2) (8 * 4) (0xddccbbaa mod 256 ^ 2)) = [0xaa, 0xbb, 0, 0]" by (simp add: le_bytes_numeral extend_def)
  show ?thesis
    using memory_store_load [where st = ?st and store = "uwvmint_i64_storeN 2" and load = "uwvmint_i32_load16 False" and w = 8 and n = 2
        and k = 4 and sx = False and vs = "[]" and addr = 4 and v = "0xddccbbaa" and offs = 0, OF example_memory_holds] s b e
    by (auto simp: stores_def loads_def example_interp_def)
qed

text \<open>
  \<^bold>\<open>C13.\<close> \<open>memory.grow\<close>, exactly: if the bytes asked for exceed the limit the result is -1 and the memory is unchanged; otherwise, if the host has
  the memory, the result is the old number of pages and the memory holds its old bytes followed by zeros; if the host
  has not, the strict policy gives -1 and the silent policy ends the process. The test before the growth and the test in it
  never disagree; with no limit at all, a request beyond 64 bits ends the process under the silent policy.
\<close>

theorem memory_grow_outcome:
  assumes "memory_holds (native_memory st) mem" "allocator_ok al" "allocator_ok sa" "operand_bytes st = vs @ to_le 4 (delta :: u32)"
  shows "let m = native_memory st; mem' = mem @ replicate (unat delta * page_bytes m) 0; r = uwvmint_memory_grow strict al sa L st in
     if length mem' \<le> unat L \<and> (delta = 0 \<or> host_can_grow (if strict then sa else al) m (ucast delta)) then
       \<exists>m'. r = Inr (st\<lparr>operand_bytes := vs @ to_le 4 (ucast (get_page_size m) :: u32), native_memory := m'\<rparr>) \<and> memory_holds m' mem'
     else if strict \<or> unat L < length mem' \<and> L \<noteq> size_max then r = Inr (st\<lparr>operand_bytes := vs @ to_le 4 (- 1 :: u32)\<rparr>)
     else r = Inl (Throw (exit_process fast_terminate))"
proof -
  let ?m = "native_memory st" and ?g = "unat delta * page_bytes (native_memory st)"
  have "unat L < 2 ^ LENGTH(64)" by (rule unsigned_less)
  then have h: "memory_holds (grown ?m ?g) (mem @ replicate ?g 0)" if "length mem + ?g \<le> unat L"
    using that by (intro grown_holds assms(1)) simp_all
  show ?thesis
  proof (cases "unat L < length mem + ?g")
    case True
    then show ?thesis unfolding Let_def memory_grow_eq [OF assms] by auto
  next
    case False
    with h have "memory_holds (grown ?m ?g) (mem @ replicate ?g 0)" by simp
    with False show ?thesis unfolding Let_def memory_grow_eq [OF assms] by auto
  qed
qed

text \<open>An allocator that copies, on a host with 64 bytes.\<close>

definition example_allocator :: allocator where
  "example_allocator =
     \<lparr>has_reallocate_aligned_zero = False, has_reallocate_aligned = False,
      allocate_aligned_zero = (\<lambda>n. if n \<le> 64 then Some (replicate (unat n) 0) else None),
      reallocate_aligned = (\<lambda>_ _. None), reallocate_aligned_zero = (\<lambda>_ _. None)\<rparr>"

lemma example_allocator_ok: "allocator_ok example_allocator"
  by (simp add: allocator_ok_def example_allocator_def)

theorem memory_grow_outcome_witness:
  "(\<exists>m'. uwvmint_memory_grow False example_allocator example_allocator 12 (example_interp (to_le 4 (1 :: u32))) =
       Inr \<lparr>operand_bytes = to_le 4 (2 :: u32), native_memory = m'\<rparr> \<and>
     memory_holds m' [1, 2, 3, 4, 5, 6, 7, 0x88, 0, 0, 0, 0]) \<and>
   uwvmint_memory_grow False example_allocator example_allocator 12 (example_interp (to_le 4 (2 :: u32))) =
     Inr (example_interp (to_le 4 (- 1 :: u32)))"
proof -
  have v: "page_bytes example_memory = 4" "get_page_size example_memory = 2" "host_can_grow example_allocator example_memory 1" by code_simp+
  have r: "replicate 4 (0 :: byte) = [0, 0, 0, 0]" by (simp add: eval_nat_numeral)
  have n: "native_memory (example_interp bs) = example_memory" for bs by (simp add: example_interp_def)
  note h = memory_grow_outcome [OF _ example_allocator_ok example_allocator_ok, where strict = False and L = 12 and vs = "[]"
      and st = "example_interp bs" for bs, OF example_memory_holds, unfolded n v Let_def]
  have u: "(ucast (1 :: u32) :: u64) = 1" "(ucast (2 :: u64) :: u32) = 2" by simp_all
  from h [of "to_le 4 (1 :: u32)" 1] v(3)
  have "\<exists>m'. uwvmint_memory_grow False example_allocator example_allocator 12 (example_interp (to_le 4 (1 :: u32))) =
       Inr \<lparr>operand_bytes = to_le 4 (2 :: u32), native_memory = m'\<rparr> \<and> memory_holds m' [1, 2, 3, 4, 5, 6, 7, 0x88, 0, 0, 0, 0]"
    by (simp add: r u) (simp add: example_interp_def)
  moreover from h [of "to_le 4 (2 :: u32)" 2]
  have "uwvmint_memory_grow False example_allocator example_allocator 12 (example_interp (to_le 4 (2 :: u32))) = Inr (example_interp (to_le 4 (- 1 :: u32)))"
    by simp (simp add: example_interp_def)
  ultimately show ?thesis by blast
qed

text \<open>
  A memory with an allocator and no declared maximum has no limit at all: it grows past the 65536 pages (4 GiB) that the
  specification allows.
\<close>

theorem memory_grow_past_65536_pages:
  assumes "memory_holds (native_memory st) mem" "allocator_ok al" "allocator_ok sa" "operand_bytes st = vs @ to_le 4 (65536 :: u32)"
    and "custom_page_size_log2 (native_memory st) = 16" "length mem = 65536" "host_can_grow sa (native_memory st) 65536"
  shows "\<exists>st' mem'. uwvmint_memory_grow True al sa (refine_max_limit_for_memory (max_limit_from_limits False x)) st = Inr st' \<and>
     memory_holds (native_memory st') mem' \<and> length mem' = 65537 * 65536"
proof -
  have L: "refine_max_limit_for_memory (max_limit_from_limits False x) = size_max"
    by (simp add: refine_max_limit_for_memory_def max_limit_from_limits_def)
  have p: "page_bytes (native_memory st) = 65536" using assms(5) by (simp add: page_bytes_def)
  have g: "memory_holds (grown (native_memory st) (65536 * 65536)) (mem @ replicate (65536 * 65536) 0)"
    using assms(6) p by (intro grown_holds assms(1)) simp_all
  have "uwvmint_memory_grow True al sa size_max st = Inr (st\<lparr>operand_bytes := vs @ to_le 4 (ucast (get_page_size (native_memory st)) :: u32),
      native_memory := grown (native_memory st) (65536 * 65536)\<rparr>)" (is "_ = Inr ?st")
    using memory_grow_eq [OF assms(1-4), of True size_max] p assms(6,7)
    by (simp add: Let_def unsigned_minus_1_eq_mask mask_eq_exp_minus_1)
  moreover have "memory_holds (native_memory ?st) (mem @ replicate (65536 * 65536) 0)" using g by simp
  moreover have "length (mem @ replicate (65536 * 65536) (0 :: byte)) = 65537 * 65536" using assms(6) by simp
  ultimately show ?thesis unfolding L by blast
qed

definition unbounded_allocator :: allocator where
  "unbounded_allocator = example_allocator\<lparr>allocate_aligned_zero := (\<lambda>n. Some (replicate (unat n) 0))\<rparr>"

theorem memory_grow_past_65536_pages_witness:
  "\<exists>st' mem'. uwvmint_memory_grow True unbounded_allocator unbounded_allocator (refine_max_limit_for_memory (max_limit_from_limits False 0))
       \<lparr>operand_bytes = to_le 4 (65536 :: u32), native_memory = \<lparr>memory_begin = Some (replicate 65536 0), memory_length = 65536,
          custom_page_size_log2 = 16, diagnostic_owner_memory_index = 0\<rparr>\<rparr> = Inr st' \<and>
     memory_holds (native_memory st') mem' \<and> length mem' = 65537 * 65536"
  by (rule memory_grow_past_65536_pages [where vs = "[]" and mem = "replicate 65536 0"])
    (simp_all add: memory_holds_def allocator_ok_def unbounded_allocator_def example_allocator_def host_can_grow_def enlarged_block_def Let_def)

end
