(* ===== verification/Mmap_Memory.thy ===== *)
theory Mmap_Memory
  imports Memory_Ops
begin

text \<open>
  Linear memories on reserved address space: \<open>mmap_memory_t\<close> of \<^verbatim>\<open>object/memory/linear/mmap.h\<close> and the checks of bounds that the
  interpreter chooses for it (\<^verbatim>\<open>optable/memory.h\<close>), on a POSIX host with 64-bit addresses. The class reserves more address space than the memory
  may ever use, makes the part in use accessible, and leaves most checks to the protection of the rest. The address
  space of a memory is a pair of numbers here, the bytes reserved and the bytes accessible from its begin; whether the
  kernel grants a request is a parameter. The platform page size is the parameter \<open>page_size\<close>.
\<close>

unbundle bit_operations_syntax

section \<open>The class\<close>

datatype mmap_memory_status_t = status_wasm32 | status_wasm64

record mmap_memory_t =
  mapped :: "(nat \<times> nat) option"
  mmap_length :: u64
  mmap_page_size_log2 :: nat
  require_dynamic_determination_memory_size :: bool
  mmap_status :: mmap_memory_status_t
  reservation_limit_bytes :: u64

definition max_partial_protection_wasm64_length :: u64 where
  "max_partial_protection_wasm64_length = push_bit 40 1"

definition max_full_protection_wasm32_length :: u64 where
  "max_full_protection_wasm32_length = push_bit 33 1"

definition mmap_guard_max_access_size :: u64 where
  "mmap_guard_max_access_size = 64"

definition wasm32_max_effective_offset :: u64 where
  "wasm32_max_effective_offset = 0x1fffffffe"

definition wasm32_full_protection_covers_access :: "u64 \<Rightarrow> u64 \<Rightarrow> bool" where
  "wasm32_full_protection_covers_access effective_offset access_size \<longleftrightarrow>
     effective_offset \<le> wasm32_max_effective_offset \<and> access_size \<le> mmap_guard_max_access_size"

definition custom_page_mmap_memory :: "u64 \<Rightarrow> u64 \<Rightarrow> mmap_memory_status_t \<Rightarrow> (memory_exit, mmap_memory_t) res" where
  "custom_page_mmap_memory page_size custom_page_size memory_status =
     bindE (throw_if (popcount custom_page_size \<noteq> 1) fast_terminate) (\<lambda>_.
     bindE (throw_if (page_size = 0) fast_terminate) (\<lambda>_.
     Inr \<lparr>mapped = None, mmap_length = 0, mmap_page_size_log2 = countr_zero custom_page_size,
          require_dynamic_determination_memory_size = custom_page_size < page_size, mmap_status = memory_status,
          reservation_limit_bytes = size_max\<rparr>))"

text \<open>The most bytes that a memory may have, and the bytes of address space it protects.\<close>

definition max_page_memory_length :: "mmap_memory_status_t \<Rightarrow> u64" where
  "max_page_memory_length s =
     (case s of status_wasm32 \<Rightarrow> max_full_protection_wasm32_length div 2 | status_wasm64 \<Rightarrow> max_partial_protection_wasm64_length)"

definition max_protection_space :: "mmap_memory_status_t \<Rightarrow> u64" where
  "max_protection_space s =
     (case s of status_wasm32 \<Rightarrow> max_full_protection_wasm32_length | status_wasm64 \<Rightarrow> max_partial_protection_wasm64_length)"

text \<open>\<^verbatim>\<open>(length + page_size_minus_1) & ~page_size_minus_1\<close>\<close>

definition page_ceil :: "u64 \<Rightarrow> u64 \<Rightarrow> u64" where
  "page_ceil page_size len = (len + (page_size - 1)) AND NOT (page_size - 1)"

text \<open>The limit that a memory of 64-bit addresses takes from its declared maximum.\<close>

definition set_reservation_limit :: "u64 \<Rightarrow> mmap_memory_t \<Rightarrow> mmap_memory_t" where
  "set_reservation_limit declared_max_pages m =
     (if mapped m = None \<and> mmap_status m = status_wasm64 then
        let k = mmap_page_size_log2 m;
            platform_max_pages = drop_bit k max_partial_protection_wasm64_length;
            limit = push_bit k (min declared_max_pages platform_max_pages) in
        m\<lparr>reservation_limit_bytes := limit,
          require_dynamic_determination_memory_size :=
            require_dynamic_determination_memory_size m \<or> limit < max_partial_protection_wasm64_length\<rparr>
      else m)"

text \<open>\<open>sys_mmap\<close> and \<open>sys_mprotect\<close> say whether the kernel grants a request of that many bytes.\<close>

definition mmap_init_by_page_count ::
    "(u64 \<Rightarrow> bool) \<Rightarrow> (u64 \<Rightarrow> u64 \<Rightarrow> bool) \<Rightarrow> u64 \<Rightarrow> u64 \<Rightarrow> u64 \<Rightarrow> mmap_memory_t \<Rightarrow> (memory_exit, mmap_memory_t) res" where
  "mmap_init_by_page_count sys_mmap sys_mprotect page_size init_page_count declared_max_pages m0 =
     (let m = set_reservation_limit declared_max_pages m0; k = mmap_page_size_log2 m;
          max_init_page_count = min (drop_bit k (max_page_memory_length (mmap_status m))) (drop_bit k (reservation_limit_bytes m)) in
      bindE (throw_if (init_page_count > max_init_page_count) fast_terminate) (\<lambda>_.
      if mapped m = None then
        let custom_page_size = push_bit k 1;
            len = push_bit k init_page_count;
            space = min (max_protection_space (mmap_status m)) (reservation_limit_bytes m) in
        bindE (throw_if (custom_page_size > size_max - space) fast_terminate) (\<lambda>_.
        bindE (throw_if (custom_page_size > size_max - (space + mmap_guard_max_access_size)) fast_terminate) (\<lambda>_.
        let max_space = space + mmap_guard_max_access_size + custom_page_size in
        bindE (throw_if (\<not> sys_mmap max_space) fast_terminate) (\<lambda>_.
        if len \<noteq> 0 then
          bindE (throw_if (len > size_max - (page_size - 1)) fast_terminate) (\<lambda>_.
          bindE (throw_if (\<not> sys_mprotect 0 (page_ceil page_size len)) fast_terminate) (\<lambda>_.
          Inr (m\<lparr>mapped := Some (unat max_space, unat (page_ceil page_size len)), mmap_length := len\<rparr>)))
        else Inr (m\<lparr>mapped := Some (unat max_space, 0), mmap_length := len\<rparr>))))
      else Inr m))"

definition mmap_get_page_size :: "mmap_memory_t \<Rightarrow> u64" where
  "mmap_get_page_size m = drop_bit (mmap_page_size_log2 m) (mmap_length m)"

definition mmap_try_grow_silently ::
    "(u64 \<Rightarrow> u64 \<Rightarrow> bool) \<Rightarrow> u64 \<Rightarrow> u64 \<Rightarrow> u64 \<Rightarrow> mmap_memory_t \<Rightarrow> (memory_exit, bool \<times> u64 option \<times> mmap_memory_t) res" where
  "mmap_try_grow_silently sys_mprotect page_size page_grow_size max_limit_memory_length m =
     (if page_grow_size = 0 then Inr (True, Some (mmap_get_page_size m), m)
      else case mapped m of
        None \<Rightarrow> Inl (Throw trap_and_inform_bug_pos)
      | Some (reserved, accessible) \<Rightarrow>
          if page_grow_size > drop_bit (mmap_page_size_log2 m) size_max then Inr (False, None, m)
          else
            let memory_grow_size = push_bit (mmap_page_size_log2 m) page_grow_size;
                current_length = mmap_length m;
                old = drop_bit (mmap_page_size_log2 m) current_length;
                limit = min max_limit_memory_length (min (max_page_memory_length (mmap_status m)) (reservation_limit_bytes m)) in
            if limit < current_length then Inr (False, Some old, m)
            else if memory_grow_size > limit - current_length then Inr (False, Some old, m)
            else
              let final = current_length + memory_grow_size in
              bindE (throw_if (page_size = 0) fast_terminate) (\<lambda>_.
              bindE (throw_if (final > size_max - (page_size - 1)) fast_terminate) (\<lambda>_.
              bindE (throw_if (\<not> sys_mprotect 0 (page_ceil page_size final)) fast_terminate) (\<lambda>_.
              Inr (True, Some old, m\<lparr>mapped := Some (reserved, unat (page_ceil page_size final)), mmap_length := final\<rparr>)))))"

definition mmap_grow_silently ::
    "(u64 \<Rightarrow> u64 \<Rightarrow> bool) \<Rightarrow> u64 \<Rightarrow> u64 \<Rightarrow> u64 \<Rightarrow> mmap_memory_t \<Rightarrow> (memory_exit, mmap_memory_t) res" where
  "mmap_grow_silently sys_mprotect page_size page_grow_size max_limit_memory_length m =
     bindE (mmap_try_grow_silently sys_mprotect page_size page_grow_size max_limit_memory_length m) (\<lambda>(ok, _, m').
     bindE (throw_if (\<not> ok) fast_terminate) (\<lambda>_. Inr m'))"

text \<open>
  When the kernel refuses to make the new pages accessible it may have changed some of them; \<open>reprotect\<close> says whether it then grants the
  request to protect them again.
\<close>

definition mmap_grow_strictly ::
    "(u64 \<Rightarrow> u64 \<Rightarrow> bool) \<Rightarrow> (u64 \<Rightarrow> u64 \<Rightarrow> bool) \<Rightarrow> u64 \<Rightarrow> u64 \<Rightarrow> u64 \<Rightarrow> mmap_memory_t \<Rightarrow>
      (memory_exit, bool \<times> u64 option \<times> mmap_memory_t) res" where
  "mmap_grow_strictly sys_mprotect reprotect page_size page_grow_size max_limit_memory_length m =
     (if page_grow_size = 0 then Inr (True, Some (mmap_get_page_size m), m)
      else case mapped m of
        None \<Rightarrow> Inl (Throw trap_and_inform_bug_pos)
      | Some (reserved, accessible) \<Rightarrow>
          if page_grow_size > drop_bit (mmap_page_size_log2 m) size_max then Inr (False, None, m)
          else
            let memory_grow_size = push_bit (mmap_page_size_log2 m) page_grow_size;
                current_length = mmap_length m;
                old = drop_bit (mmap_page_size_log2 m) current_length;
                limit = min max_limit_memory_length (min (max_page_memory_length (mmap_status m)) (reservation_limit_bytes m)) in
            if limit < current_length then Inl (Throw fast_terminate)
            else if memory_grow_size > limit - current_length then Inr (False, Some old, m)
            else
              let final = current_length + memory_grow_size in
              bindE (throw_if (page_size = 0) fast_terminate) (\<lambda>_.
              if current_length > size_max - (page_size - 1) then Inr (False, Some old, m)
              else if final > size_max - (page_size - 1) then Inr (False, Some old, m)
              else
                let current_ceil = page_ceil page_size current_length; final_ceil = page_ceil page_size final in
                if final_ceil > current_ceil \<and> \<not> sys_mprotect current_ceil (final_ceil - current_ceil) then
                  bindE (throw_if (\<not> require_dynamic_determination_memory_size m) fast_terminate) (\<lambda>_.
                  bindE (throw_if (\<not> reprotect current_ceil (final_ceil - current_ceil)) fast_terminate) (\<lambda>_.
                  Inr (False, Some old, m)))
                else
                  Inr (True, Some old,
                    m\<lparr>mapped := Some (reserved, if final_ceil > current_ceil then unat final_ceil else accessible), mmap_length := final\<rparr>)))"

section \<open>The checks of bounds\<close>

datatype mmap_variant = variant_full | variant_full_standard_page | variant_path | variant_judge

definition select_mmap_variant :: "mmap_memory_t \<Rightarrow> mmap_variant" where
  "select_mmap_variant m =
     (if require_dynamic_determination_memory_size m then variant_judge
      else if mmap_status m = status_wasm32 then (if mmap_page_size_log2 m = 16 then variant_full_standard_page else variant_full)
      else variant_path)"

definition wasm32_full_mmap_can_use_hardware_bounds :: "memory_offset_t \<Rightarrow> u64 \<Rightarrow> bool" where
  "wasm32_full_mmap_can_use_hardware_bounds eff wasm_bytes \<longleftrightarrow>
     wasm32_full_protection_covers_access (offset eff) wasm_bytes \<and> (\<not> offset_65_bit eff \<or> offset eff > 0xffffffff)"

definition offset_in_pow2_bound :: "nat \<Rightarrow> u64 \<Rightarrow> bool" where
  "offset_in_pow2_bound shift off \<longleftrightarrow> shift \<ge> 64 \<or> drop_bit shift off = 0"

text \<open>
  The ways an access ends: the check refuses it, the hardware refuses it (the handler of the signal reports the same trap), or the
  hardware refuses it after a part of a store has been written.
\<close>

datatype access_exit = software_trap | protection_fault | torn_store

definition bounds_check_mmap_full :: "mmap_memory_t \<Rightarrow> memory_offset_t \<Rightarrow> u64 \<Rightarrow> (access_exit, unit) res" where
  "bounds_check_mmap_full m eff wasm_bytes =
     throw_if (\<not> wasm32_full_mmap_can_use_hardware_bounds eff wasm_bytes \<and> access_out_of_bounds (mmap_length m) eff wasm_bytes) software_trap"

definition bounds_check_mmap_full_standard_page :: "mmap_memory_t \<Rightarrow> memory_offset_t \<Rightarrow> u64 \<Rightarrow> (access_exit, unit) res" where
  "bounds_check_mmap_full_standard_page m eff wasm_bytes = bounds_check_mmap_full m eff wasm_bytes"

definition bounds_check_mmap_path :: "mmap_memory_t \<Rightarrow> memory_offset_t \<Rightarrow> u64 \<Rightarrow> (access_exit, unit) res" where
  "bounds_check_mmap_path m eff wasm_bytes = throw_if (offset_65_bit eff \<or> \<not> offset_in_pow2_bound 40 (offset eff)) software_trap"

definition bounds_check_mmap_judge :: "mmap_memory_t \<Rightarrow> memory_offset_t \<Rightarrow> u64 \<Rightarrow> (access_exit, unit) res" where
  "bounds_check_mmap_judge m eff wasm_bytes = throw_if (access_out_of_bounds (mmap_length m) eff wasm_bytes) software_trap"

definition bounds_check :: "mmap_memory_t \<Rightarrow> memory_offset_t \<Rightarrow> u64 \<Rightarrow> (access_exit, unit) res" where
  "bounds_check m =
     (case select_mmap_variant m of
        variant_full \<Rightarrow> bounds_check_mmap_full m
      | variant_full_standard_page \<Rightarrow> bounds_check_mmap_full_standard_page m
      | variant_path \<Rightarrow> bounds_check_mmap_path m
      | variant_judge \<Rightarrow> bounds_check_mmap_judge m)"

text \<open>The hardware: bytes that are reserved and not accessible fault, and outside the reservation anything may happen.\<close>

definition touch :: "mmap_memory_t \<Rightarrow> u64 \<Rightarrow> nat \<Rightarrow> (access_exit, unit) res" where
  "touch m off n =
     (case mapped m of
        None \<Rightarrow> Inl UB
      | Some (reserved, accessible) \<Rightarrow>
          if unat off + n \<le> accessible then Inr ()
          else if unat off + n \<le> reserved then Inl (Throw protection_fault) else Inl UB)"

definition mmap_load :: "mmap_memory_t \<Rightarrow> memory_offset_t \<Rightarrow> nat \<Rightarrow> (access_exit, unit) res" where
  "mmap_load m eff wasm_bytes =
     bindE (bounds_check m eff (of_nat wasm_bytes)) (\<lambda>_. touch m (offset eff) wasm_bytes)"

text \<open>
  Before a store that crosses the end of a page its last byte is read: the page is that of the memory, or the constant 65536 in the
  variant for standard pages.
\<close>

definition prepare_memory_store :: "mmap_memory_t \<Rightarrow> u64 \<Rightarrow> u64 \<Rightarrow> (access_exit, unit) res" where
  "prepare_memory_store m effective_offset wasm_bytes =
     (if wasm_bytes \<le> 1 \<or> require_dynamic_determination_memory_size m then Inr ()
      else
        let page = (if select_mmap_variant m = variant_full_standard_page then 65536 else push_bit (mmap_page_size_log2 m) 1) in
        if wasm_bytes > page \<or> (effective_offset AND (page - 1)) > page - wasm_bytes
        then touch m (effective_offset + wasm_bytes - 1) 1
        else Inr ())"

definition write_bytes :: "mmap_memory_t \<Rightarrow> u64 \<Rightarrow> nat \<Rightarrow> (access_exit, unit) res" where
  "write_bytes m off n =
     bindE (touch m off 1) (\<lambda>_. case touch m off n of Inl (Throw _) \<Rightarrow> Inl (Throw torn_store) | r \<Rightarrow> r)"

definition mmap_store :: "mmap_memory_t \<Rightarrow> memory_offset_t \<Rightarrow> nat \<Rightarrow> (access_exit, unit) res" where
  "mmap_store m eff wasm_bytes =
     bindE (bounds_check m eff (of_nat wasm_bytes)) (\<lambda>_.
     bindE (prepare_memory_store m (offset eff) (of_nat wasm_bytes)) (\<lambda>_.
     write_bytes m (offset eff) wasm_bytes))"

section \<open>Reachable memories\<close>

text \<open>The memories that a program gets by construction, initialisation and any sequence of growths, with any answers of the kernel.\<close>

inductive mmap_reachable :: "u64 \<Rightarrow> mmap_memory_t \<Rightarrow> bool" for page_size where
  reach_init: "custom_page_mmap_memory page_size custom_page_size s = Inr m \<Longrightarrow>
     mmap_init_by_page_count sys_mmap sys_mprotect page_size init_page_count declared_max_pages m = Inr m' \<Longrightarrow> mmap_reachable page_size m'"
| reach_silent: "mmap_reachable page_size m \<Longrightarrow> mmap_try_grow_silently sys_mprotect page_size d L m = Inr (ok, out, m') \<Longrightarrow> mmap_reachable page_size m'"
| reach_strict: "mmap_reachable page_size m \<Longrightarrow> mmap_grow_strictly sys_mprotect reprotect page_size d L m = Inr (ok, out, m') \<Longrightarrow> mmap_reachable page_size m'"

definition mmap_ok :: "u64 \<Rightarrow> mmap_memory_t \<Rightarrow> bool" where
  "mmap_ok page_size m \<longleftrightarrow>
     (let page = 2 ^ mmap_page_size_log2 m; len = unat (mmap_length m) in
      mmap_page_size_log2 m < 64 \<and> page dvd len \<and>
      len \<le> unat (max_page_memory_length (mmap_status m)) \<and> len \<le> unat (reservation_limit_bytes m) \<and>
      (\<not> require_dynamic_determination_memory_size m \<longrightarrow> unat page_size \<le> page) \<and>
      (\<not> require_dynamic_determination_memory_size m \<longrightarrow> max_protection_space (mmap_status m) \<le> reservation_limit_bytes m) \<and>
      (\<exists>reserved accessible. mapped m = Some (reserved, accessible) \<and>
         reserved = unat (min (max_protection_space (mmap_status m)) (reservation_limit_bytes m)) + 64 + page \<and>
         accessible = (len + unat page_size - 1) div unat page_size * unat page_size))"

section \<open>The invariant\<close>

lemma page_ceil_unat:
  assumes "page_size = push_bit p 1" "p < 64" "\<not> len > size_max - (page_size - 1)"
  shows "unat (page_ceil page_size len) = (unat len + unat page_size - 1) div unat page_size * unat page_size"
proof -
  have P: "unat page_size = 2 ^ p" using assms(1,2) by (simp add: unat_page)
  have m: "page_size - 1 = mask p" using assms(1) by (simp add: mask_eq_exp_minus_1 push_bit_eq_mult)
  have u: "unat (mask p :: u64) = 2 ^ p - 1" using assms(2) by (simp add: mask_eq_exp_minus_1 unat_sub word_le_nat_alt unat_page)
  have "unat (size_max - mask p) = 2 ^ 64 - 1 - (2 ^ p - 1)"
    using unat_sub [of "mask p" size_max] by (simp only: u word_order.extremum) (simp add: unsigned_minus_1_eq_mask mask_eq_exp_minus_1)
  moreover have "(2 :: nat) ^ p < 2 ^ 64" using assms(2) by (intro power_strict_increasing) simp_all
  moreover have "1 \<le> (2 :: nat) ^ p" by simp
  ultimately have "unat len + (2 ^ p - 1) < 2 ^ 64" using assms(3) unfolding m not_less word_le_nat_alt by linarith
  then have "unat (len + mask p) = unat len + (2 ^ p - 1)" by (simp add: unat_word_ariths(1) u)
  then show ?thesis by (simp add: page_ceil_def m unat_and_not_mask P)
qed

lemma length_constants [simp]:
  "unat (max_page_memory_length status_wasm32) = 2 ^ 32" "unat (max_page_memory_length status_wasm64) = 2 ^ 40"
  "unat (max_protection_space status_wasm32) = 2 ^ 33" "unat (max_protection_space status_wasm64) = 2 ^ 40"
  by (simp_all add: max_page_memory_length_def max_protection_space_def max_full_protection_wasm32_length_def
      max_partial_protection_wasm64_length_def)

lemma space_bound: "unat (min (max_protection_space s) l) \<le> 2 ^ 40"
  by (cases s) (auto simp: min_def word_le_nat_alt)

lemma reserved_unat:
  assumes "k < 64" "space = min (max_protection_space s) l"
    and "\<not> push_bit k 1 > size_max - (space + mmap_guard_max_access_size)"
  shows "unat (space + mmap_guard_max_access_size + push_bit k 1) = unat space + 64 + 2 ^ k"
proof -
  have 1: "unat (space + mmap_guard_max_access_size) = unat space + 64"
    using space_bound [of s l] assms(2) by (simp add: unat_word_ariths(1) mmap_guard_max_access_size_def)
  have 2: "unat (push_bit k 1 :: u64) = 2 ^ k" using assms(1) by (rule unat_page)
  have "unat (size_max - (space + mmap_guard_max_access_size)) = 2 ^ 64 - 1 - (unat space + 64)"
    by (simp add: unat_sub 1 unsigned_minus_1_eq_mask mask_eq_exp_minus_1)
  then have "unat space + 64 + 2 ^ k < 2 ^ 64" using assms(3) 2 space_bound [of s l] assms(2) by (simp add: not_less word_le_nat_alt)
  then show ?thesis using 1 2 by (simp add: unat_word_ariths(1))
qed

lemma page_count_fits:
  assumes "k < 64" "\<not> n > min (drop_bit k a) (drop_bit k b)"
  shows "unat (push_bit k n :: u64) = unat n * 2 ^ k" "unat n * 2 ^ k \<le> unat a" "unat n * 2 ^ k \<le> unat b"
proof -
  have d: "unat n * 2 ^ k \<le> unat x" if "n \<le> drop_bit k x" for x :: u64
  proof -
    have "unat n \<le> unat x div 2 ^ k" using that by (simp add: word_le_nat_alt unat_drop_bit_eq drop_bit_eq_div [where ?'a = nat])
    then have "unat n * 2 ^ k \<le> unat x div 2 ^ k * 2 ^ k" by simp
    also have "\<dots> \<le> unat x" by simp
    finally show ?thesis .
  qed
  have "n \<le> min (drop_bit k a) (drop_bit k b)" using assms(2) by (rule leI)
  then have "n \<le> drop_bit k a" "n \<le> drop_bit k b" by (simp_all only: min.bounded_iff)
  then show 1: "unat n * 2 ^ k \<le> unat a" and "unat n * 2 ^ k \<le> unat b" by (blast intro: d)+
  have "unat a < 2 ^ LENGTH(64)" by (rule unsigned_less)
  with 1 show "unat (push_bit k n) = unat n * 2 ^ k" by (intro unat_shift_fits assms(1)) simp
qed

lemma single_bit:
  assumes "popcount (w :: 'a::len word) = 1"
  shows "unat w = 2 ^ countr_zero w" "countr_zero w < LENGTH('a)"
proof -
  let ?k = "countr_zero w"
  have k: "?k \<le> LENGTH('a)" "2 ^ ?k dvd unat w" "?k < LENGTH('a) \<Longrightarrow> \<not> 2 ^ (?k + 1) dvd unat w"
    using countr_zero_spec [of w] by auto
  have "card {j. j < LENGTH('a) \<and> bit (unat w) j} = 1" using popcount_spec [of w] assms by simp
  then obtain j where j: "{j. j < LENGTH('a) \<and> bit (unat w) j} = {j}" by (auto simp: card_1_singleton_iff)
  have b: "bit (unat w) i \<longleftrightarrow> i = j" for i
    using j bit_imp_le_length [of w i] by (auto simp: bit_unsigned_iff set_eq_iff)
  then have w: "unat w = 2 ^ j" by (intro bit_eqI) (simp add: bit_exp_iff)
  have "j < LENGTH('a)" using j by auto
  moreover have "?k \<le> j" using k(2) w power_dvd_imp_le [of 2 ?k j] by simp
  ultimately have "?k < LENGTH('a)" by simp
  then have "\<not> ?k + 1 \<le> j" using k(3) w le_imp_power_dvd by metis
  with \<open>?k \<le> j\<close> w have "unat w = 2 ^ ?k" by (simp add: le_antisym not_less_eq_eq)
  then show "unat w = 2 ^ countr_zero w" "countr_zero w < LENGTH('a)" using \<open>?k < LENGTH('a)\<close> by simp_all
qed

definition page_size_ok :: "u64 \<Rightarrow> bool" where
  "page_size_ok page_size \<longleftrightarrow> (\<exists>p < 64. page_size = push_bit p 1)"

lemma page_ceil_eq:
  assumes "page_size_ok page_size" "\<not> len > size_max - (page_size - 1)"
  shows "unat (page_ceil page_size len) = (unat len + unat page_size - 1) div unat page_size * unat page_size"
  using assms page_ceil_unat unfolding page_size_ok_def by blast

lemma set_reservation_limit_facts:
  assumes "mapped m = None" "reservation_limit_bytes m = size_max" "mmap_page_size_log2 m < 64" "m' = set_reservation_limit d m"
  shows "mapped m' = None" "mmap_page_size_log2 m' = mmap_page_size_log2 m" "mmap_status m' = mmap_status m"
    "require_dynamic_determination_memory_size m \<Longrightarrow> require_dynamic_determination_memory_size m'"
    "\<not> require_dynamic_determination_memory_size m' \<Longrightarrow> max_protection_space (mmap_status m') \<le> reservation_limit_bytes m'"
proof -
  have "max_protection_space status_wasm64 = max_partial_protection_wasm64_length" by (simp add: max_protection_space_def)
  then show "\<not> require_dynamic_determination_memory_size m' \<Longrightarrow> max_protection_space (mmap_status m') \<le> reservation_limit_bytes m'"
    using assms by (cases "mmap_status m") (auto simp: set_reservation_limit_def Let_def not_less split: if_splits)
qed (use assms in \<open>auto simp: set_reservation_limit_def Let_def\<close>)

lemma mmap_init_ok:
  assumes "page_size_ok page_size" "custom_page_mmap_memory page_size custom_page_size s = Inr m0"
    and "mmap_init_by_page_count sys_mmap sys_mprotect page_size n d m0 = Inr m'"
  shows "mmap_ok page_size m'"
proof -
  let ?k = "countr_zero custom_page_size"
  have c: "popcount custom_page_size = 1" "m0 = \<lparr>mapped = None, mmap_length = 0, mmap_page_size_log2 = ?k,
      require_dynamic_determination_memory_size = custom_page_size < page_size, mmap_status = s, reservation_limit_bytes = size_max\<rparr>"
    using assms(2) by (auto simp: custom_page_mmap_memory_def res_simps)
  note one = single_bit [OF c(1)]
  define m where "m = set_reservation_limit d m0"
  have k: "?k < 64" using one(2) by simp
  note f = set_reservation_limit_facts [OF _ _ _ m_def, unfolded c(2), simplified, OF k]
  let ?space = "min (max_protection_space s) (reservation_limit_bytes m)"
  have P: "\<not> require_dynamic_determination_memory_size m \<Longrightarrow> unat page_size \<le> 2 ^ ?k"
    using f(4) one(1) by (metis not_less word_le_nat_alt)
  note i = assms(3) [unfolded mmap_init_by_page_count_def Let_def, folded m_def, unfolded f(1-3)]
  have n: "\<not> n > min (drop_bit ?k (max_page_memory_length s)) (drop_bit ?k (reservation_limit_bytes m))"
    and g: "\<not> push_bit ?k 1 > size_max - (?space + mmap_guard_max_access_size)"
    using i by (auto simp only: res_simps bindE_simps if_True HOL.simp_thms)
  note len = page_count_fits [OF k n] and res = reserved_unat [OF k refl g]
  have r: "\<exists>acc. m' = m\<lparr>mapped := Some (unat ?space + 64 + 2 ^ ?k, acc), mmap_length := push_bit ?k n\<rparr> \<and>
      acc = (unat (push_bit ?k n) + unat page_size - 1) div unat page_size * unat page_size"
  proof (cases "push_bit ?k n = 0")
    case True
    have "0 < unat page_size" using assms(1) by (auto simp: page_size_ok_def unat_page)
    with True show ?thesis using i res by (auto simp: res_simps)
  next
    case False
    then have "\<not> push_bit ?k n > size_max - (page_size - 1)"
        "m' = m\<lparr>mapped := Some (unat ?space + 64 + 2 ^ ?k, unat (page_ceil page_size (push_bit ?k n))), mmap_length := push_bit ?k n\<rparr>"
      using i res by (auto simp: res_simps)
    with page_ceil_eq [OF assms(1)] show ?thesis by blast
  qed
  then show ?thesis using len f P k by (auto simp: mmap_ok_def)
qed

lemma grow_final:
  assumes "k < 64" "\<not> d > drop_bit k size_max" "\<not> L < len" "\<not> push_bit k d > L - len"
  shows "unat (len + push_bit k d) = unat len + unat d * 2 ^ k" "len + push_bit k d \<le> L"
proof -
  have g: "unat (push_bit k d) = unat d * 2 ^ k" using shift_fits_iff [OF assms(1), of d] assms(1,2) by (intro unat_shift_fits) simp_all
  have "unat (L - len) = unat L - unat len" using assms(3) by (simp add: unat_sub not_less)
  then have fin: "unat len + unat d * 2 ^ k \<le> unat L" using assms(3,4) g by (simp add: not_less word_le_nat_alt)
  have "unat L < 2 ^ LENGTH(64)" by (rule unsigned_less)
  then show "unat (len + push_bit k d) = unat len + unat d * 2 ^ k" using fin g by (simp add: unat_word_ariths(1))
  with fin show "len + push_bit k d \<le> L" by (simp add: word_le_nat_alt)
qed

lemma grown_mmap_ok:
  assumes "mmap_ok page_size m" "mapped m = Some (reserved, accessible)" "\<not> d > drop_bit (mmap_page_size_log2 m) size_max"
    and "\<not> L < mmap_length m" "\<not> push_bit (mmap_page_size_log2 m) d > L - mmap_length m"
    and "L = min l (min (max_page_memory_length (mmap_status m)) (reservation_limit_bytes m))"
    and "final = mmap_length m + push_bit (mmap_page_size_log2 m) d"
    and "acc = (unat final + unat page_size - 1) div unat page_size * unat page_size"
  shows "mmap_ok page_size (m\<lparr>mapped := Some (reserved, acc), mmap_length := final\<rparr>)"
proof -
  let ?k = "mmap_page_size_log2 m"
  have k: "?k < 64" and dv: "2 ^ ?k dvd unat (mmap_length m)" using assms(1) by (auto simp: mmap_ok_def Let_def)
  note f = grow_final [OF k assms(3-5), folded assms(7)]
  have "final \<le> max_page_memory_length (mmap_status m)" "final \<le> reservation_limit_bytes m" using f(2) by (simp_all add: assms(6))
  moreover have "2 ^ ?k dvd unat final" using dv f(1) by simp
  ultimately show ?thesis using assms(1,2,8) by (simp add: mmap_ok_def Let_def word_le_nat_alt)
qed

lemma try_grow_silently_ok:
  assumes "page_size_ok page_size" "mmap_ok page_size m" "mmap_try_grow_silently sys_mprotect page_size d L m = Inr (ok, out, m')"
  shows "mmap_ok page_size m'"
proof -
  obtain reserved accessible where a: "mapped m = Some (reserved, accessible)" using assms(2) by (auto simp: mmap_ok_def Let_def)
  show ?thesis
  proof (cases "m' = m")
    case False
    define lim where "lim = min L (min (max_page_memory_length (mmap_status m)) (reservation_limit_bytes m))"
    let ?f = "mmap_length m + push_bit (mmap_page_size_log2 m) d"
    have "\<not> d > drop_bit (mmap_page_size_log2 m) size_max" "\<not> lim < mmap_length m"
      "\<not> push_bit (mmap_page_size_log2 m) d > lim - mmap_length m" "\<not> ?f > size_max - (page_size - 1)"
      "m' = m\<lparr>mapped := Some (reserved, unat (page_ceil page_size ?f)), mmap_length := ?f\<rparr>"
      using assms(3) False a by (auto simp: mmap_try_grow_silently_def Let_def res_simps lim_def split: if_splits)
    with grown_mmap_ok [OF assms(2) a, of d lim L ?f] page_ceil_eq [OF assms(1)] show ?thesis by (simp add: lim_def)
  qed (use assms(2) in simp)
qed

lemma grow_strictly_ok:
  assumes "page_size_ok page_size" "mmap_ok page_size m" "mmap_grow_strictly sys_mprotect reprotect page_size d L m = Inr (ok, out, m')"
  shows "mmap_ok page_size m'"
proof -
  obtain reserved accessible where a: "mapped m = Some (reserved, accessible)"
      "accessible = (unat (mmap_length m) + unat page_size - 1) div unat page_size * unat page_size"
    using assms(2) by (auto simp: mmap_ok_def Let_def)
  show ?thesis
  proof (cases "m' = m")
    case False
    define lim where "lim = min L (min (max_page_memory_length (mmap_status m)) (reservation_limit_bytes m))"
    let ?f = "mmap_length m + push_bit (mmap_page_size_log2 m) d"
    let ?acc = "if page_ceil page_size ?f > page_ceil page_size (mmap_length m) then unat (page_ceil page_size ?f) else accessible"
    have h: "\<not> d > drop_bit (mmap_page_size_log2 m) size_max" "\<not> lim < mmap_length m"
      "\<not> push_bit (mmap_page_size_log2 m) d > lim - mmap_length m" "\<not> ?f > size_max - (page_size - 1)"
      "\<not> mmap_length m > size_max - (page_size - 1)"
      "m' = m\<lparr>mapped := Some (reserved, ?acc), mmap_length := ?f\<rparr>"
      using assms(3) False a(1) by (auto simp: mmap_grow_strictly_def Let_def res_simps lim_def split: if_splits)
    have k: "mmap_page_size_log2 m < 64" using assms(2) by (auto simp: mmap_ok_def Let_def)
    note c = page_ceil_eq [OF assms(1) h(4)] page_ceil_eq [OF assms(1) h(5)]
    have "unat (page_ceil page_size (mmap_length m)) \<le> unat (page_ceil page_size ?f)"
      unfolding c grow_final(1) [OF k h(1-3)] by (intro mult_le_mono1 div_le_mono) simp
    then have "?acc = (unat ?f + unat page_size - 1) div unat page_size * unat page_size"
      using a(2) c by (auto simp: word_less_nat_alt)
    from grown_mmap_ok [OF assms(2) a(1) h(1-3) _ refl this] h(6) show ?thesis by (simp add: lim_def)
  qed (use assms(2) in simp)
qed

lemma mmap_reachable_ok: "mmap_reachable page_size m \<Longrightarrow> page_size_ok page_size \<Longrightarrow> mmap_ok page_size m"
  by (induction rule: mmap_reachable.induct) (blast intro: mmap_init_ok try_grow_silently_ok grow_strictly_ok)+

section \<open>Accesses\<close>

text \<open>What the checks rely on: with no dynamic check, exactly the bytes of the memory are accessible.\<close>

lemma mmap_ok_accessible:
  assumes "mmap_ok page_size m" "page_size_ok page_size"
  obtains reserved accessible where "mapped m = Some (reserved, accessible)" "unat (mmap_length m) \<le> accessible"
    "\<not> require_dynamic_determination_memory_size m \<Longrightarrow> accessible = unat (mmap_length m)"
    "\<not> require_dynamic_determination_memory_size m \<Longrightarrow> reserved = unat (max_protection_space (mmap_status m)) + 64 + 2 ^ mmap_page_size_log2 m"
proof -
  obtain p where p: "p < 64" "unat page_size = 2 ^ p" using assms(2) by (auto simp: page_size_ok_def unat_page)
  let ?len = "unat (mmap_length m)"
  let ?acc = "(?len + 2 ^ p - 1) div 2 ^ p * 2 ^ p"
  obtain reserved where m: "mapped m = Some (reserved, ?acc)"
      "reserved = unat (min (max_protection_space (mmap_status m)) (reservation_limit_bytes m)) + 64 + 2 ^ mmap_page_size_log2 m"
    using assms(1) p by (auto simp: mmap_ok_def Let_def)
  have "?len \<le> ?acc"
  proof -
    have "?len + 2 ^ p - 1 = ?acc + (?len + 2 ^ p - 1) mod 2 ^ p" by (rule div_mult_mod_eq [symmetric])
    moreover have "(?len + 2 ^ p - 1) mod 2 ^ p < 2 ^ p" by simp
    ultimately show ?thesis by linarith
  qed
  moreover have "?acc = ?len" if "\<not> require_dynamic_determination_memory_size m"
  proof -
    have "2 ^ p \<le> (2 :: nat) ^ mmap_page_size_log2 m" "2 ^ mmap_page_size_log2 m dvd ?len"
      using assms(1) that p(2) by (auto simp: mmap_ok_def Let_def)
    then have "2 ^ p dvd ?len" by (meson dvd_trans le_imp_power_dvd power_increasing_iff one_less_numeral_iff semiring_norm(76) power_le_imp_le_exp)
    then obtain q where "?len = 2 ^ p * q" by (rule dvdE)
    then have "?len + 2 ^ p - 1 = (2 ^ p - 1) + 2 ^ p * q" by simp
    moreover have "((2 ^ p - 1) + 2 ^ p * q) div 2 ^ p = q" by (subst div_mult_self2) simp_all
    ultimately have "(?len + 2 ^ p - 1) div 2 ^ p = q" by (simp only:)
    then show ?thesis using \<open>?len = 2 ^ p * q\<close> by simp
  qed
  moreover have "reserved = unat (max_protection_space (mmap_status m)) + 64 + 2 ^ mmap_page_size_log2 m"
    if "\<not> require_dynamic_determination_memory_size m"
    using m(2) assms(1) that by (auto simp: mmap_ok_def Let_def min_def)
  ultimately show ?thesis using that m(1) by blast
qed

lemma wasm64_effective_offset_unat:
  "offset_65_bit (wasm64_effective_offset addr offs) \<longleftrightarrow> 2 ^ 64 \<le> unat addr + unat offs"
  "\<not> offset_65_bit (wasm64_effective_offset addr offs) \<Longrightarrow> unat (offset (wasm64_effective_offset addr offs)) = unat addr + unat offs"
proof -
  have b: "unat addr < 2 ^ LENGTH(64)" "unat offs < 2 ^ LENGTH(64)" by (rule unsigned_less)+
  then show o: "offset_65_bit (wasm64_effective_offset addr offs) \<longleftrightarrow> 2 ^ 64 \<le> unat addr + unat offs"
    by (auto simp: wasm64_effective_offset_def add_overflow_def word_less_nat_alt unat_word_ariths(1) mod_if)
  show "\<not> offset_65_bit (wasm64_effective_offset addr offs) \<Longrightarrow> unat (offset (wasm64_effective_offset addr offs)) = unat addr + unat offs"
    unfolding o by (simp add: wasm64_effective_offset_def add_overflow_def unat_word_ariths(1))
qed

text \<open>An offset that stands for the address \<open>ea\<close> of an access to a memory with this address type.\<close>

definition offset_for :: "mmap_memory_status_t \<Rightarrow> memory_offset_t \<Rightarrow> nat \<Rightarrow> bool" where
  "offset_for s eff ea \<longleftrightarrow>
     (case s of
        status_wasm32 \<Rightarrow> unat (offset eff) = ea \<and> ea \<le> 2 ^ 33 - 2 \<and> (offset_65_bit eff \<longleftrightarrow> 2 ^ 32 \<le> ea)
      | status_wasm64 \<Rightarrow> (offset_65_bit eff \<longleftrightarrow> 2 ^ 64 \<le> ea) \<and> (\<not> offset_65_bit eff \<longrightarrow> unat (offset eff) = ea))"

lemma offset_for_effective:
  "offset_for status_wasm32 (wasm32_effective_offset a o1) (unat a + unat o1)"
  "offset_for status_wasm64 (wasm64_effective_offset b o2) (unat b + unat o2)"
proof -
  have "unat a < 2 ^ LENGTH(32)" "unat o1 < 2 ^ LENGTH(32)" by (rule unsigned_less)+
  then show "offset_for status_wasm32 (wasm32_effective_offset a o1) (unat a + unat o1)" by (simp add: offset_for_def effective_offset_unat)
  show "offset_for status_wasm64 (wasm64_effective_offset b o2) (unat b + unat o2)"
    by (auto simp: offset_for_def wasm64_effective_offset_unat(1) intro: wasm64_effective_offset_unat(2))
qed

lemma access_test_iff:
  assumes "offset_for s eff ea" "unat len \<le> unat (max_page_memory_length s)" "1 \<le> n" "n \<le> 64"
  shows "access_out_of_bounds len eff (of_nat n) \<longleftrightarrow> unat len < ea + n"
proof -
  have n: "unat (of_nat n :: u64) = n" using assms(4) by (simp add: unsigned_of_nat take_bit_nat_eq_self)
  show ?thesis
  proof (cases "of_nat n \<le> len")
    case True
    then have "unat (len - of_nat n) = unat len - n" "n \<le> unat len" using n by (simp_all add: unat_sub word_le_nat_alt)
    then show ?thesis using assms n
      by (cases s) (auto simp: access_out_of_bounds_def offset_for_def word_less_nat_alt)
  next
    case False
    then show ?thesis using n by (auto simp: access_out_of_bounds_def word_le_nat_alt not_le word_less_nat_alt)
  qed
qed

text \<open>The three outcomes of a check: inside the memory, refused, or left to the hardware inside the reservation.\<close>

lemma bounds_check_cases [consumes 5, case_names inside refused guarded]:
  assumes "mmap_ok page_size m" "page_size_ok page_size" "offset_for (mmap_status m) eff ea" "1 \<le> n" "n \<le> 64"
  obtains (inside) "ea + n \<le> unat (mmap_length m)" "bounds_check m eff (of_nat n) = Inr ()" "unat (offset eff) = ea"
    | (refused) "unat (mmap_length m) < ea + n" "bounds_check m eff (of_nat n) = Inl (Throw software_trap)"
    | (guarded) reserved where "unat (mmap_length m) < ea + n" "bounds_check m eff (of_nat n) = Inr ()" "unat (offset eff) = ea"
        "\<not> require_dynamic_determination_memory_size m" "mapped m = Some (reserved, unat (mmap_length m))" "ea + n \<le> reserved" "ea \<le> 2 ^ 40"
proof -
  let ?len = "unat (mmap_length m)"
  have len: "?len \<le> unat (max_page_memory_length (mmap_status m))" using assms(1) by (simp add: mmap_ok_def Let_def)
  note test = access_test_iff [OF assms(3) len assms(4,5)]
  have n: "unat (of_nat n :: u64) = n" using assms(5) by (simp add: unsigned_of_nat take_bit_nat_eq_self)
  obtain reserved accessible where a: "mapped m = Some (reserved, accessible)"
      "\<not> require_dynamic_determination_memory_size m \<Longrightarrow> accessible = ?len"
      "\<not> require_dynamic_determination_memory_size m \<Longrightarrow> reserved = unat (max_protection_space (mmap_status m)) + 64 + 2 ^ mmap_page_size_log2 m"
    using mmap_ok_accessible [OF assms(1,2)] by metis
  show ?thesis
  proof (cases "require_dynamic_determination_memory_size m")
    case True
    then have "bounds_check m eff (of_nat n) = throw_if (?len < ea + n) software_trap"
      by (simp add: bounds_check_def select_mmap_variant_def bounds_check_mmap_judge_def test)
    moreover have "unat (offset eff) = ea" if "ea + n \<le> ?len"
      using that assms(3) len by (cases "mmap_status m") (auto simp: offset_for_def)
    ultimately show ?thesis using inside refused by (cases "?len < ea + n") (auto simp: not_less)
  next
    case False
    show ?thesis
    proof (cases "mmap_status m")
      case status_wasm32
      then have e: "unat (offset eff) = ea" "ea \<le> 2 ^ 33 - 2" "offset_65_bit eff \<longleftrightarrow> 2 ^ 32 \<le> ea" using assms(3) by (auto simp: offset_for_def)
      then have "wasm32_full_mmap_can_use_hardware_bounds eff (of_nat n)"
        using assms(5) n by (auto simp: wasm32_full_mmap_can_use_hardware_bounds_def wasm32_full_protection_covers_access_def
            wasm32_max_effective_offset_def mmap_guard_max_access_size_def word_le_nat_alt word_less_nat_alt)
      then have "bounds_check m eff (of_nat n) = Inr ()" using False status_wasm32
        by (simp add: bounds_check_def select_mmap_variant_def bounds_check_mmap_full_def bounds_check_mmap_full_standard_page_def)
      with e a False status_wasm32 assms(5) inside guarded show ?thesis by (cases "ea + n \<le> ?len") auto
    next
      case status_wasm64
      have bc: "bounds_check m eff (of_nat n) = throw_if (offset_65_bit eff \<or> \<not> offset_in_pow2_bound 40 (offset eff)) software_trap"
        using False status_wasm64 by (simp add: bounds_check_def select_mmap_variant_def bounds_check_mmap_path_def)
      have "offset_in_pow2_bound 40 (offset eff) \<longleftrightarrow> unat (offset eff) div 2 ^ 40 = 0"
        by (simp add: offset_in_pow2_bound_def unat_eq_zero [symmetric] unat_drop_bit_eq drop_bit_eq_div [where ?'a = nat] del: unat_eq_zero)
      then have "offset_in_pow2_bound 40 (offset eff) \<longleftrightarrow> unat (offset eff) < 2 ^ 40" by (simp add: div_eq_0_iff)
      then have "bounds_check m eff (of_nat n) = throw_if (2 ^ 40 \<le> ea) software_trap" "\<not> 2 ^ 40 \<le> ea \<Longrightarrow> unat (offset eff) = ea"
        using bc assms(3) status_wasm64 by (auto simp: offset_for_def intro!: arg_cong2 [where f = throw_if])
      note bc = this
      show ?thesis
      proof (cases "2 ^ 40 \<le> ea")
        case True
        then show ?thesis using refused bc(1) len status_wasm64 assms(4) by simp
      next
        case small: False
        have "reserved = 2 ^ 40 + 64 + 2 ^ mmap_page_size_log2 m" using a(3) [OF False] status_wasm64 by simp
        then have "ea + n \<le> reserved" using small assms(5) by simp
        then show ?thesis using inside guarded bc small False a(1) a(2) [OF False] by (cases "ea + n \<le> ?len") simp_all
      qed
    qed
  qed
qed

lemma mmap_load_outcome:
  assumes "mmap_ok page_size m" "page_size_ok page_size" "offset_for (mmap_status m) eff ea" "1 \<le> n" "n \<le> 64"
  shows "if ea + n \<le> unat (mmap_length m) then mmap_load m eff n = Inr ()
     else mmap_load m eff n \<in> {Inl (Throw software_trap), Inl (Throw protection_fault)}"
proof -
  obtain reserved accessible where "mapped m = Some (reserved, accessible)" "unat (mmap_length m) \<le> accessible"
    using mmap_ok_accessible [OF assms(1,2)] by metis
  with bounds_check_cases [OF assms] show ?thesis by cases (auto simp: mmap_load_def touch_def)
qed

text \<open>A store that is partly inside the memory crosses the end of a page, so its last byte is read first.\<close>

lemma crossing_store:
  assumes "k < 64" "2 ^ k dvd len" "ea < len" "len < ea + n" "n \<le> 64" "unat (off :: u64) = ea"
  shows "(of_nat n :: u64) > push_bit k 1 \<or> (off AND (push_bit k 1 - 1)) > push_bit k 1 - of_nat n"
proof (cases "(of_nat n :: u64) > push_bit k 1")
  case False
  have n: "unat (of_nat n :: u64) = n" using assms(5) by (simp add: unsigned_of_nat take_bit_nat_eq_self)
  have P: "unat (push_bit k 1 :: u64) = 2 ^ k" using assms(1) by (rule unat_page)
  have "unat (push_bit k 1 - of_nat n :: u64) = 2 ^ k - n" using False P n by (simp add: unat_sub not_less del: push_bit_of_1)
  moreover have "n \<le> 2 ^ k" using False P n by (simp add: not_less word_le_nat_alt del: push_bit_of_1)
  moreover have "unat (off AND mask k) = ea mod 2 ^ k"
    using assms(6) by (simp add: take_bit_eq_mask [symmetric] unsigned_take_bit_eq take_bit_eq_mod [where ?'a = nat])
  then have "unat (off AND (push_bit k 1 - 1)) = ea mod 2 ^ k" by (simp add: mask_eq_exp_minus_1)
  moreover have "2 ^ k < ea mod 2 ^ k + n"
  proof -
    obtain q where q: "len = 2 ^ k * q" using assms(2) by (rule dvdE)
    have "ea div 2 ^ k < q" using assms(3) unfolding q by (simp add: less_mult_imp_div_less mult.commute)
    then have "2 ^ k * (ea div 2 ^ k + 1) \<le> len" unfolding q by (intro mult_le_mono2) simp
    moreover have "ea = 2 ^ k * (ea div 2 ^ k) + ea mod 2 ^ k" by (rule mult_div_mod_eq [symmetric])
    ultimately show ?thesis using assms(4) by (simp only: distrib_left mult_1_right)
  qed
  ultimately have "unat (push_bit k 1 - of_nat n :: u64) < unat (off AND (push_bit k 1 - 1))" by linarith
  then show ?thesis unfolding word_less_nat_alt by (rule disjI2)
qed simp

lemma prepare_memory_store_eq:
  "prepare_memory_store m off n =
     (if n \<le> 1 \<or> require_dynamic_determination_memory_size m then Inr ()
      else if n > push_bit (mmap_page_size_log2 m) 1 \<or> (off AND (push_bit (mmap_page_size_log2 m) 1 - 1)) > push_bit (mmap_page_size_log2 m) 1 - n
      then touch m (off + n - 1) 1 else Inr ())"
proof -
  have "select_mmap_variant m = variant_full_standard_page \<Longrightarrow> push_bit (mmap_page_size_log2 m) 1 = (65536 :: u64)"
    by (auto simp: select_mmap_variant_def split: if_splits)
  then show ?thesis by (simp add: prepare_memory_store_def Let_def)
qed

lemma last_byte: "unat (off + of_nat n - 1 :: u64) = unat off + n - 1" if "1 \<le> n" "n \<le> 64" "unat off + n \<le> 2 ^ 60"
proof -
  have "unat (of_nat n :: u64) = n" using that(2) by (simp add: unsigned_of_nat take_bit_nat_eq_self)
  then have "unat (off + of_nat n) = unat off + n" using that(3) by (simp add: unat_word_ariths(1))
  moreover from this have "1 \<le> off + of_nat n" using that(1) by (simp add: word_le_nat_alt)
  ultimately show ?thesis by (simp add: unat_sub)
qed

lemma mmap_store_outcome:
  assumes "mmap_ok page_size m" "page_size_ok page_size" "offset_for (mmap_status m) eff ea" "1 \<le> n" "n \<le> 64"
  shows "if ea + n \<le> unat (mmap_length m) then mmap_store m eff n = Inr ()
     else mmap_store m eff n \<in> {Inl (Throw software_trap), Inl (Throw protection_fault)}"
proof -
  let ?off = "offset eff"
  obtain r acc where a: "mapped m = Some (r, acc)" "unat (mmap_length m) \<le> acc"
    using mmap_ok_accessible [OF assms(1,2)] by metis
  have k: "mmap_page_size_log2 m < 64" "2 ^ mmap_page_size_log2 m dvd unat (mmap_length m)"
    and len: "unat (mmap_length m) \<le> unat (max_page_memory_length (mmap_status m))"
    using assms(1) by (auto simp: mmap_ok_def Let_def)
  have len40: "unat (mmap_length m) \<le> 2 ^ 40" using len by (cases "mmap_status m") auto
  from assms show ?thesis
  proof (cases rule: bounds_check_cases)
    case inside
    then have "unat (?off + of_nat n - 1) = ea + n - 1" using last_byte [OF assms(4,5), of ?off] len40 by simp
    then have "prepare_memory_store m ?off (of_nat n) = Inr ()" using a inside(1) assms(4) by (auto simp: prepare_memory_store_eq touch_def)
    then show ?thesis using inside a assms(4) by (simp add: mmap_store_def write_bytes_def touch_def)
  next
    case refused
    then show ?thesis by (simp add: mmap_store_def)
  next
    case (guarded reserved)
    then have p: "unat (?off + of_nat n - 1) = ea + n - 1" using last_byte [OF assms(4,5), of ?off] assms(5) by simp
    have probe: "prepare_memory_store m ?off (of_nat n) \<in> {Inr (), Inl (Throw protection_fault)}"
      using guarded(1,5,6) assms(4) p by (auto simp: prepare_memory_store_eq touch_def)
    show ?thesis
    proof (cases "ea < unat (mmap_length m)")
      case True
      then have "\<not> of_nat n \<le> (1 :: u64)" using guarded(1) assms(5) by (simp add: word_le_nat_alt unsigned_of_nat take_bit_nat_eq_self)
      then have "prepare_memory_store m ?off (of_nat n) = touch m (?off + of_nat n - 1) 1"
        using crossing_store [OF k True guarded(1) assms(5) guarded(3)] guarded(4) by (simp add: prepare_memory_store_eq)
      then show ?thesis using guarded p assms(4) by (simp add: mmap_store_def touch_def)
    next
      case False
      then have "write_bytes m ?off n = Inl (Throw protection_fault)"
        using guarded assms(4) by (simp add: write_bytes_def touch_def)
      then show ?thesis using probe guarded(1,2) by (auto simp: mmap_store_def)
    qed
  qed
qed

section \<open>Properties\<close>

text \<open>
  \<^bold>\<open>C6.\<close> Protected memories: for every memory that construction, initialisation and any sequence of growths can produce, with
  any answers of the kernel, a load or a store of up to 64 bytes with a 32-bit or 64-bit address succeeds exactly if all its bytes
  lie inside the memory, and otherwise traps; it never leaves the reserved address space, and a store that traps has written
  nothing. This holds for each of the four checks that the translator may choose, most of which leave the test to the hardware.
\<close>

theorem mmap_access_safe:
  assumes "mmap_reachable page_size m" "page_size_ok page_size" "1 \<le> n" "n \<le> 64"
    and "mmap_status m = status_wasm32 \<and> eff = wasm32_effective_offset a o1 \<and> ea = unat a + unat o1 \<or>
         mmap_status m = status_wasm64 \<and> eff = wasm64_effective_offset b o2 \<and> ea = unat b + unat o2"
  shows "(if ea + n \<le> unat (mmap_length m) then mmap_load m eff n = Inr () \<and> mmap_store m eff n = Inr ()
     else {mmap_load m eff n, mmap_store m eff n} \<subseteq> {Inl (Throw software_trap), Inl (Throw protection_fault)})"
proof -
  have ok: "mmap_ok page_size m" using assms(1,2) by (rule mmap_reachable_ok)
  have "offset_for (mmap_status m) eff ea" using assms(5) offset_for_effective by metis
  from mmap_load_outcome [OF ok assms(2) this assms(3,4)] mmap_store_outcome [OF ok assms(2) this assms(3,4)] show ?thesis
    by (simp split: if_splits)
qed

text \<open>A memory of 64 KiB pages on a host with pages of 4 KiB, with one page: the first store ends at its last byte, the second crosses it.\<close>

definition example_mmap :: mmap_memory_t where
  "example_mmap =
     \<lparr>mapped = Some (2 ^ 33 + 64 + 65536, 65536), mmap_length = 65536, mmap_page_size_log2 = 16,
      require_dynamic_determination_memory_size = False, mmap_status = status_wasm32, reservation_limit_bytes = size_max\<rparr>"

lemma example_mmap_reachable: "mmap_reachable 4096 example_mmap"
proof (rule reach_init [where custom_page_size = 65536 and s = status_wasm32 and init_page_count = 1 and declared_max_pages = 2
      and sys_mmap = "\<lambda>_. True" and sys_mprotect = "\<lambda>_ _. True"])
  show "custom_page_mmap_memory 4096 65536 status_wasm32 = Inr \<lparr>mapped = None, mmap_length = 0, mmap_page_size_log2 = 16,
      require_dynamic_determination_memory_size = False, mmap_status = status_wasm32, reservation_limit_bytes = size_max\<rparr>" by code_simp
  show "mmap_init_by_page_count (\<lambda>_. True) (\<lambda>_ _. True) 4096 1 2 \<lparr>mapped = None, mmap_length = 0, mmap_page_size_log2 = 16,
      require_dynamic_determination_memory_size = False, mmap_status = status_wasm32, reservation_limit_bytes = size_max\<rparr> = Inr example_mmap"
    by (simp add: mmap_init_by_page_count_def set_reservation_limit_def max_page_memory_length_def max_protection_space_def
        max_full_protection_wasm32_length_def mmap_guard_max_access_size_def page_ceil_def example_mmap_def Let_def min_def mask_eq_exp_minus_1)
qed

theorem mmap_access_safe_witness:
  "mmap_reachable 4096 example_mmap \<and>
   mmap_store example_mmap (wasm32_effective_offset 65528 0) 8 = Inr () \<and>
   mmap_store example_mmap (wasm32_effective_offset 65528 1) 8 \<in> {Inl (Throw software_trap), Inl (Throw protection_fault)}"
proof -
  have p: "page_size_ok 4096" unfolding page_size_ok_def by (rule exI [of _ 12]) simp
  have "mmap_status example_mmap = status_wasm32" "unat (mmap_length example_mmap) = 65536" by (simp_all add: example_mmap_def)
  then show ?thesis
    using mmap_access_safe [OF example_mmap_reachable p, of 8 "wasm32_effective_offset 65528 0" 65528 0 65528]
      mmap_access_safe [OF example_mmap_reachable p, of 8 "wasm32_effective_offset 65528 1" 65528 1 65529] example_mmap_reachable
    by simp
qed

end
