(* ===== verification/Wasi_Memory.thy ===== *)
theory Wasi_Memory
  imports Mmap_Memory
begin

text \<open>
  How the WASI functions reach the linear memory of the program (\<^verbatim>\<open>imported/wasi/wasip1/memory/mmap.h\<close>), for the class \<open>mmap_memory_t\<close>, the native memory
  of a 64-bit POSIX host. Each function exists for offsets of 32 bits, the standard interface, and of 64 bits, an extension; the
  host has 64-bit addresses, so both convert to \<^verbatim>\<open>size_t\<close> without loss. The variants of a function with and without a lock are the same for this
  class. The bytes of the memory are a function of the position.
\<close>

unbundle bit_operations_syntax

section \<open>The checks\<close>

definition max_partial_protection_wasm32_length :: u64 where
  "max_partial_protection_wasm32_length = push_bit 28 1"

definition is_full_page_protection :: "mmap_memory_t \<Rightarrow> bool" where
  "is_full_page_protection m = (case mmap_status m of status_wasm32 \<Rightarrow> True | status_wasm64 \<Rightarrow> False)"

text \<open>
  The tests of the offset are compiled only if the largest \<^verbatim>\<open>size_t\<close> exceeds the largest value of the type of the constant, which is of 32 bits in the
  first case and of 64 bits in the second.
\<close>

definition wasi_check_memory_bounds_unlocked :: "mmap_memory_t \<Rightarrow> u64 \<Rightarrow> u64 \<Rightarrow> (access_exit, unit) res" where
  "wasi_check_memory_bounds_unlocked m off wasm_bytes =
     (if require_dynamic_determination_memory_size m
      then throw_if (wasm_bytes > mmap_length m \<or> off > mmap_length m - wasm_bytes) software_trap
      else if \<not> is_full_page_protection m
      then (case mmap_status m of
              status_wasm32 \<Rightarrow>
                if (2 :: nat) ^ 64 - 1 > 2 ^ 32 - 1 then throw_if (off > max_partial_protection_wasm32_length) software_trap else Inr ()
            | status_wasm64 \<Rightarrow>
                if (2 :: nat) ^ 64 - 1 > 2 ^ 64 - 1 then throw_if (off > max_partial_protection_wasm64_length) software_trap else Inr ())
      else Inr ())"

definition check_memory_bounds_wasm32 :: "mmap_memory_t \<Rightarrow> u32 \<Rightarrow> u64 \<Rightarrow> (access_exit, unit) res" where
  "check_memory_bounds_wasm32 m off wasm_bytes = wasi_check_memory_bounds_unlocked m (ucast off) wasm_bytes"

definition check_memory_bounds_wasm64 :: "mmap_memory_t \<Rightarrow> u64 \<Rightarrow> u64 \<Rightarrow> (access_exit, unit) res" where
  "check_memory_bounds_wasm64 m off wasm_bytes = wasi_check_memory_bounds_unlocked m off wasm_bytes"

section \<open>Reading and writing\<close>

record guest_memory =
  mapping :: mmap_memory_t
  guest_bytes :: "nat \<Rightarrow> byte"

text \<open>\<^verbatim>\<open>memcpy\<close> of no bytes touches nothing.\<close>

definition copy_from :: "guest_memory \<Rightarrow> u64 \<Rightarrow> nat \<Rightarrow> (access_exit, byte list) res" where
  "copy_from g off n =
     bindE (if n = 0 then Inr () else touch (mapping g) off n) (\<lambda>_. Inr (map (guest_bytes g) [unat off ..< unat off + n]))"

definition copy_to :: "guest_memory \<Rightarrow> u64 \<Rightarrow> byte list \<Rightarrow> (access_exit, guest_memory) res" where
  "copy_to g off bs =
     bindE (if bs = [] then Inr () else write_bytes (mapping g) off (length bs)) (\<lambda>_.
     Inr (g\<lparr>guest_bytes := (\<lambda>i. if unat off \<le> i \<and> i < unat off + length bs then bs ! (i - unat off) else guest_bytes g i)\<rparr>))"

definition read_all_from_memory :: "guest_memory \<Rightarrow> u64 \<Rightarrow> nat \<Rightarrow> (access_exit, byte list) res" where
  "read_all_from_memory g off n =
     bindE (wasi_check_memory_bounds_unlocked (mapping g) off (of_nat n)) (\<lambda>_. copy_from g off n)"

definition write_all_to_memory :: "guest_memory \<Rightarrow> u64 \<Rightarrow> byte list \<Rightarrow> (access_exit, guest_memory) res" where
  "write_all_to_memory g off bs =
     bindE (wasi_check_memory_bounds_unlocked (mapping g) off (of_nat (length bs))) (\<lambda>_. copy_to g off bs)"

definition clear_memory :: "guest_memory \<Rightarrow> u64 \<Rightarrow> nat \<Rightarrow> (access_exit, guest_memory) res" where
  "clear_memory g off n =
     bindE (wasi_check_memory_bounds_unlocked (mapping g) off (of_nat n)) (\<lambda>_. copy_to g off (replicate n 0))"

text \<open>An integer of \<open>n\<close> bytes, in little-endian order.\<close>

definition get_basic_wasm_type_from_memory :: "nat \<Rightarrow> guest_memory \<Rightarrow> u64 \<Rightarrow> (access_exit, 'a::len word) res" where
  "get_basic_wasm_type_from_memory n g off =
     bindE (wasi_check_memory_bounds_unlocked (mapping g) off (of_nat n)) (\<lambda>_. bindE (copy_from g off n) (\<lambda>bs. Inr (from_le bs)))"

definition store_basic_wasm_type_to_memory :: "nat \<Rightarrow> guest_memory \<Rightarrow> u64 \<Rightarrow> 'a::len word \<Rightarrow> (access_exit, guest_memory) res" where
  "store_basic_wasm_type_to_memory n g off v =
     bindE (wasi_check_memory_bounds_unlocked (mapping g) off (of_nat n)) (\<lambda>_. copy_to g off (to_le n v))"

definition store_basic_wasm_type_to_memory_unchecked :: "nat \<Rightarrow> guest_memory \<Rightarrow> u64 \<Rightarrow> 'a::len word \<Rightarrow> (access_exit, guest_memory) res" where
  "store_basic_wasm_type_to_memory_unchecked n g off v = copy_to g off (to_le n v)"

definition read_all_from_memory_wasm32 :: "guest_memory \<Rightarrow> u32 \<Rightarrow> nat \<Rightarrow> (access_exit, byte list) res" where
  "read_all_from_memory_wasm32 g off n = read_all_from_memory g (ucast off) n"

definition write_all_to_memory_wasm32 :: "guest_memory \<Rightarrow> u32 \<Rightarrow> byte list \<Rightarrow> (access_exit, guest_memory) res" where
  "write_all_to_memory_wasm32 g off bs = write_all_to_memory g (ucast off) bs"

definition store_basic_wasm_type_to_memory_wasm64 :: "nat \<Rightarrow> guest_memory \<Rightarrow> u64 \<Rightarrow> 'a::len word \<Rightarrow> (access_exit, guest_memory) res" where
  "store_basic_wasm_type_to_memory_wasm64 n g off v = store_basic_wasm_type_to_memory n g off v"

section \<open>Accesses with offsets of 32 bits\<close>

text \<open>Whatever check was made, the hardware completes it: the address space that is reserved covers every offset and every size of 32 bits.\<close>

text \<open>The trap that ends an access outside the memory: of the check, or of the hardware if there is no check.\<close>

definition outside_trap :: "mmap_memory_t \<Rightarrow> access_exit" where
  "outside_trap m = (if require_dynamic_determination_memory_size m then software_trap else protection_fault)"

text \<open>
  A write that the hardware ends, and that starts inside the memory, may have written its first bytes: the WASI functions do not test the last
  byte first, as the store instructions do.
\<close>

definition outside_write_trap :: "mmap_memory_t \<Rightarrow> u64 \<Rightarrow> access_exit" where
  "outside_write_trap m off =
     (if \<not> require_dynamic_determination_memory_size m \<and> unat off < unat (mmap_length m) then torn_store else outside_trap m)"

lemma checked_touch:
  assumes "mmap_reachable page_size m" "page_size_ok page_size" "unat off < 2 ^ 32" "n < 2 ^ 32" "0 < n"
  shows "bindE (wasi_check_memory_bounds_unlocked m off (of_nat n)) (\<lambda>_. touch m off n) =
     (if unat off + n \<le> unat (mmap_length m) then Inr () else Inl (Throw (outside_trap m)))"
proof -
  obtain reserved accessible where m: "mapped m = Some (reserved, accessible)" "unat (mmap_length m) \<le> accessible"
    "\<not> require_dynamic_determination_memory_size m \<Longrightarrow> accessible = unat (mmap_length m)"
    "\<not> require_dynamic_determination_memory_size m \<Longrightarrow> reserved = unat (max_protection_space (mmap_status m)) + 64 + 2 ^ mmap_page_size_log2 m"
    using mmap_ok_accessible [OF mmap_reachable_ok [OF assms(1,2)] assms(2)] by metis
  have n: "unat (of_nat n :: u64) = n" using assms(4) by (simp add: unsigned_of_nat take_bit_nat_eq_self)
  have "2 ^ 33 \<le> unat (max_protection_space (mmap_status m))" by (cases "mmap_status m") simp_all
  then show ?thesis
  proof (cases "require_dynamic_determination_memory_size m")
    case True
    have "of_nat n > mmap_length m \<or> off > mmap_length m - of_nat n \<longleftrightarrow> \<not> unat off + n \<le> unat (mmap_length m)"
      using n by (cases "of_nat n \<le> mmap_length m") (auto simp: word_less_nat_alt unat_sub word_le_nat_alt)
    then show ?thesis using True m by (simp add: wasi_check_memory_bounds_unlocked_def throw_if_def touch_def outside_trap_def)
  next
    case False
    then show ?thesis using m(1) m(3,4) assms(3,4) \<open>2 ^ 33 \<le> _\<close>
      by (auto simp: wasi_check_memory_bounds_unlocked_def is_full_page_protection_def touch_def outside_trap_def
          split: mmap_memory_status_t.split)
  qed
qed

text \<open>An access of no bytes outside the memory is refused only by a check; where there is none, the hardware does not see it.\<close>

lemma checked_empty:
  assumes "unat off < 2 ^ 32"
  shows "wasi_check_memory_bounds_unlocked m off 0 =
     (if unat off \<le> unat (mmap_length m) \<or> \<not> require_dynamic_determination_memory_size m then Inr () else Inl (Throw (outside_trap m)))"
  using assms
  by (auto simp: wasi_check_memory_bounds_unlocked_def is_full_page_protection_def throw_if_def word_less_nat_alt outside_trap_def
      split: mmap_memory_status_t.split)

lemma copy_to_Nil [simp]: "copy_to g off [] = Inr g"
proof -
  have "(\<lambda>i. if unat off \<le> i \<and> i < unat off + length [] then [] ! (i - unat off) else guest_bytes g i) = guest_bytes g" by (rule ext) auto
  then show ?thesis by (simp add: copy_to_def)
qed

lemma copy_to_bytes:
  assumes "copy_to g off bs = Inr g'"
  shows "map (guest_bytes g') [unat off ..< unat off + length bs] = bs" "mapping g' = mapping g"
    "\<And>i. i < unat off \<or> unat off + length bs \<le> i \<Longrightarrow> guest_bytes g' i = guest_bytes g i"
proof -
  have g': "g' = g\<lparr>guest_bytes := (\<lambda>i. if unat off \<le> i \<and> i < unat off + length bs then bs ! (i - unat off) else guest_bytes g i)\<rparr>"
    using assms by (auto simp: copy_to_def bindE_eq_Inr)
  show "map (guest_bytes g') [unat off ..< unat off + length bs] = bs" by (rule nth_equalityI) (simp_all add: g')
  show "mapping g' = mapping g" by (simp add: g')
  show "guest_bytes g' i = guest_bytes g i" if "i < unat off \<or> unat off + length bs \<le> i" for i using that by (auto simp: g')
qed

lemma checked_write:
  assumes "mmap_reachable page_size m" "page_size_ok page_size" "unat off < 2 ^ 32" "n < 2 ^ 32" "0 < n"
  shows "bindE (wasi_check_memory_bounds_unlocked m off (of_nat n)) (\<lambda>_. write_bytes m off n) =
     (if unat off + n \<le> unat (mmap_length m) then Inr () else Inl (Throw (outside_write_trap m off)))"
proof (cases "wasi_check_memory_bounds_unlocked m off (of_nat n)")
  case (Inl e)
  moreover have "require_dynamic_determination_memory_size m"
    using Inl by (auto simp: wasi_check_memory_bounds_unlocked_def is_full_page_protection_def split: mmap_memory_status_t.splits if_splits)
  ultimately show ?thesis using checked_touch [OF assms] by (auto simp: outside_write_trap_def split: if_splits)
next
  case (Inr u)
  obtain reserved accessible where m: "mapped m = Some (reserved, accessible)" "unat (mmap_length m) \<le> accessible"
    "\<not> require_dynamic_determination_memory_size m \<Longrightarrow> accessible = unat (mmap_length m)"
    using mmap_ok_accessible [OF mmap_reachable_ok [OF assms(1,2)] assms(2)] by metis
  have t: "touch m off n = (if unat off + n \<le> unat (mmap_length m) then Inr () else Inl (Throw (outside_trap m)))"
    using checked_touch [OF assms] Inr by simp
  have "outside_trap m = protection_fault" if "\<not> unat off + n \<le> unat (mmap_length m)"
    using t that by (auto simp: touch_def split: option.splits if_splits)
  then have d: "\<not> require_dynamic_determination_memory_size m" if "\<not> unat off + n \<le> unat (mmap_length m)"
    using that by (auto simp: outside_trap_def split: if_splits)
  have "touch m off 1 = (if unat off < unat (mmap_length m) then Inr () else Inl (Throw protection_fault))"
    if "\<not> unat off + n \<le> unat (mmap_length m)"
    using t that m d [OF that] assms(5) by (auto simp: touch_def split: if_splits)
  then show ?thesis using Inr t m d assms(5)
    by (cases "unat off + n \<le> unat (mmap_length m)") (auto simp: write_bytes_def outside_write_trap_def outside_trap_def touch_def)
qed

lemma read_write_outcome:
  assumes "mmap_reachable page_size (mapping g)" "page_size_ok page_size" "length bs < 2 ^ 32"
  shows "let r = read_all_from_memory_wasm32 g off (length bs); w = write_all_to_memory_wasm32 g off bs in
     if unat off + length bs \<le> unat (mmap_length (mapping g))
     then r = Inr (map (guest_bytes g) [unat off ..< unat off + length bs]) \<and>
       (\<exists>g'. w = Inr g' \<and> mapping g' = mapping g \<and> read_all_from_memory_wasm32 g' off (length bs) = Inr bs \<and>
         (\<forall>i. i < unat off \<or> unat off + length bs \<le> i \<longrightarrow> guest_bytes g' i = guest_bytes g i))
     else if bs = [] \<and> \<not> require_dynamic_determination_memory_size (mapping g) then r = Inr [] \<and> w = Inr g
     else r = Inl (Throw (outside_trap (mapping g))) \<and> w = Inl (Throw (outside_write_trap (mapping g) (ucast off)))"
proof -
  let ?m = "mapping g" and ?off = "ucast off :: u64" and ?n = "length bs"
  have off: "unat ?off = unat off" "unat ?off < 2 ^ 32" using unsigned_less [of off, where 'a = nat] by (simp_all add: unsigned_ucast_eq take_bit_nat_eq_self)
  let ?r = "read_all_from_memory_wasm32 g off ?n" and ?w = "write_all_to_memory_wasm32 g off bs"
  note defs = read_all_from_memory_wasm32_def write_all_to_memory_wasm32_def read_all_from_memory_def write_all_to_memory_def
    copy_from_def
  show ?thesis
  proof (cases "bs = []")
    case True
    then show ?thesis using checked_empty [where m = ?m and off = ?off] off
      by (auto simp: defs outside_write_trap_def Let_def)
  next
    case False
    then have n: "0 < ?n" by simp
    note t = checked_touch [OF assms(1,2) off(2) assms(3) n] and wr = checked_write [OF assms(1,2) off(2) assms(3) n]
    show ?thesis
    proof (cases "unat off + ?n \<le> unat (mmap_length ?m)")
      case True
      with t wr off have "wasi_check_memory_bounds_unlocked ?m ?off (of_nat ?n) = Inr ()" "touch ?m ?off ?n = Inr ()" "write_bytes ?m ?off ?n = Inr ()"
        by (auto simp: bindE_eq_Inr)
      moreover obtain g' where c: "copy_to g ?off bs = Inr g'" using calculation(3) False by (simp add: copy_to_def)
      ultimately show ?thesis using True False off copy_to_bytes [OF c] by (simp add: defs Let_def)
    next
      case out: False
      have "?r = Inl (Throw (outside_trap ?m))"
        using t out off False by (cases "wasi_check_memory_bounds_unlocked ?m ?off (of_nat ?n)") (auto simp: defs)
      moreover have "?w = Inl (Throw (outside_write_trap ?m ?off))"
        using wr out off False by (cases "wasi_check_memory_bounds_unlocked ?m ?off (of_nat ?n)") (auto simp: defs copy_to_def)
      ultimately show ?thesis using out False by (simp add: Let_def)
    qed
  qed
qed

section \<open>Properties\<close>

text \<open>
  \<^bold>\<open>C10.\<close> The standard WASI functions stay inside the memory: on every memory a program can reach, for every offset and every size of 32 bits,
  reading gives the bytes at that place and writing changes those bytes and no others, so that they are read back, if the place lies
  inside the memory. Otherwise an access of at least one byte ends in a trap, of the check if the size of the memory has to be determined and of
  the hardware if not; in the second case a write that starts inside the memory may have written its first bytes. An access of no bytes that starts beyond the end traps only in the first case; in the second it succeeds, reads
  nothing and leaves the memory as it is. In no case is an address outside the reserved space used.
\<close>

theorem wasi_memory_access:
  assumes "mmap_reachable page_size (mapping g)" "page_size_ok page_size" "length bs < 2 ^ 32"
  shows "let r = read_all_from_memory_wasm32 g off (length bs); w = write_all_to_memory_wasm32 g off bs in
     if unat off + length bs \<le> unat (mmap_length (mapping g))
     then r = Inr (map (guest_bytes g) [unat off ..< unat off + length bs]) \<and>
       (\<exists>g'. w = Inr g' \<and> mapping g' = mapping g \<and> read_all_from_memory_wasm32 g' off (length bs) = Inr bs \<and>
         (\<forall>i. i < unat off \<or> unat off + length bs \<le> i \<longrightarrow> guest_bytes g' i = guest_bytes g i))
     else if bs = [] \<and> \<not> require_dynamic_determination_memory_size (mapping g) then r = Inr [] \<and> w = Inr g
     else r = Inl (Throw (outside_trap (mapping g))) \<and> w = Inl (Throw (outside_write_trap (mapping g) (ucast off)))"
  by (rule read_write_outcome [OF assms])

theorem wasi_memory_access_witness:
  "read_all_from_memory_wasm32 \<lparr>mapping = example_mmap, guest_bytes = (\<lambda>i. of_nat (i mod 256))\<rparr> 65534 2 = Inr [0xFE, 0xFF] \<and>
   read_all_from_memory_wasm32 \<lparr>mapping = example_mmap, guest_bytes = (\<lambda>i. of_nat (i mod 256))\<rparr> 65534 3 = Inl (Throw protection_fault) \<and>
   write_all_to_memory_wasm32 \<lparr>mapping = example_mmap, guest_bytes = (\<lambda>i. of_nat (i mod 256))\<rparr> 65534 [0, 0, 0] = Inl (Throw torn_store) \<and>
   read_all_from_memory_wasm32 \<lparr>mapping = example_mmap, guest_bytes = (\<lambda>i. of_nat (i mod 256))\<rparr> 65537 0 = Inr []"
proof -
  let ?g = "\<lparr>mapping = example_mmap, guest_bytes = (\<lambda>i. of_nat (i mod 256))\<rparr>"
  have p: "page_size_ok 4096" unfolding page_size_ok_def by (rule exI [of _ 12]) simp
  have g: "mmap_reachable 4096 (mapping ?g)" using example_mmap_reachable by simp
  have l: "unat (mmap_length example_mmap) = 65536" "\<not> require_dynamic_determination_memory_size example_mmap" by (simp_all add: example_mmap_def)
  have len: "length [0, 0 :: byte] = 2" "length [0, 0, 0 :: byte] = 3" "length ([] :: byte list) = 0" by simp_all
  show ?thesis
    using wasi_memory_access [OF g p, of "[0, 0]" 65534, unfolded len] wasi_memory_access [OF g p, of "[0, 0, 0]" 65534, unfolded len]
      wasi_memory_access [OF g p, of "[]" 65537, unfolded len] l
    by (simp add: upt_rec Let_def outside_trap_def outside_write_trap_def)
qed

text \<open>
  \<^bold>\<open>C25.\<close> The functions of the extension with 64-bit offsets do not: unless the memory needs its size to be determined, their check accepts every offset and size, in a
  memory of 64-bit addresses because the test is never compiled, and a store beyond the reserved space writes to memory of the host.
\<close>

theorem wasm64_check_accepts_everything:
  assumes "mmap_reachable page_size (mapping g)" "page_size_ok page_size" "\<not> require_dynamic_determination_memory_size (mapping g)"
  shows "check_memory_bounds_wasm64 (mapping g) off wasm_bytes = Inr () \<and>
    (\<forall>reserved accessible. mapped (mapping g) = Some (reserved, accessible) \<and> reserved \<le> unat off \<longrightarrow>
       store_basic_wasm_type_to_memory_wasm64 8 g off (v :: u64) = Inl UB)"
proof (intro conjI allI impI)
  show c: "check_memory_bounds_wasm64 (mapping g) off wasm_bytes = Inr ()" for wasm_bytes
    using assms(3) by (simp add: check_memory_bounds_wasm64_def wasi_check_memory_bounds_unlocked_def is_full_page_protection_def
        split: mmap_memory_status_t.split)
  fix reserved accessible assume "mapped (mapping g) = Some (reserved, accessible) \<and> reserved \<le> unat off"
  then have m: "mapped (mapping g) = Some (reserved, accessible)" "reserved \<le> unat off" by auto
  obtain reserved' accessible' where "mapped (mapping g) = Some (reserved', accessible')" "accessible' = unat (mmap_length (mapping g))"
      "reserved' = unat (max_protection_space (mmap_status (mapping g))) + 64 + 2 ^ mmap_page_size_log2 (mapping g)"
    using mmap_ok_accessible [OF mmap_reachable_ok [OF assms(1,2)] assms(2)] assms(3) by metis
  moreover have "unat (mmap_length (mapping g)) \<le> unat (max_page_memory_length (mmap_status (mapping g)))"
    using mmap_reachable_ok [OF assms(1,2)] by (simp add: mmap_ok_def Let_def)
  ultimately have "accessible < unat off"
    using m by (cases "mmap_status (mapping g)") auto
  then have "touch (mapping g) off 1 = Inl UB" using m by (simp add: touch_def)
  then show "store_basic_wasm_type_to_memory_wasm64 8 g off v = Inl UB"
    using c [of 8] by (simp add: store_basic_wasm_type_to_memory_wasm64_def store_basic_wasm_type_to_memory_def check_memory_bounds_wasm64_def
        copy_to_def write_bytes_def length_0_conv [symmetric] del: length_0_conv)
qed

theorem wasm64_check_accepts_everything_witness:
  "check_memory_bounds_wasm64 example_mmap (2 ^ 63) 8 = Inr () \<and>
   store_basic_wasm_type_to_memory_wasm64 8 \<lparr>mapping = example_mmap, guest_bytes = (\<lambda>_. 0)\<rparr> (2 ^ 63) (1 :: u64) = Inl UB"
proof -
  let ?g = "\<lparr>mapping = example_mmap, guest_bytes = (\<lambda>_. 0)\<rparr>"
  have p: "page_size_ok 4096" unfolding page_size_ok_def by (rule exI [of _ 12]) simp
  have g: "mmap_reachable 4096 (mapping ?g)" "\<not> require_dynamic_determination_memory_size (mapping ?g)"
    using example_mmap_reachable by (simp_all add: example_mmap_def)
  show ?thesis
    using wasm64_check_accepts_everything [OF g(1) p g(2), of "2 ^ 63" 8 1]
    by (simp add: example_mmap_def)
qed

end
