(* ===== verification/Wasi_Path_Open.thy ===== *)
theory Wasi_Path_Open
  imports Wasi_Fd Wasi_Memory
begin

text \<open>
  The function \<open>path_open\<close> (\<^verbatim>\<open>imported/wasi/wasip1/func/path_open.h\<close>), through which a program gets new descriptors: it reads a path from
  the memory of the program, resolves it below the directory of a descriptor, opens what it finds, and enters it into the
  descriptor table. The model is that of a POSIX host on which both flags \<^verbatim>\<open>O_DSYNC\<close> and \<^verbatim>\<open>O_RSYNC\<close> exist. Opening a file
  while the console is sealed, which is done by another function of the host with the same arguments, is \<open>native_file_at\<close> as well;
  the record of the path for checkpoints, the trace output and the call of the debugger have no counterpart. A copy of a native
  directory is the directory.

  The answers of the host are a function of the calls made since \<open>path_open\<close> was entered; a theorem for every host
  holds for whatever the host did before.
\<close>

unbundle bit_operations_syntax

section \<open>Flags and rights\<close>

type_synonym lookupflags_t = u32
type_synonym oflags_t = "16 word"
type_synonym fdflags_t = "16 word"
type_synonym rights_t = u64

abbreviation lookup_symlink_follow :: lookupflags_t where "lookup_symlink_follow \<equiv> 0x00000001"

abbreviation o_creat :: oflags_t where "o_creat \<equiv> 0x0001"
abbreviation o_directory :: oflags_t where "o_directory \<equiv> 0x0002"
abbreviation o_excl :: oflags_t where "o_excl \<equiv> 0x0004"
abbreviation o_trunc :: oflags_t where "o_trunc \<equiv> 0x0008"

abbreviation fdflag_append :: fdflags_t where "fdflag_append \<equiv> 0x0001"
abbreviation fdflag_dsync :: fdflags_t where "fdflag_dsync \<equiv> 0x0002"
abbreviation fdflag_nonblock :: fdflags_t where "fdflag_nonblock \<equiv> 0x0004"
abbreviation fdflag_rsync :: fdflags_t where "fdflag_rsync \<equiv> 0x0008"
abbreviation fdflag_sync :: fdflags_t where "fdflag_sync \<equiv> 0x0010"

abbreviation right_fd_datasync :: rights_t where "right_fd_datasync \<equiv> 0x0000000000000001"
abbreviation right_fd_read :: rights_t where "right_fd_read \<equiv> 0x0000000000000002"
abbreviation right_fd_sync :: rights_t where "right_fd_sync \<equiv> 0x0000000000000010"
abbreviation right_fd_write :: rights_t where "right_fd_write \<equiv> 0x0000000000000040"
abbreviation right_path_create_file :: rights_t where "right_path_create_file \<equiv> 0x0000000000000400"
abbreviation right_path_open :: rights_t where "right_path_open \<equiv> 0x0000000000002000"
abbreviation right_path_filestat_set_size :: rights_t where "right_path_filestat_set_size \<equiv> 0x0000000000080000"

definition has_flag :: "'a::len word \<Rightarrow> 'a word \<Rightarrow> bool" where
  "has_flag flags flag \<longleftrightarrow> flags AND flag = flag"

text \<open>The tests of the flags, and the mode in which the host opens.\<close>

definition path_open_mode :: "oflags_t \<Rightarrow> fdflags_t \<Rightarrow> rights_t \<Rightarrow> rights_t \<Rightarrow> errno_t + open_flag set" where
  "path_open_mode oflags fdflags fs_rights_base curr_rights_base =
     (let is_creat = has_flag oflags o_creat; is_dir = has_flag oflags o_directory;
          is_excl = has_flag oflags o_excl; is_trunc = has_flag oflags o_trunc;
          is_append = has_flag fdflags fdflag_append; is_dsync = has_flag fdflags fdflag_dsync;
          is_nonblock = has_flag fdflags fdflag_nonblock; is_rsync = has_flag fdflags fdflag_rsync;
          is_sync = has_flag fdflags fdflag_sync;
          is_read = has_flag fs_rights_base right_fd_read; is_write = has_flag fs_rights_base right_fd_write;
          required = right_path_open OR (if is_creat then right_path_create_file else 0) OR
            (if is_trunc then right_path_filestat_set_size else 0) OR (if is_sync \<or> is_rsync then right_fd_sync else 0) in
      if is_trunc \<and> \<not> is_write then Inl einval
      else if is_dir \<and> (is_trunc \<or> is_append \<or> is_excl \<or> is_creat) then Inl einval
      else if is_excl \<and> \<not> is_creat then Inl einval
      else if required AND NOT curr_rights_base \<noteq> 0 \<or> is_dsync \<and> curr_rights_base AND (right_fd_datasync OR right_fd_sync) = 0 then Inl enotcapable
      else Inr ({mode_explicit_disposition} \<union>
        (if is_creat then {mode_creat} else {}) \<union> (if is_dir then {mode_directory} else {}) \<union>
        (if is_excl then {mode_excl} else {}) \<union> (if is_trunc then {mode_trunc} else {}) \<union>
        (if is_append then {mode_app} else {}) \<union> (if is_nonblock then {mode_no_block} else {}) \<union>
        (if is_sync then {mode_sync} else {}) \<union> (if is_dsync then {mode_dsync} else {}) \<union> (if is_rsync then {mode_rsync} else {}) \<union>
        (if is_read then {mode_in} else {}) \<union> (if is_write then {mode_out} else {}) \<union>
        (if \<not> is_read \<and> \<not> is_write \<and> \<not> is_dir then {mode_in} else {})))"

section \<open>The directory and the path\<close>

text \<open>The descriptor that the path starts from, and its stack of directories, the root first.\<close>

definition path_open_directory :: "u32 \<Rightarrow> 'h wasm_fd_storage_t \<Rightarrow> errno_t + 'h wasi_fd_t \<times> 'h dir_stack_entry_t list" where
  "path_open_directory dirfd st =
     bindE (acquire_fd dirfd st) (\<lambda>(_, curr_fd).
     if rights_base curr_fd AND right_path_open \<noteq> right_path_open then Inl enotcapable
     else case wasi_fd curr_fd of
       None \<Rightarrow> Inl eio
     | Some fd_null \<Rightarrow> Inl eio
     | Some (fd_file _) \<Rightarrow> Inl enotdir
     | Some (fd_file_observer _) \<Rightarrow> Inl enotdir
     | Some (fd_dir curr_dir_stack) \<Rightarrow> if curr_dir_stack = [] then Inl eio else Inr (curr_fd, curr_dir_stack))"

definition path_open_components :: "bool \<Rightarrow> byte list \<Rightarrow> errno_t + split_path_t list" where
  "path_open_components disable_check path =
     (if path = [] then Inl einval
      else if check_path_text disable_check path \<noteq> success then Inl eilseq
      else
        let split_path_res = split_posix_path path in
        if is_absolute split_path_res then Inl enotcapable
        else if res_components split_path_res = [] then Inl einval
        else Inr (res_components split_path_res))"

section \<open>The walk\<close>

text \<open>A component that is not the last one. Each link starts with a depth of its own.\<close>

definition path_open_step ::
    "bool \<Rightarrow> 'h host \<Rightarrow> 'h \<Rightarrow> split_path_t \<Rightarrow> ('h, 'h dir_with_name_t) walk \<Rightarrow> errno_t \<times> ('h, 'h dir_with_name_t) walk" where
  "path_open_step disable_check host base split_curr st =
     (let env = named_env disable_check host base in
      case dir_type split_curr of
        dir_curr \<Rightarrow> (esuccess, st)
      | dir_prev \<Rightarrow>
          if curr_path_stack st = [] then (enotcapable, st) else (esuccess, st\<lparr>curr_path_stack := tl (curr_path_stack st)\<rparr>)
      | dir_next \<Rightarrow>
          (case readlink_step env (next_name split_curr) st of
             (Some symlink_symbol, st1) \<Rightarrow>
               if symlink_symbol = [] then (eio, st1)
               else (case path_symlink_iterative_with_name disable_check host base symlink_symbol (curr_path_stack st1) (host_calls st1) of
                       (err, stack, calls) \<Rightarrow> (err, st1\<lparr>curr_path_stack := stack, host_calls := calls\<rparr>))
           | (None, st1) \<Rightarrow>
               (case open_dir_step env {} (next_name split_curr) st1 of
                  (Inl e, st2) \<Rightarrow> (path_errno_from_fast_io_error e, st2)
                | (Inr next, st2) \<Rightarrow>
                    (esuccess, st2\<lparr>curr_path_stack := \<lparr>dir_name = next_name split_curr, dir_file = next\<rparr> # curr_path_stack st2\<rparr>))))"

text \<open>The directories of the walk, behind those of the descriptor.\<close>

definition path_entries :: "'h dir_with_name_t list \<Rightarrow> 'h dir_stack_entry_t list" where
  "path_entries stack = map (\<lambda>d. \<lparr>storage_handle = dir_file d, is_observer = False, entry_name = dir_name d\<rparr>) (rev stack)"

definition path_open_independent_directory ::
    "'h host \<Rightarrow> open_flag set \<Rightarrow> 'h dir_stack_entry_t list \<Rightarrow> 'h host_call list \<Rightarrow> (errno_t + 'h dir_stack_entry_t list) \<times> 'h host_call list" where
  "path_open_independent_directory host mode chain calls =
     (if chain = [] then (Inl eio, calls)
      else
        let original = last chain; r = dir_file_at host calls (storage_handle original) [dot] mode;
            calls' = open_dir_call (storage_handle original) [dot] mode (opened r) # calls in
        case r of
          Inl e \<Rightarrow> (Inl (path_errno_from_fast_io_error e), calls')
        | Inr h \<Rightarrow> (Inr (butlast chain @ [\<lparr>storage_handle = h, is_observer = False, entry_name = entry_name original\<rparr>]), calls'))"

text \<open>A name in the directory on top of the stack.\<close>

definition path_open_name ::
    "bool \<Rightarrow> 'h host \<Rightarrow> 'h \<Rightarrow> bool \<Rightarrow> open_flag set \<Rightarrow> 'h dir_stack_entry_t list \<Rightarrow> byte list \<Rightarrow> ('h, 'h dir_with_name_t) walk \<Rightarrow>
       (errno_t + 'h wasi_fd_storage_t) \<times> 'h host_call list" where
  "path_open_name disable_check host base is_dir mode curr_dir_stack open_file_name st =
     (let env = named_env disable_check host base in
      if is_dir
      then (case open_dir_step env mode open_file_name st of
              (Inl e, st1) \<Rightarrow> (Inl (path_errno_from_fast_io_error e), host_calls st1)
            | (Inr h, st1) \<Rightarrow>
                (Inr (fd_dir (curr_dir_stack @ path_entries (curr_path_stack st1) @
                   [\<lparr>storage_handle = h, is_observer = False, entry_name = open_file_name\<rparr>])), host_calls st1))
      else
        let d = current_dir env (curr_path_stack st); r = native_file_at host (host_calls st) d open_file_name mode;
            calls = open_file_call d open_file_name mode (opened r) # host_calls st in
        case r of Inl e \<Rightarrow> (Inl (path_errno_from_fast_io_error e), calls) | Inr h \<Rightarrow> (Inr (fd_file h), calls))"

definition path_open_last ::
    "bool \<Rightarrow> 'h host \<Rightarrow> 'h \<Rightarrow> bool \<Rightarrow> bool \<Rightarrow> open_flag set \<Rightarrow> 'h dir_stack_entry_t list \<Rightarrow> split_path_t \<Rightarrow> ('h, 'h dir_with_name_t) walk \<Rightarrow>
       (errno_t + 'h wasi_fd_storage_t) \<times> 'h host_call list" where
  "path_open_last disable_check host base symlink_follow is_dir mode curr_dir_stack split_curr st =
     (case dir_type split_curr of
        dir_curr \<Rightarrow>
          if is_dir
          then (case path_open_independent_directory host mode (curr_dir_stack @ path_entries (curr_path_stack st)) (host_calls st) of
                  (Inl e, calls) \<Rightarrow> (Inl e, calls) | (Inr chain, calls) \<Rightarrow> (Inr (fd_dir chain), calls))
          else (Inl eisdir, host_calls st)
      | dir_prev \<Rightarrow>
          if is_dir
          then if curr_path_stack st = [] then (Inl enotcapable, host_calls st)
               else (case path_open_independent_directory host mode (curr_dir_stack @ path_entries (tl (curr_path_stack st))) (host_calls st) of
                       (Inl e, calls) \<Rightarrow> (Inl e, calls) | (Inr chain, calls) \<Rightarrow> (Inr (fd_dir chain), calls))
          else (Inl eisdir, host_calls st)
      | dir_next \<Rightarrow>
          (case readlink_step (named_env disable_check host base) (next_name split_curr) st of
             (Some symlink_symbol, st1) \<Rightarrow>
               if \<not> symlink_follow then (Inl (if is_dir then enotdir else eloop), host_calls st1)
               else (case file_symlink_iterative_with_name disable_check host base symlink_symbol (curr_path_stack st1) (host_calls st1) of
                       ((err, file_name), stack, calls) \<Rightarrow>
                         if err \<noteq> esuccess then (Inl err, calls)
                         else path_open_name disable_check host base is_dir mode curr_dir_stack file_name
                                (st1\<lparr>curr_path_stack := stack, host_calls := calls\<rparr>))
           | (None, st1) \<Rightarrow> path_open_name disable_check host base is_dir mode curr_dir_stack (next_name split_curr) st1))"

text \<open>The loop over the components, of which there is at least one.\<close>

fun path_open_walk ::
    "bool \<Rightarrow> 'h host \<Rightarrow> 'h \<Rightarrow> bool \<Rightarrow> bool \<Rightarrow> open_flag set \<Rightarrow> 'h dir_stack_entry_t list \<Rightarrow> split_path_t list \<Rightarrow> ('h, 'h dir_with_name_t) walk \<Rightarrow>
       (errno_t + 'h wasi_fd_storage_t) \<times> 'h host_call list" where
  "path_open_walk disable_check host base symlink_follow is_dir mode curr_dir_stack [] st = (Inl eio, host_calls st)"
| "path_open_walk disable_check host base symlink_follow is_dir mode curr_dir_stack [split_curr] st =
     path_open_last disable_check host base symlink_follow is_dir mode curr_dir_stack split_curr st"
| "path_open_walk disable_check host base symlink_follow is_dir mode curr_dir_stack (split_curr # split_next # rest) st =
     (case path_open_step disable_check host base split_curr st of
        (err, st1) \<Rightarrow>
          if err \<noteq> esuccess then (Inl err, host_calls st1)
          else path_open_walk disable_check host base symlink_follow is_dir mode curr_dir_stack (split_next # rest) st1)"

section \<open>The function\<close>

datatype wasi_exit = guest_memory_trap access_exit | fd_table_exit fd_exit | guest_pointer_alignment_trap

definition lift_exit :: "('e \<Rightarrow> 'f) \<Rightarrow> ('e, 'a) res \<Rightarrow> ('f, 'a) res" where
  "lift_exit f r = (case r of Inl UB \<Rightarrow> Inl UB | Inl (Throw e) \<Rightarrow> Inl (Throw (f e)) | Inr a \<Rightarrow> Inr a)"

record 'h wasip1_environment =
  wasip1_memory :: "guest_memory option" \<comment> \<open>\<open>None\<close> is the null pointer\<close>
  fd_storage :: "'h wasm_fd_storage_t"
  env_disable_utf8_check :: bool

definition check_wasip1_guest_pointer_alignment :: "u32 \<Rightarrow> u32 \<Rightarrow> (wasi_exit, unit) res" where
  "check_wasip1_guest_pointer_alignment required_alignment guest_offset =
     throw_if (guest_offset AND (required_alignment - 1) \<noteq> 0) guest_pointer_alignment_trap"

text \<open>From the path on: the checks of the request, the walk, and the entry into the table.\<close>

definition path_open_enter ::
    "'h wasi_fd_t \<Rightarrow> guest_memory \<Rightarrow> u32 \<Rightarrow> 'h host_call list \<Rightarrow> 'h wasip1_environment \<Rightarrow>
       (wasi_exit, errno_t \<times> 'h wasip1_environment \<times> 'h host_call list) res" where
  "path_open_enter new_wasi_fd memory fd_ptrsz calls env =
     bindE (lift_exit fd_table_exit (allocate_fd new_wasi_fd (fd_storage env))) (\<lambda>(e, new_fd, st).
     if e \<noteq> esuccess then Inr (e, env, calls)
     else
       bindE (lift_exit guest_memory_trap (store_basic_wasm_type_to_memory_unchecked 4 memory (ucast fd_ptrsz) new_fd)) (\<lambda>memory'.
       Inr (esuccess, env\<lparr>fd_storage := st, wasip1_memory := Some memory'\<rparr>, calls)))"

definition path_open_path ::
    "'h host \<Rightarrow> lookupflags_t \<Rightarrow> oflags_t \<Rightarrow> rights_t \<Rightarrow> rights_t \<Rightarrow> fdflags_t \<Rightarrow> u32 \<Rightarrow>
       'h wasi_fd_t \<Rightarrow> 'h dir_stack_entry_t list \<Rightarrow> guest_memory \<Rightarrow> byte list \<Rightarrow> 'h wasip1_environment \<Rightarrow>
       (wasi_exit, errno_t \<times> 'h wasip1_environment \<times> 'h host_call list) res" where
  "path_open_path host dirflags oflags fs_rights_base fs_rights_inheriting fdflags fd_ptrsz curr_fd curr_dir_stack memory path env =
     (let base = storage_handle (last curr_dir_stack); symlink_follow = has_flag dirflags lookup_symlink_follow;
          disable_check = env_disable_utf8_check env; is_dir = has_flag oflags o_directory in
      case path_open_components disable_check path of
        Inl e \<Rightarrow> Inr (e, env, [])
      | Inr comps \<Rightarrow>
          if fs_rights_base AND NOT (rights_inherit curr_fd) \<noteq> 0 then Inr (enotcapable, env, [])
          else if fs_rights_inheriting AND NOT (rights_inherit curr_fd) \<noteq> 0 then Inr (enotcapable, env, [])
          else
            bindE (lift_exit guest_memory_trap (check_memory_bounds_wasm32 (mapping memory) fd_ptrsz 4)) (\<lambda>_.
            case path_open_mode oflags fdflags fs_rights_base (rights_base curr_fd) of
              Inl e \<Rightarrow> Inr (e, env, [])
            | Inr mode \<Rightarrow>
                (case path_open_walk disable_check host base symlink_follow is_dir mode curr_dir_stack comps
                        \<lparr>symlink_depth = 0, curr_path_stack = [], host_calls = []\<rparr> of
                   (Inl e, calls) \<Rightarrow> Inr (e, env, calls)
                 | (Inr storage, calls) \<Rightarrow>
                     path_open_enter
                       \<lparr>wasi_fd = Some storage, rights_base = fs_rights_base, rights_inherit = fs_rights_inheriting, close_pos = SIZE_MAX\<rparr>
                       memory fd_ptrsz calls env)))"

definition path_open ::
    "'h host \<Rightarrow> u32 \<Rightarrow> lookupflags_t \<Rightarrow> u32 \<Rightarrow> u32 \<Rightarrow> oflags_t \<Rightarrow> rights_t \<Rightarrow> rights_t \<Rightarrow> fdflags_t \<Rightarrow> u32 \<Rightarrow> 'h wasip1_environment \<Rightarrow>
       (wasi_exit, errno_t \<times> 'h wasip1_environment \<times> 'h host_call list) res" where
  "path_open host dirfd dirflags path_ptrsz path_len oflags fs_rights_base fs_rights_inheriting fdflags fd_ptrsz env =
     (case wasip1_memory env of
        None \<Rightarrow> Inr (efault, env, [])
      | Some memory \<Rightarrow>
          bindE (check_wasip1_guest_pointer_alignment 4 fd_ptrsz) (\<lambda>_.
          case path_open_directory dirfd (fd_storage env) of
            Inl e \<Rightarrow> Inr (e, env, [])
          | Inr (curr_fd, curr_dir_stack) \<Rightarrow>
              bindE (lift_exit guest_memory_trap (read_all_from_memory_wasm32 memory path_ptrsz (unat path_len))) (\<lambda>path.
              path_open_path host dirflags oflags fs_rights_base fs_rights_inheriting fdflags fd_ptrsz curr_fd curr_dir_stack memory path env)))"

section \<open>Confinement\<close>

lemma walk_ok_iff:
  "walk_ok env (st\<lparr>curr_path_stack := stack, host_calls := calls\<rparr>) \<longleftrightarrow>
     confined (curr_fd_native_dir_file env) calls \<and> stack_chain env calls stack"
  by (simp add: walk_ok_def)

lemma named_env_base [simp]: "curr_fd_native_dir_file (named_env dc host base) = base"
  by (simp add: named_env_def)

lemma path_with_name_ok:
  assumes "path_symlink_iterative_with_name dc host base p (curr_path_stack st) (host_calls st) = (err, stack, calls)"
    and "walk_ok (named_env dc host base) st"
  shows "walk_ok (named_env dc host base) (st\<lparr>curr_path_stack := stack, host_calls := calls\<rparr>)"
proof -
  let ?st = "\<lparr>symlink_depth = 0, curr_path_stack = curr_path_stack st, host_calls = host_calls st\<rparr>"
  have "walk_ok (named_env dc host base) ?st" using assms(2) by (simp add: walk_ok_def)
  from path_symlink_iterative_impl_ok [OF envs_ok(2) this, of p] show ?thesis
    using assms(1) by (auto simp: path_symlink_iterative_with_name_def walk_ok_def split: prod.splits)
qed

lemma file_with_name_ok:
  assumes "file_symlink_iterative_with_name dc host base p (curr_path_stack st) (host_calls st) = ((err, n), stack, calls)"
    and "walk_ok (named_env dc host base) st"
  shows "walk_ok (named_env dc host base) (st\<lparr>curr_path_stack := stack, host_calls := calls\<rparr>) \<and> (err = esuccess \<longrightarrow> component_name n)"
proof -
  let ?st = "\<lparr>symlink_depth = 0, curr_path_stack = curr_path_stack st, host_calls = host_calls st\<rparr>"
  have "walk_ok (named_env dc host base) ?st" using assms(2) by (simp add: walk_ok_def)
  from file_symlink_iterative_impl_ok [OF envs_ok(2) this, of p] show ?thesis
    using assms(1) by (auto simp: file_symlink_iterative_with_name_def walk_ok_def split: prod.splits)
qed

lemma path_open_step_ok:
  assumes "path_open_step dc host base c st = (err, st')" "walk_ok (named_env dc host base) st" "proper_component c"
  shows "walk_ok (named_env dc host base) st'"
proof (cases "dir_type c")
  case dir_next
  let ?env = "named_env dc host base"
  have n: "component_name (next_name c)" using assms(3) dir_next by (simp add: proper_component_def)
  obtain link st1 where r: "readlink_step ?env (next_name c) st = (link, st1)" by fastforce
  note ok1 = readlink_step_ok [OF r assms(2) n]
  show ?thesis
  proof (cases link)
    case None
    obtain dir st2 where d: "open_dir_step ?env {} (next_name c) st1 = (dir, st2)" by fastforce
    have e: "stack_entry ?env (next_name c) h = \<lparr>dir_name = next_name c, dir_file = h\<rparr>" for h by (simp add: named_env_def)
    show ?thesis
      using assms(1) push_dir_ok [of ?env "{}" "next_name c" st1 _ st2] open_dir_step_ok [OF d ok1 n] ok1 n d
      by (cases dir) (auto simp: path_open_step_def dir_next r None e Let_def)
  next
    case (Some symbol)
    obtain e stack calls where p: "path_symlink_iterative_with_name dc host base symbol (curr_path_stack st1) (host_calls st1) = (e, stack, calls)"
      by (metis prod_cases3)
    show ?thesis using assms(1) ok1 path_with_name_ok [OF p ok1] p by (auto simp: path_open_step_def dir_next r Some Let_def split: if_splits)
  qed
qed (use assms in \<open>auto simp: path_open_step_def Let_def split: if_splits\<close>)

text \<open>What was opened: an entry of the directory of the walk or of one below it, or such a directory itself.\<close>

fun opened_below :: "'h \<Rightarrow> 'h host_call list \<Rightarrow> 'h wasi_fd_storage_t \<Rightarrow> bool" where
  "opened_below base calls (fd_file h) \<longleftrightarrow>
     (\<exists>d n m. open_file_call d n m (Some h) \<in> set calls \<and> d \<in> insert base (opened_dirs calls) \<and> component_name n)"
| "opened_below base calls (fd_dir chain) \<longleftrightarrow> chain \<noteq> [] \<and> storage_handle (last chain) \<in> opened_dirs calls"
| "opened_below base calls _ \<longleftrightarrow> False"

lemma current_dir_entries:
  "current_dir (named_env dc host base) stack = storage_handle (last (chain @ path_entries stack))"
  if "chain \<noteq> []" "storage_handle (last chain) = base"
  using that by (cases stack) (simp_all add: current_dir_def named_env_def path_entries_def)

lemma opened_dirs_open_dir [simp]: "opened_dirs (open_dir_call d n m (Some h) # calls) = insert h (opened_dirs calls)"
  by (auto simp: opened_dirs_def)

lemma independent_directory_ok:
  assumes "path_open_independent_directory host mode (chain @ path_entries (curr_path_stack st)) (host_calls st) = (r, calls)"
    and "walk_ok (named_env dc host base) st" "chain \<noteq> []" "storage_handle (last chain) = base"
  shows "confined base calls \<and> (\<forall>c. r = Inr c \<longrightarrow> opened_below base calls (fd_dir c))"
proof -
  let ?h = "storage_handle (last (chain @ path_entries (curr_path_stack st)))"
  have d: "?h = current_dir (named_env dc host base) (curr_path_stack st)" using current_dir_entries [OF assms(3,4)] by simp
  define res where "res = dir_file_at host (host_calls st) ?h [dot] mode"
  have calls: "calls = open_dir_call ?h [dot] mode (opened res) # host_calls st"
    using assms(1,3) by (auto simp: path_open_independent_directory_def Let_def res_def split: sum.splits)
  have "walk_ok (named_env dc host base) (st\<lparr>host_calls := calls\<rparr>)"
    unfolding calls by (rule walk_ok_call [OF assms(2)]) (simp_all add: d)
  then have "confined base calls" by (simp add: walk_ok_def)
  moreover have "opened_below base calls (fd_dir c)" if "r = Inr c" for c
    using assms(1,3) that calls by (auto simp: path_open_independent_directory_def Let_def res_def opened_def split: sum.splits)
  ultimately show ?thesis by blast
qed

lemma path_open_name_ok:
  assumes "path_open_name dc host base is_dir mode chain n st = (r, calls)" "walk_ok (named_env dc host base) st" "component_name n"
  shows "confined base calls \<and> (\<forall>s. r = Inr s \<longrightarrow> opened_below base calls s)"
proof (cases is_dir)
  case True
  obtain dir st1 where d: "open_dir_step (named_env dc host base) mode n st = (dir, st1)" by fastforce
  have "walk_ok (named_env dc host base) st1" using open_dir_step_ok [OF d assms(2,3)] .
  then show ?thesis
    using assms(1) True d open_dir_step_calls [OF d]
    by (cases dir) (auto simp: path_open_name_def walk_ok_def opened_def)
next
  case False
  let ?d = "current_dir (named_env dc host base) (curr_path_stack st)"
  define res where "res = native_file_at host (host_calls st) ?d n mode"
  have calls: "calls = open_file_call ?d n mode (opened res) # host_calls st"
    using assms(1) False by (auto simp: path_open_name_def Let_def res_def split: sum.splits)
  have "walk_ok (named_env dc host base) (st\<lparr>host_calls := calls\<rparr>)"
    unfolding calls by (rule walk_ok_call [OF assms(2)]) (simp_all add: assms(3))
  then have "confined base calls" by (simp add: walk_ok_def)
  moreover have d: "?d \<in> insert base (opened_dirs calls)"
    using current_dir_opened [of "named_env dc host base" "host_calls st" "curr_path_stack st"] assms(2) opened_dirs_Cons
    unfolding calls walk_ok_def by fastforce
  have "opened_below base calls s" if r: "r = Inr s" for s
  proof -
    obtain h where h: "res = Inr h" "s = fd_file h"
      using assms(1) False r by (cases res) (auto simp: path_open_name_def Let_def simp flip: res_def)
    have "open_file_call ?d n mode (Some h) \<in> set calls" using calls h(1) by (simp add: opened_def)
    then show ?thesis using d assms(3) h(2) by auto
  qed
  ultimately show ?thesis by blast
qed

lemma path_open_last_ok:
  assumes "path_open_last dc host base follow is_dir mode chain c st = (r, calls)" "walk_ok (named_env dc host base) st"
    "proper_component c" "chain \<noteq> []" "storage_handle (last chain) = base"
  shows "confined base calls \<and> (\<forall>s. r = Inr s \<longrightarrow> opened_below base calls s)"
proof -
  let ?env = "named_env dc host base"
  have conf: "confined base (host_calls st)" using assms(2) by (simp add: walk_ok_def)
  show ?thesis
  proof (cases "dir_type c")
    case dir_curr
    obtain q k where i: "path_open_independent_directory host mode (chain @ path_entries (curr_path_stack st)) (host_calls st) = (q, k)" by fastforce
    show ?thesis using assms(1) dir_curr conf independent_directory_ok [OF i assms(2,4,5)] i
      by (cases q) (auto simp: path_open_last_def split: if_splits)
  next
    case dir_prev
    let ?st = "st\<lparr>curr_path_stack := tl (curr_path_stack st)\<rparr>"
    obtain q k where i: "path_open_independent_directory host mode (chain @ path_entries (curr_path_stack ?st)) (host_calls ?st) = (q, k)" by fastforce
    show ?thesis using assms(1) dir_prev conf independent_directory_ok [OF i walk_ok_updates(2) [OF assms(2)] assms(4,5)] i
      by (cases q) (auto simp: path_open_last_def split: if_splits)
  next
    case dir_next
    have n: "component_name (next_name c)" using assms(3) dir_next by (simp add: proper_component_def)
    obtain link st1 where l: "readlink_step ?env (next_name c) st = (link, st1)" by fastforce
    note ok1 = readlink_step_ok [OF l assms(2) n]
    show ?thesis
    proof (cases link)
      case None
      then show ?thesis using assms(1) dir_next l path_open_name_ok [OF _ ok1 n] by (simp add: path_open_last_def)
    next
      case (Some symbol)
      obtain err f stack k where f: "file_symlink_iterative_with_name dc host base symbol (curr_path_stack st1) (host_calls st1) = ((err, f), stack, k)"
        by (metis prod_cases4 surj_pair)
      let ?st2 = "st1\<lparr>curr_path_stack := stack, host_calls := k\<rparr>"
      note ok2 = file_with_name_ok [OF f ok1]
      have "confined base (host_calls st1)" "confined base k" using ok1 ok2 by (auto simp: walk_ok_def)
      then show ?thesis
        using assms(1) dir_next l Some f ok2 path_open_name_ok [of dc host base is_dir mode chain f ?st2 r calls]
        by (auto simp: path_open_last_def split: if_splits)
    qed
  qed
qed

lemma path_open_walk_ok:
  assumes "path_open_walk dc host base follow is_dir mode chain comps st = (r, calls)" "walk_ok (named_env dc host base) st"
    "list_all proper_component comps" "chain \<noteq> []" "storage_handle (last chain) = base"
  shows "confined base calls \<and> (\<forall>s. r = Inr s \<longrightarrow> opened_below base calls s)"
  using assms
proof (induction dc host base follow is_dir mode chain comps st rule: path_open_walk.induct)
  case (1 dc host base follow is_dir mode chain st)
  then show ?case by (auto simp: walk_ok_def)
next
  case (2 dc host base follow is_dir mode chain c st)
  then show ?case using path_open_last_ok [of dc host base follow is_dir mode chain c st r calls] by simp
next
  case (3 dc host base follow is_dir mode chain c c' rest st)
  obtain err st1 where s: "path_open_step dc host base c st = (err, st1)" by fastforce
  have ok1: "walk_ok (named_env dc host base) st1" using path_open_step_ok [OF s 3(3)] 3(4) by simp
  show ?case
  proof (cases "err = esuccess")
    case True
    then show ?thesis using 3(1) [OF s [symmetric] _ _ ok1] 3(2,4-) s by simp
  next
    case False
    then show ?thesis using 3(2) s ok1 by (auto simp: walk_ok_def)
  qed
qed

lemma path_open_components_ok:
  assumes "path_open_components dc path = Inr comps"
  shows "list_all proper_component comps \<and> comps \<noteq> []"
proof -
  have "check_path_text dc path = success" "comps = split_tokens path" "comps \<noteq> []"
    using assms by (auto simp: path_open_components_def split_posix_path_def Let_def split: if_splits)
  then show ?thesis using path_text_proper by auto
qed

lemma path_open_directory_ok:
  assumes "fd_inv st" "path_open_directory dirfd st = Inr (curr_fd, chain)"
  shows "fd_map st dirfd = Some curr_fd \<and> wasi_fd curr_fd = Some (fd_dir chain) \<and> chain \<noteq> [] \<and> rights_base curr_fd AND right_path_open = right_path_open"
  using assms(2)
  by (auto simp: path_open_directory_def acquire_fd_eq [OF assms(1)] bindE_eq_Inr
      split: option.splits wasi_fd_storage_t.splits if_splits)


section \<open>Outcomes\<close>

lemma lift_exit_simps [simp]: "lift_exit f (Inr a) = Inr a" "lift_exit f (Inl (Throw e)) = Inl (Throw (f e))" "lift_exit f (Inl UB) = Inl UB"
  by (simp_all add: lift_exit_def)

lemma lift_exit_eq: "lift_exit f r = Inr a \<longleftrightarrow> r = Inr a" "lift_exit f r = Inl UB \<longleftrightarrow> r = Inl UB"
  by (auto simp: lift_exit_def split: sum.splits fault.splits)


lemma path_open_directory_error:
  assumes "path_open_directory dirfd st = Inl e"
  shows "e \<noteq> esuccess"
proof (cases "acquire_fd dirfd st")
  case (Inl x)
  then show ?thesis using assms by (auto simp: path_open_directory_def acquire_fd_def split: option.splits if_splits)
next
  case (Inr p)
  obtain slot f where "p = (slot, f)" by fastforce
  then show ?thesis using assms Inr
    by (cases "wasi_fd f") (auto simp: path_open_directory_def split: wasi_fd_storage_t.splits if_splits)
qed

lemma path_open_error_codes:
  "path_open_components dc path = Inl e \<Longrightarrow> e \<noteq> esuccess"
  "path_open_mode oflags fdflags rb cb = Inl e \<Longrightarrow> e \<noteq> esuccess"
  by (auto simp: path_open_components_def path_open_mode_def Let_def split: if_splits)

lemma path_open_last_error: "path_open_last dc host base follow is_dir mode chain c st = (Inl e, calls) \<Longrightarrow> e \<noteq> esuccess"
  by (auto simp: path_open_last_def path_open_name_def path_open_independent_directory_def Let_def
      split: dir_type_e.splits if_splits prod.splits option.splits sum.splits)

lemma path_open_walk_error: "path_open_walk dc host base follow is_dir mode chain comps st = (Inl e, calls) \<Longrightarrow> e \<noteq> esuccess"
  by (induction dc host base follow is_dir mode chain comps st rule: path_open_walk.induct)
    (auto dest: path_open_last_error split: prod.splits if_splits)

abbreviation new_descriptor :: "'h wasi_fd_storage_t \<Rightarrow> rights_t \<Rightarrow> rights_t \<Rightarrow> 'h wasi_fd_t" where
  "new_descriptor storage rb ri \<equiv> \<lparr>wasi_fd = Some storage, rights_base = rb, rights_inherit = ri, close_pos = SIZE_MAX\<rparr>"

text \<open>A descriptor is entered, and its number written to the memory of the program, or nothing changes.\<close>

definition path_open_entered :: "'h wasi_fd_t \<Rightarrow> u32 \<Rightarrow> 'h wasip1_environment \<Rightarrow> 'h wasip1_environment \<Rightarrow> bool" where
  "path_open_entered f fdp env env' \<longleftrightarrow>
     (\<exists>fd g g'. fd_map (fd_storage env) fd = None \<and> fd_inv (fd_storage env') \<and> fd_map (fd_storage env') = (fd_map (fd_storage env))(fd \<mapsto> f) \<and>
        wasip1_memory env = Some g \<and> wasip1_memory env' = Some g' \<and> mapping g' = mapping g \<and>
        map (guest_bytes g') [unat fdp ..< unat fdp + 4] = to_le 4 fd \<and>
        (\<forall>i. i < unat fdp \<or> unat fdp + 4 \<le> i \<longrightarrow> guest_bytes g' i = guest_bytes g i))"

lemma unat_guest_offset: "unat (ucast (off :: u32) :: u64) = unat off" "unat (ucast off :: u64) < 2 ^ 32"
  using unsigned_less [of off, where 'a = nat] by (simp_all add: unsigned_ucast_eq take_bit_nat_eq_self)

lemma path_open_enter_ok:
  assumes "path_open_enter f memory fdp calls env = Inr (err, env', calls')" "fd_inv (fd_storage env)" "live_fd f" "wasip1_memory env = Some memory"
  shows "calls' = calls \<and> (if err = esuccess then path_open_entered f fdp env env' else env' = env)"
proof -
  obtain e fd st where a: "allocate_fd f (fd_storage env) = Inr (e, fd, st)" using assms(1) by (auto simp: path_open_enter_def bindE_eq_Inr lift_exit_eq)
  show ?thesis
  proof (cases "e = esuccess")
    case False
    then show ?thesis using assms(1) a by (auto simp: path_open_enter_def)
  next
    case True
    with assms(1) a obtain memory' where m: "copy_to memory (ucast fdp) (to_le 4 fd) = Inr memory'" "err = esuccess" "calls' = calls"
        "env' = env\<lparr>fd_storage := st, wasip1_memory := Some memory'\<rparr>"
      by (auto simp: path_open_enter_def bindE_eq_Inr lift_exit_eq store_basic_wasm_type_to_memory_unchecked_def)
    have "fd_map (fd_storage env) fd = None \<and> fd_inv st \<and> fd_map st = (fd_map (fd_storage env))(fd \<mapsto> f)"
      using allocate_fd_ok [OF assms(2,3)] a True by (auto split: if_splits)
    with m copy_to_bytes [OF m(1)] show ?thesis using assms(4) by (auto simp: path_open_entered_def unat_guest_offset)
  qed
qed

lemma path_open_path_ok:
  assumes "path_open_path host dirflags oflags rb ri fdflags fdp curr_fd chain memory path env = Inr (err, env', calls)"
    and "fd_inv (fd_storage env)" "chain \<noteq> []" "wasip1_memory env = Some memory"
  defines "base \<equiv> storage_handle (last chain)"
  shows "confined base calls \<and>
     (if err = esuccess then rb AND NOT (rights_inherit curr_fd) = 0 \<and> ri AND NOT (rights_inherit curr_fd) = 0 \<and>
        (\<exists>storage. opened_below base calls storage \<and> path_open_entered (new_descriptor storage rb ri) fdp env env')
      else env' = env)"
proof (cases "err \<noteq> esuccess \<and> env' = env \<and> calls = []")
  case False
  note r = assms(1) [unfolded path_open_path_def Let_def]
  obtain comps where c: "path_open_components (env_disable_utf8_check env) path = Inr comps"
    using r False path_open_error_codes(1) [of "env_disable_utf8_check env" path]
    by (cases "path_open_components (env_disable_utf8_check env) path") auto
  have rights: "rb AND NOT (rights_inherit curr_fd) = 0" "ri AND NOT (rights_inherit curr_fd) = 0"
    using r False c by (auto split: if_splits)
  obtain mode where m: "path_open_mode oflags fdflags rb (rights_base curr_fd) = Inr mode"
    using r False c rights path_open_error_codes(2) [of oflags fdflags rb "rights_base curr_fd"]
    by (cases "path_open_mode oflags fdflags rb (rights_base curr_fd)") (auto simp: bindE_eq_Inr)
  let ?walk = "path_open_walk (env_disable_utf8_check env) host base (has_flag dirflags lookup_symlink_follow) (has_flag oflags o_directory)
    mode chain comps \<lparr>symlink_depth = 0, curr_path_stack = [], host_calls = []\<rparr>"
  obtain q k where w: "?walk = (q, k)" by fastforce
  have ok: "confined base k \<and> (\<forall>s. q = Inr s \<longrightarrow> opened_below base k s)"
    by (rule path_open_walk_ok [OF w]) (use path_open_components_ok [OF c] assms(3) in \<open>simp_all add: walk_ok_def base_def\<close>)
  show ?thesis
  proof (cases q)
    case (Inl e)
    then show ?thesis using r c rights m w ok path_open_walk_error [of _ _ base] by (auto simp: bindE_eq_Inr base_def)
  next
    case (Inr storage)
    then have "path_open_enter (new_descriptor storage rb ri) memory fdp k env = Inr (err, env', calls)"
      using r c rights m w by (auto simp: bindE_eq_Inr base_def)
    from path_open_enter_ok [OF this assms(2) _ assms(4)] show ?thesis using ok Inr rights by (auto simp: live_fd_def)
  qed
qed simp


lemma path_open_enter_returns:
  assumes "fd_inv (fd_storage env)" "live_fd f" "mmap_reachable page_size (mapping memory)" "page_size_ok page_size"
    and "check_memory_bounds_wasm32 (mapping memory) fdp 4 = Inr ()"
  shows "path_open_enter f memory fdp calls env \<noteq> Inl UB \<and>
     (unat fdp + 4 \<le> unat (mmap_length (mapping memory)) \<longrightarrow> (\<exists>r. path_open_enter f memory fdp calls env = Inr r))"
proof -
  obtain e fd st where a: "allocate_fd f (fd_storage env) = Inr (e, fd, st)" using allocate_fd_ok [OF assms(1,2)] by (auto split: if_splits)
  have "wasi_check_memory_bounds_unlocked (mapping memory) (ucast fdp) (of_nat 4) = Inr ()"
    using assms(5) by (simp add: check_memory_bounds_wasm32_def)
  with checked_write [OF assms(3,4) unat_guest_offset(2) [of fdp], of 4] unat_guest_offset(1) [of fdp]
  have "if unat fdp + 4 \<le> unat (mmap_length (mapping memory)) then write_bytes (mapping memory) (ucast fdp) 4 = Inr ()
      else \<exists>e. write_bytes (mapping memory) (ucast fdp) 4 = Inl (Throw e)"
    by (cases "unat fdp + 4 \<le> unat (mmap_length (mapping memory))") simp_all
  moreover have "to_le 4 fd \<noteq> []" using length_to_le [of 4 fd] by (metis list.size(3) zero_neq_numeral)
  ultimately show ?thesis
    using a by (auto simp: path_open_enter_def store_basic_wasm_type_to_memory_unchecked_def copy_to_def split: if_splits)
qed

lemma check_outcome: "check_memory_bounds_wasm32 m off n \<noteq> Inl UB"
  by (simp add: check_memory_bounds_wasm32_def wasi_check_memory_bounds_unlocked_def throw_if_def split: mmap_memory_status_t.split)

lemma path_open_path_returns:
  assumes "fd_inv (fd_storage env)" "mmap_reachable page_size (mapping memory)" "page_size_ok page_size"
    and r_def: "r = path_open_path host dirflags oflags rb ri fdflags fdp curr_fd chain memory path env"
  shows "r \<noteq> Inl UB \<and> (unat fdp + 4 \<le> unat (mmap_length (mapping memory)) \<longrightarrow> (\<exists>q. r = Inr q))"
proof -
  let ?check = "check_memory_bounds_wasm32 (mapping memory) fdp 4"
  have inside: "?check = Inr ()" if "unat fdp + 4 \<le> unat (mmap_length (mapping memory))"
    using checked_touch [OF assms(2,3) unat_guest_offset(2) [of fdp], of 4] unat_guest_offset(1) [of fdp] that
    by (auto simp: check_memory_bounds_wasm32_def bindE_eq_Inr)
  have enter: "path_open_enter (new_descriptor storage rb ri) memory fdp calls env \<noteq> Inl UB \<and>
      (unat fdp + 4 \<le> unat (mmap_length (mapping memory)) \<longrightarrow> (\<exists>q. path_open_enter (new_descriptor storage rb ri) memory fdp calls env = Inr q))"
    if "?check = Inr ()" for storage calls
    using path_open_enter_returns [OF assms(1) _ assms(2,3) that] by (simp add: live_fd_def)
  show ?thesis
  proof (cases "?check")
    case (Inl e)
    then have "e \<noteq> UB" using check_outcome by metis
    then show ?thesis using Inl inside by (cases e) (auto simp: r_def path_open_path_def Let_def split: sum.split)
  next
    case (Inr u)
    then show ?thesis using enter by (auto simp: r_def path_open_path_def Let_def split: sum.split prod.split)
  qed
qed

section \<open>An example\<close>

text \<open>A directory with a link into a subdirectory that has one file, and a program that opens this file through the link.\<close>

definition example_file_host :: "nat host" where
  "example_file_host = example_host\<lparr>native_file_at := (\<lambda>_ d n _. if (d, n) = (1, [0x62]) then Inr 7 else Inl ENOENT)\<rparr>"

definition example_guest :: guest_memory where
  "example_guest = \<lparr>mapping = example_mmap, guest_bytes = (\<lambda>i. if i < 3 then [0x6C, slash, 0x62] ! i else 0)\<rparr>"

definition example_dir_fd :: "nat wasi_fd_t" where
  "example_dir_fd =
     \<lparr>wasi_fd = Some (fd_dir [\<lparr>storage_handle = 0, is_observer = True, entry_name = []\<rparr>]), rights_base = right_path_open,
      rights_inherit = right_fd_read, close_pos = SIZE_MAX\<rparr>"

definition example_environment :: "nat wasip1_environment" where
  "example_environment =
     \<lparr>wasip1_memory = Some example_guest,
      fd_storage = \<lparr>opens = [example_dir_fd], renumber_map = [], closes = [], fd_limit = 10\<rparr>, env_disable_utf8_check = False\<rparr>"

lemma example_environment_ok: "fd_inv (fd_storage example_environment)"
  by (auto simp: example_environment_def fd_inv_def closes_ok_def renumber_ok_def example_dir_fd_def live_fd_def)

lemma example_fd_map: "fd_map (fd_storage example_environment) = [0 \<mapsto> example_dir_fd]"
  by (rule ext) (auto simp: fd_map_def table_map_def example_environment_def example_dir_fd_def unat_eq_zero)

definition example_mode :: "open_flag set" where
  "example_mode = {mode_explicit_disposition, mode_in}"

lemma example_walk:
  "fst (path_open_walk False example_file_host 0 True False example_mode [\<lparr>storage_handle = 0, is_observer = True, entry_name = []\<rparr>]
     [\<lparr>next_name = [0x6C], dir_type = dir_next\<rparr>, \<lparr>next_name = [0x62], dir_type = dir_next\<rparr>]
     \<lparr>symlink_depth = 0, curr_path_stack = [], host_calls = []\<rparr>) = Inr (fd_file 7)"
  by code_simp

lemma example_components:
  "path_open_components False [0x6C, slash, 0x62] =
     Inr [\<lparr>next_name = [0x6C], dir_type = dir_next\<rparr>, \<lparr>next_name = [0x62], dir_type = dir_next\<rparr>]"
  by code_simp

lemma example_read: "read_all_from_memory_wasm32 example_guest 0 3 = Inr [0x6C, slash, 0x62]"
  by (simp add: read_all_from_memory_wasm32_def read_all_from_memory_def wasi_check_memory_bounds_unlocked_def is_full_page_protection_def
      copy_from_def touch_def example_guest_def example_mmap_def upt_rec)

lemma example_path_open:
  "\<exists>env' calls. path_open example_file_host 0 lookup_symlink_follow 0 3 0 right_fd_read 0 0 8 example_environment = Inr (esuccess, env', calls) \<and>
     fd_map (fd_storage env') 1 = Some (new_descriptor (fd_file 7) right_fd_read 0)"
proof -
  let ?walk = "path_open_walk False example_file_host 0 True False example_mode [\<lparr>storage_handle = 0, is_observer = True, entry_name = []\<rparr>]
     [\<lparr>next_name = [0x6C], dir_type = dir_next\<rparr>, \<lparr>next_name = [0x62], dir_type = dir_next\<rparr>]
     \<lparr>symlink_depth = 0, curr_path_stack = [], host_calls = []\<rparr>"
  obtain calls where w: "?walk = (Inr (fd_file 7), calls)" using example_walk by (metis prod.collapse)
  have d: "path_open_directory 0 (fd_storage example_environment) = Inr (example_dir_fd, [\<lparr>storage_handle = 0, is_observer = True, entry_name = []\<rparr>])"
    by (simp add: path_open_directory_def acquire_fd_def fd_slot_of_def example_environment_def example_dir_fd_def)
  have m: "path_open_mode 0 0 right_fd_read right_path_open = Inr example_mode"
    by (simp add: path_open_mode_def has_flag_def example_mode_def Let_def insert_commute)
  have c: "check_memory_bounds_wasm32 example_mmap 8 4 = Inr ()"
    by (simp add: check_memory_bounds_wasm32_def wasi_check_memory_bounds_unlocked_def is_full_page_protection_def example_mmap_def)
  let ?f = "new_descriptor (fd_file 7) right_fd_read 0 :: nat wasi_fd_t"
  have a: "allocate_fd ?f (fd_storage example_environment) =
      Inr (esuccess, 1, \<lparr>opens = [example_dir_fd, ?f], renumber_map = [], closes = [], fd_limit = 10\<rparr>)"
    by (simp add: allocate_fd_def example_environment_def normalize_renumber_map.simps)
  obtain g where s: "store_basic_wasm_type_to_memory_unchecked 4 example_guest (ucast (8 :: u32)) (1 :: u32) = Inr g"
    by (simp add: store_basic_wasm_type_to_memory_unchecked_def copy_to_def write_bytes_def touch_def example_guest_def example_mmap_def)
  let ?env = "example_environment\<lparr>fd_storage := \<lparr>opens = [example_dir_fd, ?f], renumber_map = [], closes = [], fd_limit = 10\<rparr>, wasip1_memory := Some g\<rparr>"
  have e: "wasip1_memory example_environment = Some example_guest" "\<not> env_disable_utf8_check example_environment"
      "mapping example_guest = example_mmap" "rights_base example_dir_fd = right_path_open" "rights_inherit example_dir_fd = right_fd_read"
    by (simp_all add: example_environment_def example_guest_def example_dir_fd_def)
  have "path_open_path example_file_host lookup_symlink_follow 0 right_fd_read 0 0 8 example_dir_fd
      [\<lparr>storage_handle = 0, is_observer = True, entry_name = []\<rparr>] example_guest [0x6C, slash, 0x62] example_environment = Inr (esuccess, ?env, calls)"
    using w m c a s e by (simp add: path_open_path_def path_open_enter_def has_flag_def example_components Let_def del: path_open_walk.simps)
  then have "path_open example_file_host 0 lookup_symlink_follow 0 3 0 right_fd_read 0 0 8 example_environment = Inr (esuccess, ?env, calls)"
    using d e by (simp add: path_open_def check_wasip1_guest_pointer_alignment_def example_read)
  moreover have "fd_map (fd_storage ?env) 1 = Some ?f" by (simp add: fd_map_def table_map_def)
  ultimately show ?thesis by blast
qed

section \<open>Properties\<close>

text \<open>
  \<^bold>\<open>C7.\<close> \<open>path_open\<close> gives no authority that the program does not have. If it succeeds, the descriptor it started from was open, was
  a directory and had the right to open paths; the new descriptor has no rights beyond those that directory passes on; all calls of the
  host stayed below the directory, whatever the path, the links and the answers of the host, and the new descriptor is what one of them
  opened; the descriptor is entered under a free number, no other descriptor changes, and exactly the four bytes at the given place are
  written, with that number. If it fails, neither the table nor the memory changes, and what was called stayed below the directory.
\<close>

theorem path_open_confined:
  assumes "path_open host dirfd dirflags pp pl oflags rb ri fdflags fdp env = Inr (err, env', calls)" and "fd_inv (fd_storage env)"
  shows "if err = esuccess
     then \<exists>curr_fd chain storage. fd_map (fd_storage env) dirfd = Some curr_fd \<and> wasi_fd curr_fd = Some (fd_dir chain) \<and> chain \<noteq> [] \<and>
       rights_base curr_fd AND right_path_open = right_path_open \<and>
       rb AND NOT (rights_inherit curr_fd) = 0 \<and> ri AND NOT (rights_inherit curr_fd) = 0 \<and>
       confined (storage_handle (last chain)) calls \<and> opened_below (storage_handle (last chain)) calls storage \<and>
       path_open_entered (new_descriptor storage rb ri) fdp env env'
     else env' = env \<and>
       (calls = [] \<or> (\<exists>curr_fd chain. fd_map (fd_storage env) dirfd = Some curr_fd \<and> wasi_fd curr_fd = Some (fd_dir chain) \<and> chain \<noteq> [] \<and>
          confined (storage_handle (last chain)) calls))"
proof (cases "err \<noteq> esuccess \<and> env' = env \<and> calls = []")
  case False
  obtain memory where m: "wasip1_memory env = Some memory" using assms(1) False by (cases "wasip1_memory env") (auto simp: path_open_def)
  note r = assms(1) [unfolded path_open_def m option.case]
  obtain curr_fd chain where d: "path_open_directory dirfd (fd_storage env) = Inr (curr_fd, chain)"
    using r False path_open_directory_error [of dirfd "fd_storage env"]
    by (cases "path_open_directory dirfd (fd_storage env)") (auto simp: bindE_eq_Inr)
  note dir = path_open_directory_ok [OF assms(2) d]
  obtain path where p: "path_open_path host dirflags oflags rb ri fdflags fdp curr_fd chain memory path env = Inr (err, env', calls)"
    using r d by (auto simp: bindE_eq_Inr)
  from path_open_path_ok [OF p assms(2) _ m] dir show ?thesis by (auto split: if_splits)
qed simp

theorem path_open_confined_witness:
  "\<exists>env' calls. path_open example_file_host 0 lookup_symlink_follow 0 3 0 right_fd_read 0 0 8 example_environment = Inr (esuccess, env', calls) \<and>
     fd_map (fd_storage env') 1 = Some (new_descriptor (fd_file 7) right_fd_read 0) \<and> confined 0 calls \<and>
     (\<exists>storage. opened_below 0 calls storage \<and> path_open_entered (new_descriptor storage right_fd_read 0) 8 example_environment env')"
proof -
  obtain env' calls where r: "path_open example_file_host 0 lookup_symlink_follow 0 3 0 right_fd_read 0 0 8 example_environment = Inr (esuccess, env', calls)"
      "fd_map (fd_storage env') 1 = Some (new_descriptor (fd_file 7) right_fd_read 0)"
    using example_path_open by blast
  from path_open_confined [OF r(1) example_environment_ok] r show ?thesis by (auto simp: example_fd_map example_dir_fd_def)
qed

text \<open>
  \<^bold>\<open>C17.\<close> \<open>path_open\<close> always returns: on a memory a program can reach it never uses an address outside the reserved space and never accesses the
  table out of range, and with an aligned pointer and both places inside the memory it returns an error number.
\<close>

theorem path_open_returns:
  assumes "fd_inv (fd_storage env)" "wasip1_memory env = Some memory" "mmap_reachable page_size (mapping memory)" "page_size_ok page_size"
  shows "path_open host dirfd dirflags pp pl oflags rb ri fdflags fdp env \<noteq> Inl UB \<and>
     (fdp AND 3 = 0 \<and> unat pp + unat pl \<le> unat (mmap_length (mapping memory)) \<and> unat fdp + 4 \<le> unat (mmap_length (mapping memory)) \<longrightarrow>
       (\<exists>err env' calls. path_open host dirfd dirflags pp pl oflags rb ri fdflags fdp env = Inr (err, env', calls)))"
proof -
  let ?read = "read_all_from_memory_wasm32 memory pp (unat pl)"
  have "if unat pp + unat pl \<le> unat (mmap_length (mapping memory)) then \<exists>path. ?read = Inr path else ?read \<noteq> Inl UB"
    using read_write_outcome [OF assms(3,4), of "replicate (unat pl) 0" pp] unsigned_less [of pl, where 'a = nat] by (auto simp: Let_def split: if_splits)
  then have "?read \<noteq> Inl UB" "unat pp + unat pl \<le> unat (mmap_length (mapping memory)) \<longrightarrow> (\<exists>path. ?read = Inr path)" by (auto split: if_splits)
  moreover note path_open_path_returns [OF assms(1,3,4) refl]
  ultimately show ?thesis
    by (auto simp: path_open_def assms(2) check_wasip1_guest_pointer_alignment_def bindE_eq_Inl lift_exit_eq throw_if_def split: sum.split prod.split)
qed


theorem path_open_returns_witness:
  "\<exists>err env' calls. path_open example_file_host 0 0 0 3 0 0 0 0 8 example_environment = Inr (err, env', calls)"
proof -
  have p: "page_size_ok 4096" unfolding page_size_ok_def by (rule exI [of _ 12]) simp
  have m: "wasip1_memory example_environment = Some example_guest" "mapping example_guest = example_mmap"
    by (simp_all add: example_environment_def example_guest_def)
  then have g: "mmap_reachable 4096 (mapping example_guest)" "unat (mmap_length (mapping example_guest)) = 65536"
    using example_mmap_reachable by (simp_all add: example_mmap_def)
  show ?thesis using path_open_returns [OF example_environment_ok m(1) g(1) p, of example_file_host 0 0 0 3 0 0 0 0 8] g(2) by simp
qed

end
