(* ===== verification/Spec2Isabelle.thy ===== *)
theory Spec2Isabelle
  imports Validator_Accepts Validator_Errors Parser_Properties Rw_Spin_Lock Wasi_Path_Open
begin

text \<open>
  \<^bold>\<open>The parser, the code validator, the linear memories, the locks and the file access of uwvm2.\<close>

  \<^bold>\<open>The program.\<close> uwvm2 is a WebAssembly virtual machine. A module passes through these parts: the
  parser (\<^verbatim>\<open>src/src/uwvm2/parser\<close>) splits the binary into sections and fills the module storage;
  the validator (\<^verbatim>\<open>src/src/uwvm2/validation\<close>) checks the body of every local function against that
  storage; the initializer (\<^verbatim>\<open>uwvm/runtime\<close>) links the module and builds the memories, tables and
  globals of \<^verbatim>\<open>object\<close>; the interpreter and the LLVM back end (\<^verbatim>\<open>runtime/compiler\<close>) translate the
  bodies, relying on their being valid and leaving out every check that validation makes
  redundant; the WASI functions (\<^verbatim>\<open>imported/wasi\<close>) serve the calls to the host. The integers of a
  binary are read with the LEB128 scanner of the bundled \<^verbatim>\<open>third-parties/fast_io\<close>.

  The safety of the whole machine rests on the first two parts, which alone see bytes that nobody has checked. This
  development models them for WebAssembly 1.0: \<open>wasm_binfmt_ver1_handle_func\<close> of
  \<^verbatim>\<open>parser/wasm/binfmt/binfmt_ver1/handler.h\<close> with the handlers of all twelve sections
  (\<^verbatim>\<open>parser/wasm/standard/wasm1/features\<close>), and \<open>validate_code\<close> of \<^verbatim>\<open>validation/standard/wasm1/validator.h\<close>, one loop
  over the bytes of a body with a switch of 172 cases, two stacks and unchecked vector accesses. It proves both against
  the binary format, the validity conditions and the typing rules of the WebAssembly 1.0 specification, and
  joins them: what the parser returns is what the validator relies on.

  Of the parts that run a module it models those on which isolation rests: the two classes of linear memory
  (\<^verbatim>\<open>object/memory/linear\<close>), one on a heap block and one on reserved address space, with the memory instructions of the
  interpreter and the checks of bounds it chooses for each class; the integer instructions
  (\<^verbatim>\<open>runtime/compiler/uwvm_int/optable\<close>); and the reader-writer locks that guard the shared tables of the host interface
  (\<^verbatim>\<open>utils/mutex/rw_spin_lock.h\<close>), under every interleaving of any number of threads. Of the host interface it models the way to the files of the
  host (\<^verbatim>\<open>imported/wasi/wasip1\<close>): the resolution of paths, the table of file descriptors, the access to the memory of the program, and
  the function \<open>path_open\<close> that joins them.

  \<^bold>\<open>The theories.\<close>
  \<^item> \<open>Uwvm_Prelude\<close>: the result type \<open>res\<close> with its two kinds of failure, \<open>Throw e\<close> for an exception
    and \<open>UB\<close> for an unchecked access out of range; the unchecked vector accesses; lemmas on lists,
    words and sequencing (\<open>bindE\<close>).
  \<^item> \<open>Leb128\<close>: \<open>scn_cnt_define_leb128_impl\<close> for unsigned and signed targets of any width, and the
    writer \<open>pr_rsv_leb128_impl\<close>; the reader implements the grammars \<open>uN\<close> and \<open>sN\<close>, and reads back
    what the writer printed.
  \<^item> \<open>Wasm_Types\<close>: value types, function types, local entries, global types, the part of the module
    storage the validator reads, and the error record of \<^verbatim>\<open>validation/error/error.h\<close>.
  \<^item> \<open>Validator_State\<close>: the frames, operands and local variables of \<open>validate_code\<close> with the lambdas
    that pop, peek, count and report.
  \<^item> \<open>Validator_Ops\<close>, \<open>Validator_Control\<close>: one definition per case of the switch (per lambda where
    the cases only call one): numeric, memory, constant, parametric and variable instructions;
    blocks, \<open>else\<close>, \<open>end\<close>, branches, calls, \<open>return\<close>.
  \<^item> \<open>Validator_Frames\<close>, \<open>Validator_Steps\<close>, \<open>Validator_Control_Steps\<close>, \<open>Validator_Block_Steps\<close>: an
    abstract view of the operand stack (the operands of the innermost frame) and of an
    instruction (\<open>arrow_step\<close>: pop these types, push those; \<open>jump_step\<close>: pop these types, the rest of
    the frame is unreachable), and for every handler an equivalence with its abstract step.
  \<^item> \<open>Validator\<close>: the opcode tables, the switch (\<open>opcode_handler\<close>), one iteration (\<open>validate_op\<close>), the
    loop (\<open>validate_loop\<close>) and \<open>validate_code\<close>.
  \<^item> \<open>Wasm_Typing\<close>: the specification, written from WebAssembly 1.0 and not from the code: abstract
    syntax, binary grammar, typing rules, \<open>valid_body\<close>.
  \<^item> \<open>Validator_Context\<close>: the lookups of the code (locals by run length, globals, callees, labels)
    against the typing context.
  \<^item> \<open>Validator_Invariant\<close>: the invariant \<open>wf_conf\<close> of the loop, and the relation \<open>vstep\<close> that an
    iteration refines. \<open>Validator_Safe\<close>: no unchecked access fails under the invariant.
  \<^item> \<open>Validator_Sound\<close>: the interfaces \<open>validation_machine\<close> and \<open>safe_machine\<close> of a loop that keeps
    an invariant, and their interpretations for the model; the typing invariant \<open>typed_conf\<close>, which
    relates the bytes consumed so far and the stacks to typed instruction sequences.
  \<^item> \<open>Validator_Complete\<close>, \<open>Validator_Accepts\<close>: the converse, by induction on typing derivations.
  \<^item> \<open>Validator_Errors\<close>: where errors are reported.
  \<^item> \<open>Utf8\<close>: the UTF-8 check of names (\<^verbatim>\<open>utils/utf/utf8.h\<close>) against the encoding of Unicode scalar values.
  \<^item> \<open>Parser_Base\<close>: parser errors and limits, the counter, the loop over the elements of a section; the relations \<open>reads\<close>
    (a routine that consumes a prefix implements a grammar) and \<open>handles\<close> (a handler computes a specification and fails
    only with an error inside its range), with a rule for every way of composing routines; the
    interface \<open>section_entry\<close> of a section whose elements implement a grammar, interpreted for the type, import,
    table and memory sections and, where the elements are checked against the module, applied to the others.
  \<^item> \<open>Binary_Types\<close>, \<open>Type_Section\<close>, \<open>Table_Memory_Section\<close>, \<open>Import_Section\<close>, \<open>Function_Section\<close>, \<open>Const_Expr\<close>,
    \<open>Global_Section\<close>, \<open>Export_Section\<close> (with the start section), \<open>Segment_Sections\<close> (elements and data), \<open>Code_Section\<close>,
    \<open>Custom_Section\<close>: the file of that name under \<^verbatim>\<open>features\<close>, one definition per function or lambda, and the lemma
    that the handler computes the grammar and the validity conditions of its section.
  \<^item> \<open>Module_Storage\<close>: the storage of a module, and \<open>declarations_ok\<close>, what earlier sections guarantee to later ones.
  \<^item> \<open>Module_Parser\<close>: the dispatch, the order of sections, the loop and the final check.
  \<^item> \<open>Module_Spec\<close>: the specification of a module as a relation (\<open>module_sections\<close>, \<open>module_ok\<close>), and the invariant of the
    driver. \<open>Module_Correct\<close>: the driver computes that relation, and what follows for the module it returns.
  \<^item> \<open>Parser_Properties\<close>: the properties C4, C16, C18, C19 and C31 to C39, and an example module with every section.
  \<^item> \<open>Int_Numeric\<close>: \<open>eval_int_unop\<close>, \<open>eval_int_binop\<close> and \<open>eval_int_cmp\<close> at any width, against the definitions of the
    specification on natural numbers (C14).
  \<^item> \<open>Linear_Memory\<close>: \<open>basic_single_thread_allocator_memory_t\<close>: construction, initialisation, both ways of growing,
    moving and clearing; the relation \<open>memory_holds\<close> to the bytes of an abstract memory.
  \<^item> \<open>Memory_Ops\<close>: effective addresses, the checks of bounds, the loads and stores of every width, \<^verbatim>\<open>memory.size\<close> and
    \<^verbatim>\<open>memory.grow\<close> on that class (C11 to C13); what is stored is read back.
  \<^item> \<open>Mmap_Memory\<close>: \<open>mmap_memory_t\<close>: what is reserved and what is made accessible, the choice of a check, and the probe before
    a store; the memories a program can reach, and the invariant \<open>mmap_ok\<close> they satisfy (C6).
  \<^item> \<open>Rw_Spin_Lock\<close>: the five pairs of guards as a step relation on the word of the lock and the positions of the threads, its
    invariant, and the progress of the fair writer (C15, C40).
  \<^item> \<open>Wasi_Path\<close>: splitting and walking paths, confinement of the walk on any host, and its equality with a resolution by rewriting on a
    file system that does not change (C8).
  \<^item> \<open>Wasi_Fd\<close>: the table of file descriptors with \<open>fd_close\<close>, \<open>fd_renumber\<close>, \<open>fd_fdstat_set_rights\<close> and the allocation of a descriptor; the interface
    \<open>implements_spec\<close> of an implementation whose steps refine a specification, interpreted for the table and a partial map (C9).
  \<^item> \<open>Wasi_Memory\<close>: how the WASI functions read and write a memory on reserved address space (C10, C25).
  \<^item> \<open>Wasi_Path_Open\<close>: \<open>path_open\<close> on top of these three (C7, C17).
  \<^item> this theory: the properties C1 to C3, C5, C20 to C24 and C26 to C28 (C29 and C30 are in \<open>Leb128\<close>).

  \<^bold>\<open>How the model corresponds to the code.\<close> A code pointer is the list of the bytes from it to
  \<open>code_end\<close>. Both stacks are lists with the back element first, so \<open>control_flow_stack ! l\<close> is the
  frame of label \<open>l\<close>. A result type, a pointer range in the code, is a list. A throw is \<open>Inl (Throw e)\<close>
  where \<open>e\<close> holds \<open>err_curr\<close>, the error code with the fields of its \<open>err_selectable\<close> member, and the
  parse code thrown; the fields the code leaves unset are left out. \<open>Break\<close> and \<open>Return\<close> are the two
  ways a case leaves the switch. Counts of type \<open>wasm_u32\<close> are 32-bit words and wrap; \<open>size_t\<close> is
  64 bits wide, and its values are numbers, since they are sizes of existing vectors. Debug-only
  assertions and the memory-order comments have no counterpart.

  In the parser a pointer is likewise the list of the bytes from it to the end of the range that the routine works on;
  \<open>shift_err\<close> adds the bytes behind a section to the position of an error. The sections of the module storage, a
  C++ tuple, are the fields of one record; a pointer to another part of the storage (a type, an import) is the index or the
  value it points to. Exceptions are values, as in the validator. The hash function of the table that places custom
  sections is a parameter \<open>xxh3\<close>, and the theorems hold for every function.

  A linear memory on a heap block owns the list of its bytes; the allocator, a template parameter in the code, is a record of
  functions. A linear memory on reserved address space is the pair of the bytes reserved and the bytes accessible, and an
  access to the rest is a protection fault, which the signal handler turns into a trap; the answers of the kernel are
  parameters, so every growth may fail at every call. Lengths and offsets are 64-bit words there, since the code guards against their wrapping,
  and the host is a POSIX system with 64-bit addresses and little-endian order. In the locks a step is one atomic operation, loads return
  any value and weak exchanges fail at will; every operation on the word is atomic, so the interleavings are those of a sequence.

  In the WASI functions the host is a parameter: a record of functions that answer a call from the calls made before, so that every behaviour of the file
  system, also one that changes during a walk, is an instance. A descriptor is a 32-bit word, read as signed where the code does. The operations on the
  descriptor table hold its lock and are one step each; the locks of single descriptors have no counterpart.

  There is no fuel: \<open>validate_loop\<close>, \<open>module_loop\<close>, \<open>section_loop\<close> and the other loops are total functions, and their
  termination is proved from the fact that every iteration consumes a byte or counts an element.

  \<^bold>\<open>What is assumed.\<close> Nothing is assumed of a binary or of a body: they are any lists of bytes. The theorems on
  \<open>validate_code\<close> have the hypothesis \<open>wf_module\<close> (the comments \<^verbatim>\<open>validated by parser limits\<close> in the code): counts within
  \<open>u32\<close>, type indices in range, one body per local function, at most one result per function type. C19 proves it of
  every module that the parser returns. C13 assumes \<open>allocator_ok\<close>, what
  the interface of the allocators documents: new blocks are zero and enlarged blocks keep their bytes. C11 and C12 hold for memories of any
  size, and state the agreement with the specification for those of at most 4 GiB, the largest that WebAssembly 1.0 has; C6, C10, C17 and C25 assume \<open>page_size_ok\<close>, a platform page of a power of two, C7, C9 and C17 the invariant
  \<open>fd_inv\<close> of the descriptor table, which C9 shows to be kept, and C15 and C40 fewer threads than
  the 29 bits of the reader count can tell apart.

  \<^bold>\<open>What the properties show.\<close> C1 and C2: the validator accepts only valid bodies and, with one
  exception, all of them. C24 is the exception: the value test of \<^verbatim>\<open>br_table\<close> does not look at
  \<open>is_unknown\<close>, so a valid body with \<open>select\<close> and \<^verbatim>\<open>br_table\<close> in unreachable code is refused. C3: no
  unchecked access is out of range, on any input. C4 and C16: the parser accepts exactly the modules of the specification, and on
  any input returns or throws inside the binary. C5: parser and validator together. C6: on a memory in reserved address space every access inside the memory
  succeeds, and every other one traps before a byte is written, whichever check was chosen and however the memory has grown. C7 and C17: \<open>path_open\<close>
  gives no authority that the program does not have, and always returns. C8: the resolution of paths. C9: the descriptor table is a partial map. C10: the
  standard WASI functions stay inside the memory, with what becomes of an empty range and of a write across the end; C25: those of the extension with 64-bit offsets do not, because the check that they rely on is never
  compiled. C11 and C12: loads and
  stores read and write the bytes that the specification says, and trap where it says and, on a memory of more than 4 GiB, also at addresses beyond that. C13:
  what \<^verbatim>\<open>memory.grow\<close> does. C14: the integer instructions. C15: the locks exclude, and their word tells who holds them; C40: while the
  fair writer waits no reader gets in, and with no readers left it gets in itself as soon as three of its steps in succession are not disturbed by a stale load or an exchange that
  fails without reason. C18, C19: what holds of a parsed module. C20: the error reports. C21, C22: one
  iteration of the validator and its invariant. C23, C26, C27: the cases whose behaviour is least obvious, each as
  an equivalence that covers success and failure. C28: the opcode tables. C29, C30: the scanner. C31 to C38: the
  sections, each as an exact description of success and failure. C39: names.

  \<^bold>\<open>Not modelled.\<close> The other feature levels of parser and validator (\<^verbatim>\<open>wasm1p1\<close>, \<^verbatim>\<open>wasm2\<close>, \<^verbatim>\<open>wasm3\<close>) and the type
  parameters \<open>Fs\<close> that select them: the model is the instance for WebAssembly 1.0, without the hooks that other
  feature packs add. The vectorised blocks of the function section and of the UTF-8 check: the model is the scalar
  code, which hosts without vector instructions run. The output of errors as text. Of the memories: the class for several threads, the signal handler itself, and the branches for
  Windows, for 32-bit hosts and for big-endian hosts. Of the interpreter: the translation of bodies, the variants of its operation functions
  that keep operands in registers, among them the tail-calling divisions, which do not use the kernels of C14, the fused operations, and floating point, whose results come from the arithmetic of the host. The LLVM back end, which only
  builds terms of a library. The linking of modules in \<^verbatim>\<open>uwvm/runtime/initializer\<close>, the run-time library, the debugger and the
  command line. Of the host interface: the functions other than those named above, which check a descriptor and a range of memory in the same way and then
  call the operating system, among them \<open>sock_accept\<close>, which enters a descriptor into the table as \<open>path_open\<close> does; reference counts and the closing of native files; and the branches for Windows and other hosts.
\<close>

section \<open>Example data\<close>

text \<open>A module with one function of type \<open>[i32] \<rightarrow> [i32]\<close>, two more locals, a memory, a table and a global.\<close>

definition example_module :: module_storage where
  "example_module =
     \<lparr>imported_funcs = [], imported_tables = 0, imported_memories = 0, imported_globals = [],
      types = [\<lparr>parameter = [i32], result = [i32]\<rparr>], funcs = [0], tables = 1, memories = 1,
      local_globals = [\<lparr>global_value_type = i64, is_mutable = True\<rparr>],
      codes = [[\<lparr>count = 2, local_type = f32\<rparr>]]\<rparr>"

definition example_ctx :: func_ctx where
  "example_ctx = prepared_ctx example_module 0"

text \<open>\<^verbatim>\<open>local.get 0; i32.const 1; i32.add; end\<close>\<close>

definition example_code :: "byte list" where
  "example_code = [0x20, 0x00, 0x41, 0x01, 0x6a, 0x0b]"

text \<open>A state inside the function frame with given code and operands.\<close>

definition example_state :: "byte list \<Rightarrow> operand_stack_storage_t list \<Rightarrow> bool \<Rightarrow> vstate" where
  "example_state code ops p =
     (initial_state (curr_func_type example_ctx) code)\<lparr>operand_stack := ops, is_polymorphic := p\<rparr>"

text \<open>\<^verbatim>\<open>unreachable; select; i32.const 0; br_table 0\<close>\<close>

definition select_br_table :: "instr list" where
  "select_br_table = [Plain Unreachable, Plain Select, Plain (I32_Const 0), Plain (Br_Table [] 0)]"

lemma example_module_wf: "wf_module example_module"
  by (simp add: wf_module_def example_module_def wf_function_type_def local_total_def)

lemma example_ctx_wf: "wf_ctx example_ctx"
  unfolding example_ctx_def by (rule prepared_ctx_wf [OF example_module_wf]) (simp add: example_module_def)

lemma example_state_wf: "region_ok p ops \<Longrightarrow> wf_conf example_ctx (example_state code ops p)"
  using example_ctx_wf by (simp add: wf_conf_def wf_vstate_def example_state_def initial_state_def)

section \<open>The validator and the specification\<close>

lemma accepted_valid_body:
  assumes "wf_module m" and "validate_code m fi code = Inr ()"
  shows "\<exists>i. fi = length (imported_funcs m) + i \<and> i < length (funcs m) \<and>
     valid_body m (types m ! (funcs m ! i)) (codes m ! i) code"
proof -
  let ?i = "fi - length (imported_funcs m)"
  let ?c = "prepared_ctx m ?i"
  have fi: "length (imported_funcs m) \<le> fi" "?i < length (funcs m)"
    and loop: "\<exists>s. validate_loop ?c (initial_state (curr_func_type ?c) code) = Inr s"
    using assms by (auto simp: validate_code_split Let_def bindE_eq_Inr split: if_splits)
  have wf: "wf_ctx ?c" using assms(1) fi(2) by (rule prepared_ctx_wf)
  obtain s s1 where "typed_conf ?c code s1" "validate_op ?c s1 = Inr (Return s)"
    using loop typed_machine.loop_returns [OF initial_typed [OF wf]] by blast
  then have "valid_body m (types m ! (funcs m ! ?i)) (codes m ! ?i) code"
    using accepting_step [of ?c code s1 s] by (simp add: valid_body_def prepared_ctx_def)
  with fi show ?thesis by (intro exI [of _ ?i]) simp
qed

text \<open>
  \<^bold>\<open>C1.\<close> Soundness: a body that \<open>validate_code\<close> accepts belongs to a local function, is an
  expression of the binary grammar and has the result type of that function under the typing
  rules of the specification.
\<close>

theorem validate_code_sound:
  assumes "wf_module m" and "validate_code m fi code = Inr ()"
  shows "\<exists>i. fi = length (imported_funcs m) + i \<and> i < length (funcs m) \<and>
     valid_body m (types m ! (funcs m ! i)) (codes m ! i) code"
  using assms by (rule accepted_valid_body)

theorem validate_code_sound_witness:
  "wf_module example_module \<and> validate_code example_module 0 example_code = Inr () \<and>
   valid_body example_module \<lparr>parameter = [i32], result = [i32]\<rparr> [\<lparr>count = 2, local_type = f32\<rparr>] example_code"
proof -
  have acc: "validate_code example_module 0 example_code = Inr ()" by code_simp
  from validate_code_sound [OF example_module_wf acc] have
    "valid_body example_module (types example_module ! (funcs example_module ! 0)) (codes example_module ! 0) example_code"
    by (auto simp: example_module_def)
  then show ?thesis using acc example_module_wf by (simp add: example_module_def)
qed

text \<open>
  \<^bold>\<open>C2.\<close> Completeness: every body that parses and has its function's type is accepted, provided
  it contains no \<^verbatim>\<open>br_table\<close> or no \<open>select\<close>; only together can they meet the value test of
  \<^verbatim>\<open>br_table\<close> with an unknown operand.
\<close>

theorem validate_code_complete:
  assumes "wf_module m" and "i < length (funcs m)" and "ft = types m ! (funcs m ! i)"
    and "body_code es code" and "seq_type (function_context m ft (codes m ! i) [result ft]) es [] (result ft)"
    and "list_all (\<lambda>p. \<not> is_br_table p) (concat (map plains es)) \<or> Select \<notin> set (concat (map plains es))"
  shows "validate_code m (length (imported_funcs m) + i) code = Inr ()"
proof -
  let ?c = "prepared_ctx m i"
  have "\<exists>s. validate_loop ?c (initial_state (curr_func_type ?c) code) = Inr s"
    using assms by (intro body_accepted [of ?c es code] prepared_ctx_wf) (simp_all add: prepared_ctx_def)
  then show ?thesis using assms(1,2) by (auto simp: validate_code_split Let_def bindE_eq_Inr)
qed

lemma example_nop_type: "seq_type C ([] @ [Plain Nop]) [] ([] @ [])"
  by (rule type_snoc [of _ _ _ "[]" "[]"]) (auto intro: type_Nil type_Arrow plain_arrow.intros)

theorem validate_code_complete_witness:
  "validate_code (example_module\<lparr>types := [\<lparr>parameter = [i32], result = []\<rparr>]\<rparr>) 0 [0x01, 0x0b] = Inr ()"
proof -
  let ?m = "example_module\<lparr>types := [\<lparr>parameter = [i32], result = []\<rparr>]\<rparr>"
  have "wf_module ?m" by (simp add: wf_module_def example_module_def wf_function_type_def local_total_def)
  moreover have "seq_code ([] @ [Plain Nop]) ([] @ [0x01])"
    by (intro code_snoc code_Nil code_Plain plain_code.intros)
  then have "body_code [Plain Nop] [0x01, 0x0b]" by (auto simp: body_code_def)
  moreover have "seq_type C [Plain Nop] [] []" for C using example_nop_type [of C] by simp
  ultimately show ?thesis
    using validate_code_complete [of ?m 0 _ "[Plain Nop]" "[0x01, 0x0b]"]
    by (simp add: example_module_def is_br_table_def)
qed

text \<open>
  \<^bold>\<open>C3.\<close> Memory safety: on any byte string whatsoever, \<open>validate_code\<close> never uses an unchecked
  vector access (\<open>index_unchecked\<close>, \<open>back_unchecked\<close>, \<open>pop_back_unchecked\<close>) out of range.
\<close>

theorem validate_code_safe:
  assumes "wf_module m"
  shows "validate_code m fi code \<noteq> Inl UB"
proof (cases "length (imported_funcs m) \<le> fi \<and> fi < length (imported_funcs m) + length (funcs m)")
  case True
  let ?c = "prepared_ctx m (fi - length (imported_funcs m))"
  have "wf_ctx ?c" using assms True by (intro prepared_ctx_wf) linarith+
  then have "validate_loop ?c (initial_state (curr_func_type ?c) code) \<noteq> Inl UB"
    by (intro wf_machine.loop_safe initial_wf)
  with assms show ?thesis by (auto simp: validate_code_split Let_def bindE_eq_Inl)
next
  case False
  with assms show ?thesis by (auto simp: validate_code_split)
qed

theorem validate_code_safe_witness:
  "validate_code example_module 0 [0x0e, 0xff, 0xff, 0xff, 0xff, 0x0f] \<noteq> Inl UB"
  using validate_code_safe [OF example_module_wf] by blast

text \<open>
  \<^bold>\<open>C20.\<close> Error reports: an error is recorded at a position inside the body (a suffix of it, the
  whole body when the function index is wrong) and the thrown parse code is never \<open>ok\<close>.
\<close>

theorem validate_code_error_report:
  assumes "validate_code m fi code = Inl (Throw e)"
  shows "suffix (err_curr e) code \<and> thrown e \<noteq> parse_ok"
proof -
  have "suffix (err_curr e) code \<and> thrown e \<noteq> parse_ok"
    if "validate_loop c (initial_state ft code) = Inl (Throw e)" for c ft
    using loop_error [OF that] by (simp add: initial_state_def)
  with assms show ?thesis
    by (auto simp: validate_code_def Let_def bindE_eq_Inl throw_if_eq_Throw verr_def vec_simps)
qed

theorem validate_code_error_report_witness:
  "validate_code example_module 0 [0x01, 0x1a, 0x0b] =
     Inl (Throw (verr [0x1a, 0x0b] (operand_stack_underflow ''drop'' 0 1) parse_invalid)) \<and>
   suffix [0x1a, 0x0b :: byte] [0x01, 0x1a, 0x0b]"
proof -
  have *: "validate_code example_module 0 [0x01, 0x1a, 0x0b] =
     Inl (Throw (verr [0x1a, 0x0b] (operand_stack_underflow ''drop'' 0 1) parse_invalid))" by code_simp
  from * validate_code_error_report [OF *] show ?thesis by (simp add: verr_def)
qed

text \<open>
  The function index is checked first: an imported function and an index past the last
  function are refused with the error of that name, and with any other index the verdict is that
  of the loop started on the prepared context with an empty operand stack and one function frame.
\<close>

theorem validate_code_function_index:
  assumes "wf_module m"
  shows "validate_code m fi code =
     (if fi < length (imported_funcs m) then Inl (Throw (verr code (not_local_function fi) parse_invalid))
      else if length (imported_funcs m) + length (funcs m) \<le> fi
      then Inl (Throw (verr code (invalid_function_index fi (length (imported_funcs m) + length (funcs m)))
             parse_invalid))
      else let c = prepared_ctx m (fi - length (imported_funcs m)) in
        bindE (validate_loop c (initial_state (curr_func_type c) code)) (\<lambda>_. Inr ()))"
  using assms by (rule validate_code_split)

theorem validate_code_function_index_witness:
  "validate_code example_module 1 [0x0b] = Inl (Throw (verr [0x0b] (invalid_function_index 1 1) parse_invalid))"
  using validate_code_function_index [OF example_module_wf, of 1 "[0x0b]"] by (simp add: example_module_def)

section \<open>One iteration of the loop\<close>

text \<open>
  \<^bold>\<open>C21.\<close> Refinement: in a well-formed configuration, one iteration of the loop is exactly one
  transition of \<open>vstep\<close>, the relation that is stated with the grammar, the typing context and the
  operands of the innermost frame.
\<close>

theorem validate_op_refines:
  assumes "wf_conf c s"
  shows "validate_op c s = Inr (Break s') \<longleftrightarrow> vstep c s s'"
  using assms by (rule validate_op_iff)

theorem validate_op_refines_witness:
  "vstep example_ctx (example_state [0x6a, 0x0b] [known i32, known i32] False) (example_state [0x0b] [known i32] False)"
proof -
  have "validate_op example_ctx (example_state [0x6a, 0x0b] [known i32, known i32] False) =
    Inr (Break (example_state [0x0b] [known i32] False))" by code_simp
  then show ?thesis
    using validate_op_refines [OF example_state_wf [of False "[known i32, known i32]"]] by simp
qed

text \<open>
  \<^bold>\<open>C22.\<close> The invariant: every iteration keeps the stacks well-formed (a single function frame at
  the bottom, bases within the operand stack and nested, at most one result per frame, unknown
  operands in unreachable code only) and leaves its code pointer strictly behind the opcode, at a
  suffix of the code; so the loop ends.
\<close>

theorem validate_op_invariant:
  assumes "wf_conf c s" and "validate_op c s = Inr (Break s')"
  shows "wf_conf c s' \<and> (\<exists>opcode imm. code_curr s = opcode # imm @ code_curr s')"
proof -
  have "wf_conf c s'" using assms vstep_wf validate_op_vstep by blast
  moreover obtain b bs where "code_curr s = b # bs" "suffix (code_curr s') bs"
    using validate_op_consumes [OF assms(2)] by blast
  ultimately show ?thesis by (auto simp: suffix_def)
qed

theorem validate_op_invariant_witness:
  "wf_conf example_ctx (example_state [0x0b] [known i32] False)"
proof -
  have "validate_op example_ctx (example_state [0x20, 0x00, 0x0b] [] False) =
    Inr (Break (example_state [0x0b] [known i32] False))" by code_simp
  then show ?thesis
    using validate_op_invariant [OF example_state_wf [of False "[]"]] by simp
qed

section \<open>Control instructions\<close>

text \<open>
  \<^bold>\<open>C23.\<close> \<^verbatim>\<open>br_table\<close>: it succeeds exactly when the label vector parses, its length passes the
  remaining-bytes test, all labels (the default included) exist and have one common type, the
  operands are that type below an \<open>i32\<close>, and no label operand is unknown; the rest of the frame
  is then unreachable.
\<close>

theorem br_table_outcome:
  assumes "wf_conf c s"
  shows "validate_br_table s = Inr s' \<longleftrightarrow>
     (\<exists>(n :: u32) b ls rest ts. leb128_get_unsigned (tl (code_curr s)) = (b, parse_ok, n) \<and> unat n < length b \<and>
        read_labels (Suc (unat n)) b = Some (ls, rest) \<and>
        (\<forall>l \<in> set ls. unat l < length (control_flow_stack s) \<and> label_types (control_flow_stack s ! unat l) = ts) \<and>
        jump_step (ts @ [i32]) rest s s' \<and>
        (\<forall>v \<in> set (take (length ts) (tl (frame_ops s))). \<not> is_unknown v))"
  using wf_conf_frame_ok [OF assms] wf_conf_frames(1) [OF assms] wf_conf_region [OF assms] wf_conf_results [OF assms]
  by (rule validate_br_table_iff)

theorem br_table_outcome_witness:
  "\<exists>ls rest ts. read_labels 2 [0x00, 0x00, 0x0b] = Some (ls, rest) \<and>
     jump_step (ts @ [i32]) rest (example_state [0x0e, 0x01, 0x00, 0x00, 0x0b] [known i32, known i32] False)
       (example_state [0x0b] [] True)"
proof -
  let ?s = "example_state [0x0e, 0x01, 0x00, 0x00, 0x0b] [known i32, known i32] False"
  have "validate_br_table ?s = Inr (example_state [0x0b] [] True)" by code_simp
  then obtain n :: u32 and b ls rest ts where "leb128_get_unsigned (tl (code_curr ?s)) = (b, parse_ok, n)"
    and r: "read_labels (Suc (unat n)) b = Some (ls, rest)"
      "jump_step (ts @ [i32]) rest ?s (example_state [0x0b] [] True)"
    using br_table_outcome [OF example_state_wf [of False "[known i32, known i32]"]] by auto
  moreover have "leb128_get_unsigned (tl (code_curr ?s)) = ([0x00, 0x00, 0x0b], parse_ok, 1 :: u32)" by code_simp
  ultimately have "b = [0x00, 0x00, 0x0b]" "n = 1" by simp_all
  with r show ?thesis by (auto simp: numeral_2_eq_2)
qed

lemma select_br_table_code: "body_code select_br_table [0x00, 0x1b, 0x41, 0x00, 0x0e, 0x00, 0x00, 0x0b]"
proof -
  have u: "uN 32 [0] 0" using uN.uN_last [of 0 32] by simp
  have "u32_vec ([] @ [0]) ([0] @ [])" using u32_vec_Cons [of "[0]" 0 "[]" "[]"] u by (simp add: u32_vec_Nil)
  then have bt: "plain_code (Br_Table [] 0) (0x0e # [0] @ [0])" using u by (intro plain_code.intros) simp_all
  have "sN 32 [0] 0" using sN.sN_pos [of 0 32] by simp
  then have "plain_code (I32_Const 0) (0x41 # [0])" by (intro plain_code.intros) simp
  with bt have "seq_code (((([] @ [Plain Unreachable]) @ [Plain Select]) @ [Plain (I32_Const 0)]) @ [Plain (Br_Table [] 0)])
      (((([] @ [0x00]) @ [0x1b]) @ (0x41 # [0])) @ (0x0e # [0] @ [0]))"
    by (intro code_snoc code_Nil code_Plain) (auto intro: plain_code.intros)
  then show ?thesis by (auto simp: body_code_def select_br_table_def)
qed

lemma select_br_table_type:
  assumes "ctx_labels C = [[i32]]"
  shows "seq_type C select_br_table [] [i32]"
proof -
  have nil: "seq_type C [] [] ([] @ [])" by (auto intro: type_Nil)
  have "instr_type C (Plain Unreachable) ([] @ []) [i32, i32, i32]"
    by (intro type_Jump plain_jump.intros) simp_all
  from type_snoc [OF nil, of "Plain Unreachable" "[i32, i32, i32]"] this
  have "seq_type C [Plain Unreachable] [] ([] @ [i32, i32, i32])" by simp
  from type_snoc [OF this, of "Plain Select" "[i32]"]
  have "seq_type C [Plain Unreachable, Plain Select] [] ([i32] @ [])"
    by (simp add: type_Arrow plain_arrow.intros)
  from type_snoc [OF this, of "Plain (I32_Const 0)" "[i32]"]
  have "seq_type C [Plain Unreachable, Plain Select, Plain (I32_Const 0)] [] ([] @ [i32, i32])"
    by (simp add: type_Arrow plain_arrow.intros)
  moreover have "plain_jump C (Br_Table [] 0) ([i32] @ [i32])" using assms by (intro plain_jump.intros) simp
  then have "instr_type C (Plain (Br_Table [] 0)) [i32, i32] [i32]"
    using type_Jump [of C "Br_Table [] 0" "[i32, i32]" "[]" "[i32]"] by simp
  ultimately have "seq_type C ([Plain Unreachable, Plain Select, Plain (I32_Const 0)] @ [Plain (Br_Table [] 0)]) [] ([] @ [i32])"
    by (rule type_snoc)
  then show ?thesis by (simp add: select_br_table_def)
qed

text \<open>
  \<^bold>\<open>C24.\<close> The value test of \<^verbatim>\<open>br_table\<close> refuses a valid body: with the unknown operand that \<open>select\<close>
  leaves in unreachable code, \<^verbatim>\<open>unreachable; select; i32.const 0; br_table 0; end\<close> has type
  \<open>[] \<rightarrow> [i32]\<close> by the specification, and \<open>validate_code\<close> rejects it with a value type mismatch.
\<close>

theorem br_table_refuses_valid_body:
  "valid_body example_module \<lparr>parameter = [i32], result = [i32]\<rparr> [\<lparr>count = 2, local_type = f32\<rparr>]
     [0x00, 0x1b, 0x41, 0x00, 0x0e, 0x00, 0x00, 0x0b] \<and>
   validate_code example_module 0 [0x00, 0x1b, 0x41, 0x00, 0x0e, 0x00, 0x00, 0x0b] =
     Inl (Throw (verr [0x0e, 0x00, 0x00, 0x0b] (br_value_type_mismatch ''br_table'' i32 vt_none) parse_invalid))"
proof
  show "valid_body example_module \<lparr>parameter = [i32], result = [i32]\<rparr> [\<lparr>count = 2, local_type = f32\<rparr>]
     [0x00, 0x1b, 0x41, 0x00, 0x0e, 0x00, 0x00, 0x0b]"
    unfolding valid_body_def
    using select_br_table_code select_br_table_type by (auto simp: function_context_def)
  show "validate_code example_module 0 [0x00, 0x1b, 0x41, 0x00, 0x0e, 0x00, 0x00, 0x0b] =
     Inl (Throw (verr [0x0e, 0x00, 0x00, 0x0b] (br_value_type_mismatch ''br_table'' i32 vt_none) parse_invalid))"
    by code_simp
qed

text \<open>
  \<^verbatim>\<open>br_if\<close> has the type \<open>ts i32 \<rightarrow> ts\<close> of its label (none for a loop), also in unreachable
  code, where the handler rewrites the operands: it succeeds exactly when the label exists and the
  abstract step of that type does, with the same result.
\<close>

theorem br_if_outcome:
  assumes "wf_conf c s"
  shows "validate_br_if s = Inr s' \<longleftrightarrow>
     (\<exists>i rest. leb128_get_unsigned (tl (code_curr s)) = (rest, parse_ok, i :: u32) \<and>
        unat i < length (control_flow_stack s) \<and>
        arrow_step (label_types (control_flow_stack s ! unat i) @ [i32])
          (label_types (control_flow_stack s ! unat i)) rest s s')"
  using wf_conf_results [OF assms]
  by (intro validate_br_if_iff wf_conf_frame_ok [OF assms] wf_conf_region [OF assms]) blast

theorem br_if_outcome_witness:
  "arrow_step [i32, i32] [i32] [0x0b] (example_state [0x0d, 0x00, 0x0b] [] True) (example_state [0x0b] [known i32] True)"
proof -
  let ?s = "example_state [0x0d, 0x00, 0x0b] [] True"
  have "validate_br_if ?s = Inr (example_state [0x0b] [known i32] True)" by code_simp
  then obtain i :: u32 and rest where r: "leb128_get_unsigned (tl (code_curr ?s)) = (rest, parse_ok, i)"
    "arrow_step (label_types (control_flow_stack ?s ! unat i) @ [i32]) (label_types (control_flow_stack ?s ! unat i)) rest ?s
       (example_state [0x0b] [known i32] True)"
    using br_if_outcome [OF example_state_wf [of True "[]"]] by auto
  moreover have "leb128_get_unsigned (tl (code_curr ?s)) = ([0x0b], parse_ok, 0 :: u32)" by code_simp
  moreover have "label_types (control_flow_stack ?s ! unat (0 :: u32)) = [i32]" by code_simp
  ultimately show ?thesis by simp
qed

text \<open>
  \<^bold>\<open>C26.\<close> \<open>end\<close>: it closes the innermost frame exactly when the operands above its base are its
  result types (fewer in unreachable code) and a one-armed \<open>if\<close> has no result; the frame is
  replaced by its results and the reachability of the enclosing frame is restored. The end of the
  function frame must be the last byte and leaves the validator.
\<close>

theorem end_outcome:
  assumes "wf_conf c s" and "control_flow_stack s = f # fs"
  shows "validate_end s = Inr r \<longleftrightarrow>
     (block_kind f = bt_if \<longrightarrow> block_result f = []) \<and>
     pop_types (is_polymorphic s) (rev (block_result f)) (frame_ops s) = Some [] \<and>
     (if block_kind f = bt_function then tl (code_curr s) = [] \<and> r = Return (pop_frame f fs s)
      else r = Break (pop_frame f fs s))"
  using wf_conf_frame_ok [OF assms(1)] assms(2) by (rule validate_end_iff)

theorem end_outcome_witness:
  "\<exists>f. pop_types False [i32] (frame_ops (example_state [0x0b] [known i32] False)) = Some [] \<and>
     validate_end (example_state [0x0b] [known i32] False) =
       Inr (Return (pop_frame f [] (example_state [0x0b] [known i32] False)))"
proof -
  let ?s = "example_state [0x0b] [known i32] False"
  let ?f = "\<lparr>block_result = [i32], operand_stack_base = 0, block_kind = bt_function, polymorphic_base = False\<rparr>"
  have cs: "control_flow_stack ?s = [?f]" by code_simp
  have "pop_types False (rev [i32]) (frame_ops ?s) = Some []" by code_simp
  moreover have "is_polymorphic ?s = False" "tl (code_curr ?s) = []" by code_simp+
  ultimately show ?thesis
    using end_outcome [OF example_state_wf [of False "[known i32]"] cs, of "Return (pop_frame ?f [] ?s)"] by auto
qed

text \<open>
  \<open>select\<close>: it succeeds exactly when some type \<open>t\<close> gives the operands \<open>t t i32\<close>, and pushes
  the operand that is known to have this type, or an unknown one if neither is.
\<close>

theorem select_outcome:
  assumes "wf_conf c s"
  shows "validate_select s = Inr s' \<longleftrightarrow>
     (\<exists>t. t \<noteq> vt_none \<and> pop_types (is_polymorphic s) [i32, t, t] (frame_ops s) \<noteq> None) \<and>
     s' = (with_ops (select_result (frame_ops s) # drop 3 (frame_ops s)) s)\<lparr>code_curr := tl (code_curr s)\<rparr>"
  using wf_conf_frame_ok [OF assms] wf_conf_region [OF assms] by (rule validate_select_iff)

theorem select_outcome_witness:
  "\<exists>t. t \<noteq> vt_none \<and> pop_types True [i32, t, t] (frame_ops (example_state [0x1b, 0x0b] [known i32] True)) \<noteq> None"
proof -
  let ?s = "example_state [0x1b, 0x0b] [known i32] True"
  have "validate_select ?s = Inr (example_state [0x0b] [unknown_operand] True)" by code_simp
  moreover have "is_polymorphic ?s = True" by code_simp
  ultimately show ?thesis using select_outcome [OF example_state_wf [of True "[known i32]"]] by auto
qed

text \<open>
  \<^bold>\<open>C27.\<close> \<^verbatim>\<open>call_indirect\<close>: with a table, a type index in range and a zero reserved byte it has the
  type \<open>params i32 \<rightarrow> results\<close> of the named function type; nothing else is accepted.
\<close>

theorem call_indirect_outcome:
  assumes "wf_conf c s"
  shows "validate_call_indirect (module_of c) s = Inr s' \<longleftrightarrow>
     (\<exists>i rest. leb128_get_unsigned (tl (code_curr s)) = (0 # rest, parse_ok, i :: u32) \<and>
        unat i < length (types (module_of c)) \<and> 0 < imported_tables (module_of c) + tables (module_of c) \<and>
        arrow_step (parameter (types (module_of c) ! unat i) @ [i32]) (result (types (module_of c) ! unat i)) rest s s')"
  unfolding validate_call_indirect_iff [OF wf_conf_frame_ok [OF assms] types_small [OF wf_conf_ctx(2) [OF assms]]]
    all_table_count_iff [OF wf_conf_ctx(2) [OF assms]] ..

theorem call_indirect_outcome_witness:
  "\<exists>i rest. unat (i :: u32) < length (types (module_of example_ctx)) \<and>
     arrow_step (parameter (types (module_of example_ctx) ! unat i) @ [i32])
       (result (types (module_of example_ctx) ! unat i)) rest
       (example_state [0x11, 0x00, 0x00, 0x0b] [known i32, known i32] False) (example_state [0x0b] [known i32] False)"
proof -
  have "validate_call_indirect (module_of example_ctx) (example_state [0x11, 0x00, 0x00, 0x0b] [known i32, known i32] False) =
    Inr (example_state [0x0b] [known i32] False)" by code_simp
  then show ?thesis
    using call_indirect_outcome [OF example_state_wf [of False "[known i32, known i32]"]] by auto
qed

section \<open>Lookups and tables\<close>

text \<open>
  Local variables: the run-length lookup of \<open>local.get\<close>, \<open>local.set\<close> and \<open>local.tee\<close> reads the
  parameters followed by the expanded local declarations, and refuses exactly the indices past
  their end; the 32-bit counts do not wrap.
\<close>

theorem local_lookup:
  assumes "wf_ctx c"
  shows "get_local_type c op_begin i =
     (let ts = local_types (curr_func_type c) (curr_code_locals c) in
      if unat i < length ts then Inr (ts ! unat i)
      else Inl (Throw (verr op_begin (illegal_local_index i (of_nat (length ts))) parse_invalid)))"
proof -
  let ?ts = "local_types (curr_func_type c) (curr_code_locals c)"
  have "length ?ts = unat (all_local_count c)"
    using assms by (simp add: wf_ctx_def length_local_types unat_count_locals)
  then have "all_local_count c = of_nat (length ?ts)" by simp
  moreover have "get_local_type c op_begin i = Inl (Throw e) \<Longrightarrow>
      e = verr op_begin (illegal_local_index i (all_local_count c)) parse_invalid" for e
    by (auto simp: get_local_type_def Let_def bindE_eq_Inl throw_if_eq_Throw vec_simps split: if_splits option.splits)
  moreover have "\<exists>e. get_local_type c op_begin i = Inl (Throw e)" if "\<not> unat i < length ?ts"
    using that get_local_type_iff [OF assms, of op_begin i] by (cases "get_local_type c op_begin i") (auto, metis fault.exhaust)
  ultimately show ?thesis using get_local_type_iff(1) [OF assms, of op_begin i] by (auto simp: Let_def)
qed

theorem local_lookup_witness:
  "get_local_type example_ctx [] 2 = Inr f32 \<and>
   get_local_type example_ctx [] 3 = Inl (Throw (verr [] (illegal_local_index 3 3) parse_invalid))"
proof -
  have "local_types (curr_func_type example_ctx) (curr_code_locals example_ctx) = [i32, f32, f32]" by code_simp
  then show ?thesis using local_lookup [OF example_ctx_wf, of "[]"] by (simp add: Let_def)
qed

text \<open>
  \<^bold>\<open>C28.\<close> The tables of the switch are those of the specification: for every byte there is a numeric, load or store case exactly if
  the byte is such an opcode, with its operand and result types; and the largest alignment exponent of a load or store is the
  width of the access: \<open>align \<le> max_align\<close> iff \<open>2 ^ align\<close> is at most the number of bytes accessed.
\<close>

theorem opcode_tables_match_spec:
  "map_option case_type (map_of numeric_cases b) = numeric_type b \<and>
   map_option (\<lambda>(n, a, t). (t, 2 ^ unat a)) (map_of load_cases b) = load_type b \<and>
   map_option (\<lambda>(n, a, t). (t, 2 ^ unat a)) (map_of store_cases b) = store_type b"
proof (intro conjI)
  show "map_option case_type (map_of numeric_cases b) = numeric_type b" by (rule numeric_table [symmetric])
  have "load_type b = None" if "map_of load_cases b = None"
    using that by (simp add: load_cases_def load_type_def split: if_splits)
  then show "map_option (\<lambda>(n, a, t). (t, 2 ^ unat a)) (map_of load_cases b) = load_type b"
    using load_caseD [of b] by (cases "map_of load_cases b") auto
  have "store_type b = None" if "map_of store_cases b = None"
    using that by (simp add: store_cases_def store_type_def split: if_splits)
  then show "map_option (\<lambda>(n, a, t). (t, 2 ^ unat a)) (map_of store_cases b) = store_type b"
    using store_caseD [of b] by (cases "map_of store_cases b") auto
qed

text \<open>
  The switch has a case for every opcode of WebAssembly 1.0 and for no other byte; any other
  byte is refused with \<open>illegal_opbase\<close> at its position, and an exhausted body with \<open>missing_end\<close>.
\<close>

theorem opcode_dispatch:
  "(b = 0x0b \<or> opcode_handler c b \<noteq> None \<longleftrightarrow> unat b \<in> set wasm1_opcodes) \<and>
   (unat b \<notin> set wasm1_opcodes \<longrightarrow>
      validate_op c (s\<lparr>code_curr := b # bs\<rparr>) = Inl (Throw (verr (b # bs) (illegal_opbase b) parse_invalid))) \<and>
   validate_op c (s\<lparr>code_curr := []\<rparr>) = Inl (Throw (verr [] missing_end parse_invalid))"
  using opcode_handler_opcodes [of b c] by (auto simp: validate_op_def)

theorem opcode_dispatch_witness:
  "validate_op example_ctx (example_state [0xc0, 0x0b] [] False) =
     Inl (Throw (verr [0xc0, 0x0b] (illegal_opbase 0xc0) parse_invalid))"
  using opcode_dispatch [where b = "0xc0" and c = example_ctx and s = "example_state [0xc0, 0x0b] [] False" and bs = "[0x0b]"]
  by (simp add: wasm1_opcodes_def) (simp add: example_state_def initial_state_def)

section \<open>The parser and the validator\<close>

text \<open>
  \<^bold>\<open>C5.\<close> From the binary to valid code: when the parser accepts a binary and the validator accepts the body that the parser
  recorded for a local function, then this body is an expression of the binary grammar that has the type which
  the function and type sections of the binary give to the function. Nothing is assumed of the binary.
\<close>

theorem parsed_and_validated:
  assumes "wasm_binfmt_ver1_handle_func xxh3 limit bs = Inr m"
    and "i < length (codesec_codes (codesec m))" and "c = codesec_codes (codesec m) ! i"
    and "validate_code (storage_of m) (length (imported m 0) + i) (body_expr_bytes (code_body c)) = Inr ()"
  shows "valid_body (storage_of m) (mod_types m ! (mod_funcs m ! i)) (code_locals c) (body_expr_bytes (code_body c))"
proof -
  have "wf_module (storage_of m)"
    using parsed_wf_module module_ok_valid handlesD(1) [OF handles_module] assms(1) by blast
  from accepted_valid_body [OF this assms(4)] show ?thesis using assms(2,3) by (auto simp: storage_of_def)
qed

theorem parsed_and_validated_witness:
  "\<exists>c :: final_wasm_code_t. body_expr_bytes (code_body c) = [0x0b] \<and>
     valid_body (storage_of example_parsed) \<lparr>parameter = [], result = []\<rparr> (code_locals c) (body_expr_bytes (code_body c))"
proof -
  let ?c = "codesec_codes (codesec example_parsed) ! 0"
  have b: "body_expr_bytes (code_body ?c) = [0x0b]" "mod_types example_parsed ! (mod_funcs example_parsed ! 0) = \<lparr>parameter = [], result = []\<rparr>"
    by code_simp+
  have "validate_code (storage_of example_parsed) (length (imported example_parsed 0) + 0) (body_expr_bytes (code_body ?c)) = Inr ()" by code_simp
  moreover have "0 < length (codesec_codes (codesec example_parsed))" by code_simp
  ultimately have "valid_body (storage_of example_parsed) (mod_types example_parsed ! (mod_funcs example_parsed ! 0)) (code_locals ?c)
    (body_expr_bytes (code_body ?c))" by (intro parsed_and_validated [OF example_binary_parsed _ refl])
  with b(1) show ?thesis unfolding b(2) by blast
qed

end
